(* ===== verification/Muxx_Prelude.thy ===== *)
theory Muxx_Prelude
  imports Main "HOL-Library.Word"
begin

text \<open>
  Shared vocabulary of the development: the machine integers of the PDP-11, C pointers into the
  kernel's static tables, the outcome of a kernel routine, the C counting loop, and the lemma
  collections the component theories extend.

  A pointer to an element of a static table (a \<open>PTCB\<close>, \<open>PMMCB\<close>, \<open>PDRVCB\<close>, \<open>PIOTE\<close>) is an index
  into the list that stands for the table, or \<open>None\<close> for \<open>NULL\<close>. A routine that is declared
  \<open>noreturn\<close>, halts the machine or runs into behaviour the C language leaves undefined does not
  deliver a value: its outcome is \<open>Stop\<close> with the reason and the state at that moment.
\<close>

unbundle bit_operations_syntax

type_synonym u8 = "8 word"
type_synonym u16 = "16 word"
type_synonym u32 = "32 word"
type_synonym ptr = "nat option"

datatype fault =
    NullDeref       \<comment> \<open>access through a \<open>NULL\<close> pointer\<close>
  | WildPointer     \<comment> \<open>access through a pointer outside the table it should point into\<close>
  | BufferOverrun   \<comment> \<open>array index outside the array\<close>
  | MMUAbort        \<comment> \<open>kernel access to a page or length the page descriptor forbids\<close>
  | BusError        \<comment> \<open>access to an I/O page address without a register\<close>
  | OddAddress      \<comment> \<open>word access to an odd address\<close>
  | BadArgument     \<comment> \<open>variable argument that is missing or of another type\<close>

datatype stop =
    Panic string    \<comment> \<open>\<open>panic()\<close> with its message: the machine halts\<close>
  | Halted          \<comment> \<open>a \<open>halt\<close> instruction\<close>
  | Switched        \<comment> \<open>\<open>muxx_switch()\<close> gave the processor to \<open>curtcb\<close>; the caller does not return\<close>
  | Diverges        \<comment> \<open>a loop of the routine never ends\<close>
  | Fault fault     \<comment> \<open>undefined behaviour of the C code\<close>

datatype ('a, 's) outcome = Ret 'a 's | Stop stop 's

subsection \<open>Sequencing\<close>

fun andthen :: "('a, 's) outcome \<Rightarrow> ('a \<Rightarrow> 's \<Rightarrow> ('b, 's) outcome) \<Rightarrow> ('b, 's) outcome" where
  "andthen (Ret a s) k = k a s"
| "andthen (Stop e s) k = Stop e s"

definition at_ptr :: "'x list \<Rightarrow> ptr \<Rightarrow> 's \<Rightarrow> (nat \<Rightarrow> ('a, 's) outcome) \<Rightarrow> ('a, 's) outcome" where
  "at_ptr xs p s k =
     (case p of
        None \<Rightarrow> Stop (Fault NullDeref) s
      | Some i \<Rightarrow> if i < length xs then k i else Stop (Fault WildPointer) s)"

fun final_state :: "('a, 's) outcome \<Rightarrow> 's" where
  "final_state (Ret a s) = s"
| "final_state (Stop e s) = s"

named_theorems run_simps "one-step evaluation of kernel routines"

lemma at_ptr_Some [simp, run_simps]: "i < length xs \<Longrightarrow> at_ptr xs (Some i) s k = k i"
  by (simp add: at_ptr_def)

lemma at_ptr_None [simp, run_simps]: "at_ptr xs None s k = Stop (Fault NullDeref) s"
  by (simp add: at_ptr_def)

lemma andthen_Ret_iff:
  "andthen m k = Ret b t \<longleftrightarrow> (\<exists>a s. m = Ret a s \<and> k a s = Ret b t)"
  by (cases m) auto

lemma at_ptr_Ret_iff:
  "at_ptr xs p s k = Ret b t \<longleftrightarrow> (\<exists>i. p = Some i \<and> i < length xs \<and> k i = Ret b t)"
  by (auto simp: at_ptr_def split: option.splits)

text \<open>An operation done \<open>n\<close> times in a row, its results collected.\<close>

fun repeat_n :: "nat \<Rightarrow> ('s \<Rightarrow> ('a, 's) outcome) \<Rightarrow> 's \<Rightarrow> ('a list, 's) outcome" where
  "repeat_n 0 f s = Ret [] s"
| "repeat_n (Suc n) f s = andthen (f s) (\<lambda>a s. andthen (repeat_n n f s) (\<lambda>as. Ret (a # as)))"

subsection \<open>The C counting loop with an early exit\<close>

text \<open>\<open>for_until i n stop body s\<close> is \<open>for (; i < n && !stop; i++) body\<close>.\<close>

function for_until ::
  "nat \<Rightarrow> nat \<Rightarrow> ('s \<Rightarrow> bool) \<Rightarrow> (nat \<Rightarrow> 's \<Rightarrow> 's) \<Rightarrow> 's \<Rightarrow> 's" where
  "for_until i n stop body s =
     (if i < n \<and> \<not> stop s then for_until (Suc i) n stop body (body i s) else s)"
  by pat_completeness auto
termination
  by (relation "measure (\<lambda>(i, n, stop, body, s). n - i)") auto

declare for_until.simps [simp del]

lemma for_until_stop [simp]: "stop s \<Longrightarrow> for_until i n stop body s = s"
  by (simp add: for_until.simps [of i n stop body s])

lemma for_until_end [simp]: "n \<le> i \<Longrightarrow> for_until i n stop body s = s"
  by (simp add: for_until.simps [of i n stop body s])

lemma for_until_step:
  "i < n \<Longrightarrow> \<not> stop s \<Longrightarrow> for_until i n stop body s = for_until (Suc i) n stop body (body i s)"
  by (simp add: for_until.simps [of i n stop body s])

text \<open>
  A loop that looks for the first index with a property. The C code encodes "nothing yet" either
  as a \<open>NULL\<close> pointer or \<open>-1\<close> (here \<open>None\<close>) or as index 0 (then element 0 is never reported).
\<close>

lemma for_until_find:
  "i \<le> n \<Longrightarrow>
   for_until i n (\<lambda>r. r \<noteq> None) (\<lambda>j r. if P j then Some j else r) None = find P [i..<n]"
proof (induction "n - i" arbitrary: i)
  case 0
  then show ?case by simp
next
  case (Suc k)
  then have "i < n" and IH: "for_until (Suc i) n (\<lambda>r. r \<noteq> None)
      (\<lambda>j r. if P j then Some j else r) None = find P [Suc i..<n]"
    by auto
  then show ?case
    by (cases "P i") (simp_all add: for_until_step upt_conv_Cons)
qed

lemma for_until_find_nonzero:
  "0 < i \<Longrightarrow> i \<le> n \<Longrightarrow>
   for_until i n (\<lambda>r. r \<noteq> 0) (\<lambda>j r. if P j then j else r) 0 =
     (case find P [i..<n] of None \<Rightarrow> 0 | Some j \<Rightarrow> j)"
proof (induction "n - i" arbitrary: i)
  case 0
  then show ?case by simp
next
  case (Suc k)
  then have "i < n" "0 < i" and IH: "for_until (Suc i) n (\<lambda>r. r \<noteq> 0)
      (\<lambda>j r. if P j then j else r) 0 = (case find P [Suc i..<n] of None \<Rightarrow> 0 | Some j \<Rightarrow> j)"
    by auto
  then show ?case
    by (cases "P i") (simp_all add: for_until_step upt_conv_Cons)
qed

lemma for_until_find_from_0:
  "0 < n \<Longrightarrow>
   for_until 0 n (\<lambda>r. r \<noteq> 0) (\<lambda>j r. if P j then j else r) 0 =
     (case find P [1..<n] of None \<Rightarrow> 0 | Some j \<Rightarrow> j)"
  using for_until_find_nonzero [of 1 n P] by (simp add: for_until_step)

lemma find_upt_Some:
  "find P [i..<n] = Some k \<Longrightarrow> i \<le> k \<and> k < n \<and> P k \<and> (\<forall>j. i \<le> j \<and> j < k \<longrightarrow> \<not> P j)"
proof (induction "n - i" arbitrary: i)
  case 0
  then show ?case by simp
next
  case (Suc d)
  then have "i < n" by simp
  show ?case
  proof (cases "P i")
    case True
    with Suc.prems \<open>i < n\<close> show ?thesis by (auto simp add: upt_conv_Cons)
  next
    case False
    with Suc.prems \<open>i < n\<close> have "find P [Suc i..<n] = Some k" by (simp add: upt_conv_Cons)
    with Suc.hyps(1) [of "Suc i"] Suc.hyps(2)
    have "Suc i \<le> k \<and> k < n \<and> P k \<and> (\<forall>j. Suc i \<le> j \<and> j < k \<longrightarrow> \<not> P j)" by simp
    with False show ?thesis by (metis Suc_leI le_neq_implies_less Suc_leD)
  qed
qed

lemma find_upt_None: "find P [i..<n] = None \<longleftrightarrow> (\<forall>j. i \<le> j \<and> j < n \<longrightarrow> \<not> P j)"
  by (auto simp: find_None_iff)

subsection \<open>Lists updated by index\<close>

lemma nth_update_same [simp]: "i < length xs \<Longrightarrow> (xs[i := x]) ! i = x"
  by simp

lemma map_update_same:
  "i < length xs \<Longrightarrow> f x = f (xs ! i) \<Longrightarrow> map f (xs[i := x]) = map f xs"
  by (simp add: map_update list_update_same_conv)

text \<open>Incrementing a \<open>WORD\<close> below its maximum.\<close>

lemma unat_inc16: "unat (w :: u16) < 65535 \<Longrightarrow> unat (w + 1) = unat w + 1"
  by (simp add: unat_word_ariths)

text \<open>A one-bit field declared \<open>int x:1\<close> is signed: it reads as 0 or -1.\<close>

definition bitfield :: "bool \<Rightarrow> int" where
  "bitfield b = (if b then - 1 else 0)"

subsection \<open>Tables searched for their first free slot\<close>

text \<open>
  The kernel's tables (memory blocks, tasks, drivers, channels) are arrays whose entries are used
  or free; a new object takes the first free entry from \<open>lo\<close> on, and the table is full when the
  search finds nothing below \<open>hi\<close>.
\<close>

locale slot_table =
  fixes search :: "'t \<Rightarrow> nat option"
    and used :: "'t \<Rightarrow> nat \<Rightarrow> bool"
    and lo hi :: nat
  assumes search_some: "search t = Some j \<Longrightarrow>
      lo \<le> j \<and> j < hi \<and> \<not> used t j \<and> (\<forall>i. lo \<le> i \<and> i < j \<longrightarrow> used t i)"
    and search_none: "search t = None \<Longrightarrow> lo \<le> j \<Longrightarrow> j < hi \<Longrightarrow> used t j"
begin

lemma finds_first:
  assumes "lo \<le> j" and "j < hi" and "\<not> used t j" and "\<And>i. lo \<le> i \<Longrightarrow> i < j \<Longrightarrow> used t i"
  shows "search t = Some j"
proof (cases "search t")
  case None
  with assms search_none [of t j] show ?thesis by blast
next
  case (Some k)
  then have "\<not> k < j" "\<not> j < k" using assms search_some [of t k] by auto
  with Some show ?thesis by simp
qed

lemma full_iff: "search t = None \<longleftrightarrow> (\<forall>j. lo \<le> j \<and> j < hi \<longrightarrow> used t j)"
  using search_none [of t] search_some [of t] by (cases "search t") auto

lemma full_iff_card: "search t = None \<longleftrightarrow> card {j. lo \<le> j \<and> j < hi \<and> \<not> used t j} = 0"
proof -
  have "finite {j. lo \<le> j \<and> j < hi \<and> \<not> used t j}" by (rule finite_subset [of _ "{..<hi}"]) auto
  then show ?thesis by (auto simp: full_iff)
qed

lemma prefix_fill:
  assumes "\<And>i. lo \<le> i \<Longrightarrow> i < hi \<Longrightarrow> used t i \<longleftrightarrow> i < k" and "lo \<le> k"
  shows "search t = (if k < hi then Some k else None)"
  using assms finds_first [of k t] full_iff [of t] by auto

lemma take_slot_card:
  assumes "search t = Some j"
    and "\<And>i. lo \<le> i \<Longrightarrow> i < hi \<Longrightarrow> used t' i \<longleftrightarrow> used t i \<or> i = j"
  shows "card {i. lo \<le> i \<and> i < hi \<and> \<not> used t' i} + 1 = card {i. lo \<le> i \<and> i < hi \<and> \<not> used t i}"
proof -
  let ?A = "{i. lo \<le> i \<and> i < hi \<and> \<not> used t i}"
  have "finite ?A" by (rule finite_subset [of _ "{..<hi}"]) auto
  moreover have "j \<in> ?A" using search_some [OF assms(1)] by simp
  moreover have "{i. lo \<le> i \<and> i < hi \<and> \<not> used t' i} = ?A - {j}" using assms(2) by auto
  ultimately show ?thesis using card.remove [of ?A j] by simp
qed

end

text \<open>Every search written as \<open>find\<close> is one.\<close>

lemma find_slot_table:
  assumes "\<And>t. search t = find (\<lambda>i. \<not> used t i) [lo..<hi]"
  shows "slot_table search used lo hi"
proof (unfold_locales, goal_cases)
  case (1 t j)
  then show ?case using assms find_upt_Some [of "\<lambda>i. \<not> used t i" lo hi j] by simp
next
  case (2 t j)
  then show ?case using assms find_upt_None [of "\<lambda>i. \<not> used t i" lo hi] by simp
qed

end
