(* ===== verification/Lib_Ctype.thy ===== *)
theory Lib_Ctype
  imports Muxx_Prelude
begin

text \<open>
  Character classes: the table of \<open>lib/gen/ctype_.c\<close> and the macros of \<open>h/ctype.h\<close>. The macros
  index \<open>_ctype_ + 1\<close>, so entry \<open>c + 1\<close> of the table classifies character \<open>c\<close>. The lemmas give the
  classes as ranges of character codes.
\<close>

section \<open>The table\<close>

abbreviation (input) CT_U :: u8 where "CT_U \<equiv> 0x01"
abbreviation (input) CT_L :: u8 where "CT_L \<equiv> 0x02"
abbreviation (input) CT_N :: u8 where "CT_N \<equiv> 0x04"
abbreviation (input) CT_S :: u8 where "CT_S \<equiv> 0x08"
abbreviation (input) CT_P :: u8 where "CT_P \<equiv> 0x10"
abbreviation (input) CT_C :: u8 where "CT_C \<equiv> 0x20"
abbreviation (input) CT_X :: u8 where "CT_X \<equiv> 0x40"
abbreviation (input) CT_B :: u8 where "CT_B \<equiv> 0x80"

text \<open>The initialiser, row by row; the entries it leaves out are 0.\<close>

definition ctype_table :: "u8 list" where
  "ctype_table = 0 #
     replicate 9 CT_C @ replicate 5 (CT_C OR CT_S) @ replicate 18 CT_C @
     [CT_S OR CT_B] @ replicate 15 CT_P @
     replicate 10 CT_N @ replicate 6 CT_P @
     [CT_P] @ replicate 6 (CT_U OR CT_X) @ replicate 20 CT_U @ replicate 5 CT_P @
     [CT_P] @ replicate 6 (CT_L OR CT_X) @ replicate 20 CT_L @ replicate 4 CT_P @ [CT_C] @
     replicate 128 0"

section \<open>The macros\<close>

definition ctype_of :: "nat \<Rightarrow> u8" where
  "ctype_of c = ctype_table ! (c + 1)"

definition isalpha :: "nat \<Rightarrow> bool" where
  "isalpha c \<longleftrightarrow> ctype_of c AND (CT_U OR CT_L) \<noteq> 0"
definition isupper :: "nat \<Rightarrow> bool" where
  "isupper c \<longleftrightarrow> ctype_of c AND CT_U \<noteq> 0"
definition islower :: "nat \<Rightarrow> bool" where
  "islower c \<longleftrightarrow> ctype_of c AND CT_L \<noteq> 0"
definition isdigit :: "nat \<Rightarrow> bool" where
  "isdigit c \<longleftrightarrow> ctype_of c AND CT_N \<noteq> 0"
definition isxdigit :: "nat \<Rightarrow> bool" where
  "isxdigit c \<longleftrightarrow> ctype_of c AND (CT_N OR CT_X) \<noteq> 0"
definition isspace :: "nat \<Rightarrow> bool" where
  "isspace c \<longleftrightarrow> ctype_of c AND CT_S \<noteq> 0"
definition ispunct :: "nat \<Rightarrow> bool" where
  "ispunct c \<longleftrightarrow> ctype_of c AND CT_P \<noteq> 0"
definition isalnum :: "nat \<Rightarrow> bool" where
  "isalnum c \<longleftrightarrow> ctype_of c AND (CT_U OR CT_L OR CT_N) \<noteq> 0"
definition isprint :: "nat \<Rightarrow> bool" where
  "isprint c \<longleftrightarrow> ctype_of c AND (CT_P OR CT_U OR CT_L OR CT_N OR CT_B) \<noteq> 0"
definition isgraph :: "nat \<Rightarrow> bool" where
  "isgraph c \<longleftrightarrow> ctype_of c AND (CT_P OR CT_U OR CT_L OR CT_N) \<noteq> 0"
definition iscntrl :: "nat \<Rightarrow> bool" where
  "iscntrl c \<longleftrightarrow> ctype_of c AND CT_C \<noteq> 0"
definition isascii :: "int \<Rightarrow> bool" where
  "isascii c \<longleftrightarrow> uint (word_of_int c :: u16) \<le> 127"
definition toupper :: "int \<Rightarrow> int" where
  "toupper c = c - 97 + 65"
definition tolower :: "int \<Rightarrow> int" where
  "tolower c = c - 65 + 97"
definition toascii :: "int \<Rightarrow> int" where
  "toascii c = c AND 127"

section \<open>The classes as ranges\<close>

definition ctype_range :: "nat \<Rightarrow> u8" where
  "ctype_range c =
     (if c < 9 then CT_C else if c < 14 then CT_C OR CT_S else if c < 32 then CT_C
      else if c = 32 then CT_S OR CT_B else if c < 48 then CT_P else if c < 58 then CT_N
      else if c < 65 then CT_P else if c < 71 then CT_U OR CT_X else if c < 91 then CT_U
      else if c < 97 then CT_P else if c < 103 then CT_L OR CT_X else if c < 123 then CT_L
      else if c < 127 then CT_P else if c = 127 then CT_C else 0)"

lemma ctype_table_ranges: "ctype_table = 0 # map ctype_range [0..<256]"
  by code_simp

lemma ctype_of_range: "c < 256 \<Longrightarrow> ctype_of c = ctype_range c"
  by (simp add: ctype_of_def ctype_table_ranges del: upt_Suc)

lemmas ctype_defs = isalpha_def isupper_def islower_def isdigit_def isxdigit_def isspace_def
  ispunct_def isalnum_def isprint_def isgraph_def iscntrl_def

lemma isdigit_iff: "c < 256 \<Longrightarrow> isdigit c \<longleftrightarrow> 48 \<le> c \<and> c \<le> 57"
  by (simp add: isdigit_def ctype_of_range ctype_range_def)

lemma isupper_iff: "c < 256 \<Longrightarrow> isupper c \<longleftrightarrow> 65 \<le> c \<and> c \<le> 90"
  by (simp add: isupper_def ctype_of_range ctype_range_def)

lemma islower_iff: "c < 256 \<Longrightarrow> islower c \<longleftrightarrow> 97 \<le> c \<and> c \<le> 122"
  by (simp add: islower_def ctype_of_range ctype_range_def)

lemma isalpha_iff: "c < 256 \<Longrightarrow> isalpha c \<longleftrightarrow> isupper c \<or> islower c"
  by (simp add: isalpha_def isupper_def islower_def ctype_of_range ctype_range_def)

lemma isalnum_iff: "c < 256 \<Longrightarrow> isalnum c \<longleftrightarrow> isalpha c \<or> isdigit c"
  by (simp add: isalnum_def isalpha_def isdigit_def ctype_of_range ctype_range_def)

lemma isspace_iff: "c < 256 \<Longrightarrow> isspace c \<longleftrightarrow> 9 \<le> c \<and> c \<le> 13 \<or> c = 32"
  by (simp add: isspace_def ctype_of_range ctype_range_def)

lemma isprint_iff: "c < 256 \<Longrightarrow> isprint c \<longleftrightarrow> isgraph c \<or> c = 32"
  by (simp add: isprint_def isgraph_def ctype_of_range ctype_range_def)

lemma iscntrl_iff: "c < 256 \<Longrightarrow> iscntrl c \<longleftrightarrow> c < 32 \<or> c = 127"
  by (simp add: iscntrl_def ctype_of_range ctype_range_def)

end
