(* ===== verification/Lib_Qsort.thy ===== *)
theory Lib_Qsort
  imports Main "HOL-Library.Multiset" "HOL-Library.Monad_Syntax"
begin

text \<open>
  The quicksort of the C library, \<open>bsdlibc/gen/qsort.c\<close>: partitions around a median down to fewer
  than \<open>THRESH\<close> elements, then an insertion sort whose inner loop has no bound check because the
  smallest element was put in front. A record of \<open>size\<close> bytes is one list element, a pointer to a
  record its index; the loops that exchange records byte by byte exchange elements. The loops whose
  end is not obvious are partial functions, so that \<open>Some\<close> means that the code terminates. The unguarded
  loop of the insertion sort is \<open>None\<close> when it leaves the array; the other loops compare their indices
  with the ends of the part they work on before every access, and use the indexing of lists.
\<close>

abbreviation (input) THRESH :: nat where "THRESH \<equiv> 4"
abbreviation (input) MTHRESH :: nat where "MTHRESH \<equiv> 6"

section \<open>The code\<close>

definition swap :: "'a list \<Rightarrow> nat \<Rightarrow> nat \<Rightarrow> 'a list" where
  "swap a i j = a[i := a ! j, j := a ! i]"

text \<open>The median of the first, the last and the middle element: its index.\<close>

definition median :: "('a \<Rightarrow> 'a \<Rightarrow> int) \<Rightarrow> 'a list \<Rightarrow> nat \<Rightarrow> nat \<Rightarrow> nat \<Rightarrow> nat" where
  "median qcmp a base i mx =
     (let j = (if qcmp (a ! base) (a ! i) > 0 then base else i); tmp = mx - 1
      in if qcmp (a ! j) (a ! tmp) > 0 then
           (let j = (if j = base then i else base)
            in if qcmp (a ! j) (a ! tmp) < 0 then tmp else j)
         else j)"

text \<open>\<open>while (i < mid && qcmp(i, mid) <= 0) i += qsz\<close> and the scan of \<open>j\<close> from above.\<close>

function advance :: "('a \<Rightarrow> 'a \<Rightarrow> int) \<Rightarrow> 'a list \<Rightarrow> nat \<Rightarrow> nat \<Rightarrow> nat" where
  "advance qcmp a mid i = (if i < mid \<and> qcmp (a ! i) (a ! mid) \<le> 0 then advance qcmp a mid (Suc i) else i)"
  by pat_completeness auto
termination by (relation "measure (\<lambda>(qcmp, a, mid, i). mid - i)") auto

fun retreat :: "('a \<Rightarrow> 'a \<Rightarrow> int) \<Rightarrow> 'a list \<Rightarrow> nat \<Rightarrow> nat \<Rightarrow> nat" where
  "retreat qcmp a mid 0 = 0"
| "retreat qcmp a mid (Suc j) =
     (if Suc j > mid \<and> qcmp (a ! mid) (a ! Suc j) \<le> 0 then retreat qcmp a mid j else Suc j)"

declare advance.simps [simp del]

text \<open>One pass of the partitioning loop per call, each ending in an exchange or the end.\<close>

partial_function (option) partition_loop ::
  "('a \<Rightarrow> 'a \<Rightarrow> int) \<Rightarrow> nat \<Rightarrow> nat \<Rightarrow> nat \<Rightarrow> 'a list \<Rightarrow> (nat \<times> 'a list) option" where
  "partition_loop qcmp i j mid a =
     (let i = advance qcmp a mid i; j = retreat qcmp a mid j
      in if j > mid then
           (if i = mid then partition_loop qcmp (i + 1) j j (swap a i j)
            else partition_loop qcmp (i + 1) (j - 1) mid (swap a i j))
         else if i = mid then Some (mid, a)
         else partition_loop qcmp i (j - 1) i (swap a i mid))"

partial_function (option) qst :: "('a \<Rightarrow> 'a \<Rightarrow> int) \<Rightarrow> nat \<Rightarrow> nat \<Rightarrow> 'a list \<Rightarrow> 'a list option" where
  "qst qcmp base mx a =
     (let lo = mx - base; i = base + lo div 2;
          a = (if lo \<ge> MTHRESH then swap a i (median qcmp a base i mx) else a)
      in Option.bind (partition_loop qcmp base (mx - 1) i a) (\<lambda>(j, a).
           let i = j + 1; lo = j - base; hi = mx - i
           in if lo \<le> hi then
                Option.bind (if lo \<ge> THRESH then qst qcmp base j a else Some a) (\<lambda>a.
                  if hi \<ge> THRESH then qst qcmp i mx a else Some a)
              else
                Option.bind (if hi \<ge> THRESH then qst qcmp i mx a else Some a) (\<lambda>a.
                  if lo \<ge> THRESH then qst qcmp base j a else Some a)))"

text \<open>The index of the smallest of the first \<open>hi\<close> elements.\<close>

definition find_min :: "('a \<Rightarrow> 'a \<Rightarrow> int) \<Rightarrow> 'a list \<Rightarrow> nat \<Rightarrow> nat" where
  "find_min qcmp a hi = fold (\<lambda>lo j. if qcmp (a ! j) (a ! lo) > 0 then lo else j) [1..<hi] 0"

text \<open>\<open>while (qcmp(hi -= qsz, min) > 0)\<close>: the place after the last element that is not larger.\<close>

fun insert_place :: "('a \<Rightarrow> 'a \<Rightarrow> int) \<Rightarrow> 'a list \<Rightarrow> nat \<Rightarrow> nat \<Rightarrow> nat option" where
  "insert_place qcmp a m 0 = None"
| "insert_place qcmp a m (Suc hi) =
     (if qcmp (a ! hi) (a ! m) > 0 then insert_place qcmp a m hi else Some (Suc hi))"

text \<open>The element at \<open>m\<close> is moved down to \<open>hi\<close>, those between one place up.\<close>

definition move_down :: "'a list \<Rightarrow> nat \<Rightarrow> nat \<Rightarrow> 'a list" where
  "move_down a hi m = take hi a @ a ! m # take (m - hi) (drop hi a) @ drop (Suc m) a"

fun insertion :: "('a \<Rightarrow> 'a \<Rightarrow> int) \<Rightarrow> nat list \<Rightarrow> 'a list \<Rightarrow> 'a list option" where
  "insertion qcmp [] a = Some a"
| "insertion qcmp (m # ms) a = do {
     hi \<leftarrow> insert_place qcmp a m m;
     insertion qcmp ms (if hi \<noteq> m then move_down a hi m else a)
   }"

definition qsort :: "('a \<Rightarrow> 'a \<Rightarrow> int) \<Rightarrow> 'a list \<Rightarrow> 'a list option" where
  "qsort qcmp a =
     (let n = length a
      in if n \<le> 1 then Some a
         else do {
           (a, hi) \<leftarrow> (if n \<ge> THRESH then map_option (\<lambda>a. (a, THRESH)) (qst qcmp 0 n a)
                       else Some (a, n));
           insertion qcmp [1..<n] (swap a (find_min qcmp a hi) 0)
         })"

section \<open>Comparison functions\<close>

text \<open>What \<open>qsort\<close> relies on: the comparison is a total preorder.\<close>

locale comparison =
  fixes qcmp :: "'a \<Rightarrow> 'a \<Rightarrow> int"
  assumes cmp_sign: "qcmp x y > 0 \<longleftrightarrow> qcmp y x < 0"
    and cmp_trans: "qcmp x y \<le> 0 \<Longrightarrow> qcmp y z \<le> 0 \<Longrightarrow> qcmp x z \<le> 0"
begin

definition leq :: "'a \<Rightarrow> 'a \<Rightarrow> bool" where
  "leq x y \<longleftrightarrow> qcmp x y \<le> 0"

lemma leq_refl: "leq x x"
  using cmp_sign [of x x] by (auto simp: leq_def)

lemma leq_total: "leq x y \<or> leq y x"
  using cmp_sign [of x y] by (auto simp: leq_def)

lemma leq_trans: "leq x y \<Longrightarrow> leq y z \<Longrightarrow> leq x z"
  using cmp_trans by (auto simp: leq_def)

lemma not_leq: "qcmp x y > 0 \<Longrightarrow> leq y x"
  using cmp_sign [of x y] by (simp add: leq_def)

end

section \<open>Rearranging a part of the array\<close>

definition rearranged :: "nat \<Rightarrow> nat \<Rightarrow> 'a list \<Rightarrow> 'a list \<Rightarrow> bool" where
  "rearranged base mx a b \<longleftrightarrow>
     length b = length a \<and> mset b = mset a \<and> (\<forall>k < length a. k < base \<or> mx \<le> k \<longrightarrow> b ! k = a ! k)"

lemma rearranged_refl [simp]: "rearranged base mx a a"
  by (simp add: rearranged_def)

lemma rearranged_trans: "rearranged base mx a b \<Longrightarrow> rearranged base mx b c \<Longrightarrow> rearranged base mx a c"
  by (auto simp: rearranged_def)

lemma rearranged_widen: "rearranged base mx a b \<Longrightarrow> base' \<le> base \<Longrightarrow> mx \<le> mx' \<Longrightarrow> rearranged base' mx' a b"
  by (auto simp: rearranged_def)

lemma swap_length [simp]: "length (swap a i j) = length a"
  by (simp add: swap_def)

lemma swap_nth:
  "i < length a \<Longrightarrow> j < length a \<Longrightarrow> k < length a \<Longrightarrow>
   swap a i j ! k = (if k = j then a ! i else if k = i then a ! j else a ! k)"
  by (simp add: swap_def nth_list_update)

lemma rearranged_swap:
  assumes "base \<le> i" "i < mx" "base \<le> j" "j < mx" "mx \<le> length a"
  shows "rearranged base mx a (swap a i j)"
proof -
  have "mset (swap a i j) = mset a" using assms mset_swap [of j a i] by (simp add: swap_def)
  then show ?thesis using assms by (auto simp: rearranged_def swap_nth)
qed

lemma segment_split:
  "base \<le> mx \<Longrightarrow> mx \<le> length a \<Longrightarrow> a = take base a @ take (mx - base) (drop base a) @ drop mx a"
  by (metis add.commute append_take_drop_id drop_drop le_add_diff_inverse2)

text \<open>What holds of all elements of the part still does.\<close>

lemma rearranged_segment:
  assumes r: "rearranged base mx a b" and bnd: "base \<le> mx" "mx \<le> length a"
    and P: "\<And>k. base \<le> k \<Longrightarrow> k < mx \<Longrightarrow> P (a ! k)" and k: "base \<le> k" "k < mx"
  shows "P (b ! k)"
proof -
  let ?s = "\<lambda>a. take (mx - base) (drop base a)"
  have len: "length b = length a" using r by (simp add: rearranged_def)
  have "take base b = take base a" "drop mx b = drop mx a"
    using r bnd len by (auto simp: rearranged_def intro!: nth_equalityI)
  moreover have "mset (take base b @ ?s b @ drop mx b) = mset (take base a @ ?s a @ drop mx a)"
    using r segment_split [OF bnd] segment_split [of base mx b] bnd len by (simp add: rearranged_def)
  ultimately have "mset (?s b) = mset (?s a)" by simp
  then have "set (?s b) = set (?s a)" by (metis set_mset_mset)
  moreover have "b ! k \<in> set (?s b)"
    using k bnd len by (auto simp: in_set_conv_nth intro!: exI [of _ "k - base"])
  ultimately obtain m where "m < mx - base" "a ! (base + m) = b ! k"
    using bnd by (auto simp: in_set_conv_nth)
  with P [of "base + m"] show ?thesis by simp
qed

section \<open>The scans\<close>

lemma advance_spec:
  "i \<le> mid \<Longrightarrow> i \<le> advance qcmp a mid i \<and> advance qcmp a mid i \<le> mid \<and>
   (\<forall>k. i \<le> k \<and> k < advance qcmp a mid i \<longrightarrow> qcmp (a ! k) (a ! mid) \<le> 0) \<and>
   (advance qcmp a mid i < mid \<longrightarrow> qcmp (a ! advance qcmp a mid i) (a ! mid) > 0)"
proof (induction qcmp a mid i rule: advance.induct)
  case (1 qcmp a mid i)
  show ?case
  proof (cases "i < mid \<and> qcmp (a ! i) (a ! mid) \<le> 0")
    case True
    then have eq: "advance qcmp a mid i = advance qcmp a mid (Suc i)"
      by (simp add: advance.simps [of qcmp a mid i])
    note IH = 1(1) [OF True]
    have "qcmp (a ! k) (a ! mid) \<le> 0" if "i \<le> k" "k < advance qcmp a mid (Suc i)" for k
      using IH True that by (cases "k = i") auto
    then show ?thesis using IH True eq by auto
  next
    case False
    then have "advance qcmp a mid i = i" by (subst advance.simps) auto
    with 1 False show ?thesis by auto
  qed
qed

lemma retreat_spec:
  "mid \<le> j \<Longrightarrow> mid \<le> retreat qcmp a mid j \<and> retreat qcmp a mid j \<le> j \<and>
   (\<forall>k. retreat qcmp a mid j < k \<and> k \<le> j \<longrightarrow> qcmp (a ! mid) (a ! k) \<le> 0) \<and>
   (mid < retreat qcmp a mid j \<longrightarrow> qcmp (a ! mid) (a ! retreat qcmp a mid j) > 0)"
proof (induction j)
  case (Suc j)
  then show ?case by (auto simp: le_Suc_eq)
qed simp

section \<open>Partitioning\<close>

context comparison
begin

text \<open>The element at \<open>m\<close> separates the part.\<close>

definition partitioned :: "nat \<Rightarrow> nat \<Rightarrow> nat \<Rightarrow> 'a list \<Rightarrow> bool" where
  "partitioned base m mx a \<longleftrightarrow>
     (\<forall>k. base \<le> k \<and> k < m \<longrightarrow> leq (a ! k) (a ! m)) \<and> (\<forall>k. m < k \<and> k < mx \<longrightarrow> leq (a ! m) (a ! k))"

lemma partition_loop_spec:
  assumes "base \<le> i" "i \<le> mid" "mid \<le> j" "j < mx" "mx \<le> length a"
    and "\<And>k. base \<le> k \<Longrightarrow> k < i \<Longrightarrow> leq (a ! k) (a ! mid)"
    and "\<And>k. j < k \<Longrightarrow> k < mx \<Longrightarrow> leq (a ! mid) (a ! k)"
  shows "\<exists>m b. partition_loop qcmp i j mid a = Some (m, b) \<and> base \<le> m \<and> m < mx \<and>
    rearranged base mx a b \<and> partitioned base m mx b"
  using assms
proof (induction "j - i" arbitrary: i j mid a rule: less_induct)
  case less
  define i' where "i' = advance qcmp a mid i"
  define j' where "j' = retreat qcmp a mid j"
  have i': "i \<le> i'" "i' \<le> mid" "\<And>k. i \<le> k \<Longrightarrow> k < i' \<Longrightarrow> leq (a ! k) (a ! mid)"
    "i' < mid \<Longrightarrow> leq (a ! mid) (a ! i')"
    using advance_spec [OF less.prems(2), of qcmp a] not_leq by (auto simp: i'_def leq_def)
  have j': "mid \<le> j'" "j' \<le> j" "\<And>k. j' < k \<Longrightarrow> k \<le> j \<Longrightarrow> leq (a ! mid) (a ! k)"
    "mid < j' \<Longrightarrow> leq (a ! j') (a ! mid)"
    using retreat_spec [OF less.prems(3), of qcmp a] not_leq by (auto simp: j'_def leq_def)
  have low: "leq (a ! k) (a ! mid)" if "base \<le> k" "k < i'" for k
    using that less.prems(6) [of k] i'(3) [of k] by (cases "k < i") auto
  have high: "leq (a ! mid) (a ! k)" if "j' < k" "k < mx" for k
    using that less.prems(7) [of k] j'(3) [of k] by (cases "k \<le> j") auto
  have bnd: "base \<le> i'" "i' < length a" "mid < length a" "j' < length a" "j' < mx" "base \<le> mid" "mid < mx"
    using less.prems i' j' by auto
  note step = partition_loop.simps [of qcmp i j mid a, folded i'_def j'_def, unfolded Let_def]
  have rec: ?case
    if nx: "partition_loop qcmp i j mid a = partition_loop qcmp i2 j2 mid2 (swap a x y)"
      and xy: "base \<le> x" "x < mx" "base \<le> y" "y < mx" and lt: "j2 - i2 < j - i"
      and ord: "base \<le> i2" "i2 \<le> mid2" "mid2 \<le> j2" "j2 < mx"
      and l: "\<And>k. base \<le> k \<Longrightarrow> k < i2 \<Longrightarrow> leq (swap a x y ! k) (swap a x y ! mid2)"
      and h: "\<And>k. j2 < k \<Longrightarrow> k < mx \<Longrightarrow> leq (swap a x y ! mid2) (swap a x y ! k)" for i2 j2 mid2 x y
  proof -
    have "mx \<le> length (swap a x y)" using less.prems(5) by simp
    from less.hyps [OF lt ord this l h] obtain m b where
      mb: "partition_loop qcmp i2 j2 mid2 (swap a x y) = Some (m, b)" "base \<le> m" "m < mx"
      "rearranged base mx (swap a x y) b" "partitioned base m mx b" by blast
    have "rearranged base mx a b"
      using rearranged_trans [OF rearranged_swap mb(4)] xy less.prems(5) by blast
    with mb nx show ?thesis by auto
  qed
  show ?case
  proof (cases "mid < j'")
    case True
    show ?thesis
    proof (cases "i' = mid")
      case eq: True
      show ?thesis
        using True eq bnd low high i' j' step less.prems
        by (intro rec [of "i' + 1" j' j' i' j']) (auto simp: swap_nth less_Suc_eq)
    next
      case False
      with i'(2) have "i' < mid" by simp
      then show ?thesis
        using True bnd low high i' j' step less.prems
        by (intro rec [of "i' + 1" "j' - 1" mid i' j']) (auto simp: swap_nth less_Suc_eq)
    qed
  next
    case False
    then have jm: "j' = mid" using j'(1) by simp
    show ?thesis
    proof (cases "i' = mid")
      case True
      then show ?thesis using jm step low high bnd by (auto simp: partitioned_def)
    next
      case False
      with i'(2) have "i' < mid" by simp
      then show ?thesis
        using jm bnd low high i' j' step less.prems
        by (intro rec [of i' "mid - 1" i' i' mid]) (auto simp: swap_nth)
    qed
  qed
qed

section \<open>The smallest element comes to the front\<close>

text \<open>A smallest element of the part is among its first \<open>THRESH\<close>.\<close>

definition least_early :: "nat \<Rightarrow> nat \<Rightarrow> 'a list \<Rightarrow> bool" where
  "least_early base mx a \<longleftrightarrow>
     (\<exists>i. base \<le> i \<and> i < base + THRESH \<and> i < mx \<and> (\<forall>k. base \<le> k \<and> k < mx \<longrightarrow> leq (a ! i) (a ! k)))"

lemma least_exists: "base < mx \<Longrightarrow> \<exists>i. base \<le> i \<and> i < mx \<and> (\<forall>k. base \<le> k \<and> k < mx \<longrightarrow> leq (a ! i) (a ! k))"
proof (induction "mx - base" arbitrary: mx)
  case 0
  then show ?case by simp
next
  case (Suc n)
  then obtain mx' where mx: "mx = Suc mx'" "base \<le> mx'" by (cases mx) auto
  show ?case
  proof (cases "base = mx'")
    case True
    then show ?thesis using mx leq_refl by (intro exI [of _ base]) (auto simp: less_Suc_eq)
  next
    case False
    then obtain i where i: "base \<le> i" "i < mx'" "\<And>k. base \<le> k \<Longrightarrow> k < mx' \<Longrightarrow> leq (a ! i) (a ! k)"
      using Suc.hyps(1) [of mx'] Suc.hyps(2) mx by force
    show ?thesis
    proof (cases "leq (a ! i) (a ! mx')")
      case True
      then show ?thesis using i mx by (intro exI [of _ i]) (auto simp: less_Suc_eq)
    next
      case False
      then have "leq (a ! mx') (a ! i)" using leq_total by blast
      then show ?thesis using i mx leq_refl leq_trans
        by (intro exI [of _ mx']) (auto simp: less_Suc_eq)
    qed
  qed
qed

lemma least_early_small: "base < mx \<Longrightarrow> mx \<le> base + THRESH \<Longrightarrow> least_early base mx a"
  using least_exists [of base mx a] by (force simp: least_early_def)

text \<open>One side of a partitioned part, sorted further or left alone.\<close>

definition side_done :: "nat \<Rightarrow> nat \<Rightarrow> 'a list \<Rightarrow> 'a list \<Rightarrow> bool" where
  "side_done base mx a b \<longleftrightarrow> rearranged base mx a b \<and> (base < mx \<longrightarrow> least_early base mx b)"

lemma partitioned_left:
  assumes p: "partitioned base j mx a" and j: "base \<le> j" "j < mx" "mx \<le> length a"
    and r: "rearranged base j a b"
  shows "partitioned base j mx b"
proof -
  have "leq (b ! k) (a ! j)" if "base \<le> k" "k < j" for k
    using rearranged_segment [OF r _ _ _ that, of "\<lambda>x. leq x (a ! j)"] p j by (auto simp: partitioned_def)
  moreover have "b ! k = a ! k" if "j \<le> k" "k < mx" for k
    using r that j by (auto simp: rearranged_def)
  ultimately show ?thesis using p j by (auto simp: partitioned_def)
qed

lemma partitioned_right:
  assumes p: "partitioned base j mx a" and j: "base \<le> j" "j < mx" "mx \<le> length a"
    and r: "rearranged (j + 1) mx a b"
  shows "partitioned base j mx b"
proof -
  have "leq (a ! j) (b ! k)" if "j < k" "k < mx" for k
    using rearranged_segment [OF r _ _ _ _ that(2), of "\<lambda>x. leq (a ! j) x"] p j that(1)
    by (auto simp: partitioned_def)
  moreover have "b ! k = a ! k" if "k \<le> j" for k
    using r that j by (auto simp: rearranged_def)
  ultimately show ?thesis using p j by (auto simp: partitioned_def)
qed

lemma least_early_kept:
  "least_early base j a \<Longrightarrow> rearranged (j + 1) mx a b \<Longrightarrow> j < length a \<Longrightarrow> least_early base j b"
  by (auto simp: least_early_def rearranged_def)

lemma partitioned_least:
  assumes p: "partitioned base j mx a" and j: "base \<le> j" "j < mx"
    and l: "base < j \<longrightarrow> least_early base j a"
  shows "least_early base mx a"
proof (cases "base < j")
  case True
  with l obtain i where i: "base \<le> i" "i < base + THRESH" "i < j"
    "\<And>k. base \<le> k \<Longrightarrow> k < j \<Longrightarrow> leq (a ! i) (a ! k)" by (auto simp: least_early_def)
  have "leq (a ! i) (a ! j)" using p i by (simp add: partitioned_def)
  then have "leq (a ! i) (a ! k)" if "base \<le> k" "k < mx" for k
    using that i(4) [of k] p leq_trans [of "a ! i" "a ! j" "a ! k"]
    by (cases k j rule: linorder_cases) (auto simp: partitioned_def)
  with i j show ?thesis by (auto simp: least_early_def intro!: exI [of _ i])
next
  case False
  then have "j = base" using j(1) by simp
  moreover have "leq (a ! j) (a ! k)" if "j \<le> k" "k < mx" for k
    using that p leq_refl by (cases "k = j") (auto simp: partitioned_def)
  ultimately show ?thesis using j by (auto simp: least_early_def intro!: exI [of _ base])
qed

lemma median_bound: "base \<le> i \<Longrightarrow> i < mx \<Longrightarrow> base \<le> median qcmp a base i mx \<and> median qcmp a base i mx < mx"
  by (auto simp: median_def Let_def)

lemma qst_spec:
  "base < mx \<Longrightarrow> mx \<le> length a \<Longrightarrow>
   \<exists>b. qst qcmp base mx a = Some b \<and> rearranged base mx a b \<and> least_early base mx b"
proof (induction "mx - base" arbitrary: base mx a rule: less_induct)
  case less
  define i where "i = base + (mx - base) div 2"
  define a0 where "a0 = (if mx - base \<ge> MTHRESH then swap a i (median qcmp a base i mx) else a)"
  have i: "base \<le> i" "i < mx" using less.prems(1) by (auto simp: i_def)
  have ra: "rearranged base mx a a0" and len: "length a0 = length a"
    using rearranged_swap [of base i mx "median qcmp a base i mx" a] i median_bound [OF i] less.prems(2)
    by (auto simp: a0_def)
  obtain j b where p: "partition_loop qcmp base (mx - 1) i a0 = Some (j, b)" "base \<le> j" "j < mx"
    "rearranged base mx a0 b" "partitioned base j mx b"
  proof -
    have "\<exists>m b. partition_loop qcmp base (mx - 1) i a0 = Some (m, b) \<and> base \<le> m \<and> m < mx \<and>
        rearranged base mx a0 b \<and> partitioned base m mx b"
      by (rule partition_loop_spec) (use i less.prems len in auto)
    then show thesis using that by blast
  qed
  have lb: "length b = length a" using p(4) len by (simp add: rearranged_def)
  let ?sl = "\<lambda>c. if j - base \<ge> THRESH then qst qcmp base j c else Some c"
  let ?sr = "\<lambda>c. if mx - (j + 1) \<ge> THRESH then qst qcmp (j + 1) mx c else Some c"
  have left: "\<exists>d. ?sl c = Some d \<and> side_done base j c d" if "length c = length a" for c
  proof (cases "j - base \<ge> THRESH")
    case True
    then have "j - base < mx - base" "base < j" "j \<le> length c" using p(3) that less.prems(2) by auto
    from less.hyps [OF this] True show ?thesis by (auto simp: side_done_def)
  next
    case False
    then show ?thesis using least_early_small [of base j c] by (auto simp: side_done_def)
  qed
  have right: "\<exists>d. ?sr c = Some d \<and> side_done (j + 1) mx c d" if "length c = length a" for c
  proof (cases "mx - (j + 1) \<ge> THRESH")
    case True
    then have "mx - (j + 1) < mx - base" "j + 1 < mx" "mx \<le> length c" using p(2) that less.prems(2) by auto
    from less.hyps [OF this] True show ?thesis by (auto simp: side_done_def)
  next
    case False
    then show ?thesis using least_early_small [of "j + 1" mx c] by (auto simp: side_done_def)
  qed
  have step: "qst qcmp base mx a = (if j - base \<le> mx - (j + 1) then Option.bind (?sl b) ?sr else Option.bind (?sr b) ?sl)"
    using p(1) by (cases "mx - base \<ge> MTHRESH"; subst qst.simps; simp add: Let_def a0_def i_def)
  have mxl: "mx \<le> length a" using less.prems(2) .
  have "\<exists>d. qst qcmp base mx a = Some d \<and> rearranged base mx b d \<and> least_early base mx d"
  proof (cases "j - base \<le> mx - (j + 1)")
    case True
    obtain c where c: "?sl b = Some c" "side_done base j b c" using left [OF lb] by blast
    have lc: "length c = length a" using c(2) lb by (simp add: side_done_def rearranged_def)
    obtain d where d: "?sr c = Some d" "side_done (j + 1) mx c d" using right [OF lc] by blast
    have rl: "rearranged base j b c" and rr: "rearranged (j + 1) mx c d" using c(2) d(2) by (simp_all add: side_done_def)
    have "partitioned base j mx d"
      using partitioned_left [OF p(5,2,3) _ rl] partitioned_right [OF _ p(2,3) _ rr] lb lc mxl by auto
    moreover have "base < j \<longrightarrow> least_early base j d"
      using c(2) least_early_kept [OF _ rr] p(3) lc mxl by (auto simp: side_done_def)
    ultimately have "least_early base mx d" using partitioned_least p(2,3) by blast
    moreover have "rearranged base mx b d"
      using rearranged_trans [OF rearranged_widen [OF rl] rearranged_widen [OF rr]] p(2,3) by auto
    ultimately show ?thesis using step True c(1) d(1) by auto
  next
    case False
    obtain c where c: "?sr b = Some c" "side_done (j + 1) mx b c" using right [OF lb] by blast
    have lc: "length c = length a" using c(2) lb by (simp add: side_done_def rearranged_def)
    obtain d where d: "?sl c = Some d" "side_done base j c d" using left [OF lc] by blast
    have rr: "rearranged (j + 1) mx b c" and rl: "rearranged base j c d" using c(2) d(2) by (simp_all add: side_done_def)
    have "partitioned base j mx d"
      using partitioned_right [OF p(5,2,3) _ rr] partitioned_left [OF _ p(2,3) _ rl] lb lc mxl by auto
    moreover have "base < j \<longrightarrow> least_early base j d" using d(2) by (simp add: side_done_def)
    ultimately have "least_early base mx d" using partitioned_least p(2,3) by blast
    moreover have "rearranged base mx b d"
      using rearranged_trans [OF rearranged_widen [OF rr] rearranged_widen [OF rl]] p(2,3) by auto
    ultimately show ?thesis using step False c(1) d(1) by auto
  qed
  then show ?case using rearranged_trans [OF rearranged_trans [OF ra p(4)]] by blast
qed

section \<open>Insertion\<close>

lemma find_min_spec: "0 < hi \<Longrightarrow> find_min qcmp a hi < hi \<and> (\<forall>k < hi. leq (a ! find_min qcmp a hi) (a ! k))"
proof (induction hi)
  case (Suc hi)
  show ?case
  proof (cases "hi = 0")
    case True
    then show ?thesis by (simp add: find_min_def leq_refl)
  next
    case False
    let ?j = "find_min qcmp a hi"
    have IH: "?j < hi" "\<And>k. k < hi \<Longrightarrow> leq (a ! ?j) (a ! k)" using Suc.IH False by auto
    have eq: "find_min qcmp a (Suc hi) = (if qcmp (a ! ?j) (a ! hi) > 0 then hi else ?j)"
      using False by (simp add: find_min_def)
    show ?thesis
    proof (cases "qcmp (a ! ?j) (a ! hi) > 0")
      case True
      then have "leq (a ! hi) (a ! ?j)" by (rule not_leq)
      with True IH eq leq_trans leq_refl show ?thesis by (auto simp: less_Suc_eq)
    next
      case False
      then have "leq (a ! ?j) (a ! hi)" by (simp add: leq_def)
      with False IH eq show ?thesis by (auto simp: less_Suc_eq)
    qed
  qed
qed simp

text \<open>An element that is not larger stops the search before it leaves the array.\<close>

lemma insert_place_spec:
  "0 < hi \<Longrightarrow> leq (a ! 0) (a ! m) \<Longrightarrow>
   \<exists>p. insert_place qcmp a m hi = Some p \<and> 0 < p \<and> p \<le> hi \<and> leq (a ! (p - 1)) (a ! m) \<and>
     (\<forall>k. p \<le> k \<and> k < hi \<longrightarrow> leq (a ! m) (a ! k))"
proof (induction hi)
  case (Suc hi)
  show ?case
  proof (cases "qcmp (a ! hi) (a ! m) > 0")
    case True
    then have "0 < hi" using Suc.prems(2) by (cases "hi = 0") (auto simp: leq_def)
    with Suc True not_leq [OF True] show ?thesis by (force simp: less_Suc_eq)
  next
    case False
    then show ?thesis by (auto simp: leq_def)
  qed
qed simp

lemma move_down_mset:
  "hi \<le> m \<Longrightarrow> m < length a \<Longrightarrow> mset (move_down a hi m) = mset a"
proof -
  assume h: "hi \<le> m" "m < length a"
  have "a = take hi a @ take (m - hi) (drop hi a) @ a ! m # drop (Suc m) a"
    using h by (metis add.commute append_take_drop_id drop_drop Cons_nth_drop_Suc le_add_diff_inverse2)
  then have "mset a = mset (take hi a @ take (m - hi) (drop hi a) @ a ! m # drop (Suc m) a)" by metis
  then show ?thesis by (simp add: move_down_def)
qed

lemma move_down_self: "m < length a \<Longrightarrow> move_down a m m = a"
  by (simp add: move_down_def id_take_nth_drop [symmetric])

lemma move_down_prefix:
  "hi \<le> m \<Longrightarrow> m < length a \<Longrightarrow>
   take (Suc m) (move_down a hi m) = take hi a @ a ! m # take (m - hi) (drop hi a)"
  by (simp add: move_down_def Suc_diff_le)

lemma move_down_sorted:
  assumes s: "sorted_wrt leq (take m a)" and p: "0 < p" "p \<le> m" "m < length a"
    and l: "leq (a ! (p - 1)) (a ! m)" and g: "\<And>k. p \<le> k \<Longrightarrow> k < m \<Longrightarrow> leq (a ! m) (a ! k)"
  shows "sorted_wrt leq (take (Suc m) (move_down a p m))"
proof -
  have tk: "take m a = take p a @ take (m - p) (drop p a)"
    using p(2) by (metis le_add_diff_inverse take_add)
  then have s2: "sorted_wrt leq (take p a)" "sorted_wrt leq (take (m - p) (drop p a))"
    "\<And>x y. x \<in> set (take p a) \<Longrightarrow> y \<in> set (take (m - p) (drop p a)) \<Longrightarrow> leq x y"
    using s by (auto simp: sorted_wrt_append)
  have "leq x (a ! m)" if "x \<in> set (take p a)" for x
  proof -
    from that p obtain k where k: "k < p" "x = a ! k" by (auto simp: in_set_conv_nth)
    have "leq (a ! k) (a ! (p - 1))"
    proof (cases "k = p - 1")
      case False
      then show ?thesis using sorted_wrt_nth_less [OF s2(1), of k "p - 1"] k p by simp
    qed (simp add: leq_refl)
    with k(2) l leq_trans show ?thesis by blast
  qed
  moreover have "leq (a ! m) y" if "y \<in> set (take (m - p) (drop p a))" for y
    using that g p by (auto simp: in_set_conv_nth)
  ultimately show ?thesis using s2 p leq_trans
    by (subst move_down_prefix) (auto simp: sorted_wrt_append)
qed

lemma insertion_spec:
  "sorted_wrt leq (take m a) \<Longrightarrow> 0 < m \<Longrightarrow> m \<le> length a \<Longrightarrow> (\<And>k. k < length a \<Longrightarrow> leq (a ! 0) (a ! k)) \<Longrightarrow>
   \<exists>b. insertion qcmp [m..<length a] a = Some b \<and> mset b = mset a \<and> sorted_wrt leq b"
proof (induction "length a - m" arbitrary: m a)
  case 0
  then show ?case by simp
next
  case (Suc n)
  then have m: "m < length a" by simp
  obtain p where p: "insert_place qcmp a m m = Some p" "0 < p" "p \<le> m" "leq (a ! (p - 1)) (a ! m)"
    "\<And>k. p \<le> k \<Longrightarrow> k < m \<Longrightarrow> leq (a ! m) (a ! k)"
    using insert_place_spec [OF Suc.prems(2), of a m] Suc.prems(4) [OF m] by blast
  let ?a = "move_down a p m"
  have ms: "mset ?a = mset a" using p(3) m by (rule move_down_mset)
  then have len: "length ?a = length a" by (metis size_mset)
  have "?a ! 0 = a ! 0" using p(2,3) m by (simp add: move_down_def nth_append)
  moreover have "leq (a ! 0) (?a ! k)" if "k < length a" for k
  proof -
    have "?a ! k \<in> set a" using that len ms by (metis nth_mem set_mset_mset)
    then obtain i where "i < length a" "?a ! k = a ! i" by (auto simp: in_set_conv_nth)
    then show ?thesis using Suc.prems(4) by simp
  qed
  ultimately have first: "leq (?a ! 0) (?a ! k)" if "k < length ?a" for k using that len by simp
  have "sorted_wrt leq (take (Suc m) ?a)"
    using move_down_sorted [OF Suc.prems(1) p(2,3) m p(4,5)] .
  then obtain b where b: "insertion qcmp [Suc m..<length ?a] ?a = Some b" "mset b = mset ?a" "sorted_wrt leq b"
  proof -
    have "n = length ?a - Suc m" using Suc.hyps(2) len by simp
    from Suc.hyps(1) [OF this] show thesis using that \<open>sorted_wrt leq (take (Suc m) ?a)\<close> len m first by auto
  qed
  have "(if p \<noteq> m then ?a else a) = ?a" using move_down_self [OF m] by simp
  then have "insertion qcmp [m..<length a] a = Some b"
    using b(1) p(1) m len by (simp add: upt_conv_Cons)
  then show ?case using b ms by simp
qed

lemma qsort_spec: "\<exists>b. qsort qcmp a = Some b \<and> mset b = mset a \<and> sorted_wrt leq b"
proof (cases "length a \<le> 1")
  case True
  then have "sorted_wrt leq a" by (cases a) auto
  with True show ?thesis by (simp add: qsort_def)
next
  case False
  let ?n = "length a"
  obtain c hi where c: "(if ?n \<ge> THRESH then map_option (\<lambda>a. (a, THRESH)) (qst qcmp 0 ?n a) else Some (a, ?n)) =
      Some (c, hi)" "mset c = mset a" "0 < hi" "hi \<le> ?n"
      "\<exists>i < hi. \<forall>k < ?n. leq (c ! i) (c ! k)"
  proof (cases "?n \<ge> THRESH")
    case True
    then have "0 < ?n" by linarith
    then obtain b where "qst qcmp 0 ?n a = Some b" "rearranged 0 ?n a b" "least_early 0 ?n b"
      using qst_spec [of 0 ?n a] by blast
    with True show thesis by (intro that [of b THRESH]) (auto simp: rearranged_def least_early_def)
  next
    case small: False
    have "0 < ?n" using False by linarith
    then show thesis
      using small least_exists [of 0 ?n a] by (intro that [of a ?n]) auto
  qed
  have len: "length c = ?n" using c(2) by (metis size_mset)
  let ?j = "find_min qcmp c hi" and ?d = "swap c (find_min qcmp c hi) 0"
  have j: "?j < hi" "\<And>k. k < hi \<Longrightarrow> leq (c ! ?j) (c ! k)" using find_min_spec [OF c(3), of c] by auto
  have least: "leq (c ! ?j) (c ! k)" if "k < ?n" for k using c(5) j(2) leq_trans that by blast
  have rd: "rearranged 0 ?n c ?d" using j(1) c(3,4) len by (intro rearranged_swap) auto
  then have d: "mset ?d = mset a" "length ?d = ?n" using c(2) len by (simp_all add: rearranged_def)
  have "0 < length c" "?j < length c" using j(1) c(4) len by linarith+
  then have "?d ! 0 = c ! ?j" by (simp add: swap_nth)
  moreover have "leq (c ! ?j) (?d ! k)" if "k < ?n" for k
    using rearranged_segment [OF rd _ _ _ _ that, of "leq (c ! ?j)"] least len by simp
  ultimately have "leq (?d ! 0) (?d ! k)" if "k < length ?d" for k using that d(2) by simp
  moreover have "sorted_wrt leq (take 1 ?d)" by (cases ?d) auto
  ultimately obtain b where "insertion qcmp [1..<length ?d] ?d = Some b" "mset b = mset ?d" "sorted_wrt leq b"
    using insertion_spec [of 1 ?d] d(2) False by auto
  with c(1) d False show ?thesis by (auto simp: qsort_def)
qed

end

end
