(* ===== verification/Lib_String.thy ===== *)
theory Lib_String
  imports Muxx_Prelude Lib_Qsort
begin

text \<open>
  String and memory functions of the C library: \<open>bsdlibc/gen/str*.c\<close>, \<open>bsdlibc/string/*.c\<close>,
  \<open>bsdlibc/compat-sys5/mem*.c\<close> and relatives. Functions that only read get lists: the bytes from the
  pointer on as far as the object reaches; reading past the end of the list is \<open>None\<close>. A \<open>char\<close> is
  signed. Pointers they return are offsets into the argument. The functions that write are in Lib_Bytes.
\<close>

section \<open>Reading strings\<close>

abbreviation (input) chr :: "u8 \<Rightarrow> int" where "chr b \<equiv> sint b"

fun strcmp :: "u8 list \<Rightarrow> u8 list \<Rightarrow> int option" where
  "strcmp (c1 # s1) (c2 # s2) =
     (if c1 = c2 then (if c1 = 0 then Some 0 else strcmp s1 s2) else Some (chr c1 - chr c2))"
| "strcmp _ _ = None"

fun strncmp :: "u8 list \<Rightarrow> u8 list \<Rightarrow> nat \<Rightarrow> int option" where
  "strncmp s1 s2 0 = Some 0"
| "strncmp (c1 # s1) (c2 # s2) (Suc n) =
     (if c1 = c2 then (if c1 = 0 then Some 0 else strncmp s1 s2 n) else Some (chr c1 - chr c2))"
| "strncmp _ _ (Suc n) = None"

text \<open>\<open>index\<close> and \<open>rindex\<close> (\<open>strchr\<close> and \<open>strrchr\<close>) also find the terminating NUL.\<close>

datatype lookup = Absent | At nat

fun shift_lookup :: "lookup \<Rightarrow> lookup" where
  "shift_lookup Absent = Absent"
| "shift_lookup (At n) = At (Suc n)"

fun index :: "u8 list \<Rightarrow> u8 \<Rightarrow> lookup option" where
  "index [] c = None"
| "index (b # sp) c =
     (if b = c then Some (At 0) else if b \<noteq> 0 then map_option shift_lookup (index sp c) else Some Absent)"

fun rindex_loop :: "nat \<Rightarrow> lookup \<Rightarrow> u8 list \<Rightarrow> u8 \<Rightarrow> lookup option" where
  "rindex_loop n r [] c = None"
| "rindex_loop n r (b # sp) c =
     (let r = (if b = c then At n else r) in if b \<noteq> 0 then rindex_loop (Suc n) r sp c else Some r)"

definition rindex :: "u8 list \<Rightarrow> u8 \<Rightarrow> lookup option" where
  "rindex sp c = rindex_loop 0 Absent sp c"

text \<open>Does \<open>c\<close> occur in the string, its NUL excluded?\<close>

fun scan_set :: "u8 list \<Rightarrow> u8 \<Rightarrow> bool option" where
  "scan_set [] c = None"
| "scan_set (sc # s2) c = (if sc = 0 then Some False else if sc = c then Some True else scan_set s2 c)"

fun strpbrk :: "u8 list \<Rightarrow> u8 list \<Rightarrow> lookup option" where
  "strpbrk [] s2 = None"
| "strpbrk (c # s1) s2 =
     (if c = 0 then Some Absent
      else case scan_set s2 c of
             None \<Rightarrow> None
           | Some True \<Rightarrow> Some (At 0)
           | Some False \<Rightarrow> map_option shift_lookup (strpbrk s1 s2))"

fun strspn :: "u8 list \<Rightarrow> u8 list \<Rightarrow> nat option" where
  "strspn [] s2 = None"
| "strspn (c # s1) s2 =
     (case scan_set s2 c of
        None \<Rightarrow> None
      | Some True \<Rightarrow> map_option Suc (strspn s1 s2)
      | Some False \<Rightarrow> Some 0)"

text \<open>Here the NUL of the set counts.\<close>

fun scan_set_nul :: "u8 list \<Rightarrow> u8 \<Rightarrow> bool option" where
  "scan_set_nul [] c = None"
| "scan_set_nul (sc # s2) c = (if sc = c then Some True else if sc \<noteq> 0 then scan_set_nul s2 c else Some False)"

fun strcspn :: "u8 list \<Rightarrow> u8 list \<Rightarrow> nat option" where
  "strcspn [] s2 = None"
| "strcspn (c # s1) s2 =
     (case scan_set_nul s2 c of
        None \<Rightarrow> None
      | Some True \<Rightarrow> Some 0
      | Some False \<Rightarrow> map_option Suc (strcspn s1 s2))"

fun strlen_at :: "u8 list \<Rightarrow> nat option" where
  "strlen_at [] = None"
| "strlen_at (c # s) = (if c = 0 then Some 0 else map_option Suc (strlen_at s))"

text \<open>\<open>c\<close> is the first character of the string to find and \<open>pat\<close> the rest of it, \<open>len\<close> its length.\<close>

fun strstr_loop :: "u8 \<Rightarrow> u8 list \<Rightarrow> nat \<Rightarrow> u8 list \<Rightarrow> lookup option" where
  "strstr_loop c pat len [] = None"
| "strstr_loop c pat len (sc # s) =
     (if sc = 0 then Some Absent
      else if sc \<noteq> c then map_option shift_lookup (strstr_loop c pat len s)
      else case strncmp s pat len of
             None \<Rightarrow> None
           | Some r \<Rightarrow> if r \<noteq> 0 then map_option shift_lookup (strstr_loop c pat len s) else Some (At 0))"

definition strstr :: "u8 list \<Rightarrow> u8 list \<Rightarrow> lookup option" where
  "strstr s pat =
     (case pat of
        [] \<Rightarrow> None
      | c # rest \<Rightarrow>
          if c \<noteq> 0 then Option.bind (strlen_at rest) (\<lambda>len. strstr_loop c rest len s)
          else Some (At 0))"

fun memcmp :: "u8 list \<Rightarrow> u8 list \<Rightarrow> nat \<Rightarrow> int option" where
  "memcmp s1 s2 0 = Some 0"
| "memcmp (c1 # s1) (c2 # s2) (Suc n) = (if c1 \<noteq> c2 then Some (chr c1 - chr c2) else memcmp s1 s2 n)"
| "memcmp _ _ (Suc n) = None"

fun bcmp :: "u8 list \<Rightarrow> u8 list \<Rightarrow> nat \<Rightarrow> nat option" where
  "bcmp b1 b2 0 = Some 0"
| "bcmp (c1 # b1) (c2 # b2) (Suc n) = (if c1 \<noteq> c2 then Some (Suc n) else bcmp b1 b2 n)"
| "bcmp _ _ (Suc n) = None"

fun memchr :: "u8 list \<Rightarrow> int \<Rightarrow> nat \<Rightarrow> lookup option" where
  "memchr s c 0 = Some Absent"
| "memchr (b # s) c (Suc n) = (if chr b = c then Some (At 0) else map_option shift_lookup (memchr s c n))"
| "memchr [] c (Suc n) = None"


text \<open>
  The cases of \<open>strcasecmp\<close>: its table maps the letters A-Z, and the codes 0301-0332, to the codes 32
  above. The table is indexed with a signed \<open>char\<close>: a code above 0177 reads in front of it, \<open>None\<close>.
\<close>

definition charmap :: "u8 list" where
  "charmap =
     map of_nat ([0 ..< 65] @ [97 ..< 123] @ [91 ..< 193] @ [225 ..< 251] @ [219 ..< 256])"

definition cm :: "u8 \<Rightarrow> int option" where
  "cm c = (if 0 \<le> chr c then Some (chr (charmap ! unat c)) else None)"

fun strcasecmp :: "u8 list \<Rightarrow> u8 list \<Rightarrow> int option" where
  "strcasecmp (c1 # s1) (c2 # s2) =
     (case (cm c1, cm c2) of
        (Some m1, Some m2) \<Rightarrow>
          if m1 = m2 then (if c1 = 0 then Some 0 else strcasecmp s1 s2) else Some (m1 - m2)
      | _ \<Rightarrow> None)"
| "strcasecmp _ _ = None"

fun strncasecmp :: "u8 list \<Rightarrow> u8 list \<Rightarrow> nat \<Rightarrow> int option" where
  "strncasecmp s1 s2 0 = Some 0"
| "strncasecmp (c1 # s1) (c2 # s2) (Suc n) =
     (case (cm c1, cm c2) of
        (Some m1, Some m2) \<Rightarrow>
          if m1 = m2 then (if c1 = 0 then Some 0 else strncasecmp s1 s2 n) else Some (m1 - m2)
      | _ \<Rightarrow> None)"
| "strncasecmp _ _ (Suc n) = None"

section \<open>The order of strings\<close>

text \<open>A C string: its bytes, none of them 0, and the NUL.\<close>

definition cstr :: "u8 list \<Rightarrow> u8 list" where
  "cstr s = takeWhile (\<lambda>b. b \<noteq> 0) s @ [0]"

lemma cstr_Nil [simp]: "cstr [] = [0]"
  by (simp add: cstr_def)

lemma cstr_Cons [simp]: "cstr (b # s) = (if b = 0 then [0] else b # cstr s)"
  by (simp add: cstr_def)

text \<open>The value of \<open>strcmp\<close> on two C strings.\<close>

definition string_cmp :: "u8 list \<Rightarrow> u8 list \<Rightarrow> int" where
  "string_cmp s t = the (strcmp (cstr s) (cstr t))"

lemma strcmp_stops: "\<exists>r. strcmp (cstr s) (cstr t) = Some r"
  by (induction s t rule: list_induct2') auto

lemma string_cmp_simps [simp]:
  "string_cmp [] [] = 0"
  "string_cmp (b # s) [] = (if b = 0 then 0 else chr b)"
  "string_cmp [] (c # t) = (if c = 0 then 0 else - chr c)"
  "string_cmp (b # s) (c # t) =
     (if b = c then (if b = 0 then 0 else string_cmp s t) else chr b - chr c)"
  by (auto simp: string_cmp_def)

lemma chr_eq_iff [simp]: "chr b = chr c \<longleftrightarrow> b = c"
  by (auto intro: signed_word_eqI)

lemma chr_zero_iff [simp]: "chr b = 0 \<longleftrightarrow> b = 0"
  using chr_eq_iff [of b 0] by simp

lemma strcmp_zero_iff: "strcmp (cstr s) (cstr t) = Some 0 \<longleftrightarrow> cstr s = cstr t"
  by (induction s t rule: list_induct2') auto

lemma string_cmp_sign: "0 < string_cmp s t \<longleftrightarrow> string_cmp t s < 0"
  by (induction s t rule: list_induct2') auto

lemma string_cmp_trans: "string_cmp s t \<le> 0 \<Longrightarrow> string_cmp t u \<le> 0 \<Longrightarrow> string_cmp s u \<le> 0"
proof (induction s arbitrary: t u)
  case Nil
  then show ?case
    by (cases t; cases u) (auto split: if_splits)
next
  case (Cons b s)
  show ?case
  proof (cases t; cases u)
    fix c t' d u'
    assume "t = c # t'" "u = d # u'"
    then show ?thesis
      using Cons.prems Cons.IH [of t' u'] by (auto split: if_splits)
  qed (use Cons.prems in \<open>auto split: if_splits\<close>)
qed


interpretation strings: comparison string_cmp
  by unfold_locales (blast intro: string_cmp_sign [THEN iffD1] string_cmp_sign [THEN iffD2] string_cmp_trans)+

end
