(* ===== verification/Lib_Number.thy ===== *)
theory Lib_Number
  imports Lib_Ctype Lib_String "HOL-Library.Monad_Syntax"
begin

text \<open>
  Numbers read from text: \<open>bsdlibc/gen/{atoi,atol,abs,ffs}.c\<close> and \<open>bsdlibc/stdlib/{strtol,strtoul}.c\<close>.
  A string is the list of bytes from the pointer on; reading past its end is \<open>None\<close>. An \<open>int\<close> has 16
  bits, a \<open>long\<close> 32; both wrap.
\<close>

section \<open>Decimal numbers\<close>

fun skip_blanks :: "u8 list \<Rightarrow> u8 list" where
  "skip_blanks (c # p) = (if c = 0x20 \<or> c = 0x09 then skip_blanks p else c # p)"
| "skip_blanks [] = []"

text \<open>Behind the blanks: is there a minus sign, and the text behind the sign.\<close>

fun take_sign :: "u8 list \<Rightarrow> (bool \<times> u8 list) option" where
  "take_sign [] = None"
| "take_sign (c # p) =
     (if c = 0x2D then Some (True, p) else if c = 0x2B then Some (False, p) else Some (False, c # p))"

fun decimal_value :: "'a::len word \<Rightarrow> u8 list \<Rightarrow> 'a word option" where
  "decimal_value n [] = None"
| "decimal_value n (c # p) =
     (if 0x30 \<le> chr c \<and> chr c \<le> 0x39 then decimal_value (n * 10 + ucast c - 0x30) p else Some n)"

definition atoi :: "u8 list \<Rightarrow> u16 option" where
  "atoi p = do {
     (f, p) \<leftarrow> take_sign (skip_blanks p);
     n \<leftarrow> decimal_value 0 p;
     Some (if f then - n else n)
   }"

definition atol :: "u8 list \<Rightarrow> u32 option" where
  "atol p = do {
     (f, p) \<leftarrow> take_sign (skip_blanks p);
     n \<leftarrow> decimal_value 0 p;
     Some (if f then - n else n)
   }"

definition abs_int :: "u16 \<Rightarrow> u16" where
  "abs_int arg = (if sint arg < 0 then - arg else arg)"

section \<open>The first bit\<close>

text \<open>\<open>mask >>= 1\<close> (here \<open>m\<close>) on a \<open>long\<close> keeps the sign; some bit is set, so the loop stops.\<close>

partial_function (option) ffs_loop :: "u32 \<Rightarrow> nat \<Rightarrow> nat option" where
  "ffs_loop m cnt = (if \<not> bit m 0 then ffs_loop (signed_drop_bit 1 m) (cnt + 1) else Some cnt)"

definition ffs :: "u32 \<Rightarrow> nat option" where
  "ffs m = (if m = 0 then Some 0 else ffs_loop m 1)"

section \<open>Numbers to any base\<close>

text \<open>
  The macros of \<open>ctype.h\<close> on an \<open>int\<close> that comes from a \<open>char\<close>: \<open>_ctype_[0]\<close> is the entry of -1, what
  lies in front of the table is not known.
\<close>

definition char_class :: "(nat \<Rightarrow> bool) \<Rightarrow> u8 \<Rightarrow> bool option" where
  "char_class p c =
     (if 0 \<le> chr c then Some (p (unat c)) else if chr c = - 1 then Some False else None)"

fun skip_space :: "u8 list \<Rightarrow> u8 list option" where
  "skip_space [] = None"
| "skip_space (c # s) =
     do { space \<leftarrow> char_class isspace c; if space then skip_space s else Some (c # s) }"

text \<open>The sign and the prefix; the rest of the text begins with the character in \<open>c\<close>.\<close>

definition number_prefix :: "u8 list \<Rightarrow> int \<Rightarrow> (bool \<times> int \<times> u8 list) option" where
  "number_prefix s base = do {
     s \<leftarrow> skip_space s;
     (neg, s) \<leftarrow> take_sign s;
     hex \<leftarrow>
       (if base = 0 \<or> base = 16 then
          (case s of
             [] \<Rightarrow> None
           | c # s \<Rightarrow>
               if c = 0x30 then
                 (case s of [] \<Rightarrow> None | x # _ \<Rightarrow> Some (x = 0x78 \<or> x = 0x58))
               else Some False)
        else Some False);
     let (base, s) = (if hex then (16, drop 2 s) else (base, s));
     base \<leftarrow>
       (if base = 0 then (case s of [] \<Rightarrow> None | c # _ \<Rightarrow> Some (if c = 0x30 then 8 else 10)) else Some base);
     Some (neg, base, s)
   }"

text \<open>The value of a digit or letter; \<open>None\<close> inside is a character that ends the number.\<close>

definition digit_of_char :: "u8 \<Rightarrow> int option option" where
  "digit_of_char c = do {
     digit \<leftarrow> char_class isdigit c;
     if digit then Some (Some (chr c - 0x30))
     else do {
       alpha \<leftarrow> char_class isalpha c;
       if alpha then do {
         upper \<leftarrow> char_class isupper c;
         Some (Some (chr c - (if upper then 0x41 - 10 else 0x61 - 10)))
       }
       else Some None
     }
   }"

text \<open>The loop: \<open>acc\<close> and \<open>any\<close> at its end, and the text from the character that ended it on.\<close>

fun number_loop ::
  "int \<Rightarrow> u32 \<Rightarrow> int \<Rightarrow> u32 \<Rightarrow> int \<Rightarrow> u8 list \<Rightarrow> (u32 \<times> int \<times> u8 list) option" where
  "number_loop base cutoff cutlim acc any [] = None"
| "number_loop base cutoff cutlim acc any (ch # s) =
     (case digit_of_char ch of
        None \<Rightarrow> None
      | Some None \<Rightarrow> Some (acc, any, ch # s)
      | Some (Some c) \<Rightarrow>
          if c \<ge> base then Some (acc, any, ch # s)
          else if any < 0 \<or> acc > cutoff \<or> acc = cutoff \<and> c > cutlim
          then number_loop base cutoff cutlim acc (- 1) s
          else number_loop base cutoff cutlim (acc * word_of_int base + word_of_int c) 1 s)"

abbreviation (input) LONG_MAX :: u32 where "LONG_MAX \<equiv> 0x7FFFFFFF"
abbreviation (input) LONG_MIN :: u32 where "LONG_MIN \<equiv> 0x80000000"
abbreviation (input) ULONG_MAX :: u32 where "ULONG_MAX \<equiv> 0xFFFFFFFF"

text \<open>The result: the number, \<open>errno = ERANGE\<close> or not, and \<open>*endptr\<close> as an offset.\<close>

definition strtol :: "u8 list \<Rightarrow> int \<Rightarrow> (u32 \<times> bool \<times> nat) option" where
  "strtol nptr base = do {
     (neg, base, s) \<leftarrow> number_prefix nptr base;
     let cutoff = (if neg then - LONG_MIN else LONG_MAX);
     let cutlim = sint (ucast (cutoff mod word_of_int base) :: u16);
     let cutoff = cutoff div word_of_int base;
     (acc, any, s) \<leftarrow> number_loop base cutoff cutlim 0 0 s;
     let (acc, range) =
       (if any < 0 then (if neg then LONG_MIN else LONG_MAX, True)
        else (if neg then - acc else acc, False));
     Some (acc, range, if any \<noteq> 0 then length nptr - length s else 0)
   }"

definition strtoul :: "u8 list \<Rightarrow> int \<Rightarrow> (u32 \<times> bool \<times> nat) option" where
  "strtoul nptr base = do {
     (neg, base, s) \<leftarrow> number_prefix nptr base;
     let cutoff = ULONG_MAX div word_of_int base;
     let cutlim = sint (ucast (ULONG_MAX mod word_of_int base) :: u16);
     (acc, any, s) \<leftarrow> number_loop base cutoff cutlim 0 0 s;
     let (acc, range) =
       (if any < 0 then (ULONG_MAX, True)
        else (if neg then - acc else acc, False));
     Some (acc, range, if any \<noteq> 0 then length nptr - length s else 0)
   }"

section \<open>The first bit is found\<close>

lemma ffs_loop_finds:
  assumes "bit m n" "\<And>k. k < n \<Longrightarrow> \<not> bit m k"
  shows "ffs_loop m cnt = Some (cnt + n)"
  using assms
proof (induction n arbitrary: m cnt)
  case 0
  then show ?case by (subst ffs_loop.simps) simp
next
  case (Suc n)
  have len: "Suc n < 32"
    using bit_imp_le_length [OF Suc.prems(1)] by simp
  have "ffs_loop (signed_drop_bit 1 m) (cnt + 1) = Some (cnt + 1 + n)"
    using Suc.prems len by (intro Suc.IH) (auto simp: bit_signed_drop_bit_iff)
  then show ?case
    using Suc.prems(2) [of 0] by (subst ffs_loop.simps) simp
qed

text \<open>\<open>ffs\<close> returns, counting from 1, the least bit that is set, and 0 only for 0.\<close>

lemma ffs_least_bit:
  assumes "m \<noteq> 0"
  shows "\<exists>n < 32. ffs m = Some (Suc n) \<and> bit m n \<and> (\<forall>k < n. \<not> bit m k)"
proof -
  obtain j where "bit m j"
    using assms by (auto simp: bit_eq_iff)
  then obtain n where n: "bit m n" "\<And>k. k < n \<Longrightarrow> \<not> bit m k"
    by (metis (full_types) exists_least_iff)
  then show ?thesis
    using assms ffs_loop_finds [of m n 1] bit_imp_le_length [OF n(1)] by (auto simp: ffs_def)
qed

section \<open>Digits\<close>

definition digit_chars :: "nat list \<Rightarrow> u8 list" where
  "digit_chars ds = map (\<lambda>d. of_nat (0x30 + d)) ds"

definition number_value :: "nat \<Rightarrow> nat \<Rightarrow> nat list \<Rightarrow> nat" where
  "number_value b = foldl (\<lambda>v d. v * b + d)"

lemma number_value_simps [simp]:
  "number_value b v [] = v" "number_value b v (d # ds) = number_value b (v * b + d) ds"
  by (simp_all add: number_value_def)

lemma number_value_mono: "0 < b \<Longrightarrow> v \<le> number_value b v ds"
proof (induction ds arbitrary: v)
  case (Cons d ds)
  then have "v \<le> v * b + d"
    by (simp add: trans_le_add1)
  with Cons show ?case
    using order_trans by fastforce
qed simp

lemma digit_char:
  assumes "d < 10"
  shows "unat (of_nat (0x30 + d) :: u8) = 0x30 + d" and "chr (of_nat (0x30 + d)) = 0x30 + int d"
proof -
  show "unat (of_nat (0x30 + d) :: u8) = 0x30 + d"
    using assms by (simp only: unat_of_nat) simp
  show "chr (of_nat (0x30 + d)) = 0x30 + int d"
    unfolding signed_of_nat using assms by (subst signed_take_bit_int_eq_self) simp_all
qed

lemma digit_of_digit_char:
  assumes "d < 10"
  shows "digit_of_char (of_nat (0x30 + d)) = Some (Some (int d))"
proof -
  have "isdigit (0x30 + d)"
    using assms by (simp add: isdigit_iff)
  then show ?thesis
    unfolding digit_of_char_def char_class_def digit_char [OF assms] by simp
qed

lemma digit_of_NUL: "digit_of_char 0 = Some None"
  by (simp add: digit_of_char_def char_class_def isdigit_iff isalpha_iff isupper_iff islower_iff)

lemma number_value_above: "v > l \<Longrightarrow> number_value 10 v ds > l"
  using number_value_mono [of 10 v ds] by simp

text \<open>Once the number is too large, the loop only looks for its end.\<close>

lemma number_loop_over:
  assumes "\<forall>d \<in> set ds. d < 10" and "a < 0"
  shows "number_loop 10 cutoff cutlim acc a (digit_chars ds @ [0]) = Some (acc, if ds = [] then a else - 1, [0])"
  using assms
proof (induction ds arbitrary: a)
  case (Cons d ds)
  then show ?case
    using digit_of_digit_char [of d] by (simp add: digit_chars_def del: of_nat_add)
qed (simp add: digit_chars_def digit_of_NUL)

text \<open>
  The test against \<open>cutoff\<close> and \<open>cutlim\<close> is exact: a digit is taken just when the number still is within
  the limit.
\<close>

lemma cutoff_exact:
  fixes v d l :: nat
  assumes "d < 10"
  shows "v > l div 10 \<or> v = l div 10 \<and> d > l mod 10 \<longleftrightarrow> v * 10 + d > l"
proof -
  define q r where "q = l div 10" and "r = l mod 10"
  have "l = q * 10 + r" "r < 10"
    by (simp_all add: q_def r_def)
  with assms show ?thesis
    unfolding q_def [symmetric] r_def [symmetric] by auto
qed

lemma number_loop_decimal:
  assumes "\<forall>d \<in> set ds. d < 10" and "l < 2 ^ 32" and "v \<le> l" and "a \<ge> 0"
  shows "\<exists>r. number_loop 10 (of_nat (l div 10)) (int (l mod 10)) (of_nat v) a (digit_chars ds @ [0]) =
      Some (r, if number_value 10 v ds \<le> l then if ds = [] then a else 1 else - 1, [0]) \<and>
    (number_value 10 v ds \<le> l \<longrightarrow> r = of_nat (number_value 10 v ds))"
  using assms
proof (induction ds arbitrary: v a)
  case (Cons d ds)
  have d: "d < 10" and ds: "\<forall>d \<in> set ds. d < 10"
    using Cons.prems(1) by auto
  have v: "unat (of_nat v :: u32) = v" "unat (of_nat (l div 10) :: u32) = l div 10"
    using Cons.prems(2,3) by (simp_all add: unat_of_nat)
  have test: "(of_nat v :: u32) > of_nat (l div 10) \<or> (of_nat v :: u32) = of_nat (l div 10) \<and> int d > int (l mod 10)
      \<longleftrightarrow> v * 10 + d > l"
    using cutoff_exact [OF d, of l v] by (simp add: word_less_nat_alt word_unat_eq_iff v)
  have step: "number_loop 10 (of_nat (l div 10)) (int (l mod 10)) (of_nat v) a (digit_chars (d # ds) @ [0]) =
     (if v * 10 + d > l
      then number_loop 10 (of_nat (l div 10)) (int (l mod 10)) (of_nat v) (- 1) (digit_chars ds @ [0])
      else number_loop 10 (of_nat (l div 10)) (int (l mod 10)) (of_nat (v * 10 + d)) 1 (digit_chars ds @ [0]))"
    using d Cons.prems(4) test [symmetric]
    by (simp add: digit_chars_def digit_of_digit_char del: of_nat_add) simp
  show ?case
  proof (cases "v * 10 + d > l")
    case True
    then show ?thesis
      using number_value_above [OF True, of ds] number_loop_over [OF ds, of "- 1"] by (simp add: step)
  next
    case False
    then show ?thesis
      using Cons.IH [OF ds Cons.prems(2), of "v * 10 + d" 1] by (simp add: step split: if_splits)
  qed
qed (simp add: digit_chars_def digit_of_NUL)

text \<open>
  \<open>strtol\<close> and \<open>strtoul\<close> in base 10: the number when it is in range, the limit and \<open>ERANGE\<close> when not.
  The end pointer is behind the digits either way.
\<close>

lemma digit_chars_neq [simp]:
  "d < 10 \<Longrightarrow> of_nat (0x30 + d) \<noteq> (0x2D :: u8)" "d < 10 \<Longrightarrow> of_nat (0x30 + d) \<noteq> (0x2B :: u8)"
  using digit_char(1) [of d] by (auto simp: word_unat_eq_iff simp del: of_nat_add)

lemma number_prefix_decimal:
  assumes "\<forall>d \<in> set ds. d < 10" and "ds \<noteq> []"
  shows "number_prefix ((if neg then [0x2D] else []) @ digit_chars ds @ [0]) 10 =
    Some (neg, 10, digit_chars ds @ [0])"
proof (cases ds)
  case (Cons d ds')
  then have d: "d < 10"
    using assms by simp
  then have "\<not> isspace (0x30 + d)" "\<not> isspace 0x2D"
    by (simp_all add: isspace_iff)
  then show ?thesis
    using d Cons digit_char [OF d]
    by (simp add: number_prefix_def digit_chars_def char_class_def Let_def del: of_nat_add)
qed (use assms in simp)

theorem strtol_decimal:
  assumes "\<forall>d \<in> set ds. d < 10" and "ds \<noteq> []"
    and "v = number_value 10 0 ds" and "l = (if neg then 2 ^ 31 else 2 ^ 31 - 1)"
  shows "strtol ((if neg then [0x2D] else []) @ digit_chars ds @ [0]) 10 =
    Some (if v \<le> l then (if neg then - of_nat v else of_nat v) else if neg then LONG_MIN else LONG_MAX,
          v > l, (if neg then 1 else 0) + length ds)"
proof -
  obtain r where r: "number_loop 10 (of_nat (l div 10)) (int (l mod 10)) (of_nat 0) 0 (digit_chars ds @ [0]) =
      Some (r, if v \<le> l then 1 else - 1, [0])" "v \<le> l \<longrightarrow> r = of_nat v"
  proof -
    have "l < 2 ^ 32"
      by (simp add: assms(4))
    from number_loop_decimal [OF assms(1) this, of 0 0] show thesis
      using that assms(2) by (auto simp: assms(3) [symmetric])
  qed
  show ?thesis
    using r assms(4) unfolding strtol_def number_prefix_decimal [OF assms(1,2)]
    by (cases neg; cases "v \<le> l") (simp_all add: Let_def digit_chars_def)
qed

theorem strtoul_decimal:
  assumes "\<forall>d \<in> set ds. d < 10" and "ds \<noteq> []"
    and "v = number_value 10 0 ds"
  shows "strtoul (digit_chars ds @ [0]) 10 =
    Some (if v < 2 ^ 32 then of_nat v else ULONG_MAX, v \<ge> 2 ^ 32, length ds)"
proof -
  obtain r where r: "number_loop 10 (of_nat (0xFFFFFFFF div 10)) (int (0xFFFFFFFF mod 10)) (of_nat 0) 0 (digit_chars ds @ [0]) =
      Some (r, if v \<le> 0xFFFFFFFF then 1 else - 1, [0])" "v \<le> 0xFFFFFFFF \<longrightarrow> r = of_nat v"
    using number_loop_decimal [OF assms(1), of "0xFFFFFFFF" 0 0] assms(2,3) by auto
  show ?thesis
    using r number_prefix_decimal [of ds False, OF assms(1,2)] unfolding strtoul_def
    by (cases "v < 2 ^ 32") (simp_all add: Let_def digit_chars_def)
qed

end
