(* ===== verification/Lib_Bytes.thy ===== *)
theory Lib_Bytes
  imports Lib_String "HOL-Library.Monad_Syntax"
begin

text \<open>
  The string and memory functions that write: \<open>bsdlibc/gen/{strcpy,strcat,strncpy,strncat,bcopy,bzero,
  swab,insque,remque}.c\<close>, \<open>bsdlibc/compat-sys5/{memccpy,memcpy,memset}.c\<close> and
  \<open>bsdlibc/string/{strsep,strtok}.c\<close>. The memory is the data space of a task: a byte at each of the
  \<open>2 ^ 16\<close> addresses. Pointers are addresses and wrap. A loop that looks for a NUL that never comes has
  no result (\<open>None\<close>).
\<close>

section \<open>Memory of bytes\<close>

type_synonym bytes = "u16 \<Rightarrow> u8"

text \<open>The \<open>n\<close> bytes from an address on, and the addresses themselves.\<close>

definition bytes_at :: "bytes \<Rightarrow> u16 \<Rightarrow> nat \<Rightarrow> u8 list" where
  "bytes_at m p n = map (\<lambda>i. m (p + of_nat i)) [0..<n]"

definition region :: "u16 \<Rightarrow> nat \<Rightarrow> u16 set" where
  "region p n = (\<lambda>i. p + of_nat i) ` {..<n}"

definition string_at :: "bytes \<Rightarrow> u16 \<Rightarrow> u8 list \<Rightarrow> bool" where
  "string_at m p s \<longleftrightarrow> 0 \<notin> set s \<and> bytes_at m p (Suc (length s)) = s @ [0]"

section \<open>Copying strings\<close>

text \<open>\<open>while (*s1++ = *s2++) ;\<close>\<close>

partial_function (option) copy_string :: "bytes \<Rightarrow> u16 \<Rightarrow> u16 \<Rightarrow> bytes option" where
  "copy_string m s1 s2 =
     (let c = m s2; m = m(s1 := c) in if c \<noteq> 0 then copy_string m (s1 + 1) (s2 + 1) else Some m)"

text \<open>\<open>while (*s1++) ; --s1\<close>\<close>

partial_function (option) string_end :: "bytes \<Rightarrow> u16 \<Rightarrow> u16 option" where
  "string_end m s1 = (if m s1 \<noteq> 0 then string_end m (s1 + 1) else Some s1)"

definition strcpy :: "bytes \<Rightarrow> u16 \<Rightarrow> u16 \<Rightarrow> (u16 \<times> bytes) option" where
  "strcpy m s1 s2 = do { m \<leftarrow> copy_string m s1 s2; Some (s1, m) }"

definition strcat :: "bytes \<Rightarrow> u16 \<Rightarrow> u16 \<Rightarrow> (u16 \<times> bytes) option" where
  "strcat m s1 s2 = do { e \<leftarrow> string_end m s1; m \<leftarrow> copy_string m e s2; Some (s1, m) }"

text \<open>\<open>n\<close> is an \<open>int\<close>; \<open>i\<close> counts up to it.\<close>

fun fill :: "bytes \<Rightarrow> u16 \<Rightarrow> u8 \<Rightarrow> nat \<Rightarrow> bytes" where
  "fill m p c 0 = m"
| "fill m p c (Suc n) = fill (m(p := c)) (p + 1) c n"

fun strncpy_loop :: "bytes \<Rightarrow> u16 \<Rightarrow> u16 \<Rightarrow> nat \<Rightarrow> bytes" where
  "strncpy_loop m s1 s2 0 = m"
| "strncpy_loop m s1 s2 (Suc left) =
     (let c = m s2; m = m(s1 := c)
      in if c = 0 then fill m (s1 + 1) 0 left else strncpy_loop m (s1 + 1) (s2 + 1) left)"

definition strncpy :: "bytes \<Rightarrow> u16 \<Rightarrow> u16 \<Rightarrow> int \<Rightarrow> u16 \<times> bytes" where
  "strncpy m s1 s2 n = (s1, strncpy_loop m s1 s2 (nat n))"

text \<open>
  \<open>strncat\<close> copies a character before it counts: with \<open>n \<ge> 0\<close> to go it goes on, else the character
  just copied becomes the NUL.
\<close>

fun strncat_loop :: "bytes \<Rightarrow> u16 \<Rightarrow> u16 \<Rightarrow> nat \<Rightarrow> bytes" where
  "strncat_loop m s1 s2 0 =
     (let c = m s2; m = m(s1 := c) in if c \<noteq> 0 then m(s1 := 0) else m)"
| "strncat_loop m s1 s2 (Suc n) =
     (let c = m s2; m = m(s1 := c) in if c \<noteq> 0 then strncat_loop m (s1 + 1) (s2 + 1) n else m)"

definition strncat :: "bytes \<Rightarrow> u16 \<Rightarrow> u16 \<Rightarrow> int \<Rightarrow> (u16 \<times> bytes) option" where
  "strncat m s1 s2 n = do { e \<leftarrow> string_end m s1; Some (s1, strncat_loop m e s2 (nat n)) }"

section \<open>Copying and filling memory\<close>

fun copy_up :: "bytes \<Rightarrow> u16 \<Rightarrow> u16 \<Rightarrow> nat \<Rightarrow> bytes" where
  "copy_up m dst src 0 = m"
| "copy_up m dst src (Suc n) = copy_up (m(dst := m src)) (dst + 1) (src + 1) n"

fun copy_down :: "bytes \<Rightarrow> u16 \<Rightarrow> u16 \<Rightarrow> nat \<Rightarrow> bytes" where
  "copy_down m dst src 0 = m"
| "copy_down m dst src (Suc n) = copy_down (m(dst - 1 := m (src - 1))) (dst - 1) (src - 1) n"

definition bcopy :: "bytes \<Rightarrow> u16 \<Rightarrow> u16 \<Rightarrow> u16 \<Rightarrow> bytes" where
  "bcopy m src dst len =
     (if len \<noteq> 0 \<and> src \<noteq> dst then
        if dst < src then copy_up m dst src (unat len)
        else copy_down m (dst + len) (src + len) (unat len)
      else m)"

definition bzero :: "bytes \<Rightarrow> u16 \<Rightarrow> u16 \<Rightarrow> bytes" where
  "bzero m b len = fill m b 0 (unat len)"

definition memcpy :: "bytes \<Rightarrow> u16 \<Rightarrow> u16 \<Rightarrow> int \<Rightarrow> u16 \<times> bytes" where
  "memcpy m t f n = (t, copy_up m t f (nat n))"

definition memset :: "bytes \<Rightarrow> u16 \<Rightarrow> int \<Rightarrow> int \<Rightarrow> u16 \<times> bytes" where
  "memset m s c n = (s, fill m s (word_of_int c) (nat n))"

fun memccpy_loop :: "bytes \<Rightarrow> u16 \<Rightarrow> u16 \<Rightarrow> int \<Rightarrow> nat \<Rightarrow> u16 \<times> bytes" where
  "memccpy_loop m t f c 0 = (0, m)"
| "memccpy_loop m t f c (Suc n) =
     (let b = m f; m = m(t := b) in if chr b = c then (t + 1, m) else memccpy_loop m (t + 1) (f + 1) c n)"

definition memccpy :: "bytes \<Rightarrow> u16 \<Rightarrow> u16 \<Rightarrow> int \<Rightarrow> int \<Rightarrow> u16 \<times> bytes" where
  "memccpy m t f c n = memccpy_loop m t f c (nat n)"

text \<open>\<open>swab\<close>: \<open>STEP\<close> swaps a pair of bytes; the pairs beyond a multiple of 8 first, then 8 at a time.\<close>

fun swab_steps :: "nat \<Rightarrow> u16 \<times> u16 \<times> bytes \<Rightarrow> u16 \<times> u16 \<times> bytes" where
  "swab_steps 0 z = z"
| "swab_steps (Suc n) (from, to, m) =
     (let temp = m from;
          m = m(to := m (from + 1));
          m = m(to + 1 := temp)
      in swab_steps n (from + 2, to + 2, m))"

fun swab_eights :: "nat \<Rightarrow> u16 \<times> u16 \<times> bytes \<Rightarrow> u16 \<times> u16 \<times> bytes" where
  "swab_eights 0 z = z"
| "swab_eights (Suc n) z = swab_eights n (swab_steps 8 z)"

definition swab :: "bytes \<Rightarrow> u16 \<Rightarrow> u16 \<Rightarrow> int \<Rightarrow> bytes" where
  "swab m from to n =
     (let n = n div 2; z = swab_steps (nat (n mod 8)) (from, to, m)
      in snd (snd (swab_eights (nat (n div 8)) z)))"

section \<open>Tokens\<close>

text \<open>Is \<open>c\<close> one of the delimiters, their NUL included (\<open>strsep\<close>) or not (\<open>strtok\<close>)?\<close>

partial_function (option) delim_or_nul :: "bytes \<Rightarrow> u16 \<Rightarrow> u8 \<Rightarrow> bool option" where
  "delim_or_nul m spanp c =
     (let sc = m spanp
      in if sc = c then Some True else if sc \<noteq> 0 then delim_or_nul m (spanp + 1) c else Some False)"

partial_function (option) delim_char :: "bytes \<Rightarrow> u16 \<Rightarrow> u8 \<Rightarrow> bool option" where
  "delim_char m spanp c =
     (let sc = m spanp
      in if sc = 0 then Some False else if c = sc then Some True else delim_char m (spanp + 1) c)"

text \<open>The end of the token that goes on at \<open>s\<close>: the pointer behind it, or NULL, and the memory.\<close>

partial_function (option) scan_token :: "bytes \<Rightarrow> u16 \<Rightarrow> u16 \<Rightarrow> (u16 \<times> bytes) option" where
  "scan_token m s delim =
     (let c = m s; s = s + 1
      in do {
        found \<leftarrow> delim_or_nul m delim c;
        if found then
          (if c = 0 then Some (0, m) else Some (s, m(s - 1 := 0)))
        else scan_token m s delim
      })"

text \<open>\<open>strsep\<close>: the value of \<open>*stringp\<close> before and after; the result is the token.\<close>

definition strsep :: "bytes \<Rightarrow> u16 \<Rightarrow> u16 \<Rightarrow> (u16 \<times> u16 \<times> bytes) option" where
  "strsep m stringp delim =
     (if stringp = 0 then Some (0, stringp, m)
      else do { (s, m) \<leftarrow> scan_token m stringp delim; Some (stringp, s, m) })"

partial_function (option) skip_delims :: "bytes \<Rightarrow> u16 \<Rightarrow> u16 \<Rightarrow> u16 option" where
  "skip_delims m s delim =
     do {
       found \<leftarrow> delim_char m delim (m s);
       if found then skip_delims m (s + 1) delim else Some s
     }"

text \<open>\<open>strtok\<close>: the static \<open>last\<close> before and after.\<close>

definition strtok :: "bytes \<Rightarrow> u16 \<Rightarrow> u16 \<Rightarrow> u16 \<Rightarrow> (u16 \<times> u16 \<times> bytes) option" where
  "strtok m last_ptr s delim =
     (let s = (if s = 0 then last_ptr else s)
      in if s = 0 then Some (0, last_ptr, m)
         else do {
           s \<leftarrow> skip_delims m s delim;
           let c = m s;
           if c = 0 then Some (0, 0, m)
           else do { (l, m) \<leftarrow> scan_token m (s + 1) delim; Some (s, l, m) }
         })"

section \<open>Doubly linked queues\<close>

text \<open>\<open>struct vaxque\<close> is two words: the links at the address of an element and 2 behind it.\<close>

record vaxques =
  vq_next :: "u16 \<Rightarrow> u16"
  vq_prev :: "u16 \<Rightarrow> u16"

definition insque :: "u16 \<Rightarrow> u16 \<Rightarrow> vaxques \<Rightarrow> vaxques" where
  "insque e prev q =
     (let q = q\<lparr>vq_prev := (vq_prev q)(e := prev)\<rparr>;
          q = q\<lparr>vq_next := (vq_next q)(e := vq_next q prev)\<rparr>;
          q = q\<lparr>vq_prev := (vq_prev q)(vq_next q prev := e)\<rparr>
      in q\<lparr>vq_next := (vq_next q)(prev := e)\<rparr>)"

definition remque :: "u16 \<Rightarrow> vaxques \<Rightarrow> vaxques" where
  "remque e q =
     (let q = q\<lparr>vq_next := (vq_next q)(vq_prev q e := vq_next q e)\<rparr>
      in q\<lparr>vq_prev := (vq_prev q)(vq_next q e := vq_prev q e)\<rparr>)"

text \<open>Removing the element just inserted restores the links of all others.\<close>

lemma remque_insque:
  assumes "e \<noteq> prev" "vq_next q prev \<noteq> e" "vq_prev q (vq_next q prev) = prev"
    and "x \<noteq> e"
  shows "vq_next (remque e (insque e prev q)) x = vq_next q x"
    and "vq_prev (remque e (insque e prev q)) x = vq_prev q x"
  using assms by (auto simp: remque_def insque_def Let_def)

section \<open>What copying does\<close>

lemma unat_plus_one: "unat p < 65535 \<Longrightarrow> unat (p + 1 :: u16) = unat p + 1"
  by (simp add: unat_word_ariths)

lemma unat_offset:
  fixes a :: u16
  assumes "unat dst \<le> unat a" "unat src + (unat a - unat dst) < 65536"
  shows "unat (src + (a - dst)) = unat src + (unat a - unat dst)"
  using assms by (simp add: unat_sub word_le_nat_alt unat_word_ariths)

lemma copy_up_moves:
  assumes "unat dst < unat src" "unat src + n \<le> 65536"
  shows "copy_up m dst src n a =
    (if unat dst \<le> unat a \<and> unat a < unat dst + n then m (src + (a - dst)) else m a)"
  using assms
proof (induction n arbitrary: m dst src)
  case (Suc n)
  have at_dst: "a \<noteq> dst \<Longrightarrow> unat a \<noteq> unat dst"
    by (simp add: word_unat_eq_iff)
  show ?case
  proof (cases n)
    case 0
    then show ?thesis
      using Suc.prems at_dst by (cases "a = dst") auto
  next
    case (Suc k)
    have offsets: "unat (dst + 1) = unat dst + 1" "unat (src + 1) = unat src + 1"
      using Suc Suc.prems by (simp_all add: unat_plus_one)
    have ahead: "src + (a - dst) \<noteq> dst" if "unat dst \<le> unat a" "unat a < unat dst + Suc n"
    proof
      assume eq: "src + (a - dst) = dst"
      have "unat src + (unat a - unat dst) < 65536"
        using that Suc.prems by linarith
      from unat_offset [OF that(1) this] show False
        using that Suc.prems unfolding eq by linarith
    qed
    define m' where "m' = m(dst := m src)"
    have m': "m' dst = m src" "x \<noteq> dst \<Longrightarrow> m' x = m x" for x
      by (simp_all add: m'_def)
    have "copy_up m dst src (Suc n) a = copy_up m' (dst + 1) (src + 1) n a"
      by (simp add: m'_def)
    then show ?thesis
      using Suc.IH [of "dst + 1" "src + 1" m'] Suc.prems m' ahead at_dst
      by (cases "a = dst") (auto simp: offsets)
  qed
qed auto

lemma unat_minus_one: "0 < unat (p :: u16) \<Longrightarrow> unat (p - 1) = unat p - 1"
  by (simp add: unat_sub word_le_nat_alt)

text \<open>Downwards the pointers start behind the areas, perhaps at address \<open>2 ^ 16\<close>, which is 0.\<close>

lemma copy_down_moves:
  assumes "unat src < unat dst" "unat dst + n \<le> 65536"
  shows "copy_down m (dst + of_nat n) (src + of_nat n) n a =
    (if unat dst \<le> unat a \<and> unat a < unat dst + n then m (src + (a - dst)) else m a)"
  using assms
proof (induction n arbitrary: m)
  case (Suc n)
  let ?d = "dst + of_nat n" and ?s = "src + of_nat n"
  have d: "unat ?d = unat dst + n" and s: "unat ?s = unat src + n"
    using Suc.prems by (simp_all add: unat_word_ariths unat_of_nat)
  have at_d: "a \<noteq> ?d \<Longrightarrow> unat a \<noteq> unat dst + n"
    unfolding d [symmetric] by (simp add: word_unat_eq_iff)
  have behind: "src + (a - dst) \<noteq> ?d" if "unat dst \<le> unat a" "unat a < unat dst + n"
  proof
    assume eq: "src + (a - dst) = ?d"
    have "unat src + (unat a - unat dst) < 65536"
      using that Suc.prems by linarith
    from unat_offset [OF that(1) this] show False
      using that Suc.prems d unfolding eq by linarith
  qed
  define m' where "m' = m(?d := m ?s)"
  have m': "m' ?d = m ?s" "x \<noteq> ?d \<Longrightarrow> m' x = m x" for x
    by (simp_all add: m'_def)
  have "copy_down m (dst + of_nat (Suc n)) (src + of_nat (Suc n)) (Suc n) a = copy_down m' ?d ?s n a"
    by (simp add: m'_def algebra_simps)
  then show ?case
    using Suc.IH [of m'] Suc.prems m' at_d behind d
    by (cases "a = ?d") auto
qed auto

lemma copy_up_same: "copy_up m p p n = m"
  by (induction n arbitrary: p) simp_all

text \<open>\<open>bcopy\<close> moves: the areas may overlap.\<close>

lemma bcopy_moves_bytes:
  assumes "unat src + unat len \<le> 65536" "unat dst + unat len \<le> 65536"
  shows "bcopy m src dst len a =
    (if unat dst \<le> unat a \<and> unat a < unat dst + unat len then m (src + (a - dst)) else m a)"
proof -
  consider "len = 0" | "src = dst" | "unat dst < unat src" | "unat src < unat dst"
    by (metis linorder_neqE_nat word_unat_eq_iff)
  then show ?thesis
  proof cases
    case 3
    then show ?thesis
      using assms copy_up_moves [of dst src "unat len" m a]
      by (auto simp: bcopy_def word_less_nat_alt)
  next
    case 4
    then show ?thesis
      using assms copy_down_moves [of src dst "unat len" m a]
      by (auto simp: bcopy_def word_less_nat_alt)
  qed (auto simp: bcopy_def)
qed

section \<open>What copying a string does\<close>

lemma upt_Suc_shift: "[0..<Suc n] = 0 # map Suc [0..<n]"
  by (simp add: map_Suc_upt upt_conv_Cons del: upt_Suc)

lemma bytes_at_simps [simp]:
  "bytes_at m p 0 = []" "bytes_at m p (Suc n) = m p # bytes_at m (p + 1) n"
  by (simp_all add: bytes_at_def upt_Suc_shift o_def add.assoc del: upt_Suc)

lemma region_simps [simp]:
  "region p 0 = {}" "region p (Suc n) = insert p (region (p + 1) n)"
  by (simp_all add: region_def lessThan_Suc_eq_insert_0 image_image add.assoc)

lemma string_at_simps [simp]:
  "string_at m p [] \<longleftrightarrow> m p = 0"
  "string_at m p (c # s) \<longleftrightarrow> c \<noteq> 0 \<and> m p = c \<and> string_at m (p + 1) s"
  by (auto simp: string_at_def)

lemma start_not_in_rest: "n < 65536 - 1 \<Longrightarrow> (p :: u16) \<notin> region (p + 1) n"
proof
  assume n: "n < 65536 - 1" and "p \<in> region (p + 1) n"
  then obtain i where i: "i < n" "p = p + 1 + of_nat i"
    by (auto simp: region_def)
  then have "(of_nat (Suc i) :: u16) = 0"
    by (simp add: algebra_simps)
  then show False
    using i(1) n dvd_imp_le [of "2 ^ 16" "Suc i"] by (simp add: word_of_nat_eq_0_iff del: of_nat_Suc)
qed

lemma string_at_cong: "(\<And>a. a \<in> region p (Suc (length s)) \<Longrightarrow> m a = m' a) \<Longrightarrow> string_at m p s = string_at m' p s"
proof (induction s arbitrary: p)
  case (Cons c s)
  then have "m p = m' p" "string_at m (p + 1) s = string_at m' (p + 1) s"
    by (simp_all del: region_simps(2) add: region_simps(2) [of p])
  then show ?case by simp
qed simp

text \<open>\<open>strcpy\<close> copies the string and nothing else, when the areas do not overlap.\<close>

lemma strcpy_copies:
  assumes "string_at m s2 s" and "length s < 65536 - 1"
    and "region s1 (Suc (length s)) \<inter> region s2 (Suc (length s)) = {}"
  shows "\<exists>m'. strcpy m s1 s2 = Some (s1, m') \<and> string_at m' s1 s \<and>
    (\<forall>a. a \<notin> region s1 (Suc (length s)) \<longrightarrow> m' a = m a)"
proof -
  have "\<exists>m'. copy_string m s1 s2 = Some m' \<and> string_at m' s1 s \<and>
      (\<forall>a. a \<notin> region s1 (Suc (length s)) \<longrightarrow> m' a = m a)"
    using assms
  proof (induction s arbitrary: m s1 s2)
    case Nil
    then show ?case by (subst copy_string.simps) simp
  next
    case (Cons c s)
    define m1 where "m1 = m(s1 := c)"
    have "string_at m (s2 + 1) s = string_at m1 (s2 + 1) s"
      using Cons.prems(3) by (intro string_at_cong) (auto simp: m1_def)
    then obtain m' where m': "copy_string m1 (s1 + 1) (s2 + 1) = Some m'" "string_at m' (s1 + 1) s"
      "\<forall>a. a \<notin> region (s1 + 1) (Suc (length s)) \<longrightarrow> m' a = m1 a"
      using Cons.IH [of m1 "s2 + 1" "s1 + 1"] Cons.prems by auto
    have "s1 \<notin> region (s1 + 1) (Suc (length s))"
      using Cons.prems(2) by (intro start_not_in_rest) simp
    then have "m' s1 = c" "\<forall>a. a \<notin> region s1 (Suc (length (c # s))) \<longrightarrow> m' a = m a"
      using m'(3) by (auto simp: m1_def)
    moreover have "copy_string m s1 s2 = Some m'"
      using Cons.prems(1) m'(1) by (subst copy_string.simps) (simp add: m1_def)
    ultimately show ?case
      using m'(2) Cons.prems(1) by auto
  qed
  then show ?thesis
    by (auto simp: strcpy_def)
qed

end
