(* ===== verification/Lib_Getopt.thy ===== *)
theory Lib_Getopt
  imports Lib_Bytes
begin

text \<open>
  Option parsing: \<open>bsdlibc/stdlib/getopt.c\<close> and \<open>bsdlibc/stdlib/getsubopt.c\<close>. For \<open>getopt\<close>, which
  only reads, strings are lists of bytes and a pointer into one is the rest of the list; \<open>None\<close> is a read
  past the end of an object. \<open>getsubopt\<close> works on a memory of bytes.
\<close>

section \<open>getopt\<close>

record getopt_state =
  opterr :: int
  optind :: int
  optopt :: int
  optreset :: int
  optarg :: "u8 list option"
  place :: "u8 list"
  warnings :: "string list"

definition EMSG :: "u8 list" where
  "EMSG = [0]"

definition getopt_start :: getopt_state where
  "getopt_start =
     \<lparr>opterr = 1, optind = 1, optopt = 0, optreset = 0, optarg = None, place = EMSG, warnings = []\<rparr>"

fun deref :: "u8 list \<Rightarrow> u8 option" where
  "deref [] = None"
| "deref (c # p) = Some c"

abbreviation (input) EOF :: int where "EOF \<equiv> - 1"
abbreviation (input) BADCH :: int where "BADCH \<equiv> 0x3F"
abbreviation (input) BADARG :: int where "BADARG \<equiv> 0x3A"

definition nth_arg :: "u8 list list \<Rightarrow> int \<Rightarrow> u8 list option" where
  "nth_arg nargv i = (if 0 \<le> i \<and> i < int (length nargv) then Some (nargv ! nat i) else None)"

text \<open>
  \<open>update scanning pointer\<close>: at the end of an argument the next one is taken; \<open>True\<close> when there are no
  more options.
\<close>

definition getopt_update :: "int \<Rightarrow> u8 list list \<Rightarrow> getopt_state \<Rightarrow> (bool \<times> getopt_state) option" where
  "getopt_update nargc nargv g = do {
     stale \<leftarrow> (if optreset g \<noteq> 0 then Some True else do { c \<leftarrow> deref (place g); Some (c = 0) });
     if \<not> stale then Some (False, g)
     else do {
       let g = g\<lparr>optreset := 0\<rparr>;
       if optind g \<ge> nargc then Some (True, g\<lparr>place := EMSG\<rparr>)
       else do {
         arg \<leftarrow> nth_arg nargv (optind g);
         c \<leftarrow> deref arg;
         if c \<noteq> 0x2D then Some (True, g\<lparr>place := EMSG\<rparr>)
         else do {
           let g = g\<lparr>place := arg\<rparr>;
           c \<leftarrow> deref (tl arg);
           if c = 0 then Some (False, g)
           else do {
             let g = g\<lparr>place := tl arg\<rparr>;
             if c = 0x2D then Some (True, g\<lparr>optind := optind g + 1, place := EMSG\<rparr>)
             else Some (False, g)
           }
         }
       }
     }
   }"

definition warn :: "string \<Rightarrow> string \<Rightarrow> getopt_state \<Rightarrow> getopt_state" where
  "warn progname text g =
     g\<lparr>warnings := warnings g @
         [progname @ text @ [char_of (nat (optopt g mod 256))] @ [CHR 0x0A]]\<rparr>"

text \<open>An option letter that is not in \<open>ostr\<close>.\<close>

definition getopt_illegal :: "string \<Rightarrow> u8 list \<Rightarrow> getopt_state \<Rightarrow> (int \<times> getopt_state) option" where
  "getopt_illegal progname ostr g =
     (if optopt g = 0x2D then Some (EOF, g)
      else do {
        c \<leftarrow> deref (place g);
        let g = (if c = 0 then g\<lparr>optind := optind g + 1\<rparr> else g);
        if opterr g \<noteq> 0 then do {
          o1 \<leftarrow> deref ostr;
          Some (BADCH, if o1 \<noteq> 0x3A then warn progname '': illegal option -- '' g else g)
        }
        else Some (BADCH, g)
      })"

text \<open>An option that takes an argument: the rest of this one or the next.\<close>

definition getopt_argument ::
  "string \<Rightarrow> int \<Rightarrow> u8 list list \<Rightarrow> u8 list \<Rightarrow> getopt_state \<Rightarrow> (int \<times> getopt_state) option" where
  "getopt_argument progname nargc nargv ostr g = do {
     c \<leftarrow> deref (place g);
     if c \<noteq> 0 then
       (let g = g\<lparr>optarg := Some (place g), place := EMSG, optind := optind g + 1\<rparr>
        in Some (optopt g, g))
     else do {
       let g = g\<lparr>optind := optind g + 1\<rparr>;
       if nargc \<le> optind g then do {
         let g = g\<lparr>place := EMSG\<rparr>;
         o1 \<leftarrow> deref ostr;
         if o1 = 0x3A then Some (BADARG, g)
         else Some (BADCH,
                if opterr g \<noteq> 0 then warn progname '': option requires an argument -- '' g else g)
       }
       else do {
         arg \<leftarrow> nth_arg nargv (optind g);
         let g = g\<lparr>optarg := Some arg, place := EMSG, optind := optind g + 1\<rparr>;
         Some (optopt g, g)
       }
     }
   }"

definition getopt ::
  "string \<Rightarrow> int \<Rightarrow> u8 list list \<Rightarrow> u8 list \<Rightarrow> getopt_state \<Rightarrow> (int \<times> getopt_state) option" where
  "getopt progname nargc nargv ostr g = do {
     (over, g) \<leftarrow> getopt_update nargc nargv g;
     if over then Some (EOF, g)
     else do {
       c \<leftarrow> deref (place g);
       let g = g\<lparr>optopt := chr c, place := tl (place g)\<rparr>;
       oli \<leftarrow> (if c = 0x3A then Some Absent else index ostr c);
       case oli of
         Absent \<Rightarrow> getopt_illegal progname ostr g
       | At k \<Rightarrow> do {
           o1 \<leftarrow> deref (drop (k + 1) ostr);
           if o1 \<noteq> 0x3A then do {
             c \<leftarrow> deref (place g);
             let g = g\<lparr>optarg := None\<rparr>;
             Some (optopt g, if c = 0 then g\<lparr>optind := optind g + 1\<rparr> else g)
           }
           else getopt_argument progname nargc nargv ostr g
         }
     }
   }"

section \<open>getsubopt\<close>

definition blank_or_comma :: "u8 \<Rightarrow> bool" where
  "blank_or_comma c \<longleftrightarrow> c = 0x2C \<or> c = 0x20 \<or> c = 0x09"

partial_function (option) skip_separators :: "bytes \<Rightarrow> u16 \<Rightarrow> u16 option" where
  "skip_separators m p =
     (if m p \<noteq> 0 \<and> blank_or_comma (m p) then skip_separators m (p + 1) else Some p)"

text \<open>The end of the token whose first character is before \<open>p\<close>; the end of a value at \<open>p\<close>.\<close>

partial_function (option) skip_token :: "bytes \<Rightarrow> u16 \<Rightarrow> u16 option" where
  "skip_token m p =
     (if m p \<noteq> 0 \<and> \<not> blank_or_comma (m p) \<and> m p \<noteq> 0x3D then skip_token m (p + 1) else Some p)"

partial_function (option) skip_value :: "bytes \<Rightarrow> u16 \<Rightarrow> u16 option" where
  "skip_value m p =
     (if m p \<noteq> 0 \<and> \<not> blank_or_comma (m p) then skip_value m (p + 1) else Some p)"

partial_function (option) string_equal :: "bytes \<Rightarrow> u16 \<Rightarrow> u16 \<Rightarrow> bool option" where
  "string_equal m s1 s2 =
     (if m s1 = m s2 then (if m s1 = 0 then Some True else string_equal m (s1 + 1) (s2 + 1)) else Some False)"

fun find_token :: "bytes \<Rightarrow> u16 \<Rightarrow> u16 list \<Rightarrow> nat \<Rightarrow> int option" where
  "find_token m s [] cnt = Some (- 1)"
| "find_token m s (t # ts) cnt = do {
     eq \<leftarrow> string_equal m s t;
     if eq then Some (int cnt) else find_token m s ts (cnt + 1)
   }"

text \<open>
  \<open>optionp\<close> is the value of \<open>*optionp\<close> (the pointer to it is not NULL), \<open>tokens\<close> the pointers before the
  NULL. The result is the value returned, \<open>*optionp\<close>, \<open>*valuep\<close>, \<open>suboptarg\<close> and the memory.
\<close>

definition getsubopt ::
  "bytes \<Rightarrow> u16 \<Rightarrow> u16 list \<Rightarrow> (int \<times> u16 \<times> u16 \<times> u16 \<times> bytes) option" where
  "getsubopt m optionp tokens =
     (if optionp = 0 then Some (- 1, optionp, 0, 0, m)
      else do {
        p \<leftarrow> skip_separators m optionp;
        if m p = 0 then Some (- 1, p, 0, 0, m)
        else do {
          let suboptarg = p;
          p \<leftarrow> skip_token m (p + 1);
          (p, valuep, m) \<leftarrow>
            (if m p = 0 then Some (p, 0, m)
             else do {
               (p, valuep, m) \<leftarrow>
                 (if m p = 0x3D then do {
                    let m = m(p := 0);
                    let valuep = p + 1;
                    p \<leftarrow> skip_value m valuep;
                    Some (if m p \<noteq> 0 then (p + 1, valuep, m(p := 0)) else (p, valuep, m))
                  }
                  else Some (p + 1, 0, m(p := 0)));
               p \<leftarrow> skip_separators m p;
               Some (p, valuep, m)
             });
          cnt \<leftarrow> find_token m suboptarg tokens 0;
          Some (cnt, p, valuep, suboptarg, m)
        }
      })"

section \<open>Facts\<close>

text \<open>Without an argument left, or at one that is no option, parsing is over and nothing is consumed.\<close>

lemma getopt_over:
  assumes "place g = EMSG" "nargc \<le> optind g"
  shows "getopt progname nargc nargv ostr g = Some (EOF, g\<lparr>optreset := 0\<rparr>)"
  using assms by (simp add: getopt_def getopt_update_def EMSG_def Let_def)

lemma getopt_operand:
  assumes "place g = EMSG" "0 \<le> optind g" "optind g < nargc" "nargc = int (length nargv)"
    and "nargv ! nat (optind g) = c # cs" "c \<noteq> 0x2D"
  shows "getopt progname nargc nargv ostr g = Some (EOF, g\<lparr>optreset := 0\<rparr>)"
  using assms by (simp add: getopt_def getopt_update_def nth_arg_def EMSG_def Let_def)

text \<open>
  Options that take no argument can be clustered: \<open>-xy\<close> gives \<open>x\<close> and then \<open>y\<close>, and only then the next
  argument.
\<close>

lemma getopt_cluster:
  assumes "place g = EMSG" "0 \<le> optind g" "optind g < nargc" "nargc = int (length nargv)"
    and "nargv ! nat (optind g) = [0x2D, x, y, 0]"
    and "x \<notin> {0, 0x2D, 0x3A}" "index ostr x = Some (At i)" "drop (i + 1) ostr = o1 # o2" "o1 \<noteq> 0x3A"
    and "y \<notin> {0, 0x3A}" "index ostr y = Some (At j)" "drop (j + 1) ostr = o3 # o4" "o3 \<noteq> 0x3A"
  shows "\<exists>g1 g2. getopt progname nargc nargv ostr g = Some (chr x, g1) \<and> optind g1 = optind g \<and>
    getopt progname nargc nargv ostr g1 = Some (chr y, g2) \<and> optind g2 = optind g + 1 \<and> place g2 = EMSG"
  using assms by (simp add: getopt_def getopt_update_def nth_arg_def EMSG_def Let_def)

end
