(* ===== verification/Lib_Random.thy ===== *)
theory Lib_Random
  imports Muxx_Prelude "HOL-Library.Signed_Division"
begin

text \<open>
  The random number generator \<open>bsdlibc/gen/random.c\<close>. \<open>longs\<close> holds the \<open>long\<close> at every address a
  state array has; pointers are byte addresses, so \<open>state[i]\<close> is at \<open>state + 4 * i\<close>. The state array
  of the initial state, \<open>randtbl\<close>, is at an address of its own. Of a message to \<open>stderr\<close> its format is kept.
\<close>

section \<open>State\<close>

abbreviation (input) TYPE_0 :: u16 where "TYPE_0 \<equiv> 0"
abbreviation (input) TYPE_3 :: u16 where "TYPE_3 \<equiv> 3"
abbreviation (input) MAX_TYPES :: u16 where "MAX_TYPES \<equiv> 5"

definition degrees :: "u16 list" where
  "degrees = [0, 7, 15, 31, 63]"

definition seps :: "u16 list" where
  "seps = [0, 3, 1, 3, 1]"

definition breaks :: "int list" where
  "breaks = [8, 32, 64, 128, 256]"

definition randtbl :: "u32 list" where
  "randtbl = [3,
     0x9a319039, 0x32d9c024, 0x9b663182, 0x5da1f342,
     0xde3b81e0, 0xdf0a6fb5, 0xf103bc02, 0x48f340fb,
     0x7449e56b, 0xbeb1dbb0, 0xab5c5918, 0x946554fd,
     0x8c2e680f, 0xeb3d799f, 0xb11ee0b7, 0x2d436b86,
     0xda672e2a, 0x1588ca88, 0xe369735d, 0x904f35f7,
     0xd7158fd6, 0x6fa6f051, 0x616e6b96, 0xac94efdc,
     0x36413f93, 0xc622c298, 0xf5a42ab8, 0x8a88d77b,
     0xf5ad9d0e, 0x8999220b, 0x27fb47b9]"

record rand_state =
  longs :: "u16 \<Rightarrow> u32"
  fptr :: u16
  rptr :: u16
  state_ptr :: u16
  rand_type :: u16
  rand_deg :: u16
  rand_sep :: u16
  end_ptr :: u16
  complaints :: "string list"

abbreviation elem :: "u16 \<Rightarrow> u16 \<Rightarrow> u16" where
  "elem p i \<equiv> p + 4 * i"

definition set_long :: "u16 \<Rightarrow> u32 \<Rightarrow> rand_state \<Rightarrow> rand_state" where
  "set_long p v r = r\<lparr>longs := (longs r)(p := v)\<rparr>"

text \<open>The initial values, with \<open>randtbl\<close> at address \<open>tbl\<close>.\<close>

definition rand_start :: "u16 \<Rightarrow> (u16 \<Rightarrow> u32) \<Rightarrow> rand_state" where
  "rand_start tbl m =
     \<lparr> longs = foldl (\<lambda>m i. m(elem tbl (of_nat i) := randtbl ! i)) m [0..<32],
       fptr = elem tbl 4, rptr = elem tbl 1, state_ptr = elem tbl 1,
       rand_type = TYPE_3, rand_deg = 31, rand_sep = 3, end_ptr = elem tbl 32, complaints = [] \<rparr>"

section \<open>Numbers\<close>

definition random :: "rand_state \<Rightarrow> u32 \<times> rand_state" where
  "random r =
     (if rand_type r = TYPE_0 then
        (let i = (longs r (state_ptr r) * 1103515245 + 12345) AND 0x7FFFFFFF
         in (i, set_long (state_ptr r) i r))
      else
        (let r = set_long (fptr r) (longs r (fptr r) + longs r (rptr r)) r;
             i = signed_drop_bit 1 (longs r (fptr r)) AND 0x7FFFFFFF;
             r = r\<lparr>fptr := elem (fptr r) 1\<rparr>
         in (i,
             if fptr r \<ge> end_ptr r then r\<lparr>fptr := state_ptr r, rptr := elem (rptr r) 1\<rparr>
             else
               (let r = r\<lparr>rptr := elem (rptr r) 1\<rparr>
                in if rptr r \<ge> end_ptr r then r\<lparr>rptr := state_ptr r\<rparr> else r))))"

fun seed_loop :: "nat \<Rightarrow> u16 \<Rightarrow> rand_state \<Rightarrow> rand_state" where
  "seed_loop 0 i r = r"
| "seed_loop (Suc n) i r =
     seed_loop n (i + 1)
       (set_long (elem (state_ptr r) i) (1103515245 * longs r (elem (state_ptr r) (i - 1)) + 12345) r)"

definition srandom :: "u16 \<Rightarrow> rand_state \<Rightarrow> rand_state" where
  "srandom x r =
     (if rand_type r = TYPE_0 then set_long (state_ptr r) (ucast x) r
      else
        (let r = set_long (state_ptr r) (ucast x) r;
             r = seed_loop (unat (rand_deg r) - 1) 1 r;
             r = r\<lparr>fptr := elem (state_ptr r) (rand_sep r), rptr := elem (state_ptr r) 0\<rparr>
         in ((\<lambda>r. snd (random r)) ^^ (10 * unat (rand_deg r))) r))"

section \<open>Switching states\<close>

text \<open>\<open>state[-1]\<close> keeps the type and the position of \<open>rptr\<close>.\<close>

definition save_state :: "rand_state \<Rightarrow> rand_state" where
  "save_state r =
     set_long (state_ptr r - 4)
       (scast (if rand_type r = TYPE_0 then rand_type r
               else MAX_TYPES * word_of_int (sint (rptr r - state_ptr r) sdiv 4) + rand_type r)) r"

definition set_type :: "nat \<Rightarrow> rand_state \<Rightarrow> rand_state" where
  "set_type t r = r\<lparr>rand_type := of_nat t, rand_deg := degrees ! t, rand_sep := seps ! t\<rparr>"

definition type_for :: "int \<Rightarrow> nat" where
  "type_for n =
     (if n < breaks ! 1 then 0
      else if n < breaks ! 2 then 1
      else if n < breaks ! 3 then 2
      else if n < breaks ! 4 then 3
      else 4)"

text \<open>\<open>None\<close> is a \<open>return\<close> without a value.\<close>

definition initstate :: "u16 \<Rightarrow> u16 \<Rightarrow> int \<Rightarrow> rand_state \<Rightarrow> u16 option \<times> rand_state" where
  "initstate seed arg_state n r =
     (let ostate = state_ptr r - 4;
          r = save_state r
      in if n < breaks ! 0 then
           (None, r\<lparr>complaints := complaints r @ [''initstate: not enough state (%d bytes) with which to do jack; ignored.''] \<rparr>)
         else
           (let r = set_type (type_for n) r;
                r = r\<lparr>state_ptr := elem arg_state 1\<rparr>;
                r = r\<lparr>end_ptr := elem (state_ptr r) (rand_deg r)\<rparr>;
                r = srandom seed r
            in (Some ostate, save_state r)))"

definition setstate :: "u16 \<Rightarrow> rand_state \<Rightarrow> u16 \<times> rand_state" where
  "setstate arg_state r =
     (let type = sint (word_of_int (sint (longs r arg_state) smod 5) :: u16);
          rear = word_of_int (sint (longs r arg_state) sdiv 5) :: u16;
          ostate = state_ptr r - 4;
          r = save_state r;
          r = (if 0 \<le> type \<and> type \<le> 4 then set_type (nat type) r
               else r\<lparr>complaints := complaints r @ [''setstate: state info has been munged; not changed.'']\<rparr>);
          r = r\<lparr>state_ptr := elem arg_state 1\<rparr>;
          r = (if rand_type r \<noteq> TYPE_0
               then r\<lparr>rptr := elem (state_ptr r) rear,
                      fptr := elem (state_ptr r)
                        (word_of_int (sint (rear + rand_sep r) smod sint (rand_deg r)))\<rparr>
               else r)
      in (ostate, r\<lparr>end_ptr := elem (state_ptr r) (rand_deg r)\<rparr>))"

section \<open>Facts\<close>

text \<open>A number has 31 bits.\<close>

lemma random_31_bits: "\<not> bit (fst (random r)) 31"
  by (simp add: random_def Let_def bit_simps)

text \<open>The pointers stay in the state array, \<open>rand_sep\<close> elements apart.\<close>

definition pointers_at :: "nat \<Rightarrow> rand_state \<Rightarrow> bool" where
  "pointers_at j r \<longleftrightarrow>
     (let d = unat (rand_deg r)
      in rand_type r \<noteq> TYPE_0 \<and> j < d \<and> 0 < unat (rand_sep r) \<and> unat (rand_sep r) < d \<and>
         unat (state_ptr r) + 4 * d < 2 ^ 16 \<and>
         end_ptr r = elem (state_ptr r) (rand_deg r) \<and>
         rptr r = elem (state_ptr r) (of_nat j) \<and>
         fptr r = elem (state_ptr r) (of_nat ((j + unat (rand_sep r)) mod d)))"

lemma elem_unat:
  assumes "unat p + 4 * n < 2 ^ 16"
  shows "unat (elem p (of_nat n)) = unat p + 4 * n"
proof -
  have "elem p (of_nat n) = word_of_nat (unat p + 4 * n)"
    by simp
  then show ?thesis
    using assms by (simp only: unat_of_nat) simp
qed

lemma elem_Suc: "elem (elem p (of_nat n)) 1 = elem p (of_nat (Suc n))"
  by (simp add: algebra_simps)

lemma random_keeps:
  "rand_type (snd (random r)) = rand_type r" "rand_deg (snd (random r)) = rand_deg r"
  "rand_sep (snd (random r)) = rand_sep r" "state_ptr (snd (random r)) = state_ptr r"
  "end_ptr (snd (random r)) = end_ptr r"
  by (simp_all add: random_def Let_def set_long_def)

lemma random_advances:
  assumes "rand_type r \<noteq> TYPE_0"
  shows "fptr (snd (random r)) = (if elem (fptr r) 1 \<ge> end_ptr r then state_ptr r else elem (fptr r) 1)"
    and "rptr (snd (random r)) =
      (if \<not> elem (fptr r) 1 \<ge> end_ptr r \<and> elem (rptr r) 1 \<ge> end_ptr r then state_ptr r
       else elem (rptr r) 1)"
  using assms by (simp_all add: random_def Let_def set_long_def)

lemma random_pointers:
  assumes "pointers_at j r"
  shows "pointers_at (Suc j mod unat (rand_deg r)) (snd (random r))"
proof -
  define d where "d = unat (rand_deg r)"
  define k where "k = (j + unat (rand_sep r)) mod d"
  note r = assms [unfolded pointers_at_def Let_def, folded d_def, folded k_def]
  have deg: "rand_deg r = of_nat d"
    by (simp add: d_def)
  have k: "k < d" "(Suc j + unat (rand_sep r)) mod d = Suc k mod d"
    using r by (simp_all add: k_def mod_Suc_eq)
  have cmp: "elem (state_ptr r) (of_nat (Suc i)) \<ge> end_ptr r \<longleftrightarrow> Suc i = d" if "i < d" for i
  proof -
    have "unat (state_ptr r) + 4 * Suc i < 2 ^ 16" "unat (state_ptr r) + 4 * d < 2 ^ 16"
      using r that by auto
    from elem_unat [OF this(1)] elem_unat [OF this(2)] show ?thesis
      using r that by (auto simp: word_le_nat_alt deg)
  qed
  have apart: "\<not> (Suc k = d \<and> Suc j = d)"
  proof
    assume full: "Suc k = d \<and> Suc j = d"
    then have "j + unat (rand_sep r) = d + (unat (rand_sep r) - 1)"
      using r by linarith
    then have "k = (unat (rand_sep r) - 1) mod d"
      unfolding k_def by (simp only: mod_add_self1)
    moreover have "unat (rand_sep r) - 1 < d"
      using r by linarith
    ultimately have "k = unat (rand_sep r) - 1"
      by simp
    then show False
      using full r by simp
  qed
  have j: "j < d" and ty: "rand_type r \<noteq> TYPE_0"
    using r by auto
  have fptr: "elem (fptr r) 1 = elem (state_ptr r) (of_nat (Suc k))"
    and rptr: "elem (rptr r) 1 = elem (state_ptr r) (of_nat (Suc j))"
    using r elem_Suc by auto
  have "fptr (snd (random r)) = elem (state_ptr r) (of_nat (Suc k mod d))"
    unfolding random_advances [OF ty] fptr cmp [OF k(1)] using k(1) by (auto simp: mod_Suc)
  moreover have "rptr (snd (random r)) = elem (state_ptr r) (of_nat (Suc j mod d))"
    unfolding random_advances [OF ty] fptr rptr cmp [OF k(1)] cmp [OF j] using apart j
    by (auto simp: mod_Suc)
  moreover have "(Suc j mod d + unat (rand_sep r)) mod d = Suc k mod d"
    using k(2) by (simp only: mod_add_left_eq)
  ultimately show ?thesis
    using r j
    unfolding pointers_at_def Let_def random_keeps d_def [symmetric] by simp
qed

end
