(* ===== verification/Lib_Malloc.thy ===== *)
theory Lib_Malloc
  imports Muxx_Prelude
begin

text \<open>
  The storage allocator of the user library, \<open>lib/gen/malloc.c\<close> and \<open>lib/gen/calloc.c\<close>, with the
  \<open>sbrk\<close> of MUXX (\<open>lib/pdp11/sbrk.s\<close>). An arena cell (\<open>union store\<close>) is one word; \<open>cells\<close> holds the
  word at every address. A cell contains the address of the next block's cell, with bit 0 set when
  the block is busy. Pointers are addresses, so adding \<open>n\<close> cells adds \<open>2 * n\<close>, modulo \<open>2 ^ 16\<close>.
  The assertions are empty (\<open>debug\<close> is not defined); the granule is that of the PDP-11.

  \<open>sbrk\<close> is an argument of \<open>malloc\<close>. The loops run with fuel; \<open>Diverges\<close> is their end without a result.
\<close>

section \<open>The arena\<close>

record arena =
  allocs :: u16       \<comment> \<open>address of the static \<open>allocs[2]\<close>\<close>
  cells :: "u16 \<Rightarrow> u16"
  allocp :: u16
  alloct :: u16
  allocx :: u16

text \<open>The static variables at the start of a program, with \<open>allocs\<close> at address \<open>p\<close>.\<close>

definition fresh_arena :: "u16 \<Rightarrow> arena" where
  "fresh_arena p = \<lparr>allocs = p, cells = \<lambda>_. 0, allocp = 0, alloct = 0, allocx = 0\<rparr>"

definition testbusy :: "u16 \<Rightarrow> bool" where
  "testbusy p = (p AND 1 \<noteq> 0)"

definition setbusy :: "u16 \<Rightarrow> u16" where
  "setbusy p = p OR 1"

definition clearbusy :: "u16 \<Rightarrow> u16" where
  "clearbusy p = p AND NOT 1"

definition set_cell :: "u16 \<Rightarrow> u16 \<Rightarrow> arena \<Rightarrow> arena" where
  "set_cell p v a = a\<lparr>cells := (cells a)(p := v)\<rparr>"

abbreviation (input) BLOCK :: u16 where "BLOCK \<equiv> 1024"
abbreviation (input) GRANULE :: u16 where "GRANULE \<equiv> 64"

definition sbrk :: "u16 \<Rightarrow> u16 \<Rightarrow> u16" where
  "sbrk toptask incr = (if incr = 0 then toptask else - 1)"

section \<open>Searching\<close>

text \<open>\<open>while (!testbusy((q = p->ptr)->ptr)) p->ptr = q->ptr\<close>: the free blocks behind \<open>p\<close> are joined to it.\<close>

fun coalesce :: "nat \<Rightarrow> u16 \<Rightarrow> arena \<Rightarrow> (u16, arena) outcome" where
  "coalesce 0 p a = Stop Diverges a"
| "coalesce (Suc fuel) p a =
     (let q = cells a p
      in if \<not> testbusy (cells a q) then coalesce fuel p (set_cell p (cells a q) a) else Ret q a)"

text \<open>
  The search for \<open>nw\<close> cells from \<open>p\<close> on: a free block of the size and the cell behind it, a broken
  chain, or the second time the end of the arena was passed.
\<close>

datatype search = Found u16 u16 | Broken | Passed u16

fun search_arena :: "nat \<Rightarrow> u16 \<Rightarrow> u16 \<Rightarrow> int \<Rightarrow> arena \<Rightarrow> (search, arena) outcome" where
  "search_arena 0 nw p temp a = Stop Diverges a"
| "search_arena (Suc fuel) nw p temp a =
     andthen
       (if \<not> testbusy (cells a p) then
          andthen (coalesce fuel p a) (\<lambda>q.
            Ret (if q \<ge> p + 2 * nw \<and> p + 2 * nw \<ge> p then Some (Found p q) else None))
        else Ret None a)
       (\<lambda>found a. case found of
          Some r \<Rightarrow> Ret r a
        | None \<Rightarrow>
            (let q = p; p = clearbusy (cells a p)
             in if p > q then search_arena fuel nw p temp a
                else if q \<noteq> alloct a \<or> p \<noteq> allocs a then Ret Broken a
                else if temp + 1 > 1 then Ret (Passed p) a
                else search_arena fuel nw p (temp + 1) a))"

text \<open>New memory is put behind the top of the arena.\<close>

definition grow_size :: "u16 \<Rightarrow> u16 \<Rightarrow> u16" where
  "grow_size q nw = (((q + 2 * nw + BLOCK - 1) div BLOCK) * BLOCK - q) div 2"

definition grow_arena :: "u16 \<Rightarrow> u16 \<Rightarrow> arena \<Rightarrow> arena" where
  "grow_arena q temp a =
     (let t = alloct a;
          a = set_cell t q a;
          a = (if q \<noteq> t + 2 then set_cell t (setbusy (cells a t)) a else a);
          t = q + 2 * (temp - 1);
          a = (set_cell q t a)\<lparr>alloct := t\<rparr>
      in set_cell t (setbusy (allocs a)) a)"

definition take_block :: "u16 \<Rightarrow> u16 \<Rightarrow> u16 \<Rightarrow> arena \<Rightarrow> (u16, arena) outcome" where
  "take_block p q nw a =
     (let ap = p + 2 * nw;
          a = a\<lparr>allocp := ap\<rparr>;
          a = (if q > ap then set_cell ap (cells a p) (a\<lparr>allocx := cells a ap\<rparr>) else a)
      in Ret (p + 2) (set_cell p (setbusy ap) a))"

fun alloc_loop ::
  "nat \<Rightarrow> (u16 \<Rightarrow> u16) \<Rightarrow> u16 \<Rightarrow> u16 \<Rightarrow> arena \<Rightarrow> (u16, arena) outcome" where
  "alloc_loop 0 brk nw p a = Stop Diverges a"
| "alloc_loop (Suc fuel) brk nw p a =
     andthen (search_arena fuel nw p 0 a) (\<lambda>r a.
       case r of
         Found p q \<Rightarrow> take_block p q nw a
       | Broken \<Rightarrow> Ret 0 a
       | Passed p \<Rightarrow>
           (let q = brk 0; temp = grow_size q nw
            in if q + 2 * (temp + GRANULE) < q then Ret 0 a
               else let q = brk (temp * 2)
                    in if q = - 1 then Ret 0 a
                       else alloc_loop fuel brk nw p (grow_arena q temp a)))"

definition init_arena :: "arena \<Rightarrow> arena" where
  "init_arena a =
     (if cells a (allocs a) = 0
      then (set_cell (allocs a + 2) (setbusy (allocs a))
             (set_cell (allocs a) (setbusy (allocs a + 2)) a))
           \<lparr>alloct := allocs a + 2, allocp := allocs a\<rparr>
      else a)"

definition malloc :: "nat \<Rightarrow> (u16 \<Rightarrow> u16) \<Rightarrow> u16 \<Rightarrow> arena \<Rightarrow> (u16, arena) outcome" where
  "malloc fuel brk nbytes a =
     (if nbytes = 0 then Ret 0 a
      else let a = init_arena a; nw = (nbytes + 2 + 2 - 1) div 2
           in alloc_loop fuel brk nw (allocp a) a)"

section \<open>Giving back and changing the size\<close>

definition free :: "u16 \<Rightarrow> arena \<Rightarrow> arena" where
  "free ap a = (let p = ap - 2; a = a\<lparr>allocp := p\<rparr> in set_cell p (clearbusy (cells a p)) a)"

text \<open>\<open>while (onw-- != 0) *t++ = *s++\<close>\<close>

fun copy_cells :: "nat \<Rightarrow> u16 \<Rightarrow> u16 \<Rightarrow> arena \<Rightarrow> arena" where
  "copy_cells 0 t s a = a"
| "copy_cells (Suc onw) t s a = copy_cells onw (t + 2) (s + 2) (set_cell t (cells a s) a)"

definition realloc :: "nat \<Rightarrow> (u16 \<Rightarrow> u16) \<Rightarrow> u16 \<Rightarrow> u16 \<Rightarrow> arena \<Rightarrow> (u16, arena) outcome" where
  "realloc fuel brk p nbytes a =
     (let a = (if testbusy (cells a (p - 2)) then free p a else a);
          onw = signed_drop_bit 1 (cells a (p - 2) - p)
      in andthen (malloc fuel brk nbytes a) (\<lambda>q a.
           if q = 0 \<or> q = p then Ret q a
           else let nw = (nbytes + 2 - 1) div 2;
                    onw = (if nw < onw then nw else onw);
                    a = copy_cells (unat onw) q p a
                in Ret q (if q < p \<and> q + 2 * nw \<ge> p
                          then set_cell (q + 2 * signed_drop_bit 1 (q + 2 * nw - p)) (allocx a) a else a)))"

text \<open>The product is not checked; \<open>bzero\<close> clears bytes, here the cells that hold them.\<close>

definition bzero_cells :: "u16 \<Rightarrow> u16 \<Rightarrow> arena \<Rightarrow> arena" where
  "bzero_cells p len a =
     a\<lparr>cells := (\<lambda>x. if even x then
         word_cat (if unat (x + 1 - p) < unat len then 0 else ucast (drop_bit 8 (cells a x)) :: u8)
           (if unat (x - p) < unat len then 0 else ucast (cells a x) :: u8)
       else cells a x)\<rparr>"

definition calloc :: "nat \<Rightarrow> (u16 \<Rightarrow> u16) \<Rightarrow> u16 \<Rightarrow> u16 \<Rightarrow> arena \<Rightarrow> (u16, arena) outcome" where
  "calloc fuel brk num len a =
     (let len = len * num
      in andthen (malloc fuel brk len a) (\<lambda>p a. Ret p (if p \<noteq> 0 then bzero_cells p len a else a)))"

section \<open>An arena without memory\<close>

text \<open>
  Before the first call the cell at \<open>allocs\<close> is 0; afterwards the arena consists of the two busy
  cells of \<open>allocs\<close> as long as \<open>sbrk\<close> gives no memory.
\<close>

definition bare_arena :: "arena \<Rightarrow> bool" where
  "bare_arena a \<longleftrightarrow>
     cells a (allocs a) = setbusy (allocs a + 2) \<and> cells a (allocs a + 2) = setbusy (allocs a) \<and>
     alloct a = allocs a + 2 \<and> allocp a = allocs a"

definition arena_exhausted :: "arena \<Rightarrow> bool" where
  "arena_exhausted a \<longleftrightarrow>
     even (allocs a) \<and> 0 < allocs a \<and> allocs a < - 2 \<and> (cells a (allocs a) = 0 \<or> bare_arena a)"

lemma busy_bits [simp]:
  "testbusy (setbusy p)" "even p \<Longrightarrow> clearbusy (setbusy p) = p" "setbusy p \<noteq> 0"
proof -
  have b: "bit (setbusy p) 0" by (simp only: setbusy_def bit_or_iff) simp
  then show "setbusy p \<noteq> 0" by auto
  show "testbusy (setbusy p)"
    using b by (simp add: testbusy_def and_one_eq bit_0 odd_iff_mod_2_eq_one)
  show "even p \<Longrightarrow> clearbusy (setbusy p) = p"
    by (auto simp: clearbusy_def setbusy_def bit_simps bit_0 bit_1_iff intro!: bit_word_eqI)
qed

lemma init_arena_bare:
  assumes "arena_exhausted a"
  shows "bare_arena (init_arena a)" and "allocs (init_arena a) = allocs a"
proof -
  have "allocs a + 2 \<noteq> allocs a" by simp
  then show "bare_arena (init_arena a)" using assms
    by (auto simp: arena_exhausted_def bare_arena_def init_arena_def set_cell_def)
  show "allocs (init_arena a) = allocs a" by (simp add: init_arena_def set_cell_def)
qed

lemma search_bare:
  assumes "bare_arena a" and "even (allocs a)" and "allocs a < - 2"
  shows "search_arena (fuel + 4) nw (allocs a) 0 a = Ret (Passed (allocs a)) a"
proof -
  have up: "allocs a < allocs a + 2"
    using assms(3) by (simp add: word_less_nat_alt unat_word_ariths)
  have ev: "even (allocs a + 2)" using assms(2) by simp
  have nup: "\<not> allocs a + 2 < allocs a" using up by (simp add: not_less less_imp_le)
  note bare = assms(1) [unfolded bare_arena_def]
  have top: "search_arena (Suc n) nw (allocs a + 2) t a =
      (if t + 1 > 1 then Ret (Passed (allocs a)) a else search_arena n nw (allocs a) (t + 1) a)" for n t
    using bare assms(2) nup by (simp add: Let_def)
  have low: "search_arena (Suc n) nw (allocs a) t a = search_arena n nw (allocs a + 2) t a" for n t
    using bare ev up by (simp add: Let_def)
  have "fuel + 4 = Suc (Suc (Suc (Suc fuel)))" by simp
  then show ?thesis by (simp only: low top) simp
qed

text \<open>The request to \<open>sbrk\<close> is never one for 0 bytes, which would be granted.\<close>

lemma grow_size_nonzero:
  assumes "nbytes \<noteq> 0" and "nbytes \<le> 64000"
  shows "grow_size q ((nbytes + 2 + 2 - 1) div 2) * 2 \<noteq> 0"
proof
  let ?nw = "(nbytes + 2 + 2 - 1) div 2 :: u16"
  let ?r = "q + 2 * ?nw + BLOCK - 1"
  let ?d = "(?r div BLOCK) * BLOCK - q"
  assume z: "grow_size q ?nw * 2 = 0"
  have nb: "unat nbytes \<le> 64000" using assms(2) by (simp add: word_le_nat_alt)
  have "unat (nbytes + 2 + 2 - 1) = unat nbytes + 3"
    using nb by (simp add: unat_word_ariths)
  then have nw: "unat ?nw = (unat nbytes + 3) div 2" by (simp add: unat_div)
  then have nw2: "unat (2 * ?nw) = 2 * ((unat nbytes + 3) div 2)"
    using nb by (simp add: unat_word_ariths)
  have "unat ?d div 2 * 2 < 2 ^ 16"
    using unsigned_less [where 'a = nat, of ?d] by simp
  moreover have "unat (?d div 2) = unat ?d div 2" by (simp add: unat_div)
  ultimately have "unat (?d div 2 * 2) = unat ?d div 2 * 2" by (simp add: unat_word_ariths)
  then have d: "unat ?d \<le> 1" using z by (simp add: grow_size_def)
  have "?r = (?r div BLOCK) * BLOCK + ?r mod BLOCK" by (simp add: word_mod_div_equality)
  then have "2 * ?nw + (BLOCK - 1) = ?d + ?r mod BLOCK" by (simp add: algebra_simps)
  moreover have "unat (?r mod BLOCK) < 1024" by (simp add: unat_mod)
  ultimately have "unat (2 * ?nw + (BLOCK - 1)) \<le> 1024"
    using d by (simp add: unat_word_ariths)
  moreover have "2 \<le> (unat nbytes + 3) div 2"
    using assms(1) div_le_mono [of 4 "unat nbytes + 3" 2] by (simp add: unat_gt_0 Suc_le_eq)
  ultimately show False using nw2 nb by (simp add: unat_word_ariths)
qed

lemma malloc_exhausted:
  assumes "arena_exhausted a" and "nbytes \<le> 64000"
  shows "\<exists>a'. malloc (fuel + 5) (sbrk toptask) nbytes a = Ret 0 a' \<and> arena_exhausted a' \<and> allocs a' = allocs a"
proof (cases "nbytes = 0")
  case True
  with assms show ?thesis by (simp add: malloc_def)
next
  case False
  let ?a = "init_arena a" and ?nw = "(nbytes + 2 + 2 - 1) div 2"
  have bare: "bare_arena ?a" "allocs ?a = allocs a" using init_arena_bare [OF assms(1)] by auto
  have ok: "even (allocs ?a)" "allocs ?a < - 2" "0 < allocs ?a"
    using assms(1) bare(2) by (auto simp: arena_exhausted_def)
  have "allocp ?a = allocs ?a" using bare(1) by (simp add: bare_arena_def)
  moreover have "grow_size toptask ?nw * 2 \<noteq> 0" using grow_size_nonzero [OF False assms(2)] .
  moreover have "fuel + 5 = Suc (fuel + 4)" by simp
  ultimately have "malloc (fuel + 5) (sbrk toptask) nbytes a = Ret 0 ?a"
    using False search_bare [OF bare(1) ok(1,2), of fuel ?nw]
    by (simp only: malloc_def Let_def alloc_loop.simps) (simp add: sbrk_def)
  with bare ok show ?thesis by (auto simp: arena_exhausted_def)
qed

lemma fresh_arena_exhausted: "even p \<Longrightarrow> 0 < p \<Longrightarrow> p < - 2 \<Longrightarrow> arena_exhausted (fresh_arena p)"
  by (simp add: arena_exhausted_def fresh_arena_def)

end
