(* ===== verification/Lib_Regex.thy ===== *)
theory Lib_Regex
  imports Lib_String
begin

text \<open>
  Regular expressions of the C library (\<open>bsdlibc/gen/regex.c\<close>): \<open>re_comp\<close> compiles a pattern into the
  static \<open>expbuf\<close>, \<open>re_exec\<close> runs it with backtracking. A string is the list of its bytes, NUL included;
  \<open>None\<close> stands for an access outside the string or the buffer, or for a loop that does not end. The
  expression in \<open>expbuf\<close> is the list of its bytes.
\<close>

section \<open>The code of a pattern\<close>

abbreviation (input) CBRA :: u8 where "CBRA \<equiv> 1"
abbreviation (input) CCHR :: u8 where "CCHR \<equiv> 2"
abbreviation (input) CDOT :: u8 where "CDOT \<equiv> 4"
abbreviation (input) CCL :: u8 where "CCL \<equiv> 6"
abbreviation (input) NCCL :: u8 where "NCCL \<equiv> 8"
abbreviation (input) CDOL :: u8 where "CDOL \<equiv> 10"
abbreviation (input) CEOF :: u8 where "CEOF \<equiv> 11"
abbreviation (input) CKET :: u8 where "CKET \<equiv> 12"
abbreviation (input) CBACK :: u8 where "CBACK \<equiv> 18"
abbreviation (input) CSTAR :: u8 where "CSTAR \<equiv> 1"
abbreviation (input) ESIZE :: nat where "ESIZE \<equiv> 512"
abbreviation (input) NBRA :: nat where "NBRA \<equiv> 9"

datatype compiled = Expr "u8 list" | Wrong string | Beyond

text \<open>Too long: the bytes written so far fill the buffer, or already more than that.\<close>

definition retoolong :: "u8 list \<Rightarrow> compiled" where
  "retoolong buf = (if length buf > ESIZE then Beyond else Wrong ''Regular expression too long'')"

text \<open>A range: all characters from the one behind the last to \<open>c\<close>.\<close>

function fill_range :: "u8 \<Rightarrow> u8 list \<Rightarrow> int \<Rightarrow> u8 list \<times> int \<times> bool" where
  "fill_range c buf cclcnt =
     (if chr (last buf) < chr c then
        let buf = buf @ [last buf + 1]; cclcnt = cclcnt + 1
        in if length buf \<ge> ESIZE then (buf, cclcnt, False) else fill_range c buf cclcnt
      else (buf, cclcnt, True))"
  by pat_completeness auto
termination by (relation "measure (\<lambda>(c, buf, cclcnt). ESIZE - length buf)") auto

declare fill_range.simps [simp del]

datatype class_end = Class "u8 list" int "u8 list" | Stop_class compiled

text \<open>One turn of the loop: the class ends here, or the next character with the rest of the text.\<close>

definition class_add :: "u8 \<Rightarrow> u8 list \<Rightarrow> u8 list \<Rightarrow> int \<Rightarrow> class_end + u8 \<times> u8 list \<times> u8 list \<times> int" where
  "class_add c sp buf cclcnt =
     (let buf = buf @ [c]; cclcnt = cclcnt + 1
      in if length buf \<ge> ESIZE then Inl (Stop_class (retoolong buf))
         else case sp of
                [] \<Rightarrow> Inl (Stop_class Beyond)
              | d # sp \<Rightarrow> if d \<noteq> 0x5D then Inr (d, sp, buf, cclcnt) else Inl (Class buf cclcnt sp))"

definition class_step :: "u8 \<Rightarrow> u8 list \<Rightarrow> u8 list \<Rightarrow> int \<Rightarrow> class_end + u8 \<times> u8 list \<times> u8 list \<times> int" where
  "class_step c sp buf cclcnt =
     (if c = 0 then Inl (Stop_class (Wrong ''missing ]''))
      else if c = 0x2D \<and> last buf \<noteq> 0 then
        case sp of
          [] \<Rightarrow> Inl (Stop_class Beyond)
        | c # sp \<Rightarrow>
            if c = 0x5D then Inl (Class (buf @ [0x2D]) (cclcnt + 1) sp)
            else
              (case fill_range c buf cclcnt of (buf, cclcnt, fits) \<Rightarrow>
                 if fits then class_add c sp buf cclcnt else Inl (Stop_class (retoolong buf)))
      else class_add c sp buf cclcnt)"

lemma class_add_shorter:
  "class_add c sp buf n = Inr (c', sp', b', n') \<Longrightarrow> length sp' < length sp"
  "class_add c sp buf n = Inl (Class b' n' sp') \<Longrightarrow> length sp' < length sp"
  by (auto simp: class_add_def Let_def split: if_splits list.splits)

lemma class_step_shorter:
  "class_step c sp buf n = Inr (c', sp', b', n') \<Longrightarrow> length sp' < length sp"
  "class_step c sp buf n = Inl (Class b' n' sp') \<Longrightarrow> length sp' < length sp"
  by (fastforce simp: class_step_def split: if_splits list.splits prod.splits dest: class_add_shorter)+

function class_loop :: "u8 \<Rightarrow> u8 list \<Rightarrow> u8 list \<Rightarrow> int \<Rightarrow> class_end" where
  "class_loop c sp buf cclcnt =
     (case class_step c sp buf cclcnt of
        Inl r \<Rightarrow> r
      | Inr (c, sp, buf, cclcnt) \<Rightarrow> class_loop c sp buf cclcnt)"
  by pat_completeness auto
termination
  by (relation "measure (\<lambda>(c, sp, buf, cclcnt). length sp)") (auto dest: class_step_shorter)

declare class_loop.simps [simp del]

lemma class_loop_shorter: "class_loop c sp buf n = Class buf' n' sp' \<Longrightarrow> length sp' < length sp"
proof (induction c sp buf n rule: class_loop.induct)
  case (1 c sp buf n)
  show ?case
  proof (cases "class_step c sp buf n")
    case (Inl r)
    with 1(2) class_step_shorter(2) [of c sp buf n buf' n' sp'] show ?thesis
      by (simp add: class_loop.simps [of c sp buf n])
  next
    case (Inr r)
    obtain c1 sp1 b1 n1 where r: "r = (c1, sp1, b1, n1)" by (cases r) auto
    have "class_loop c1 sp1 b1 n1 = Class buf' n' sp'"
      using 1(2) Inr r by (simp add: class_loop.simps [of c sp buf n])
    then have "length sp' < length sp1" by (rule 1(1) [OF Inr [unfolded r] refl refl refl])
    with class_step_shorter(1) [OF Inr [unfolded r]] show ?thesis by simp
  qed
qed

text \<open>
  The state of \<open>re_comp\<close>: the bytes up to \<open>ep\<close>, \<open>lastep\<close>, \<open>numbra\<close> and the open brackets, the
  innermost first.
\<close>

record comp =
  cbuf :: "u8 list"
  lastep :: "nat option"
  numbra :: nat
  bracket :: "nat list"

definition emit :: "u8 list \<Rightarrow> comp \<Rightarrow> comp" where
  "emit bs s = s\<lparr>cbuf := cbuf s @ bs\<rparr>"

definition star_last :: "nat \<Rightarrow> comp \<Rightarrow> comp" where
  "star_last p s = s\<lparr>cbuf := (cbuf s)[p := cbuf s ! p OR CSTAR]\<rparr>"

text \<open>What stands behind a backslash.\<close>

definition re_escape :: "u8 \<Rightarrow> comp \<Rightarrow> compiled + comp" where
  "re_escape c s =
     (if c = 0x28 then
        if numbra s \<ge> NBRA then Inl (Wrong (''too many '' @ [CHR 0x5C] @ ''('' @ [CHR 0x5C] @ '') pairs''))
        else Inr (emit [CBRA, of_nat (numbra s)] (s\<lparr>bracket := numbra s # bracket s, numbra := numbra s + 1\<rparr>))
      else if c = 0x29 then
        (case bracket s of
           [] \<Rightarrow> Inl (Wrong (''unmatched '' @ [CHR 0x5C] @ '')''))
         | b # bs \<Rightarrow> Inr (emit [CKET, of_nat b] (s\<lparr>bracket := bs\<rparr>)))
      else if chr c \<ge> 0x31 \<and> chr c < 0x31 + int NBRA then Inr (emit [CBACK, c - 0x31] s)
      else Inr (emit [CCHR, c] s))"

function re_loop :: "u8 list \<Rightarrow> comp \<Rightarrow> compiled" where
  "re_loop [] s = (if length (cbuf s) \<ge> ESIZE then retoolong (cbuf s) else Beyond)"
| "re_loop (c # sp) s =
     (if length (cbuf s) \<ge> ESIZE then retoolong (cbuf s)
      else if c = 0 then
        (if bracket s \<noteq> [] then Wrong (''unmatched '' @ [CHR 0x5C] @ ''('') else Expr (cbuf s @ [CEOF, 0]))
      else
        let s = (if c \<noteq> 0x2A then s\<lparr>lastep := Some (length (cbuf s))\<rparr> else s)
        in if c = 0x2E then re_loop sp (emit [CDOT] s)
           else if c = 0x2A then
             (case lastep s of
                None \<Rightarrow> re_loop sp (emit [CCHR, c] s)
              | Some p \<Rightarrow>
                  if cbuf s ! p = CBRA \<or> cbuf s ! p = CKET then re_loop sp (emit [CCHR, c] s)
                  else re_loop sp (star_last p s))
           else if c = 0x24 then
             (case sp of
                [] \<Rightarrow> Beyond
              | d # _ \<Rightarrow> if d \<noteq> 0 then re_loop sp (emit [CCHR, c] s) else re_loop sp (emit [CDOL] s))
           else if c = 0x5B then
             (case sp of
                [] \<Rightarrow> Beyond
              | d # sp' \<Rightarrow>
                  if d = 0x5E then
                    case sp' of
                      [] \<Rightarrow> Beyond
                    | e # sp'' \<Rightarrow>
                        (case class_loop e sp'' (cbuf s @ [NCCL, 0]) 1 of
                           Class buf n sp1 \<Rightarrow> re_loop sp1 (s\<lparr>cbuf := buf[length (cbuf s) + 1 := word_of_int n]\<rparr>)
                         | Stop_class r \<Rightarrow> r)
                  else
                    (case class_loop d sp' (cbuf s @ [CCL, 0]) 1 of
                       Class buf n sp1 \<Rightarrow> re_loop sp1 (s\<lparr>cbuf := buf[length (cbuf s) + 1 := word_of_int n]\<rparr>)
                     | Stop_class r \<Rightarrow> r))
           else if c = 0x5C then
             (case sp of
                [] \<Rightarrow> Beyond
              | d # sp \<Rightarrow> (case re_escape d s of Inl r \<Rightarrow> r | Inr s \<Rightarrow> re_loop sp s))
           else re_loop sp (emit [CCHR, c] s))"
  by pat_completeness auto
termination
  by (relation "measure (\<lambda>(sp, s). length sp)") (auto dest!: class_loop_shorter)

text \<open>
  The static variables. A message is an error; then the expression is no longer there, its first byte
  is 0.
\<close>

record re_state =
  expbuf :: "u8 list"
  circf :: bool
  braslist :: "nat \<Rightarrow> nat option"
  braelist :: "nat \<Rightarrow> nat option"

definition re_comp :: "u8 list option \<Rightarrow> re_state \<Rightarrow> (string option \<times> re_state) option" where
  "re_comp sp s =
     (case sp of
        Some [] \<Rightarrow> None
      | _ \<Rightarrow>
        if sp = None \<or> hd (the sp) = 0 then
          Some (if hd (expbuf s) = 0 then Some ''No previous regular expression'' else None, s)
        else
          let p = the sp; circ = (hd p = 0x5E); p = (if circ then tl p else p); s = s\<lparr>circf := circ\<rparr>
          in case re_loop p \<lparr>cbuf = [], lastep = None, numbra = 0, bracket = []\<rparr> of
               Expr buf \<Rightarrow> if length buf > ESIZE then None else Some (None, s\<lparr>expbuf := buf\<rparr>)
             | Wrong msg \<Rightarrow> Some (Some msg, s\<lparr>expbuf := [0]\<rparr>)
             | Beyond \<Rightarrow> None)"

section \<open>Running it\<close>

text \<open>\<open>cclass\<close>: \<open>n\<close> is the count byte, one more than the number of members behind it.\<close>

fun in_class :: "nat \<Rightarrow> u8 list \<Rightarrow> u8 \<Rightarrow> bool option" where
  "in_class 0 ms c = Some False"
| "in_class (Suc n) [] c = None"
| "in_class (Suc n) (b # ms) c = (if b = c then Some True else in_class n ms c)"

definition cclass :: "u8 list \<Rightarrow> u8 \<Rightarrow> bool \<Rightarrow> bool option" where
  "cclass ms c af =
     (if c = 0 then Some False
      else case ms of
             [] \<Rightarrow> None
           | n # ms \<Rightarrow>
               if chr n \<le> 0 then None
               else map_option (\<lambda>m. if m then af else \<not> af) (in_class (nat (chr n) - 1) ms c))"

function backref_loop :: "u8 list \<Rightarrow> nat \<Rightarrow> nat \<Rightarrow> nat \<Rightarrow> bool option" where
  "backref_loop s bp e lp =
     (if length s \<le> bp \<or> length s \<le> lp then None
      else if s ! bp = s ! lp then
        if e \<le> bp + 1 then Some True else backref_loop s (bp + 1) e (lp + 1)
      else Some False)"
  by pat_completeness auto
termination by (relation "measure (\<lambda>(s, bp, e, lp). length s - lp)") auto

declare backref_loop.simps [simp del]

definition backref :: "u8 list \<Rightarrow> re_state \<Rightarrow> nat \<Rightarrow> int \<Rightarrow> bool option" where
  "backref s st i lp =
     (case (braslist st i, braelist st i) of
        (Some b, Some e) \<Rightarrow> if lp < 0 then None else backref_loop s b e (nat lp)
      | _ \<Rightarrow> None)"

partial_function (option) back_end :: "u8 list \<Rightarrow> re_state \<Rightarrow> nat \<Rightarrow> int \<Rightarrow> int \<Rightarrow> int option" where
  "back_end s st i ct lp =
     (case backref s st i lp of
        None \<Rightarrow> None
      | Some same \<Rightarrow> if same then back_end s st i ct (lp + ct) else Some lp)"

text \<open>Back from the end of the repetitions, one copy at a time; behind the loop the matching goes on.\<close>

partial_function (option) back_try ::
  "(int \<Rightarrow> re_state \<Rightarrow> (int \<times> re_state) option) \<Rightarrow> int \<Rightarrow> int \<Rightarrow> int \<Rightarrow> re_state \<Rightarrow>
    ((int \<times> re_state) + (int \<times> re_state)) option" where
  "back_try adv ct curlp lp st =
     (if lp \<ge> curlp then
        case adv lp st of
          None \<Rightarrow> None
        | Some (rv, st) \<Rightarrow> if rv \<noteq> 0 then Some (Inl (rv, st)) else back_try adv ct curlp (lp - ct) st
      else Some (Inr (lp, st)))"

text \<open>The loop at the label \<open>star\<close>: \<open>k\<close> more steps back are possible.\<close>

fun star_try ::
  "(int \<Rightarrow> re_state \<Rightarrow> (int \<times> re_state) option) \<Rightarrow> int \<Rightarrow> nat \<Rightarrow> re_state \<Rightarrow> (int \<times> re_state) option" where
  "star_try adv curlp 0 st =
     (case adv curlp st of
        None \<Rightarrow> None
      | Some (rv, st) \<Rightarrow> if rv \<noteq> 0 then Some (rv, st) else Some (0, st))"
| "star_try adv curlp (Suc k) st =
     (case adv (curlp + int (Suc k)) st of
        None \<Rightarrow> None
      | Some (rv, st) \<Rightarrow> if rv \<noteq> 0 then Some (rv, st) else star_try adv curlp k st)"

text \<open>How many bytes from the current one on satisfy a test.\<close>

fun run_length :: "(u8 \<Rightarrow> bool option) \<Rightarrow> u8 list \<Rightarrow> nat option" where
  "run_length p [] = None"
| "run_length p (b # s) =
     (case p b of None \<Rightarrow> None | Some True \<Rightarrow> map_option Suc (run_length p s) | Some False \<Rightarrow> Some 0)"

definition byte_at :: "u8 list \<Rightarrow> int \<Rightarrow> u8 option" where
  "byte_at s lp = (if 0 \<le> lp \<and> lp < int (length s) then Some (s ! nat lp) else None)"

definition skip_class :: "u8 list \<Rightarrow> u8 list option" where
  "skip_class ep = (case ep of [] \<Rightarrow> None | n # _ \<Rightarrow> if chr n \<le> 0 then None else Some (drop (nat (chr n)) ep))"

lemma skip_class_shorter: "skip_class ep = Some ep' \<Longrightarrow> length ep' < length ep"
  by (cases ep) (auto simp: skip_class_def split: if_splits)

function re_advance :: "u8 list \<Rightarrow> u8 list \<Rightarrow> int \<Rightarrow> re_state \<Rightarrow> (int \<times> re_state) option" where
  "re_advance s [] lp st = None"
| "re_advance s (oper # ep) lp st =
     (if oper = CCHR then
        (case (ep, byte_at s lp) of
           (c # ep', Some b) \<Rightarrow> if c = b then re_advance s ep' (lp + 1) st else Some (0, st)
         | _ \<Rightarrow> None)
      else if oper = CDOT then
        (case byte_at s lp of
           None \<Rightarrow> None
         | Some b \<Rightarrow> if b \<noteq> 0 then re_advance s ep (lp + 1) st else Some (0, st))
      else if oper = CDOL then
        (case byte_at s lp of
           None \<Rightarrow> None
         | Some b \<Rightarrow> if b = 0 then re_advance s ep lp st else Some (0, st))
      else if oper = CEOF then Some (1, st)
      else if oper = CCL \<or> oper = NCCL then
        (case byte_at s lp of
           None \<Rightarrow> None
         | Some b \<Rightarrow>
             (case cclass ep b (oper = CCL) of
                None \<Rightarrow> None
              | Some False \<Rightarrow> Some (0, st)
              | Some True \<Rightarrow> (case skip_class ep of None \<Rightarrow> None | Some ep' \<Rightarrow> re_advance s ep' (lp + 1) st)))
      else if oper = CBRA then
        (case ep of
           [] \<Rightarrow> None
         | i # ep' \<Rightarrow> re_advance s ep' lp (st\<lparr>braslist := (braslist st)(unat i := Some (nat lp))\<rparr>))
      else if oper = CKET then
        (case ep of
           [] \<Rightarrow> None
         | i # ep' \<Rightarrow> re_advance s ep' lp (st\<lparr>braelist := (braelist st)(unat i := Some (nat lp))\<rparr>))
      else if oper = CBACK then
        (case ep of
           [] \<Rightarrow> None
         | i # ep' \<Rightarrow>
             (case braelist st (unat i) of
                None \<Rightarrow> Some (- 1, st)
              | Some e \<Rightarrow>
                  (case backref s st (unat i) lp of
                     None \<Rightarrow> None
                   | Some True \<Rightarrow> re_advance s ep' (lp + (int e - int (the (braslist st (unat i))))) st
                   | Some False \<Rightarrow> Some (0, st))))
      else if oper = CBACK OR CSTAR then
        (case ep of
           [] \<Rightarrow> None
         | i # ep' \<Rightarrow>
             (case braelist st (unat i) of
                None \<Rightarrow> Some (- 1, st)
              | Some e \<Rightarrow>
                  let ct = int e - int (the (braslist st (unat i)))
                  in case back_end s st (unat i) ct lp of
                       None \<Rightarrow> None
                     | Some lp' \<Rightarrow>
                         (case back_try (\<lambda>lp st. re_advance s ep' lp st) ct lp lp' st of
                            None \<Rightarrow> None
                          | Some (Inl r) \<Rightarrow> Some r
                          | Some (Inr (lp, st)) \<Rightarrow> re_advance s ep' lp st)))
      else if oper = CDOT OR CSTAR then
        (if lp < 0 then None
         else case run_length (\<lambda>b. Some (b \<noteq> 0)) (drop (nat lp) s) of
                None \<Rightarrow> None
              | Some k \<Rightarrow> star_try (\<lambda>lp st. re_advance s ep lp st) lp k st)
      else if oper = CCHR OR CSTAR then
        (case ep of
           [] \<Rightarrow> None
         | c # ep' \<Rightarrow>
             if lp < 0 then None
             else case run_length (\<lambda>b. Some (b = c)) (drop (nat lp) s) of
                    None \<Rightarrow> None
                  | Some k \<Rightarrow> star_try (\<lambda>lp st. re_advance s ep' lp st) lp k st)
      else if oper = CCL OR CSTAR \<or> oper = NCCL OR CSTAR then
        (if lp < 0 then None
         else case run_length (\<lambda>b. cclass ep b (oper = CCL OR CSTAR)) (drop (nat lp) s) of
                None \<Rightarrow> None
              | Some k \<Rightarrow>
                  (case skip_class ep of
                     None \<Rightarrow> None
                   | Some ep' \<Rightarrow> star_try (\<lambda>lp st. re_advance s ep' lp st) lp k st))
      else Some (- 1, st))"
  by pat_completeness auto
termination
  by (relation "measure (\<lambda>(s, ep, lp, st). length ep)") (auto dest!: skip_class_shorter)

declare re_advance.simps [simp del]

text \<open>The search for a place where the expression matches; \<open>fast\<close> is the check of the first character.\<close>

function search_from :: "u8 list \<Rightarrow> u8 list \<Rightarrow> u8 option \<Rightarrow> nat \<Rightarrow> re_state \<Rightarrow> (int \<times> re_state) option" where
  "search_from s p2 fast p1 st =
     (if length s \<le> p1 then None
      else
        let next = (\<lambda>st. if s ! p1 \<noteq> 0 then search_from s p2 fast (p1 + 1) st else Some (0, st))
        in if fast \<noteq> None \<and> s ! p1 \<noteq> the fast then next st
           else case re_advance s p2 (int p1) st of
                  None \<Rightarrow> None
                | Some (rv, st) \<Rightarrow> if rv \<noteq> 0 then Some (rv, st) else next st)"
  by pat_completeness auto
termination by (relation "measure (\<lambda>(s, p2, fast, p1, st). length s - p1)") auto

declare search_from.simps [simp del]

definition re_exec :: "u8 list \<Rightarrow> re_state \<Rightarrow> (int \<times> re_state) option" where
  "re_exec s st =
     (let st = st\<lparr>braslist := \<lambda>_. None, braelist := \<lambda>_. None\<rparr>; p2 = expbuf st
      in if circf st then re_advance s p2 0 st
         else case p2 of
                [] \<Rightarrow> None
              | oper # ep \<Rightarrow>
                  if oper = CCHR then (case ep of [] \<Rightarrow> None | c # _ \<Rightarrow> search_from s p2 (Some c) 0 st)
                  else search_from s p2 None 0 st)"

section \<open>Patterns without brackets\<close>

text \<open>
  The syntax of such patterns, the text they are written as and the language they stand for. The
  characters with a meaning of their own are written with a backslash. Classes are limited (\<open>atom_ok\<close>) to
  what the matcher gets right and the text determines: 7-bit members other than the hyphen and the
  closing bracket, ascending ranges, and less than 127 bytes of code, as their number is a signed byte.
\<close>

datatype member = One u8 | Range u8 u8

datatype atom = AChar u8 | ADot | AClass bool "member list"

type_synonym item = "atom \<times> bool"

fun member_text :: "member \<Rightarrow> u8 list" where
  "member_text (One a) = [a]"
| "member_text (Range a b) = [a, 0x2D, b]"

fun member_set :: "member \<Rightarrow> u8 set" where
  "member_set (One a) = {a}"
| "member_set (Range a b) = {a..b}"

definition plain_char :: "u8 \<Rightarrow> bool" where
  "plain_char c \<longleftrightarrow> 0 < c \<and> c < 0x80 \<and> c \<noteq> 0x2D \<and> c \<noteq> 0x5D"

fun member_ok :: "member \<Rightarrow> bool" where
  "member_ok (One a) = plain_char a"
| "member_ok (Range a b) = (plain_char a \<and> plain_char b \<and> a \<le> b)"

fun member_code :: "member \<Rightarrow> u8 list" where
  "member_code (One a) = [a]"
| "member_code (Range a b) = a # map of_nat [unat a + 1..<unat b + 1] @ [b]"

abbreviation members_text :: "member list \<Rightarrow> u8 list" where
  "members_text ms \<equiv> concat (map member_text ms)"

abbreviation members_code :: "member list \<Rightarrow> u8 list" where
  "members_code ms \<equiv> concat (map member_code ms)"

definition special :: "u8 set" where
  "special = {0x2E, 0x2A, 0x24, 0x5B, 0x5C, 0x5E}"

fun atom_text :: "atom \<Rightarrow> u8 list" where
  "atom_text (AChar c) = (if c \<in> special then [0x5C, c] else [c])"
| "atom_text ADot = [0x2E]"
| "atom_text (AClass neg ms) = [0x5B] @ (if neg then [0x5E] else []) @ members_text ms @ [0x5D]"

fun atom_ok :: "atom \<Rightarrow> bool" where
  "atom_ok (AChar c) = (c \<noteq> 0)"
| "atom_ok ADot = True"
| "atom_ok (AClass neg ms) =
     (ms \<noteq> [] \<and> (\<forall>m \<in> set ms. member_ok m) \<and> (neg \<or> hd (members_text ms) \<noteq> 0x5E) \<and> length (members_code ms) < 127)"

fun atom_code :: "atom \<Rightarrow> u8 list" where
  "atom_code (AChar c) = [CCHR, c]"
| "atom_code ADot = [CDOT]"
| "atom_code (AClass neg ms) =
     [if neg then NCCL else CCL, of_nat (1 + length (members_code ms))] @ members_code ms"

fun atom_set :: "atom \<Rightarrow> u8 set" where
  "atom_set (AChar c) = {c}"
| "atom_set ADot = {b. b \<noteq> 0}"
| "atom_set (AClass neg ms) = {b. b \<noteq> 0 \<and> (\<exists>m \<in> set ms. b \<in> member_set m) = (\<not> neg)}"

definition re_item_text :: "item \<Rightarrow> u8 list" where
  "re_item_text it = atom_text (fst it) @ (if snd it then [0x2A] else [])"

definition item_code :: "item \<Rightarrow> u8 list" where
  "item_code it = (if snd it then (hd (atom_code (fst it)) OR CSTAR) # tl (atom_code (fst it)) else atom_code (fst it))"

fun lang :: "item list \<Rightarrow> u8 list set" where
  "lang [] = {[]}"
| "lang ((a, star) # its) =
     (if star then {u @ w | u w. set u \<subseteq> atom_set a \<and> w \<in> lang its}
      else {c # w | c w. c \<in> atom_set a \<and> w \<in> lang its})"

definition items_ok :: "item list \<Rightarrow> bool" where
  "items_ok its \<longleftrightarrow> (\<forall>it \<in> set its. atom_ok (fst it))"

definition pattern_text :: "bool \<Rightarrow> item list \<Rightarrow> bool \<Rightarrow> u8 list" where
  "pattern_text circ its dollar =
     (if circ then [0x5E] else []) @ concat (map re_item_text its) @ (if dollar then [0x24] else []) @ [0]"

definition pattern_code :: "item list \<Rightarrow> bool \<Rightarrow> u8 list" where
  "pattern_code its dollar = concat (map item_code its) @ (if dollar then [CDOL] else []) @ [CEOF, 0]"

section \<open>Compiling\<close>

lemma chr_small: "c < 0x80 \<Longrightarrow> chr c = int (unat c)"
proof -
  assume "c < 0x80"
  then have "uint c < 128" by (simp add: word_less_def)
  then have "signed_take_bit 7 (uint c) = uint c"
    using order_trans [of "- 128" 0 "uint c"] by (intro signed_take_bit_int_eq_self) simp_all
  then show ?thesis by (simp add: sint_uint)
qed

lemma u8_next: "unat a < unat (b :: u8) \<Longrightarrow> unat (a + 1 :: u8) = unat a + 1"
proof -
  assume "unat a < unat b"
  moreover have "unat b < 256" using unsigned_less [where 'a = nat, of b] by simp
  ultimately show ?thesis by (simp add: unat_word_ariths)
qed

lemma fill_range_eq:
  assumes "last buf \<le> b" and "b < 0x80" and "length buf + (unat b - unat (last buf)) < ESIZE"
  shows "fill_range b buf n =
    (buf @ map of_nat [unat (last buf) + 1..<unat b + 1], n + int (unat b - unat (last buf)), True)"
  using assms
proof (induction "unat b - unat (last buf)" arbitrary: buf n)
  case 0
  then have "last buf = b" by (simp add: word_le_nat_alt word_unat_eq_iff)
  then show ?case by (simp add: fill_range.simps [of b buf n])
next
  case (Suc k)
  let ?a = "last buf"
  have lt: "unat ?a < unat b" using Suc(2) by simp
  have next_a: "unat (?a + 1) = unat ?a + 1" using lt by (rule u8_next)
  have small: "chr ?a < chr b"
  proof -
    have "?a < 0x80" using Suc(3,4) by simp
    with lt Suc(4) show ?thesis by (simp only: chr_small of_nat_less_iff)
  qed
  have fr: "fill_range b buf n = fill_range b (buf @ [?a + 1]) (n + 1)"
  proof -
    have "\<not> ESIZE \<le> length buf + 1" using Suc(5) lt by linarith
    with small show ?thesis by (simp add: fill_range.simps [of b buf n] Let_def)
  qed
  have "fill_range b (buf @ [?a + 1]) (n + 1) =
      ((buf @ [?a + 1]) @ map of_nat [unat (?a + 1) + 1..<unat b + 1], n + 1 + int (unat b - unat (?a + 1)), True)"
    using Suc(1) [of "buf @ [?a + 1]" "n + 1"] Suc(2-5) next_a lt by (simp add: word_le_nat_alt)
  moreover have "[unat ?a + 1..<unat b + 1] = (unat ?a + 1) # [unat ?a + 2..<unat b + 1]"
    using lt by (simp add: upt_rec [of "Suc (unat ?a)"])
  moreover have "of_nat (unat ?a + 1) = ?a + 1" by simp
  ultimately show ?case using fr next_a lt by simp
qed

text \<open>Behind a member comes the next one, or the bracket.\<close>

definition class_goes_on :: "member list \<Rightarrow> u8 list \<Rightarrow> int \<Rightarrow> u8 list \<Rightarrow> class_end" where
  "class_goes_on ms buf n rest =
     (if ms = [] then Class buf n rest
      else class_loop (hd (members_text ms)) (tl (members_text ms) @ 0x5D # rest) buf n)"

lemma plain_nonzero: "plain_char c \<Longrightarrow> c \<noteq> 0 \<and> c \<noteq> 0x2D \<and> c \<noteq> 0x5D"
  by (auto simp: plain_char_def)

lemma member_text_ok:
  "member_ok m \<Longrightarrow> member_text m \<noteq> [] \<and> plain_char (hd (member_text m))"
  by (cases m) auto

lemma class_add_eq:
  assumes "\<forall>m \<in> set ms. member_ok m" and "length buf + 1 < ESIZE"
  shows "(case class_add c (members_text ms @ 0x5D # rest) buf n of
      Inl r \<Rightarrow> r | Inr (c, sp, buf, n) \<Rightarrow> class_loop c sp buf n) = class_goes_on ms (buf @ [c]) (n + 1) rest"
proof (cases ms)
  case Nil
  then show ?thesis using assms(2) by (simp add: class_add_def class_goes_on_def)
next
  case (Cons m ms')
  with assms(1) member_text_ok [of m] obtain d t where t: "member_text m = d # t" "plain_char d"
    by (cases "member_text m") auto
  then show ?thesis
    using Cons assms(2) by (simp add: class_add_def class_goes_on_def plain_char_def)
qed

lemma class_goes_on_eq:
  assumes "\<forall>m \<in> set ms. member_ok m" and "length buf + length (members_code ms) < ESIZE" and "buf \<noteq> []"
  shows "class_goes_on ms buf n rest =
    Class (buf @ members_code ms) (n + int (length (members_code ms))) rest"
  using assms
proof (induction ms arbitrary: buf n)
  case Nil
  then show ?case by (simp add: class_goes_on_def)
next
  case (Cons m ms)
  show ?case
  proof (cases m)
    case (One a)
    then have "class_goes_on (m # ms) buf n rest = class_goes_on ms (buf @ [a]) (n + 1) rest"
      using Cons(2,3) class_add_eq [of ms buf a rest n] plain_nonzero [of a]
      by (simp add: class_goes_on_def [of "One a # ms"] class_loop.simps [of a] class_step_def)
    also have "\<dots> = Class ((buf @ [a]) @ members_code ms) (n + 1 + int (length (members_code ms))) rest"
      using Cons(2,3) One by (intro Cons(1)) auto
    finally show ?thesis using One by simp
  next
    case (Range a b)
    let ?r = "map of_nat [unat a + 1..<unat b + 1] :: u8 list"
    have ab: "plain_char a" "plain_char b" "a \<le> b" using Cons(2) Range by simp_all
    have len: "length buf + 2 + length ?r + length (members_code ms) < ESIZE"
      using Cons(3) Range by simp
    have fill: "fill_range b (buf @ [a]) (n + 1) = (buf @ [a] @ ?r, n + 1 + int (length ?r), True)"
      using fill_range_eq [of "buf @ [a]" b "n + 1"] ab len by (simp add: plain_char_def del: upt_Suc)
    have "class_goes_on (m # ms) buf n rest =
        class_loop 0x2D (b # members_text ms @ 0x5D # rest) (buf @ [a]) (n + 1)"
      using Range plain_nonzero [OF ab(1)] len
      by (simp add: class_goes_on_def class_loop.simps [of a] class_step_def class_add_def)
    also have "\<dots> = (case class_add b (members_text ms @ 0x5D # rest) (buf @ [a] @ ?r) (n + 1 + int (length ?r)) of
        Inl r \<Rightarrow> r | Inr (c, sp, buf, n) \<Rightarrow> class_loop c sp buf n)"
      using plain_nonzero [OF ab(1)] plain_nonzero [OF ab(2)] fill
      by (simp add: class_loop.simps [of "0x2D"] class_step_def del: upt_Suc)
    also have "\<dots> = class_goes_on ms ((buf @ [a] @ ?r) @ [b]) (n + 1 + int (length ?r) + 1) rest"
      using Cons(2) len by (intro class_add_eq) simp_all
    also have "\<dots> = Class (((buf @ [a] @ ?r) @ [b]) @ members_code ms)
        (n + 1 + int (length ?r) + 1 + int (length (members_code ms))) rest"
      using Cons(2) len by (intro Cons(1)) simp_all
    finally show ?thesis using Range by (simp del: upt_Suc)
  qed
qed

lemma comp_order: "s\<lparr>lastep := l, cbuf := b\<rparr> = s\<lparr>cbuf := b, lastep := l\<rparr>"
  by (cases s) simp

lemma re_loop_atom:
  assumes "atom_ok a" and "length (cbuf s) + length (atom_code a) < ESIZE"
  shows "re_loop (atom_text a @ rest) s =
    re_loop rest (s\<lparr>cbuf := cbuf s @ atom_code a, lastep := Some (length (cbuf s))\<rparr>)"
proof (cases a)
  case (AChar c)
  then show ?thesis
    using assms by (auto simp: special_def re_escape_def emit_def Let_def comp_order)
next
  case ADot
  then show ?thesis using assms by (simp add: emit_def Let_def comp_order)
next
  case (AClass neg ms)
  have ms: "ms \<noteq> []" "\<forall>m \<in> set ms. member_ok m" "neg \<or> hd (members_text ms) \<noteq> 0x5E"
      "length (members_code ms) < 127" using assms(1) AClass by simp_all
  obtain d t where t: "members_text ms = d # t"
    using ms(1,2) member_text_ok [of "hd ms"] by (cases ms; cases "member_text (hd ms)") auto
  let ?o = "if neg then NCCL else CCL"
  have "class_loop d (t @ 0x5D # rest) (cbuf s @ [?o, 0]) 1 =
      Class (cbuf s @ [?o, 0] @ members_code ms) (1 + int (length (members_code ms))) rest"
    using class_goes_on_eq [OF ms(2), of "cbuf s @ [?o, 0]" 1 rest] assms(2) AClass ms(1) t
    by (simp add: class_goes_on_def)
  then show ?thesis
    using AClass t ms(3) assms(2)
    by (auto simp: Let_def nth_append list_update_append comp_order split: if_splits)
qed

lemma re_loop_star:
  assumes "lastep s = Some p" and "cbuf s ! p \<noteq> CBRA" and "cbuf s ! p \<noteq> CKET" and "length (cbuf s) < ESIZE"
  shows "re_loop (0x2A # rest) s = re_loop rest (star_last p s)"
  using assms by (simp add: Let_def)

lemma atom_code_hd: "atom_code a \<noteq> [] \<and> hd (atom_code a) \<in> {CCHR, CDOT, CCL, NCCL}"
  by (cases a) auto

lemma item_code_length [simp]: "length (item_code it) = length (atom_code (fst it))"
  using atom_code_hd [of "fst it"] by (simp add: item_code_def)

lemma re_loop_item:
  assumes "atom_ok (fst it)" and "length (cbuf s) + length (item_code it) < ESIZE"
  shows "re_loop (re_item_text it @ rest) s =
    re_loop rest (s\<lparr>cbuf := cbuf s @ item_code it, lastep := Some (length (cbuf s))\<rparr>)"
proof -
  let ?a = "fst it" and ?s = "s\<lparr>cbuf := cbuf s @ atom_code (fst it), lastep := Some (length (cbuf s))\<rparr>"
  obtain h t where c: "atom_code ?a = h # t" "h \<in> {CCHR, CDOT, CCL, NCCL}"
    using atom_code_hd [of ?a] by (cases "atom_code ?a") auto
  have len: "length (cbuf s) + length (atom_code ?a) < ESIZE" using assms(2) by simp
  have "re_loop (0x2A # rest) ?s = re_loop rest (star_last (length (cbuf s)) ?s)"
    using c len by (intro re_loop_star) (auto simp: nth_append)
  moreover have "star_last (length (cbuf s)) ?s = s\<lparr>cbuf := cbuf s @ (h OR CSTAR) # t, lastep := Some (length (cbuf s))\<rparr>"
    using c by (simp add: star_last_def nth_append)
  ultimately show ?thesis
    using re_loop_atom [OF assms(1) len] c by (simp add: re_item_text_def item_code_def)
qed

lemma re_loop_items:
  assumes "items_ok its" and "length (cbuf s) + length (concat (map item_code its)) < ESIZE"
  shows "\<exists>l. re_loop (concat (map re_item_text its) @ rest) s =
    re_loop rest (s\<lparr>cbuf := cbuf s @ concat (map item_code its), lastep := l\<rparr>)"
  using assms
proof (induction its arbitrary: s)
  case Nil
  then show ?case by (intro exI [of _ "lastep s"]) simp
next
  case (Cons it its)
  let ?s = "s\<lparr>cbuf := cbuf s @ item_code it, lastep := Some (length (cbuf s))\<rparr>"
  have "re_loop (re_item_text it @ concat (map re_item_text its) @ rest) s = re_loop (concat (map re_item_text its) @ rest) ?s"
    using Cons(2,3) by (intro re_loop_item) (simp_all add: items_ok_def)
  moreover have "\<exists>l. re_loop (concat (map re_item_text its) @ rest) ?s =
      re_loop rest (?s\<lparr>cbuf := cbuf ?s @ concat (map item_code its), lastep := l\<rparr>)"
    using Cons(2,3) by (intro Cons(1)) (simp_all add: items_ok_def)
  ultimately show ?case by auto
qed

theorem re_loop_pattern:
  assumes "items_ok its" and "length (pattern_code its dollar) < ESIZE"
  shows "re_loop (concat (map re_item_text its) @ (if dollar then [0x24] else []) @ [0])
    \<lparr>cbuf = [], lastep = None, numbra = 0, bracket = []\<rparr> = Expr (pattern_code its dollar)"
proof -
  let ?s = "\<lparr>cbuf = [], lastep = None, numbra = 0, bracket = []\<rparr>"
  let ?r = "(if dollar then [0x24] else []) @ [0] :: u8 list"
  obtain l where "re_loop (concat (map re_item_text its) @ ?r) ?s =
      re_loop ?r (?s\<lparr>cbuf := cbuf ?s @ concat (map item_code its), lastep := l\<rparr>)"
    using re_loop_items [OF assms(1), of ?s ?r] assms(2) by (auto simp: pattern_code_def)
  then show ?thesis
    using assms(2) by (auto simp: pattern_code_def emit_def Let_def)
qed

section \<open>Matching\<close>

text \<open>What the rest of the code accepts at a place of the text.\<close>

fun accepts :: "item list \<Rightarrow> bool \<Rightarrow> u8 list \<Rightarrow> bool" where
  "accepts [] dollar w = (dollar \<longrightarrow> w = [])"
| "accepts ((a, star) # its) dollar w =
     (if star then \<exists>k \<le> length (takeWhile (\<lambda>c. c \<in> atom_set a) w). accepts its dollar (drop k w)
      else w \<noteq> [] \<and> hd w \<in> atom_set a \<and> accepts its dollar (tl w))"

lemma takeWhile_split: "u = take k w \<Longrightarrow> set u \<subseteq> A \<Longrightarrow> k \<le> length w \<Longrightarrow> k \<le> length (takeWhile (\<lambda>c. c \<in> A) w)"
proof (induction w arbitrary: u k)
  case (Cons c w)
  then show ?case by (cases k) auto
qed simp

lemma accepts_lang:
  "accepts its dollar w \<longleftrightarrow> (\<exists>b c. w = b @ c \<and> b \<in> lang its \<and> (dollar \<longrightarrow> c = []))"
proof (induction its arbitrary: w)
  case Nil
  show ?case by auto
next
  case IH: (Cons it its)
  obtain a star where it: "it = (a, star)" by (cases it)
  show ?case
  proof (cases star)
    case False
    show ?thesis
    proof (cases w)
      case Nil
      then show ?thesis using it False by auto
    next
      case (Cons x v)
      have "(\<exists>b c. w = b @ c \<and> b \<in> lang (it # its) \<and> (dollar \<longrightarrow> c = [])) \<longleftrightarrow>
          x \<in> atom_set a \<and> (\<exists>b c. v = b @ c \<and> b \<in> lang its \<and> (dollar \<longrightarrow> c = []))"
        (is "?l \<longleftrightarrow> ?r")
      proof
        assume ?l
        then obtain b' c where b': "w = b' @ c" "b' \<in> lang (it # its)" "dollar \<longrightarrow> c = []" by blast
        then obtain e b where "b' = e # b" "e \<in> atom_set a" "b \<in> lang its" using it False by auto
        with b' Cons show ?r by auto
      next
        assume ?r
        then obtain b c where "v = b @ c" "b \<in> lang its" "dollar \<longrightarrow> c = []" "x \<in> atom_set a" by blast
        then show ?l using it False Cons by (intro exI [of _ "x # b"] exI [of _ c]) auto
      qed
      then show ?thesis using it False Cons IH [of v] by simp
    qed
  next
    case True
    let ?t = "takeWhile (\<lambda>c. c \<in> atom_set a) w"
    have "(\<exists>k \<le> length ?t. accepts its dollar (drop k w)) \<longleftrightarrow>
        (\<exists>u v. w = u @ v \<and> set u \<subseteq> atom_set a \<and> accepts its dollar v)"
    proof
      assume "\<exists>k \<le> length ?t. accepts its dollar (drop k w)"
      then obtain k where k: "k \<le> length ?t" "accepts its dollar (drop k w)" by blast
      have "take k w = take k ?t" using k(1) by (metis append_take_drop_id takeWhile_dropWhile_id take_append diff_is_0_eq take0 append_Nil2)
      then have "set (take k w) \<subseteq> atom_set a" by (auto dest: in_set_takeD set_takeWhileD)
      with k(2) show "\<exists>u v. w = u @ v \<and> set u \<subseteq> atom_set a \<and> accepts its dollar v"
        by (intro exI [of _ "take k w"] exI [of _ "drop k w"]) simp
    next
      assume "\<exists>u v. w = u @ v \<and> set u \<subseteq> atom_set a \<and> accepts its dollar v"
      then obtain u v where uv: "w = u @ v" "set u \<subseteq> atom_set a" "accepts its dollar v" by blast
      then have "length u \<le> length ?t" by (intro takeWhile_split [of u]) simp_all
      with uv show "\<exists>k \<le> length ?t. accepts its dollar (drop k w)"
        by (intro exI [of _ "length u"]) simp
    qed
    also have "\<dots> \<longleftrightarrow> (\<exists>b c. w = b @ c \<and> b \<in> lang (it # its) \<and> (dollar \<longrightarrow> c = []))"
    proof
      assume "\<exists>u v. w = u @ v \<and> set u \<subseteq> atom_set a \<and> accepts its dollar v"
      then obtain u v where uv: "w = u @ v" "set u \<subseteq> atom_set a" "accepts its dollar v" by blast
      from uv(3) IH [of v] obtain b c where "v = b @ c" "b \<in> lang its" "dollar \<longrightarrow> c = []" by blast
      with uv(1,2) it True show "\<exists>b c. w = b @ c \<and> b \<in> lang (it # its) \<and> (dollar \<longrightarrow> c = [])"
        by (intro exI [of _ "u @ b"] exI [of _ c]) auto
    next
      assume "\<exists>b c. w = b @ c \<and> b \<in> lang (it # its) \<and> (dollar \<longrightarrow> c = [])"
      then obtain b' c where b': "w = b' @ c" "b' \<in> lang (it # its)" "dollar \<longrightarrow> c = []" by blast
      then obtain u b where "b' = u @ b" "set u \<subseteq> atom_set a" "b \<in> lang its" using it True by auto
      with b' have "w = u @ b @ c" "set u \<subseteq> atom_set a" "b \<in> lang its" "dollar \<longrightarrow> c = []" by auto
      with IH [of "b @ c"] show "\<exists>u v. w = u @ v \<and> set u \<subseteq> atom_set a \<and> accepts its dollar v" by blast
    qed
    finally show ?thesis using it True by simp
  qed
qed

lemma star_try_all:
  assumes "\<And>j. j \<le> k \<Longrightarrow> adv (curlp + int j) st = Some (of_bool (P j), st)"
  shows "star_try adv curlp k st = Some (of_bool (\<exists>j \<le> k. P j), st)"
  using assms
proof (induction k)
  case 0
  then show ?case using 0 [of 0] by simp
next
  case (Suc k)
  have "adv (curlp + int (Suc k)) st = Some (of_bool (P (Suc k)), st)" by (rule Suc(2)) simp
  moreover have "star_try adv curlp k st = Some (of_bool (\<exists>j \<le> k. P j), st)" by (intro Suc) simp
  ultimately show ?case by (cases "P (Suc k)") (auto simp: le_Suc_eq simp del: of_nat_Suc)
qed

lemma run_length_set:
  assumes "\<And>b. p b = Some (b \<in> A)" and "0 \<notin> A"
  shows "run_length p (w @ [0]) = Some (length (takeWhile (\<lambda>c. c \<in> A) w))"
  using assms by (induction w) auto

lemma in_class_members: "in_class (length ms) (ms @ rest) c = Some (c \<in> set ms)"
  by (induction ms) auto

lemma range_members: "set (map of_nat [unat a + 1..<unat b + 1]) = {c :: u8. a < c \<and> c \<le> b}"
proof (intro set_eqI iffI)
  fix c :: u8
  assume "c \<in> set (map of_nat [unat a + 1..<unat b + 1])"
  then obtain n where "n \<in> set [unat a + 1..<unat b + 1]" and n: "c = of_nat n" by (auto simp del: upt_Suc)
  then have n: "c = of_nat n" "unat a < n" "n \<le> unat b" by auto
  moreover have "unat b < 256" using unsigned_less [where 'a = nat, of b] by simp
  ultimately have "unat c = n" by (simp add: unat_of_nat)
  with n show "c \<in> {c. a < c \<and> c \<le> b}" by (simp add: word_less_nat_alt word_le_nat_alt)
next
  fix c :: u8
  assume "c \<in> {c. a < c \<and> c \<le> b}"
  then have "unat a < unat c" "unat c \<le> unat b" by (simp_all add: word_less_nat_alt word_le_nat_alt)
  then have "unat c \<in> set [unat a + 1..<unat b + 1]" by (simp only: set_upt atLeastLessThan_iff) linarith
  then have "of_nat (unat c) \<in> set (map (of_nat :: nat \<Rightarrow> u8) [unat a + 1..<unat b + 1])"
    unfolding set_map by (rule imageI)
  then show "c \<in> set (map of_nat [unat a + 1..<unat b + 1])" by (simp only: of_nat_unat ucast_id)
qed

lemma members_code_set:
  "\<forall>m \<in> set ms. member_ok m \<Longrightarrow> set (members_code ms) = (\<Union>m \<in> set ms. member_set m)"
proof (induction ms)
  case (Cons m ms)
  have "set (member_code m) = member_set m"
  proof (cases m)
    case (Range a b)
    have "set (map of_nat [unat a + 1..<unat b + 1]) = {c :: u8. a < c \<and> c \<le> b}" by (rule range_members)
    then show ?thesis using Range Cons(2) by (auto simp del: upt_Suc set_map)
  qed simp
  with Cons show ?case by simp
qed simp

lemma class_count: "n < 127 \<Longrightarrow> chr (of_nat (Suc n)) = int (Suc n)"
proof -
  assume n: "n < 127"
  then have u: "unat (of_nat (Suc n) :: u8) = Suc n" by (simp only: unat_of_nat) simp
  then have "(of_nat (Suc n) :: u8) < 0x80" using n by (simp only: word_less_nat_alt) simp
  from chr_small [OF this] u show ?thesis by (simp only:)
qed

lemma cclass_code:
  assumes "atom_ok (AClass neg ms)"
  shows "cclass (tl (atom_code (AClass neg ms)) @ rest) b (\<not> neg) = Some (b \<in> atom_set (AClass neg ms))"
    and "skip_class (tl (atom_code (AClass neg ms)) @ rest) = Some rest"
proof -
  have ok: "\<forall>m \<in> set ms. member_ok m" "length (members_code ms) < 127" using assms by simp_all
  note n = class_count [OF ok(2)]
  have "in_class (length (members_code ms)) (members_code ms @ rest) b = Some (\<exists>m \<in> set ms. b \<in> member_set m)"
    unfolding in_class_members members_code_set [OF ok(1)] by simp
  then show "cclass (tl (atom_code (AClass neg ms)) @ rest) b (\<not> neg) = Some (b \<in> atom_set (AClass neg ms))"
    using n by (auto simp: cclass_def simp del: of_nat_Suc)
  show "skip_class (tl (atom_code (AClass neg ms)) @ rest) = Some rest"
    using n by (simp add: skip_class_def del: of_nat_Suc)
qed

lemma byte_at_text:
  "lp \<le> length str \<Longrightarrow> byte_at (str @ [0]) (int lp) = Some (if lp < length str then str ! lp else 0)"
  by (simp add: byte_at_def nth_append)

lemma atom_set_nonzero: "atom_ok a \<Longrightarrow> 0 \<notin> atom_set a"
  by (cases a) auto

text \<open>One atom, without and with a star.\<close>

lemma advance_atom:
  assumes "atom_ok a" and "lp \<le> length str"
  shows "re_advance (str @ [0]) (atom_code a @ ep) (int lp) st =
    (if lp < length str \<and> str ! lp \<in> atom_set a \<or> lp = length str \<and> 0 \<in> atom_set a
     then re_advance (str @ [0]) ep (int (Suc lp)) st else Some (0, st))"
proof (cases a)
  case (AClass neg ms)
  define b where "b = (if lp < length str then str ! lp else 0)"
  note cc = cclass_code [OF assms(1) [unfolded AClass]]
  have "atom_code (AClass neg ms) = (if neg then NCCL else CCL) # tl (atom_code (AClass neg ms))" by simp
  then have "re_advance (str @ [0]) (atom_code a @ ep) (int lp) st =
      re_advance (str @ [0]) ((if neg then NCCL else CCL) # (tl (atom_code (AClass neg ms)) @ ep)) (int lp) st"
    using AClass by simp
  also have "\<dots> = (if b \<in> atom_set a then re_advance (str @ [0]) ep (int lp + 1) st else Some (0, st))"
    using cc(1) [of ep b] cc(2) [of ep] byte_at_text [OF assms(2)] AClass
    by (cases neg) (simp_all add: re_advance.simps b_def [symmetric] del: atom_code.simps atom_set.simps)
  finally show ?thesis
    using assms(2) by (auto simp: b_def add.commute)
qed (use assms byte_at_text [OF assms(2)] in \<open>auto simp: re_advance.simps add.commute\<close>)

lemma advance_star:
  assumes "atom_ok a" and "lp \<le> length str"
  shows "re_advance (str @ [0]) (item_code (a, True) @ ep) (int lp) st =
    star_try (\<lambda>lp st. re_advance (str @ [0]) ep lp st) (int lp)
      (length (takeWhile (\<lambda>c. c \<in> atom_set a) (drop lp str))) st"
proof -
  have d: "drop lp (str @ [0]) = drop lp str @ [0]" using assms(2) by simp
  note run = run_length_set [OF _ atom_set_nonzero [OF assms(1)]]
  show ?thesis
  proof (cases a)
    case (AChar c)
    have "run_length (\<lambda>b. Some (b = c)) (drop lp str @ [0]) =
        Some (length (takeWhile (\<lambda>c. c \<in> atom_set a) (drop lp str)))"
      by (rule run) (simp add: AChar)
    then show ?thesis using d AChar by (simp add: item_code_def re_advance.simps)
  next
    case ADot
    have "run_length (\<lambda>b. Some (b \<noteq> 0)) (drop lp str @ [0]) =
        Some (length (takeWhile (\<lambda>c. c \<in> atom_set a) (drop lp str)))"
      by (rule run) (simp add: ADot)
    then show ?thesis using d ADot by (simp add: item_code_def re_advance.simps)
  next
    case (AClass neg ms)
    note cc = cclass_code [OF assms(1) [unfolded AClass], of ep]
    have r: "run_length (\<lambda>b. cclass (tl (atom_code a) @ ep) b (\<not> neg)) (drop lp str @ [0]) =
        Some (length (takeWhile (\<lambda>c. c \<in> atom_set a) (drop lp str)))"
      by (rule run) (simp only: AClass cc(1))
    have "item_code (a, True) @ ep = (if neg then NCCL OR CSTAR else CCL OR CSTAR) # (tl (atom_code a) @ ep)"
      using AClass by (simp add: item_code_def)
    then show ?thesis
      using d r cc(2) AClass
      by (cases neg) (simp_all add: re_advance.simps del: atom_code.simps atom_set.simps)
  qed
qed

theorem advance_accepts:
  assumes "items_ok its" and "lp \<le> length str" and "0 \<notin> set str"
  shows "re_advance (str @ [0]) (pattern_code its dollar) (int lp) st =
    Some (of_bool (accepts its dollar (drop lp str)), st)"
  using assms(1,2)
proof (induction its arbitrary: lp)
  case Nil
  have "str ! lp \<noteq> 0" if "lp < length str" using that assms(3) by (metis nth_mem)
  with Nil byte_at_text [of lp str] show ?case
    by (auto simp: pattern_code_def re_advance.simps)
next
  case (Cons it its)
  obtain a star where it: "it = (a, star)" by (cases it)
  have ok: "atom_ok a" "items_ok its" using Cons(2) it by (simp_all add: items_ok_def)
  have code: "pattern_code (it # its) dollar = item_code it @ pattern_code its dollar"
    by (simp add: pattern_code_def)
  show ?case
  proof (cases star)
    case False
    show ?thesis
    proof (cases "lp < length str")
      case True
      then have "hd (drop lp str) = str ! lp" "tl (drop lp str) = drop (Suc lp) str"
        by (simp_all add: hd_drop_conv_nth drop_Suc tl_drop)
      then show ?thesis
        using advance_atom [OF ok(1) Cons(3)] Cons(1) [OF ok(2), of "Suc lp"] True it False
        unfolding code by (simp add: item_code_def del: of_nat_Suc)
    next
      case beyond: False
      then show ?thesis
        using advance_atom [OF ok(1) Cons(3)] atom_set_nonzero [OF ok(1)] Cons(3) it False
        unfolding code by (simp add: item_code_def)
    qed
  next
    case True
    let ?k = "length (takeWhile (\<lambda>c. c \<in> atom_set a) (drop lp str))"
    have "?k \<le> length (drop lp str)" by (rule length_takeWhile_le)
    then have "star_try (\<lambda>lp st. re_advance (str @ [0]) (pattern_code its dollar) lp st) (int lp) ?k st =
        Some (of_bool (\<exists>j \<le> ?k. accepts its dollar (drop (lp + j) str)), st)"
      using Cons(1) [OF ok(2)] Cons(3) by (intro star_try_all) (simp flip: of_nat_add)
    then show ?thesis
      using advance_star [OF ok(1) Cons(3)] it True unfolding code by (simp add: add.commute)
  qed
qed

lemma search_all:
  assumes "items_ok its" and "0 \<notin> set str" and "p1 \<le> length str"
    and "fast = None \<or> (\<exists>c its'. its = (AChar c, False) # its' \<and> fast = Some c)"
  shows "search_from (str @ [0]) (pattern_code its dollar) fast p1 st =
    Some (of_bool (\<exists>p. p1 \<le> p \<and> p \<le> length str \<and> accepts its dollar (drop p str)), st)"
  using assms(3)
proof (induction "length str - p1" arbitrary: p1)
  case 0
  then have p1: "p1 = length str" by simp
  have ex: "(\<exists>p. p1 \<le> p \<and> p \<le> length str \<and> accepts its dollar (drop p str)) = accepts its dollar []"
    using p1 by auto
  have "fast \<noteq> None \<and> 0 \<noteq> the fast \<Longrightarrow> \<not> accepts its dollar []" using assms(4) by auto
  then show ?case
    using advance_accepts [OF assms(1) 0(2) assms(2), of dollar st] p1
    unfolding ex by (auto simp: search_from.simps [of "str @ [0]"] Let_def nth_append)
next
  case (Suc n)
  then have p1: "p1 < length str" by simp
  then have b: "(str @ [0]) ! p1 = str ! p1" "str ! p1 \<noteq> 0" using assms(2) by (auto simp: nth_append in_set_conv_nth)
  have IH: "search_from (str @ [0]) (pattern_code its dollar) fast (Suc p1) st =
      Some (of_bool (\<exists>p. Suc p1 \<le> p \<and> p \<le> length str \<and> accepts its dollar (drop p str)), st)"
    using Suc(2) p1 by (intro Suc(1)) simp_all
  have ex: "(\<exists>p. p1 \<le> p \<and> p \<le> length str \<and> accepts its dollar (drop p str)) \<longleftrightarrow>
      accepts its dollar (drop p1 str) \<or> (\<exists>p. Suc p1 \<le> p \<and> p \<le> length str \<and> accepts its dollar (drop p str))"
    using p1 by (auto simp: Suc_le_eq order_less_le)
  have "fast \<noteq> None \<and> str ! p1 \<noteq> the fast \<Longrightarrow> \<not> accepts its dollar (drop p1 str)"
    using assms(4) p1 by (auto simp: hd_drop_conv_nth)
  then show ?case
    using advance_accepts [OF assms(1) Suc(3) assms(2), of dollar st] IH p1 b
    unfolding ex by (auto simp: search_from.simps [of "str @ [0]" _ _ p1] Let_def)
qed

text \<open>The whole library: compile a pattern, run it on a string.\<close>

theorem regex_correct:
  assumes "items_ok its" and "length (pattern_code its dollar) < ESIZE" and "circ \<or> its \<noteq> [] \<or> dollar"
    and "0 \<notin> set str"
  shows "\<exists>st1 st2. re_comp (Some (pattern_text circ its dollar)) st = Some (None, st1) \<and>
    re_exec (str @ [0]) st1 =
      Some (of_bool (\<exists>a b c. str = a @ b @ c \<and> b \<in> lang its \<and> (circ \<longrightarrow> a = []) \<and> (dollar \<longrightarrow> c = [])), st2)"
proof -
  define p where "p = concat (map re_item_text its) @ (if dollar then [0x24] else []) @ [0 :: u8]"
  have "p \<noteq> []" by (simp add: p_def)
  have first: "hd p \<noteq> 0x5E" "its \<noteq> [] \<or> dollar \<Longrightarrow> hd p \<noteq> 0"
  proof -
    have "hd p \<noteq> 0x5E \<and> (its \<noteq> [] \<or> dollar \<longrightarrow> hd p \<noteq> 0)"
    proof (cases its)
      case (Cons it its')
      with assms(1) have "atom_ok (fst it)" by (simp add: items_ok_def)
      then show ?thesis using Cons by (cases "fst it") (auto simp: p_def re_item_text_def special_def)
    qed (simp add: p_def)
    then show "hd p \<noteq> 0x5E" "its \<noteq> [] \<or> dollar \<Longrightarrow> hd p \<noteq> 0" by simp_all
  qed
  define st1 where "st1 = st\<lparr>circf := circ, expbuf := pattern_code its dollar\<rparr>"
  have pt: "pattern_text circ its dollar = (if circ then 0x5E # p else p)"
    by (simp add: pattern_text_def p_def)
  have loop: "re_loop p \<lparr>cbuf = [], lastep = None, numbra = 0, bracket = []\<rparr> = Expr (pattern_code its dollar)"
    using re_loop_pattern [OF assms(1,2)] by (simp add: p_def)
  have comp: "re_comp (Some (pattern_text circ its dollar)) st = Some (None, st1)"
  proof (cases circ)
    case True
    then show ?thesis using pt loop assms(2) by (simp add: re_comp_def Let_def st1_def)
  next
    case False
    then have "hd p \<noteq> 0" using first(2) assms(3) by simp
    with False show ?thesis
      using pt loop assms(2) first(1) \<open>p \<noteq> []\<close>
      by (cases p) (simp_all add: re_comp_def Let_def st1_def)
  qed
  define st2 where "st2 = st1\<lparr>braslist := \<lambda>_. None, braelist := \<lambda>_. None\<rparr>"
  have "re_exec (str @ [0]) st1 =
      Some (of_bool (\<exists>a b c. str = a @ b @ c \<and> b \<in> lang its \<and> (circ \<longrightarrow> a = []) \<and> (dollar \<longrightarrow> c = [])), st2)"
  proof (cases circ)
    case True
    then have "re_exec (str @ [0]) st1 = Some (of_bool (accepts its dollar str), st2)"
      using advance_accepts [OF assms(1) le0 assms(4), of dollar st2]
      by (simp add: re_exec_def st1_def st2_def Let_def)
    then show ?thesis using True by (auto simp: accepts_lang)
  next
    case False
    obtain oper ep where code: "pattern_code its dollar = oper # ep"
      by (cases "pattern_code its dollar") (auto simp: pattern_code_def split: if_splits)
    have "re_exec (str @ [0]) st1 =
        Some (of_bool (\<exists>q. 0 \<le> q \<and> q \<le> length str \<and> accepts its dollar (drop q str)), st2)"
    proof (cases "oper = CCHR")
      case True
      have "\<exists>c its'. its = (AChar c, False) # its' \<and> (\<exists>ep'. ep = c # ep')"
      proof (cases its)
        case Nil
        then show ?thesis using code True by (auto simp: pattern_code_def split: if_splits)
      next
        case (Cons it its')
        obtain a star where "it = (a, star)" by (cases it)
        then show ?thesis
          using code True Cons by (cases a; cases star) (auto simp: pattern_code_def item_code_def split: if_splits)
      qed
      then obtain c its' ep' where c: "its = (AChar c, False) # its'" "ep = c # ep'" by blast
      have "search_from (str @ [0]) (pattern_code its dollar) (Some c) 0 st2 =
          Some (of_bool (\<exists>q. 0 \<le> q \<and> q \<le> length str \<and> accepts its dollar (drop q str)), st2)"
        by (rule search_all [OF assms(1,4)]) (simp_all add: c(1))
      with False code True c(2) show ?thesis
        by (simp add: re_exec_def st1_def st2_def Let_def)
    next
      case other: False
      have "search_from (str @ [0]) (pattern_code its dollar) None 0 st2 =
          Some (of_bool (\<exists>q. 0 \<le> q \<and> q \<le> length str \<and> accepts its dollar (drop q str)), st2)"
        by (rule search_all [OF assms(1,4)]) simp_all
      with False code other show ?thesis
        by (simp add: re_exec_def st1_def st2_def Let_def)
    qed
    moreover have "(\<exists>q. 0 \<le> q \<and> q \<le> length str \<and> accepts its dollar (drop q str)) \<longleftrightarrow>
        (\<exists>a b c. str = a @ b @ c \<and> b \<in> lang its \<and> (dollar \<longrightarrow> c = []))"
    proof
      assume "\<exists>q. 0 \<le> q \<and> q \<le> length str \<and> accepts its dollar (drop q str)"
      then obtain q b c where "drop q str = b @ c" "b \<in> lang its" "dollar \<longrightarrow> c = []"
        by (auto simp: accepts_lang)
      then show "\<exists>a b c. str = a @ b @ c \<and> b \<in> lang its \<and> (dollar \<longrightarrow> c = [])"
        by (metis append_take_drop_id)
    next
      assume "\<exists>a b c. str = a @ b @ c \<and> b \<in> lang its \<and> (dollar \<longrightarrow> c = [])"
      then obtain a b c where abc: "str = a @ b @ c" "b \<in> lang its" "dollar \<longrightarrow> c = []" by blast
      then have "accepts its dollar (drop (length a) str)" by (auto simp: accepts_lang)
      with abc(1) show "\<exists>q. 0 \<le> q \<and> q \<le> length str \<and> accepts its dollar (drop q str)"
        by (intro exI [of _ "length a"]) simp
    qed
    ultimately show ?thesis using False by simp
  qed
  with comp show ?thesis by blast
qed

end
