(* ===== verification/Lib_Crypt.thy ===== *)
theory Lib_Crypt
  imports Muxx_Prelude
begin

text \<open>
  The password encryption of the C library (\<open>bsdlibc/gen/crypt.c\<close>): the Data Encryption Standard on
  arrays with one bit per \<open>char\<close>, with its static key schedule and selection table, and \<open>crypt\<close>, which
  encrypts a block of zeros 25 times under the password, with the selection table changed by the salt.
  An index outside an array is \<open>None\<close>.
\<close>

section \<open>The tables\<close>

definition IP :: "nat list" where
  "IP =
   [58, 50, 42, 34, 26, 18, 10, 2, 60, 52, 44, 36, 28, 20, 12, 4,
    62, 54, 46, 38, 30, 22, 14, 6, 64, 56, 48, 40, 32, 24, 16, 8,
    57, 49, 41, 33, 25, 17, 9, 1, 59, 51, 43, 35, 27, 19, 11, 3,
    61, 53, 45, 37, 29, 21, 13, 5, 63, 55, 47, 39, 31, 23, 15, 7]"

definition FP :: "nat list" where
  "FP =
   [40, 8, 48, 16, 56, 24, 64, 32, 39, 7, 47, 15, 55, 23, 63, 31,
    38, 6, 46, 14, 54, 22, 62, 30, 37, 5, 45, 13, 53, 21, 61, 29,
    36, 4, 44, 12, 52, 20, 60, 28, 35, 3, 43, 11, 51, 19, 59, 27,
    34, 2, 42, 10, 50, 18, 58, 26, 33, 1, 41, 9, 49, 17, 57, 25]"

definition PC1_C :: "nat list" where
  "PC1_C =
   [57, 49, 41, 33, 25, 17, 9, 1, 58, 50, 42, 34, 26, 18,
    10, 2, 59, 51, 43, 35, 27, 19, 11, 3, 60, 52, 44, 36]"

definition PC1_D :: "nat list" where
  "PC1_D =
   [63, 55, 47, 39, 31, 23, 15, 7, 62, 54, 46, 38, 30, 22,
    14, 6, 61, 53, 45, 37, 29, 21, 13, 5, 28, 20, 12, 4]"

definition shifts :: "nat list" where
  "shifts =
   [1, 1, 2, 2, 2, 2, 2, 2, 1, 2, 2, 2, 2, 2, 2, 1]"

definition PC2_C :: "nat list" where
  "PC2_C =
   [14, 17, 11, 24, 1, 5, 3, 28, 15, 6, 21, 10,
    23, 19, 12, 4, 26, 8, 16, 7, 27, 20, 13, 2]"

definition PC2_D :: "nat list" where
  "PC2_D =
   [41, 52, 31, 37, 47, 55, 30, 40, 51, 45, 33, 48,
    44, 49, 39, 56, 34, 53, 46, 42, 50, 36, 29, 32]"

definition e_table :: "nat list" where
  "e_table =
   [32, 1, 2, 3, 4, 5, 4, 5, 6, 7, 8, 9,
    8, 9, 10, 11, 12, 13, 12, 13, 14, 15, 16, 17,
    16, 17, 18, 19, 20, 21, 20, 21, 22, 23, 24, 25,
    24, 25, 26, 27, 28, 29, 28, 29, 30, 31, 32, 1]"

definition P_box :: "nat list" where
  "P_box =
   [16, 7, 20, 21, 29, 12, 28, 17, 1, 15, 23, 26, 5, 18, 31, 10,
    2, 8, 24, 14, 32, 27, 3, 9, 19, 13, 30, 6, 22, 11, 4, 25]"

definition S_box :: "nat list list" where
  "S_box =
   [[14, 4, 13, 1, 2, 15, 11, 8, 3, 10, 6, 12, 5, 9, 0, 7,
     0, 15, 7, 4, 14, 2, 13, 1, 10, 6, 12, 11, 9, 5, 3, 8,
     4, 1, 14, 8, 13, 6, 2, 11, 15, 12, 9, 7, 3, 10, 5, 0,
     15, 12, 8, 2, 4, 9, 1, 7, 5, 11, 3, 14, 10, 0, 6, 13],
    [15, 1, 8, 14, 6, 11, 3, 4, 9, 7, 2, 13, 12, 0, 5, 10,
     3, 13, 4, 7, 15, 2, 8, 14, 12, 0, 1, 10, 6, 9, 11, 5,
     0, 14, 7, 11, 10, 4, 13, 1, 5, 8, 12, 6, 9, 3, 2, 15,
     13, 8, 10, 1, 3, 15, 4, 2, 11, 6, 7, 12, 0, 5, 14, 9],
    [10, 0, 9, 14, 6, 3, 15, 5, 1, 13, 12, 7, 11, 4, 2, 8,
     13, 7, 0, 9, 3, 4, 6, 10, 2, 8, 5, 14, 12, 11, 15, 1,
     13, 6, 4, 9, 8, 15, 3, 0, 11, 1, 2, 12, 5, 10, 14, 7,
     1, 10, 13, 0, 6, 9, 8, 7, 4, 15, 14, 3, 11, 5, 2, 12],
    [7, 13, 14, 3, 0, 6, 9, 10, 1, 2, 8, 5, 11, 12, 4, 15,
     13, 8, 11, 5, 6, 15, 0, 3, 4, 7, 2, 12, 1, 10, 14, 9,
     10, 6, 9, 0, 12, 11, 7, 13, 15, 1, 3, 14, 5, 2, 8, 4,
     3, 15, 0, 6, 10, 1, 13, 8, 9, 4, 5, 11, 12, 7, 2, 14],
    [2, 12, 4, 1, 7, 10, 11, 6, 8, 5, 3, 15, 13, 0, 14, 9,
     14, 11, 2, 12, 4, 7, 13, 1, 5, 0, 15, 10, 3, 9, 8, 6,
     4, 2, 1, 11, 10, 13, 7, 8, 15, 9, 12, 5, 6, 3, 0, 14,
     11, 8, 12, 7, 1, 14, 2, 13, 6, 15, 0, 9, 10, 4, 5, 3],
    [12, 1, 10, 15, 9, 2, 6, 8, 0, 13, 3, 4, 14, 7, 5, 11,
     10, 15, 4, 2, 7, 12, 9, 5, 6, 1, 13, 14, 0, 11, 3, 8,
     9, 14, 15, 5, 2, 8, 12, 3, 7, 0, 4, 10, 1, 13, 11, 6,
     4, 3, 2, 12, 9, 5, 15, 10, 11, 14, 1, 7, 6, 0, 8, 13],
    [4, 11, 2, 14, 15, 0, 8, 13, 3, 12, 9, 7, 5, 10, 6, 1,
     13, 0, 11, 7, 4, 9, 1, 10, 14, 3, 5, 12, 2, 15, 8, 6,
     1, 4, 11, 13, 12, 3, 7, 14, 10, 15, 6, 8, 0, 5, 9, 2,
     6, 11, 13, 8, 1, 4, 10, 7, 9, 5, 0, 15, 14, 2, 3, 12],
    [13, 2, 8, 4, 6, 15, 11, 1, 10, 9, 3, 14, 5, 0, 12, 7,
     1, 15, 13, 8, 10, 3, 7, 4, 12, 5, 6, 11, 0, 14, 9, 2,
     7, 11, 4, 1, 9, 12, 14, 2, 0, 6, 10, 13, 15, 3, 5, 8,
     2, 1, 14, 7, 4, 10, 8, 13, 15, 12, 9, 0, 3, 5, 6, 11]]"

section \<open>Key schedule\<close>

record des =
  des_C :: "u8 list"
  des_D :: "u8 list"
  des_KS :: "u8 list list"
  des_E :: "nat list"

definition pick :: "nat list \<Rightarrow> u8 list \<Rightarrow> u8 list" where
  "pick table xs = map (\<lambda>p. xs ! (p - 1)) table"

fun rotate_left :: "nat \<Rightarrow> u8 list \<Rightarrow> u8 list" where
  "rotate_left 0 c = c"
| "rotate_left (Suc k) c = rotate_left k (tl c @ [hd c])"

fun key_schedule :: "nat list \<Rightarrow> u8 list \<Rightarrow> u8 list \<Rightarrow> u8 list list \<times> u8 list \<times> u8 list" where
  "key_schedule [] c d = ([], c, d)"
| "key_schedule (k # ks) c d =
     (let c = rotate_left k c; d = rotate_left k d;
          row = pick PC2_C c @ pick (map (\<lambda>p. p - 28) PC2_D) d;
          (rows, c, d) = key_schedule ks c d
      in (row # rows, c, d))"

definition setkey :: "u8 list \<Rightarrow> des \<Rightarrow> des option" where
  "setkey key s =
     (if length key < 64 then None
      else let (rows, c, d) = key_schedule shifts (pick PC1_C key) (pick PC1_D key)
           in Some (s\<lparr>des_C := c, des_D := d, des_KS := rows, des_E := e_table\<rparr>))"

section \<open>Encrypting a block\<close>

text \<open>The selection functions: eight groups of six bits give eight groups of four.\<close>

definition sel_index :: "u8 list \<Rightarrow> nat \<Rightarrow> int" where
  "sel_index pre t =
     sint (pre ! t) * 32 + sint (pre ! (t + 1)) * 8 + sint (pre ! (t + 2)) * 4 +
     sint (pre ! (t + 3)) * 2 + sint (pre ! (t + 4)) + sint (pre ! (t + 5)) * 16"

definition sel_bits :: "nat \<Rightarrow> u8 list" where
  "sel_bits k = map (\<lambda>n. of_bool (bit k n)) [3, 2, 1, 0]"

definition selection :: "u8 list \<Rightarrow> u8 list option" where
  "selection pre =
     (if \<forall>j \<in> set [0..<8]. 0 \<le> sel_index pre (6 * j) \<and> sel_index pre (6 * j) < 64
      then Some (concat (map (\<lambda>j. sel_bits (S_box ! j ! nat (sel_index pre (6 * j)))) [0..<8]))
      else None)"

text \<open>
  One of the 16 rounds. \<open>R\<close> points into the array \<open>L\<close>, 32 elements on, so that \<open>R[E[j]-1]\<close> is the element
  \<open>31 + E[j]\<close> of \<open>L\<close>. The flag that should select decryption is not used.
\<close>

definition des_round :: "nat list \<Rightarrow> u8 list \<Rightarrow> u8 list \<times> u8 list \<Rightarrow> (u8 list \<times> u8 list) option" where
  "des_round E ki = (\<lambda>(L, R).
     map_option (\<lambda>f. (R, map (\<lambda>j. L ! j XOR pick P_box f ! j) [0..<32]))
       (selection (map (\<lambda>j. (L @ R) ! (31 + E ! j) XOR ki ! j) [0..<48])))"

fun des_rounds :: "nat list \<Rightarrow> u8 list list \<Rightarrow> u8 list \<times> u8 list \<Rightarrow> (u8 list \<times> u8 list) option" where
  "des_rounds E [] lr = Some lr"
| "des_rounds E (k # ks) lr = Option.bind (des_round E k lr) (des_rounds E ks)"

definition encrypt :: "bool \<Rightarrow> des \<Rightarrow> u8 list \<Rightarrow> u8 list option" where
  "encrypt edflag s block =
     (if length block < 64 then None
      else let l = pick IP block
           in map_option (\<lambda>(L, R). pick FP (R @ L) @ drop 64 block)
                (des_rounds (des_E s) (des_KS s) (take 32 l, drop 32 l)))"

section \<open>Encrypting a password\<close>

fun pw_bits :: "nat \<Rightarrow> (nat \<Rightarrow> u8) \<Rightarrow> u8 list" where
  "pw_bits 0 pw = []"
| "pw_bits (Suc n) pw =
     (if pw 0 = 0 then []
      else map (\<lambda>j. of_bool (bit (sint (pw 0)) (6 - j))) [0..<7] @ [0] @ pw_bits n (\<lambda>i. pw (i + 1)))"

definition pad_block :: "u8 list \<Rightarrow> u8 list" where
  "pad_block xs = xs @ replicate (66 - length xs) 0"

definition salt_value :: "u8 \<Rightarrow> int" where
  "salt_value ch =
     (let c = sint ch; c = (if c > 90 then c - 6 else c); c = (if c > 57 then c - 7 else c)
      in c - 46)"

definition swap_at :: "nat \<Rightarrow> nat \<Rightarrow> nat list \<Rightarrow> nat list" where
  "swap_at i j xs = xs[i := xs ! j, j := xs ! i]"

definition salt_table :: "nat \<Rightarrow> u8 \<Rightarrow> nat list \<Rightarrow> nat list" where
  "salt_table i ch E =
     fold (\<lambda>j E. if bit (salt_value ch) j then swap_at (6 * i + j) (6 * i + j + 24) E else E) [0..<6] E"

fun encrypt_times :: "nat \<Rightarrow> des \<Rightarrow> u8 list \<Rightarrow> u8 list option" where
  "encrypt_times 0 s block = Some block"
| "encrypt_times (Suc n) s block = Option.bind (encrypt False s block) (encrypt_times n s)"

definition out_char :: "u8 list \<Rightarrow> u8" where
  "out_char bs =
     (let c = fold (\<lambda>b c. (c * 2) OR sint b) bs 0 + 46;
          c = (if c > 57 then c + 7 else c); c = (if c > 90 then c + 6 else c)
      in word_of_int c)"

definition crypt :: "(nat \<Rightarrow> u8) \<Rightarrow> (nat \<Rightarrow> u8) \<Rightarrow> des \<Rightarrow> (u8 list \<times> des) option" where
  "crypt pw salt s =
     Option.bind (setkey (pad_block (pw_bits 8 pw)) s) (\<lambda>s.
       let s = s\<lparr>des_E := salt_table 1 (salt 1) (salt_table 0 (salt 0) (des_E s))\<rparr>
       in map_option (\<lambda>block.
            ([salt 0, if salt 1 = 0 then salt 0 else salt 1] @
             map (\<lambda>i. out_char (take 6 (drop (6 * i) block))) [0..<11] @ [0], s))
            (encrypt_times 25 s (pad_block [])))"

section \<open>Bits\<close>

definition bits :: "nat \<Rightarrow> u8 list \<Rightarrow> bool" where
  "bits n xs \<longleftrightarrow> length xs = n \<and> set xs \<subseteq> {0, 1}"

definition within :: "nat \<Rightarrow> nat list \<Rightarrow> bool" where
  "within n table \<longleftrightarrow> (\<forall>p \<in> set table. 0 < p \<and> p \<le> n)"

definition tables_ok :: "des \<Rightarrow> bool" where
  "tables_ok s \<longleftrightarrow> (\<forall>k \<in> set (des_KS s). bits 48 k) \<and> length (des_E s) = 48 \<and> within 32 (des_E s)"

lemma bits_length: "bits n xs \<Longrightarrow> length xs = n"
  by (simp add: bits_def)

lemma bits_nth: "bits n xs \<Longrightarrow> i < n \<Longrightarrow> xs ! i = 0 \<or> xs ! i = 1"
  using nth_mem [of i xs] by (auto simp: bits_def subset_iff)

lemma bits_map: "(\<And>x. x \<in> set xs \<Longrightarrow> f x = 0 \<or> f x = 1) \<Longrightarrow> length xs = n \<Longrightarrow> bits n (map f xs)"
  by (auto simp: bits_def)

lemma bits_append: "bits m xs \<Longrightarrow> bits n ys \<Longrightarrow> bits (m + n) (xs @ ys)"
  by (auto simp: bits_def)

lemma bits_take_drop: "bits (m + n) xs \<Longrightarrow> bits m (take m xs) \<and> bits n (drop m xs)"
  by (auto simp: bits_def dest: in_set_takeD in_set_dropD)

lemma bits_replicate: "bits n (replicate n 0)"
  by (auto simp: bits_def)

lemma bits_pick:
  "bits n xs \<Longrightarrow> within n table \<Longrightarrow> length table = m \<Longrightarrow> bits m (pick table xs)"
  unfolding pick_def by (intro bits_map bits_nth) (auto simp: within_def)

lemma pick_length [simp]: "length (pick table xs) = length table"
  by (simp add: pick_def)

lemma bit_xor: "x = 0 \<or> x = 1 \<Longrightarrow> y = 0 \<or> y = 1 \<Longrightarrow> x XOR y = 0 \<or> x XOR y = (1 :: u8)"
  by auto

lemma table_facts:
  "within 64 IP" "within 64 FP" "within 32 P_box" "within 32 e_table"
  "within 64 PC1_C" "within 64 PC1_D" "within 28 PC2_C"
  "within 28 (map (\<lambda>p. p - 28) PC2_D)"
  "length IP = 64" "length FP = 64" "length P_box = 32" "length e_table = 48"
  "length PC1_C = 28" "length PC1_D = 28" "length PC2_C = 24" "length PC2_D = 24" "length shifts = 16"
  by (simp_all add: within_def IP_def FP_def P_box_def e_table_def PC1_C_def PC1_D_def PC2_C_def PC2_D_def shifts_def)

section \<open>The rounds are a Feistel network\<close>

lemma sel_index_range:
  assumes "bits 48 pre" and "j < 8"
  shows "0 \<le> sel_index pre (6 * j) \<and> sel_index pre (6 * j) < 64"
proof -
  have b: "sint (pre ! (6 * j + i)) = 0 \<or> sint (pre ! (6 * j + i)) = 1" if "i < 6" for i
    using bits_nth [OF assms(1), of "6 * j + i"] that assms(2) by auto
  show ?thesis
    using b [of 0] b [of 1] b [of 2] b [of 3] b [of 4] b [of 5] by (simp add: sel_index_def) linarith
qed

definition feistel :: "nat list \<Rightarrow> u8 list \<Rightarrow> u8 list \<Rightarrow> u8 list" where
  "feistel E ki R =
     (let pre = map (\<lambda>j. R ! (E ! j - 1) XOR ki ! j) [0..<48]
      in pick P_box (concat (map (\<lambda>j. sel_bits (S_box ! j ! nat (sel_index pre (6 * j)))) [0..<8])))"

definition xor_list :: "u8 list \<Rightarrow> u8 list \<Rightarrow> u8 list" where
  "xor_list xs ys = map2 (XOR) xs ys"

lemma bits_sel: "bits 4 (sel_bits k)"
  by (auto simp: bits_def sel_bits_def)

lemma bits_concat: "(\<And>x. x \<in> set xs \<Longrightarrow> bits m (f x)) \<Longrightarrow> bits (m * length xs) (concat (map f xs))"
proof (induction xs)
  case (Cons x xs)
  then show ?case using bits_append [of m "f x" "m * length xs"] by simp
qed (simp add: bits_def)

lemma feistel_bits: "bits 32 (feistel E ki R)"
proof -
  have "bits 32 (concat (map (\<lambda>j. sel_bits (g j)) [0..<8]))" for g
    using bits_concat [of "[0..<8]" 4 "\<lambda>j. sel_bits (g j)"] bits_sel by simp
  then show ?thesis
    unfolding feistel_def Let_def by (rule bits_pick) (simp_all add: table_facts)
qed

lemma xor_list_bits: "bits n xs \<Longrightarrow> bits n ys \<Longrightarrow> bits n (xor_list xs ys)"
  unfolding xor_list_def
proof (rule bits_map)
  assume "bits n xs" "bits n ys"
  then show "length (zip xs ys) = n" by (simp add: bits_length)
  fix x
  assume "x \<in> set (zip xs ys)"
  then obtain i where i: "i < length xs" "i < length ys" "x = (xs ! i, ys ! i)"
    by (auto simp: in_set_zip)
  have "xs ! i XOR ys ! i = 0 \<or> xs ! i XOR ys ! i = 1"
    using \<open>bits n xs\<close> \<open>bits n ys\<close> i by (intro bit_xor bits_nth) (simp_all add: bits_length)
  with i show "(case x of (x, y) \<Rightarrow> x XOR y) = 0 \<or> (case x of (x, y) \<Rightarrow> x XOR y) = 1" by simp
qed

lemma xor_list_twice: "length xs = length ys \<Longrightarrow> xor_list (xor_list xs ys) ys = xs"
  by (rule nth_equalityI) (simp_all add: xor_list_def xor.assoc)

lemma des_round_feistel:
  assumes E: "length E = 48" "within 32 E" and k: "bits 48 ki" and l: "bits 32 L" and r: "bits 32 R"
  shows "des_round E ki (L, R) = Some (R, xor_list L (feistel E ki R))"
proof -
  let ?pre = "map (\<lambda>j. R ! (E ! j - 1) XOR ki ! j) [0..<48]"
  have e: "1 \<le> E ! j \<and> E ! j \<le> 32" if "j < 48" for j
    using nth_mem [of j E] E that by (simp add: within_def Suc_le_eq)
  have same: "map (\<lambda>j. (L @ R) ! (31 + E ! j) XOR ki ! j) [0..<48] = ?pre"
  proof (rule map_cong [OF refl])
    fix j
    assume "j \<in> set [0..<48 :: nat]"
    then obtain q where "E ! j = Suc q" using e [of j] by (cases "E ! j") auto
    then show "(L @ R) ! (31 + E ! j) XOR ki ! j = R ! (E ! j - 1) XOR ki ! j"
      using bits_length [OF l] by (simp add: nth_append)
  qed
  have "E ! j - 1 < 32" if "j < 48" for j using e [OF that] by linarith
  then have "bits 48 ?pre"
    by (intro bits_map bit_xor bits_nth [OF r] bits_nth [OF k]) auto
  then have "selection ?pre = Some (concat (map (\<lambda>j. sel_bits (S_box ! j ! nat (sel_index ?pre (6 * j)))) [0..<8]))"
    using sel_index_range by (auto simp: selection_def)
  moreover have "map (\<lambda>j. L ! j XOR F ! j) [0..<32] = xor_list L F" if "length F = 32" for F
    using that bits_length [OF l] by (intro nth_equalityI) (simp_all add: xor_list_def)
  ultimately show ?thesis
    by (simp add: des_round_def same feistel_def Let_def table_facts)
qed

fun feistel_rounds :: "nat list \<Rightarrow> u8 list list \<Rightarrow> u8 list \<times> u8 list \<Rightarrow> u8 list \<times> u8 list" where
  "feistel_rounds E [] lr = lr"
| "feistel_rounds E (k # ks) (L, R) = feistel_rounds E ks (R, xor_list L (feistel E k R))"

lemma feistel_rounds_append:
  "feistel_rounds E (ks @ ks') lr = feistel_rounds E ks' (feistel_rounds E ks lr)"
  by (induction E ks lr rule: feistel_rounds.induct) simp_all

lemma des_rounds_feistel:
  assumes "length E = 48" "within 32 E"
  shows "\<forall>k \<in> set ks. bits 48 k \<Longrightarrow> bits 32 (fst lr) \<Longrightarrow> bits 32 (snd lr) \<Longrightarrow>
    des_rounds E ks lr = Some (feistel_rounds E ks lr) \<and>
    bits 32 (fst (feistel_rounds E ks lr)) \<and> bits 32 (snd (feistel_rounds E ks lr))"
proof (induction ks arbitrary: lr)
  case (Cons k ks)
  obtain L R where lr: "lr = (L, R)" by (cases lr)
  with Cons.prems have round: "des_round E k lr = Some (R, xor_list L (feistel E k R))"
    using des_round_feistel [OF assms, of k L R] by simp
  have "bits 32 R" "bits 32 (xor_list L (feistel E k R))"
    using Cons.prems lr xor_list_bits [of 32 L] feistel_bits by auto
  with Cons.IH [of "(R, xor_list L (feistel E k R))"] Cons.prems round lr show ?case by simp
qed simp

text \<open>Whatever the selection functions are, the rounds in the opposite order undo the rounds.\<close>

lemma feistel_rounds_undo:
  assumes "length (fst lr) = 32" and "length (snd lr) = 32"
  shows "feistel_rounds E (rev ks) (prod.swap (feistel_rounds E ks lr)) = prod.swap lr"
  using assms
proof (induction ks arbitrary: lr)
  case (Cons k ks)
  obtain L R where lr: "lr = (L, R)" by (cases lr)
  let ?lr = "(R, xor_list L (feistel E k R))"
  have len: "length (feistel E k R) = 32" using feistel_bits bits_length by blast
  have "feistel_rounds E (rev ks) (prod.swap (feistel_rounds E ks ?lr)) = prod.swap ?lr"
    using Cons.prems lr len by (intro Cons.IH) (simp_all add: xor_list_def)
  with Cons.prems lr len show ?case
    by (simp add: feistel_rounds_append xor_list_twice)
qed simp

subsection \<open>The permutations\<close>

lemma pick_pick: "within (length u) t \<Longrightarrow> pick t (pick u xs) = pick (map (\<lambda>p. u ! (p - 1)) t) xs"
  by (auto simp: pick_def within_def intro!: nth_map)

lemma pick_all: "length xs = n \<Longrightarrow> pick [1..<n + 1] xs = xs"
  by (rule nth_equalityI) (simp_all add: pick_def del: upt_Suc)

lemma FP_inverts_IP: "length xs = 64 \<Longrightarrow> pick FP (pick IP xs) = xs"
  and IP_inverts_FP: "length xs = 64 \<Longrightarrow> pick IP (pick FP xs) = xs"
proof -
  have "map (\<lambda>p. IP ! (p - 1)) FP = [1..<64 + 1]" "map (\<lambda>p. FP ! (p - 1)) IP = [1..<64 + 1]"
    by code_simp+
  then show "length xs = 64 \<Longrightarrow> pick FP (pick IP xs) = xs" "length xs = 64 \<Longrightarrow> pick IP (pick FP xs) = xs"
    using table_facts pick_all [of xs 64] by (simp_all only: pick_pick table_facts)
qed


section \<open>Encryption can be undone\<close>

lemma encrypt_spec:
  assumes ok: "tables_ok s" and b: "bits 64 block"
  defines "lr \<equiv> feistel_rounds (des_E s) (des_KS s) (take 32 (pick IP block), drop 32 (pick IP block))"
  shows "encrypt edflag s (block @ rest) = Some (pick FP (snd lr @ fst lr) @ rest)"
    and "bits 64 (pick FP (snd lr @ fst lr))"
proof -
  have "bits (32 + 32) (pick IP block)" using b by (simp add: bits_pick table_facts)
  from bits_take_drop [OF this] have start: "bits 32 (take 32 (pick IP block))" "bits 32 (drop 32 (pick IP block))"
    by auto
  have E: "length (des_E s) = 48" "within 32 (des_E s)" and k: "\<forall>k \<in> set (des_KS s). bits 48 k"
    using ok by (simp_all add: tables_ok_def)
  note r = des_rounds_feistel [OF E k, of "(take 32 (pick IP block), drop 32 (pick IP block))", folded lr_def]
  have "pick IP (block @ rest) = pick IP block"
    using bits_length [OF b] table_facts(1)
    by (auto simp: pick_def within_def nth_append)
  then show "encrypt edflag s (block @ rest) = Some (pick FP (snd lr @ fst lr) @ rest)"
    using r start bits_length [OF b] by (cases lr) (simp add: encrypt_def Let_def)
  have "bits (32 + 32) (snd lr @ fst lr)" using r start by (intro bits_append) simp_all
  then show "bits 64 (pick FP (snd lr @ fst lr))" by (simp add: bits_pick table_facts)
qed

theorem encrypt_undone:
  assumes "tables_ok s" and "bits 64 block"
  shows "\<exists>c. encrypt ed s (block @ rest) = Some (c @ rest) \<and> bits 64 c \<and>
    encrypt ed' (s\<lparr>des_KS := rev (des_KS s)\<rparr>) (c @ rest) = Some (block @ rest)"
proof -
  let ?p = "(take 32 (pick IP block), drop 32 (pick IP block))"
  let ?s = "s\<lparr>des_KS := rev (des_KS s)\<rparr>"
  define lr where "lr = feistel_rounds (des_E s) (des_KS s) ?p"
  define c where "c = pick FP (snd lr @ fst lr)"
  note e = encrypt_spec [OF assms, folded lr_def, folded c_def]
  have ok: "tables_ok ?s" using assms(1) by (simp add: tables_ok_def)
  have len: "length (fst ?p) = 32" "length (snd ?p) = 32" by (simp_all add: table_facts)
  have "bits (32 + 32) (pick IP block)" using assms(2) by (simp add: bits_pick table_facts)
  from bits_take_drop [OF this] have "bits 32 (fst ?p)" "bits 32 (snd ?p)" by simp_all
  moreover have "length (des_E s) = 48" "within 32 (des_E s)" "\<forall>k \<in> set (des_KS s). bits 48 k"
    using assms(1) by (simp_all add: tables_ok_def)
  ultimately have lrlen: "length (fst lr) = 32" "length (snd lr) = 32"
    using des_rounds_feistel [of "des_E s" "des_KS s" ?p] bits_length by (auto simp: lr_def)
  then have "pick IP c = snd lr @ fst lr" by (simp add: c_def IP_inverts_FP)
  then have halves: "(take 32 (pick IP c), drop 32 (pick IP c)) = prod.swap lr"
    using lrlen by (cases lr) simp
  have "feistel_rounds (des_E ?s) (des_KS ?s) (prod.swap lr) = prod.swap ?p"
    using feistel_rounds_undo [OF len, of "des_E s" "des_KS s"] by (simp add: lr_def)
  moreover have "pick FP (pick IP block) = block"
    using bits_length [OF assms(2)] by (rule FP_inverts_IP)
  ultimately have "encrypt ed' ?s (c @ rest) = Some (block @ rest)"
    using encrypt_spec(1) [OF ok e(2), of ed' rest, unfolded halves] by simp
  with e show ?thesis by blast
qed

section \<open>The key schedule\<close>

lemma rotate_left_bits: "bits n c \<Longrightarrow> 0 < n \<Longrightarrow> bits n (rotate_left k c)"
proof (induction k c rule: rotate_left.induct)
  case (2 k c)
  then have "bits n (tl c @ [hd c])" by (cases c) (auto simp: bits_def)
  with 2 show ?case by simp
qed simp

lemma rotate_left_rotate: "c \<noteq> [] \<Longrightarrow> rotate_left k c = rotate k c"
proof (induction k c rule: rotate_left.induct)
  case (2 k c)
  then have "tl c @ [hd c] = rotate1 c" by (cases c) simp_all
  with 2 show ?case by (simp add: rotate1_rotate_swap funpow_swap1 rotate_def)
qed simp

lemma key_schedule_bits:
  "bits 28 c \<Longrightarrow> bits 28 d \<Longrightarrow> key_schedule ks c d = (rows, c', d') \<Longrightarrow>
   length rows = length ks \<and> (\<forall>k \<in> set rows. bits 48 k) \<and> c' = rotate (sum_list ks) c \<and>
   d' = rotate (sum_list ks) d"
proof (induction ks c d arbitrary: rows c' d' rule: key_schedule.induct)
  case (2 k ks c d)
  obtain rows' c2 d2 where rest: "key_schedule ks (rotate_left k c) (rotate_left k d) = (rows', c2, d2)"
    by (metis prod_cases3)
  have b: "bits 28 (rotate_left k c)" "bits 28 (rotate_left k d)"
    using 2 by (simp_all add: rotate_left_bits)
  then have "bits (24 + 24) (pick PC2_C (rotate_left k c) @ pick (map (\<lambda>p. p - 28) PC2_D) (rotate_left k d))"
    by (intro bits_append bits_pick [where n = 28]) (simp_all add: table_facts)
  moreover have "c \<noteq> []" "d \<noteq> []" using 2(2,3) by (auto simp: bits_def)
  ultimately show ?case
    using 2(1) [OF refl refl refl b rest] 2(4) rest
    by (auto simp: Let_def rotate_left_rotate rotate_rotate add.commute)
qed simp

text \<open>
  The shifts add up to a whole turn: after the schedule the two halves are what the key's permutation
  put there.
\<close>

lemma setkey_spec:
  assumes "bits n key" and "64 \<le> n"
  obtains rows where "setkey key s = Some (s\<lparr>des_C := pick PC1_C key, des_D := pick PC1_D key,
      des_KS := rows, des_E := e_table\<rparr>)"
    and "length rows = 16" and "\<forall>k \<in> set rows. bits 48 k"
proof -
  have "within n PC1_C" "within n PC1_D"
    using table_facts(5,6) assms(2) by (auto simp: within_def)
  then have b: "bits 28 (pick PC1_C key)" "bits 28 (pick PC1_D key)"
    using assms(1) by (simp_all add: bits_pick table_facts)
  obtain rows c d where ks: "key_schedule shifts (pick PC1_C key) (pick PC1_D key) = (rows, c, d)"
    by (metis prod_cases3)
  have "sum_list shifts = 28" by (simp add: shifts_def)
  with key_schedule_bits [OF b ks] bits_length [OF b(1)] bits_length [OF b(2)]
  have "c = pick PC1_C key" "d = pick PC1_D key" "length rows = 16" "\<forall>k \<in> set rows. bits 48 k"
    by (simp_all add: table_facts rotate_length01 rotate_id)
  with ks assms bits_length [OF assms(1)] show thesis
    by (intro that [of rows]) (simp_all add: setkey_def)
qed

section \<open>Passwords\<close>

lemma pw_bits_bits: "bits (length (pw_bits n pw)) (pw_bits n pw) \<and> length (pw_bits n pw) \<le> 8 * n"
proof (induction n pw rule: pw_bits.induct)
  case (2 n pw)
  have "bits 7 (map (\<lambda>j. of_bool (bit (sint (pw 0)) (6 - j)) :: u8) [0..<7])"
    by (rule bits_map) auto
  then show ?case using 2 by (auto simp: bits_def)
qed (simp add: bits_def)

lemma pad_block_bits: "bits (length xs) xs \<Longrightarrow> length xs \<le> 66 \<Longrightarrow> bits 66 (pad_block xs)"
  using bits_append [of "length xs" xs "66 - length xs" "replicate (66 - length xs) 0"]
  by (simp add: pad_block_def bits_replicate)

lemma key_block_bits: "bits 66 (pad_block (pw_bits 8 pw))"
  using pw_bits_bits [of 8 pw] by (intro pad_block_bits) auto

lemma swap_at_ok:
  "length E = 48 \<Longrightarrow> within 32 E \<Longrightarrow> i < 48 \<Longrightarrow> j < 48 \<Longrightarrow>
   length (swap_at i j E) = 48 \<and> within 32 (swap_at i j E)"
  by (auto simp: swap_at_def within_def dest!: subsetD [OF set_update_subset_insert])

lemma salt_table_ok:
  assumes "length E = 48" and "within 32 E" and "i < 2"
  shows "length (salt_table i ch E) = 48 \<and> within 32 (salt_table i ch E)"
  unfolding salt_table_def
  by (rule fold_invariant [where Q = "\<lambda>j. j < 6" and P = "\<lambda>E. length E = 48 \<and> within 32 E"])
    (use assms swap_at_ok in auto)

lemma encrypt_times_bits:
  "tables_ok s \<Longrightarrow> bits 66 block \<Longrightarrow> \<exists>c. encrypt_times n s block = Some c \<and> bits 66 c"
proof (induction n arbitrary: block)
  case (Suc n)
  have parts: "bits 64 (take 64 block)" "bits 2 (drop 64 block)"
    using bits_take_drop [of 64 2 block] Suc.prems(2) by simp_all
  obtain c where c: "encrypt False s (take 64 block @ drop 64 block) = Some (c @ drop 64 block)" "bits 64 c"
    using encrypt_undone [OF Suc.prems(1) parts(1)] by blast
  then have "bits 66 (c @ drop 64 block)" using bits_append [OF c(2) parts(2)] by simp
  with Suc c show ?case by simp
qed simp

text \<open>The number a group of bits stands for, and its character.\<close>

definition bits_value :: "u8 list \<Rightarrow> int" where
  "bits_value bs = fold (\<lambda>b c. (c * 2) OR sint b) bs 0"

lemma or_bit: "b = 0 \<or> b = 1 \<Longrightarrow> (c * 2) OR sint (b :: u8) = 2 * c + sint b"
  by (auto simp: or_one_eq)

lemma bits_value_bound:
  assumes "set bs \<subseteq> {0, 1}"
  shows "0 \<le> bits_value bs \<and> bits_value bs < 2 ^ length bs"
  using assms
proof (induction bs rule: rev_induct)
  case (snoc b bs)
  then have "b = 0 \<or> b = 1" by auto
  from or_bit [OF this] snoc this show ?case by (auto simp: bits_value_def)
qed (simp add: bits_value_def)

definition crypt_char :: "u8 \<Rightarrow> bool" where
  "crypt_char w \<longleftrightarrow> w \<in> {46..57} \<or> w \<in> {65..90} \<or> w \<in> {97..122}"

text \<open>The character of a number below 64 is a dot, a slash, a digit or a letter, and as a salt it is the number.\<close>

lemma out_char_of:
  assumes "set bs \<subseteq> {0, 1}" and "length bs \<le> 6"
  shows "crypt_char (out_char bs)" and "salt_value (out_char bs) = bits_value bs"
proof -
  have "(2 :: int) ^ length bs \<le> 2 ^ 6" using assms(2) by (intro power_increasing) simp_all
  then have v: "0 \<le> bits_value bs" "bits_value bs < 64" using bits_value_bound [OF assms(1)] by auto
  define c where "c = (let c = bits_value bs + 46; c = (if c > 57 then c + 7 else c)
    in if c > 90 then c + 6 else c)"
  have c: "46 \<le> c" "c < 128" "c \<le> 57 \<or> 65 \<le> c \<and> c \<le> 90 \<or> 97 \<le> c \<and> c \<le> 122"
    using v by (auto simp: c_def Let_def)
  have out: "out_char bs = word_of_int c"
    by (simp add: out_char_def c_def bits_value_def Let_def)
  have u: "uint (word_of_int c :: u8) = c" using c by (simp add: unsigned_of_int take_bit_eq_mod)
  moreover have "sint (word_of_int c :: u8) = c"
    using c by (simp add: signed_of_int signed_take_bit_eq_if_positive take_bit_eq_mod bit_iff_odd)
  ultimately show "crypt_char (out_char bs)" "salt_value (out_char bs) = bits_value bs"
    using c v by (auto simp: out crypt_char_def word_le_def salt_value_def c_def Let_def split: if_splits)
qed

theorem crypt_result:
  obtains s' hash where "crypt pw salt s =
      Some ([salt 0, if salt 1 = 0 then salt 0 else salt 1] @ hash @ [0], s')"
    and "length hash = 11" and "\<forall>ch \<in> set hash. crypt_char ch" and "tables_ok s'"
proof -
  define key where "key = pad_block (pw_bits 8 pw)"
  have "bits 66 key" by (simp only: key_def key_block_bits)
  then obtain rows where k: "setkey key s = Some (s\<lparr>des_C := pick PC1_C key, des_D := pick PC1_D key,
        des_KS := rows, des_E := e_table\<rparr>)" and rows: "\<forall>k \<in> set rows. bits 48 k"
    by (rule setkey_spec) simp_all
  define s1 where "s1 = s\<lparr>des_C := pick PC1_C key, des_D := pick PC1_D key, des_KS := rows,
    des_E := salt_table 1 (salt 1) (salt_table 0 (salt 0) e_table)\<rparr>"
  have "length (salt_table 0 (salt 0) e_table) = 48 \<and> within 32 (salt_table 0 (salt 0) e_table)"
    by (rule salt_table_ok) (simp_all add: table_facts)
  then have ok: "tables_ok s1"
    using salt_table_ok [of "salt_table 0 (salt 0) e_table" 1 "salt 1"] rows
    by (simp add: s1_def tables_ok_def)
  obtain b where b: "encrypt_times 25 s1 (pad_block []) = Some b" "bits 66 b"
    using encrypt_times_bits [OF ok, of "pad_block []" 25] pad_block_bits [of "[]"]
    by (auto simp: bits_def)
  let ?hash = "map (\<lambda>i. out_char (take 6 (drop (6 * i) b))) [0..<11]"
  have "set (take 6 (drop (6 * i) b)) \<subseteq> {0, 1}" for i
    using b(2) by (auto simp: bits_def dest!: in_set_takeD in_set_dropD)
  then have "\<forall>ch \<in> set ?hash. crypt_char ch" by (auto intro!: out_char_of)
  then show thesis
    using k b(1) ok by (intro that [of ?hash s1]) (simp_all add: crypt_def key_def [symmetric] s1_def Let_def)
qed

text \<open>Only eight characters count, and of each only seven bits.\<close>

lemma pw_bits_cong:
  "(\<And>i. i < n \<Longrightarrow> pw i AND 0x7F = pw' i AND 0x7F \<and> (pw i = 0 \<longleftrightarrow> pw' i = 0)) \<Longrightarrow>
   pw_bits n pw = pw_bits n pw'"
proof (induction n pw arbitrary: pw' rule: pw_bits.induct)
  case (2 n pw)
  have eq: "pw 0 AND 0x7F = pw' 0 AND 0x7F" "(pw 0 = 0) = (pw' 0 = 0)" using 2(2) [of 0] by auto
  have "bit (sint w) k = bit (w AND mask 7) k" if "k < 7" for w :: u8 and k
    using that by (simp add: bit_simps)
  then have "map (\<lambda>j. of_bool (bit (sint (pw 0)) (6 - j)) :: u8) [0..<7] =
      map (\<lambda>j. of_bool (bit (sint (pw' 0)) (6 - j))) [0..<7]"
    using eq(1) by (simp add: mask_eq_exp_minus_1)
  moreover have "pw_bits n (\<lambda>i. pw (i + 1)) = pw_bits n (\<lambda>i. pw' (i + 1))" if "pw 0 \<noteq> 0"
    using 2(2) by (intro 2(1) that) auto
  ultimately show ?case using eq(2) by simp
qed simp

theorem crypt_ignores:
  assumes "\<And>i. i < 8 \<Longrightarrow> pw i AND 0x7F = pw' i AND 0x7F \<and> (pw i = 0 \<longleftrightarrow> pw' i = 0)"
  shows "crypt pw salt s = crypt pw' salt s"
  using pw_bits_cong [of 8 pw pw'] assms by (simp add: crypt_def)

end
