(* ===== verification/Muxx_Text.thy ===== *)
theory Muxx_Text
  imports Muxx_Prelude
begin

text \<open>
  The conversions of numbers to text of \<open>lib/itoo.s\<close>, \<open>lib/itod.s\<close> and \<open>lib/itoh.s\<close>: a word or a
  longword to a fixed number of octal, decimal or hexadecimal digits, the last digit first. The
  loops shift arithmetically (\<open>ash\<close>), so the sign bit comes in from the left; the lemmas say when
  that does no harm and read the texts back.
\<close>

section \<open>The conversions\<close>

definition digit_char :: "nat \<Rightarrow> char" where
  "digit_char n = char_of (48 + n)"

text \<open>The loop over groups of three bits: the digits of \<open>n\<close> groups in front of \<open>acc\<close>, and the rest.\<close>

fun octal_groups :: "nat \<Rightarrow> u16 \<Rightarrow> string \<Rightarrow> string \<times> u16" where
  "octal_groups 0 r1 acc = (acc, r1)"
| "octal_groups (Suc n) r1 acc =
     octal_groups n (signed_drop_bit 3 r1) (digit_char (unat (r1 AND 7)) # acc)"

definition itoo :: "u16 \<Rightarrow> string" where
  "itoo w = (let (acc, r1) = octal_groups 5 w [] in digit_char (unat (r1 AND 1)) # acc)"

text \<open>A longword is converted as its low word, the digit in the middle and its high word.\<close>

definition itool :: "u32 \<Rightarrow> string" where
  "itool l =
     (let low = ucast l :: u16; high = ucast (drop_bit 16 l) :: u16;
          (acc, r1) = octal_groups 5 low [];
          r4 = (push_bit 1 (high AND 3)) OR (r1 AND 1)
      in fst (octal_groups 5 (signed_drop_bit 2 high) (digit_char (unat r4) # acc)))"

fun decimal_digits :: "nat \<Rightarrow> nat \<Rightarrow> string \<Rightarrow> string" where
  "decimal_digits 0 r3 acc = acc"
| "decimal_digits (Suc n) r3 acc = decimal_digits n (r3 div 10) (digit_char (r3 mod 10) # acc)"

definition itod :: "u16 \<Rightarrow> string" where
  "itod w = decimal_digits 5 (unat w) []"

definition itods :: "u16 \<Rightarrow> string" where
  "itods w = (if bit w 15 then CHR ''-'' # itod (- w) else CHR '' '' # itod w)"

text \<open>
  The division of a longword by 10000 truncates; a quotient that does not fit a word leaves the
  registers undefined.
\<close>

definition itodl :: "u32 \<Rightarrow> string option" where
  "itodl l =
     (let v = sint l; q = sgn v * (\<bar>v\<bar> div 10000); r = v - q * 10000
      in if - 32768 \<le> q \<and> q \<le> 32767 then Some (itod (word_of_int q) @ tl (itod (word_of_int r)))
         else None)"

definition htab :: string where
  "htab = ''0123456789ABCDEF''"

fun hex_digits :: "nat \<Rightarrow> u16 \<Rightarrow> string \<Rightarrow> string" where
  "hex_digits 0 r1 acc = acc"
| "hex_digits (Suc n) r1 acc = hex_digits n (signed_drop_bit 4 r1) (htab ! unat (r1 AND 15) # acc)"

definition itoh :: "u16 \<Rightarrow> string" where
  "itoh w = hex_digits 4 w []"

text \<open>
  The conversions of a byte. \<open>_itodb\<close> starts behind the buffer and stores upward, and divides the
  digit it has just stored instead of the quotient: what it writes lies behind the three bytes of the
  buffer. The byte is extended with its sign in both.
\<close>

fun byte_digits :: "nat \<Rightarrow> u16 \<Rightarrow> string" where
  "byte_digits 0 r3 = []"
| "byte_digits (Suc n) r3 =
     (let d = unat r3 mod 10 in digit_char d # byte_digits n (of_nat (48 + d)))"

definition itodb :: "u8 \<Rightarrow> string \<Rightarrow> string" where
  "itodb b area = take 3 area @ byte_digits 3 (scast b) @ drop 6 area"

definition itohb :: "u8 \<Rightarrow> string" where
  "itohb b = hex_digits 2 (scast b) []"

section \<open>Reading them back\<close>

definition digit_value :: "char \<Rightarrow> nat" where
  "digit_value c = (let n = of_char c in if n < 58 then n - 48 else n - 55)"

definition text_value :: "nat \<Rightarrow> string \<Rightarrow> nat" where
  "text_value b s = foldl (\<lambda>v c. v * b + digit_value c) 0 s"

lemma digit_value_char [simp]: "n < 10 \<Longrightarrow> digit_value (digit_char n) = n"
  by (simp add: digit_value_def digit_char_def Let_def)

lemma digit_value_htab [simp]:
  assumes "n < 16" shows "digit_value (htab ! n) = n"
proof -
  have "\<forall>k < 16. digit_value (htab ! k) = k" by code_simp
  with assms show ?thesis by blast
qed

lemma text_value_snoc [simp]: "text_value b (s @ [c]) = text_value b s * b + digit_value c"
  by (simp add: text_value_def)

lemma text_value_Nil [simp]: "text_value b [] = 0"
  by (simp add: text_value_def)

lemma text_value_append: "text_value b (s @ t) = text_value b s * b ^ length t + text_value b t"
proof (induction t rule: rev_induct)
  case (snoc c t)
  then show ?case by (simp add: append_assoc [symmetric] algebra_simps del: append_assoc)
qed simp

lemma text_value_Cons: "text_value b (c # s) = digit_value c * b ^ length s + text_value b s"
  using text_value_append [of b "[c]" s] by (simp add: text_value_def)

subsection \<open>Shifting\<close>

text \<open>As long as the field lies inside the word the arithmetic shift reads the same bits.\<close>

lemma ash_field:
  "n + k \<le> 16 \<Longrightarrow> signed_drop_bit n (w :: u16) AND mask k = drop_bit n w AND mask k"
  by (rule bit_word_eqI) (auto simp: bit_simps)

lemma unat_field: "unat (drop_bit n (w :: u16) AND mask k) = unat w div 2 ^ n mod 2 ^ k"
proof -
  have "unat w mod 2 ^ LENGTH(16) = unat w"
    using unsigned_less [where 'a = nat, of w] by (intro mod_less) simp
  then show ?thesis
    by (simp only: take_bit_eq_mask [symmetric] unsigned_take_bit_eq unsigned_drop_bit_eq)
      (simp only: take_bit_eq_mod drop_bit_eq_div)
qed

lemma ash_digit:
  assumes "n + k \<le> 16"
  shows "unat (signed_drop_bit n (w :: u16) AND mask k) = unat w div 2 ^ n mod 2 ^ k"
  using ash_field [OF assms] unat_field by simp

subsection \<open>Octal\<close>

lemma octal_groups_value:
  "d + 3 * n \<le> 16 \<Longrightarrow>
   text_value 8 (fst (octal_groups n (signed_drop_bit d w) acc)) =
     (unat (w :: u16) div 2 ^ d mod 8 ^ n) * 8 ^ length acc + text_value 8 acc"
proof (induction n arbitrary: d acc)
  case 0
  then show ?case by simp
next
  case (Suc n)
  have d: "unat (signed_drop_bit d w AND 7) = unat w div 2 ^ d mod 8"
    using ash_digit [of d 3 w] Suc.prems by (simp add: mask_eq_exp_minus_1)
  have "text_value 8 (fst (octal_groups (Suc n) (signed_drop_bit d w) acc)) =
      text_value 8 (fst (octal_groups n (signed_drop_bit (d + 3) w)
        (digit_char (unat w div 2 ^ d mod 8) # acc)))"
    by (simp add: d signed_drop_bit_signed_drop_bit add.commute)
  also have "\<dots> = (unat w div 2 ^ (d + 3) mod 8 ^ n) * 8 ^ Suc (length acc)
      + (unat w div 2 ^ d mod 8) * 8 ^ length acc + text_value 8 acc"
    using Suc.IH [of "d + 3"] Suc.prems by (simp add: text_value_Cons)
  also have "unat w div 2 ^ d mod 8 ^ Suc n =
      (unat w div 2 ^ (d + 3) mod 8 ^ n) * 8 + unat w div 2 ^ d mod 8"
    by (simp add: mod_mult2_eq div_mult2_eq [symmetric] power_add mult.commute)
  ultimately show ?case by (simp add: algebra_simps)
qed

lemma octal_groups_rest:
  "snd (octal_groups n r acc) = signed_drop_bit (3 * n) r"
  by (induction n r acc rule: octal_groups.induct)
    (simp_all add: signed_drop_bit_signed_drop_bit add.commute)

lemma octal_groups_length: "length (fst (octal_groups n r acc)) = n + length acc"
  by (induction n r acc rule: octal_groups.induct) simp_all

lemma itoo_length: "length (itoo w) = 6"
  using octal_groups_length [of 5 w "[]"] by (simp add: itoo_def case_prod_unfold Let_def)

lemma itoo_value: "text_value 8 (itoo w) = unat w"
proof -
  have "unat (signed_drop_bit 15 w AND 1) = unat w div 2 ^ 15"
    using ash_digit [of 15 1 w] unsigned_less [where 'a = nat, of w]
    by (simp add: mask_eq_exp_minus_1)
  moreover have "unat w div 32768 < 10"
    using unsigned_less [where 'a = nat, of w] by (intro less_mult_imp_div_less) simp
  ultimately show ?thesis
    using octal_groups_value [of 0 5 w "[]"] octal_groups_rest [of 5 w "[]"]
      octal_groups_length [of 5 w "[]"]
    by (simp add: itoo_def text_value_Cons case_prod_unfold Let_def)
qed

text \<open>
  Of a longword the last group also gets the sign that \<open>ash\<close> has drawn in: the text is the number
  only below \<open>2 ^ 31\<close>.
\<close>

lemma itool_length: "length (itool l) = 11"
  using octal_groups_length [of 5 "ucast l" "[]"]
  by (simp add: itool_def case_prod_unfold Let_def octal_groups_length)

lemma octal_groups_Suc_last:
  "octal_groups (Suc n) r acc =
     (let (a, r) = octal_groups n r acc in (digit_char (unat (r AND 7)) # a, signed_drop_bit 3 r))"
proof (induction n arbitrary: r acc)
  case 0
  then show ?case by simp
next
  case (Suc n)
  let ?r = "signed_drop_bit 3 r" and ?a = "digit_char (unat (r AND 7)) # acc"
  have "octal_groups (Suc (Suc n)) r acc = octal_groups (Suc n) ?r ?a"
    by (rule octal_groups.simps(2))
  also note Suc [of ?r ?a]
  finally show ?case by (simp only: octal_groups.simps(2))
qed

lemma high_bits: "unat (w :: u16) div 32768 = of_bool (bit w 15)"
proof -
  have "unat w div 32768 < 2"
    using unsigned_less [where 'a = nat, of w] by (intro less_mult_imp_div_less) simp
  moreover have "odd (unat w div 32768) \<longleftrightarrow> bit w 15"
    using bit_unsigned_iff [where 'a = nat, of w 15] by (simp add: bit_iff_odd)
  ultimately show ?thesis by (cases "unat w div 32768") auto
qed

lemma bit_7: "bit (7 :: int) n \<longleftrightarrow> n < 3"
  using bit_mask_iff [where 'a = int, of 3 n] by (auto simp: mask_eq_exp_minus_1 possible_bit_def)

lemma bit_4: "bit (4 :: int) n \<longleftrightarrow> n = 2"
  using bit_exp_iff [where 'a = int, of 2 n] by (auto simp: possible_bit_def)

lemma sign_digit:
  "unat (signed_drop_bit 14 (w :: u16) AND 7) = unat w div 16384 + 4 * of_bool (bit w 15)"
proof -
  have "unat w div 16384 < 4"
    using unsigned_less [where 'a = nat, of w] by (intro less_mult_imp_div_less) simp
  then have low: "unat (drop_bit 14 w AND mask 2) = unat w div 16384"
    using unat_field [of 14 w 2] by simp
  have "signed_drop_bit 14 w AND 7 =
      (drop_bit 14 w AND mask 2) + (if bit w 15 then push_bit 2 1 else 0)"
    by (subst disjunctive_add)
      (auto simp: bit_simps bit_7 bit_4 le_less_Suc_eq split: if_splits intro!: bit_word_eqI)
  moreover have "unat w div 16384 < 4" by fact
  ultimately show ?thesis using low by (simp add: unat_word_ariths)
qed
lemma middle_digit:
  "unat ((push_bit 1 (h AND 3)) OR (signed_drop_bit 15 (l :: u16) AND 1) :: u16) =
     2 * (unat h mod 4) + unat l div 32768"
proof -
  let ?a = "h AND 3" and ?b = "signed_drop_bit 15 l AND 1"
  have a: "unat ?a = unat h mod 4" using ash_digit [of 0 2 h] by (simp add: mask_eq_exp_minus_1)
  have b: "unat ?b = unat l div 32768"
    using ash_digit [of 15 1 l] by (simp add: mask_eq_exp_minus_1 high_bits)
  have "push_bit 1 ?a AND ?b = 0" by (rule bit_word_eqI) (auto simp: bit_simps bit_0 Suc_le_eq)
  then have "push_bit 1 ?a OR ?b = push_bit 1 ?a + ?b" by (simp add: disjunctive_add_eq_or)
  also have "\<dots> = 2 * ?a + ?b" by (simp add: push_bit_eq_mult)
  also have "unat \<dots> = 2 * (unat h mod 4) + unat l div 32768"
    using a b high_bits [of l] by (simp add: unat_word_ariths)
  finally show ?thesis .
qed

lemma itool_value: "text_value 8 (itool l) = unat l + (if bit l 31 then 2 ^ 32 else 0)"
proof -
  let ?low = "ucast l :: u16" and ?high = "ucast (drop_bit 16 l) :: u16"
  obtain a1 r1 where g1: "octal_groups 5 ?low [] = (a1, r1)" by fastforce
  have a1: "text_value 8 a1 = unat ?low mod 8 ^ 5" "length a1 = 5" "r1 = signed_drop_bit 15 ?low"
    using octal_groups_value [of 0 5 ?low "[]"] octal_groups_length [of 5 ?low "[]"]
      octal_groups_rest [of 5 ?low "[]"] g1 by simp_all
  let ?mid = "push_bit 1 (?high AND 3) OR (r1 AND 1)"
  let ?a2 = "digit_char (unat ?mid) # a1"
  obtain a3 r3 where g3: "octal_groups 4 (signed_drop_bit 2 ?high) ?a2 = (a3, r3)" by fastforce
  have a3: "text_value 8 a3 = (unat ?high div 4 mod 8 ^ 4) * 8 ^ 6 + text_value 8 ?a2"
    "length a3 = 10" "r3 = signed_drop_bit 14 ?high"
    using octal_groups_value [of 2 4 ?high ?a2] octal_groups_length [of 4 "signed_drop_bit 2 ?high" ?a2]
      octal_groups_rest [of 4 "signed_drop_bit 2 ?high" ?a2] g3 a1
    by (simp_all add: signed_drop_bit_signed_drop_bit)
  have low: "unat ?low = unat l mod 65536"
    by (simp add: unsigned_ucast_eq take_bit_eq_mod)
  have lt: "unat l < 65536 * 65536" using unsigned_less [where 'a = nat, of l] by simp
  have drop: "unat (drop_bit 16 l) = unat l div 65536"
    by (subst unat_drop_bit_eq) (simp add: drop_bit_eq_div)
  then have high: "unat ?high = unat l div 65536" "unat l div 65536 < 65536"
    using lt by (simp_all add: unsigned_ucast_eq take_bit_eq_mod less_mult_imp_div_less)
  have top: "bit ?high 15 = bit l 31" by (simp add: bit_simps)
  have mid: "unat ?mid = 2 * (unat ?high mod 4) + unat ?low div 32768"
    using middle_digit [of ?high ?low] a1(3) by simp
  have "unat ?low div 32768 < 2" using low by (intro less_mult_imp_div_less) simp
  then have "unat ?mid < 10" using mid by simp
  then have v2: "text_value 8 ?a2 = unat ?mid * 8 ^ 5 + unat ?low mod 8 ^ 5" "length ?a2 = 6"
    using a1 by (simp_all add: text_value_Cons)
  have last: "itool l = digit_char (unat (r3 AND 7)) # a3"
    using g1 g3 by (simp add: itool_def octal_groups_Suc_last [of 4, simplified] Let_def
        del: octal_groups.simps(2))
  have digit: "unat (r3 AND 7) = unat ?high div 16384 + 4 * of_bool (bit l 31)"
    using sign_digit [of ?high] a3(3) top by simp
  moreover have "unat ?high div 16384 < 4" using high by (intro less_mult_imp_div_less) simp
  ultimately have "unat (r3 AND 7) < 10" by simp
  then have "text_value 8 (itool l) = unat (r3 AND 7) * 8 ^ 10 + (unat ?high div 4 mod 8 ^ 4) * 8 ^ 6
      + (unat ?mid * 8 ^ 5 + unat ?low mod 8 ^ 5)"
    using a3 v2 by (simp add: last text_value_Cons)
  also have "\<dots> = unat l + (if bit l 31 then 2 ^ 32 else 0)"
  proof -
    define h where "h = unat ?high"
    define w where "w = unat ?low"
    have l: "unat l = h * 65536 + w" using low high(1) by (simp add: h_def w_def)
    have "h div 4 mod 4096 + h div 16384 * 4096 = h div 4"
      by (simp add: div_mult2_eq [of h 4 4096, simplified])
    then have hs: "h = (h div 16384 * 4096 + h div 4 mod 4096) * 4 + h mod 4"
      using div_mult_mod_eq [of h 4] by (simp only: add.commute [of "h div 16384 * 4096"])
    have pieces: "h = (a * 4096 + b) * 4 + c \<Longrightarrow> w = d * 32768 + e \<Longrightarrow>
        a * 8 ^ 10 + b * 8 ^ 6 + ((2 * c + d) * 8 ^ 5 + e) = h * 65536 + w" for a b c d e
      by simp
    have "h div 16384 * 8 ^ 10 + (h div 4 mod 8 ^ 4) * 8 ^ 6
        + ((2 * (h mod 4) + w div 32768) * 8 ^ 5 + w mod 8 ^ 5) = h * 65536 + w"
      using pieces [OF hs, of "w div 32768" "w mod 32768"] by simp
    then show ?thesis using digit mid l by (simp add: h_def w_def algebra_simps)
  qed
  finally show ?thesis .
qed

subsection \<open>Decimal\<close>

lemma decimal_digits_length: "length (decimal_digits n v acc) = n + length acc"
  by (induction n v acc rule: decimal_digits.induct) simp_all

lemma decimal_digits_value:
  "text_value 10 (decimal_digits n v acc) = (v mod 10 ^ n) * 10 ^ length acc + text_value 10 acc"
proof (induction n v acc rule: decimal_digits.induct)
  case (2 n v acc)
  have "v mod 10 ^ Suc n = (v div 10 mod 10 ^ n) * 10 + v mod 10"
    by (simp add: mod_mult2_eq mult.commute)
  then show ?case using 2 by (simp add: text_value_Cons algebra_simps)
qed simp

lemma itod_length [simp]: "length (itod w) = 5"
  by (simp add: itod_def decimal_digits_length)

lemma itod_value: "text_value 10 (itod w) = unat w"
  using unsigned_less [where 'a = nat, of w] by (simp add: itod_def decimal_digits_value)

text \<open>The value of a signed text: an optional minus sign or blank, and digits.\<close>

definition signed_text_value :: "string \<Rightarrow> int" where
  "signed_text_value s = (if hd s = CHR ''-'' then - int (text_value 10 (tl s)) else int (text_value 10 (tl s)))"

lemma itods_length [simp]: "length (itods w) = 6"
  by (simp add: itods_def)

lemma uint16_mod: "uint (w :: u16) mod 65536 = uint w"
  using unsigned_less [where 'a = int, of w] by (intro mod_pos_pos_trivial) simp_all

lemma sint_of_uint: "sint (w :: u16) = uint w - (if bit w 15 then 65536 else 0)"
  by (simp add: sint_uint signed_take_bit_eq_take_bit_minus bit_uint_iff take_bit_eq_mod
      uint16_mod)

lemma itods_value: "signed_text_value (itods w) = sint w"
proof (cases "bit w 15")
  case True
  then have "int (unat (- w)) = - sint w"
  proof -
    have "sint w = uint w - 2 ^ 16" using True by (simp add: sint_of_uint)
    moreover have "w \<noteq> 0" using True by auto
    then have "uint (- w) = 2 ^ 16 - uint w"
      by (simp add: uint_word_ariths zmod_zminus1_eq_if uint16_mod uint_0_iff)
    ultimately show ?thesis by simp
  qed
  with True show ?thesis by (simp add: itods_def signed_text_value_def itod_value)
next
  case False
  then have "sint w = uint w" by (simp add: sint_of_uint)
  with False show ?thesis by (simp add: itods_def signed_text_value_def itod_value)
qed

subsection \<open>Hexadecimal\<close>

lemma hex_digits_value:
  "4 * (n + m) \<le> 16 \<Longrightarrow>
   text_value 16 (hex_digits n (signed_drop_bit (4 * m) w) acc) =
     (unat (w :: u16) div 16 ^ m mod 16 ^ n) * 16 ^ length acc + text_value 16 acc"
proof (induction n arbitrary: m acc)
  case 0
  then show ?case by simp
next
  case (Suc n)
  have d: "unat (signed_drop_bit (4 * m) w AND 15) = unat w div 16 ^ m mod 16"
    using ash_digit [of "4 * m" 4 w] Suc.prems by (simp add: mask_eq_exp_minus_1 power_mult)
  have "text_value 16 (hex_digits (Suc n) (signed_drop_bit (4 * m) w) acc) =
      text_value 16 (hex_digits n (signed_drop_bit (4 * Suc m) w)
        (htab ! (unat w div 16 ^ m mod 16) # acc))"
    by (simp add: d signed_drop_bit_signed_drop_bit add.commute)
  also have "\<dots> = (unat w div 16 ^ Suc m mod 16 ^ n) * 16 ^ Suc (length acc)
      + (unat w div 16 ^ m mod 16) * 16 ^ length acc + text_value 16 acc"
    using Suc.IH [of "Suc m"] Suc.prems by (simp add: text_value_Cons)
  also have "unat w div 16 ^ m mod 16 ^ Suc n =
      (unat w div 16 ^ Suc m mod 16 ^ n) * 16 + unat w div 16 ^ m mod 16"
    by (simp add: mod_mult2_eq div_mult2_eq [symmetric] mult.commute)
  ultimately show ?case by (simp add: algebra_simps)
qed

lemma itoh_value: "text_value 16 (itoh w) = unat w"
  using hex_digits_value [of 4 0 w "[]"] unsigned_less [where 'a = nat, of w]
  by (simp add: itoh_def)

lemma hex_digits_length: "length (hex_digits n w acc) = n + length acc"
  by (induction n w acc rule: hex_digits.induct) simp_all

lemma itoh_length [simp]: "length (itoh w) = 4"
  by (simp add: itoh_def hex_digits_length)

lemma scast_byte_low: "unat (scast (b :: u8) :: u16) mod 256 = unat b"
proof -
  have "ucast (scast b :: u16) = b" by (rule bit_word_eqI) (auto simp: bit_simps)
  moreover have "unat (ucast (w :: u16) :: u8) = unat w mod 256" for w
    by (simp add: unsigned_ucast_eq take_bit_eq_mod)
  ultimately show ?thesis by metis
qed

lemma itohb_value: "text_value 16 (itohb b) = unat b" and itohb_length: "length (itohb b) = 2"
  using hex_digits_value [of 2 0 "scast b" "[]"] scast_byte_low [of b]
  by (simp_all add: itohb_def hex_digits_length)

lemma byte_digits_length: "length (byte_digits n w) = n"
  by (induction n w rule: byte_digits.induct) (simp_all add: Let_def)

text \<open>\<open>_itodb\<close> never writes the buffer, and from the second digit on it does not depend on the number.\<close>

lemma itodb_misses:
  assumes "6 \<le> length area"
  shows "take 3 (itodb b area) = take 3 area" and "length (itodb b area) = length area"
  using assms byte_digits_length [of 3 "scast b"] by (simp_all add: itodb_def)

lemma itodb_digits:
  "byte_digits 3 w =
     [digit_char (unat w mod 10), digit_char ((unat w mod 10 + 8) mod 10), digit_char ((unat w mod 10 + 6) mod 10)]"
proof -
  have small: "unat (of_nat (48 + d) :: u16) = 48 + d" if "d < 10" for d
    using that by (subst unat_of_nat) simp
  have next_digit: "(48 + d) mod 10 = (d + 8) mod 10" for d :: nat
    using mod_add_right_eq [of d 48 10] by (simp add: add.commute)
  have last_digit: "((d + 8) mod 10 + 8) mod 10 = (d + 6) mod 10" for d :: nat
    using mod_add_left_eq [of "d + 8" 10 8] mod_add_right_eq [of d 16 10] by (simp add: add.commute)
  let ?d = "unat w mod 10"
  have "byte_digits 3 w = [digit_char ?d, digit_char ((48 + ?d) mod 10),
      digit_char ((48 + (48 + ?d) mod 10) mod 10)]"
    using small [of ?d] small [of "(48 + ?d) mod 10"]
    by (simp add: numeral_3_eq_3 Let_def del: of_nat_add)
  then show ?thesis by (simp only: next_digit last_digit)
qed

end
