(* ===== verification/Muxx_Defs.thy ===== *)
theory Muxx_Defs
  imports Muxx_Prelude
begin

text \<open>
  The constants and structures every component uses: \<open>h/errors.h\<close>, \<open>h/muxxdef.h\<close>, \<open>h/CONFIG.s\<close>
  (from which the build generates \<open>config.h\<close>), \<open>h/muxx.h\<close>, \<open>h/queues.h\<close> and the global variables
  of \<open>h/externals.h\<close>, collected in the record \<open>kstate\<close>. A \<open>WORD\<close> is a 16-bit word, a \<open>LONGWORD\<close>
  a 32-bit word, a \<open>BYTE\<close> an 8-bit word; a C \<open>int\<close> that only carries a return code is an \<open>int\<close>.
  \<open>char[8]\<close> names are strings. Numeric constants are input abbreviations.
\<close>

section \<open>Constants\<close>

subsection \<open>Error codes\<close>

abbreviation (input) EOK :: int where "EOK \<equiv> 0"
abbreviation (input) ENOMEM :: int where "ENOMEM \<equiv> - 1"
abbreviation (input) EMAXTASK :: int where "EMAXTASK \<equiv> - 2"
abbreviation (input) ENOPID :: int where "ENOPID \<equiv> - 3"
abbreviation (input) ETCTFULL :: int where "ETCTFULL \<equiv> - 4"
abbreviation (input) EILLINST :: int where "EILLINST \<equiv> - 5"
abbreviation (input) EINVVAL :: int where "EINVVAL \<equiv> - 6"
abbreviation (input) ENOPRIV :: int where "ENOPRIV \<equiv> - 7"
abbreviation (input) ELOCKED :: int where "ELOCKED \<equiv> - 8"
abbreviation (input) ENOAVAIL :: int where "ENOAVAIL \<equiv> - 9"
abbreviation (input) ENOTALLOC :: int where "ENOTALLOC \<equiv> - 10"
abbreviation (input) ENOTFOUND :: int where "ENOTFOUND \<equiv> - 11"
abbreviation (input) ERRDEV :: int where "ERRDEV \<equiv> - 12"
abbreviation (input) EOFFLINE :: int where "EOFFLINE \<equiv> - 13"
abbreviation (input) ENOTOPEN :: int where "ENOTOPEN \<equiv> - 14"
abbreviation (input) ENOSYSRES :: int where "ENOSYSRES \<equiv> - 15"
abbreviation (input) EEOF :: int where "EEOF \<equiv> - 16"
abbreviation (input) EINVLOAD :: int where "EINVLOAD \<equiv> - 17"
abbreviation (input) ENOTSUP :: int where "ENOTSUP \<equiv> - 18"
abbreviation (input) ENOIMPL :: int where "ENOIMPL \<equiv> - 999"

subsection \<open>Task types, sizes and states\<close>

abbreviation (input) SYS_TASK :: u16 where "SYS_TASK \<equiv> 0"
abbreviation (input) USR_TASK :: u16 where "USR_TASK \<equiv> 1"
abbreviation (input) DRV_TASK :: u16 where "DRV_TASK \<equiv> 2"
abbreviation (input) TSZ_SMALL :: u16 where "TSZ_SMALL \<equiv> 0"
abbreviation (input) TSZ_MED :: u16 where "TSZ_MED \<equiv> 0x08"
abbreviation (input) TSZ_BIG :: u16 where "TSZ_BIG \<equiv> 0x10"
abbreviation (input) TSZ_SMALLS :: u16 where "TSZ_SMALLS \<equiv> 0"

abbreviation (input) TSK_INIT :: u16 where "TSK_INIT \<equiv> 0"
abbreviation (input) TSK_READY :: u16 where "TSK_READY \<equiv> 1"
abbreviation (input) TSK_BLOCKED :: u16 where "TSK_BLOCKED \<equiv> 2"
abbreviation (input) TSK_RUN :: u16 where "TSK_RUN \<equiv> 3"
abbreviation (input) TSK_SUSP :: u16 where "TSK_SUSP \<equiv> 4"
abbreviation (input) TSK_DISPOSE :: u16 where "TSK_DISPOSE \<equiv> 5"

subsection \<open>Mutexes, drivers and memory management\<close>

abbreviation (input) MUT_MUTEXES :: nat where "MUT_MUTEXES \<equiv> 16"
abbreviation (input) MUT_DRV :: u16 where "MUT_DRV \<equiv> 5"
abbreviation (input) MUT_CHAN :: u16 where "MUT_CHAN \<equiv> 6"
abbreviation (input) MUT_READ :: u16 where "MUT_READ \<equiv> 0"
abbreviation (input) MUT_ALLOC :: u16 where "MUT_ALLOC \<equiv> 1"
abbreviation (input) MUT_DEALLOC :: u16 where "MUT_DEALLOC \<equiv> 2"

abbreviation (input) DRV_START :: u16 where "DRV_START \<equiv> 0"
abbreviation (input) DRV_STOP :: u16 where "DRV_STOP \<equiv> 1"
abbreviation (input) DRV_READ :: u16 where "DRV_READ \<equiv> 4"
abbreviation (input) DRV_WRITE :: u16 where "DRV_WRITE \<equiv> 5"
abbreviation (input) DRV_ALLOC :: u16 where "DRV_ALLOC \<equiv> 0"
abbreviation (input) DRV_DEALLOC :: u16 where "DRV_DEALLOC \<equiv> 1"

abbreviation (input) PDR_ACC_RW :: u16 where "PDR_ACC_RW \<equiv> 0x0006"
abbreviation (input) PDR_ACC_RO :: u16 where "PDR_ACC_RO \<equiv> 0x0002"
abbreviation (input) PDR_ACC_NA :: u16 where "PDR_ACC_NA \<equiv> 0x0000"
abbreviation (input) PDR_DIR_UP :: u16 where "PDR_DIR_UP \<equiv> 0x0000"
abbreviation (input) PDR_DIR_DN :: u16 where "PDR_DIR_DN \<equiv> 0x0008"
abbreviation (input) PDR_SIZ_0K :: u16 where "PDR_SIZ_0K \<equiv> 0x0000"
abbreviation (input) PDR_SIZ_1K :: u16 where "PDR_SIZ_1K \<equiv> 0x1000"
abbreviation (input) PDR_SIZ_4K :: u16 where "PDR_SIZ_4K \<equiv> 0x4000"
abbreviation (input) PDR_SIZ_8K :: u16 where "PDR_SIZ_8K \<equiv> 0x7F00"

abbreviation (input) MMCB_FLG_STK :: u16 where "MMCB_FLG_STK \<equiv> 0x0010"
abbreviation (input) MMCB_FLG_BUF :: u16 where "MMCB_FLG_BUF \<equiv> 0x0020"

subsection \<open>Configuration\<close>

abbreviation (input) MAX_TASKS :: nat where "MAX_TASKS \<equiv> 16"
abbreviation (input) MAX_DRV :: nat where "MAX_DRV \<equiv> 8"
abbreviation (input) MEM_NMCBS :: nat where "MEM_NMCBS \<equiv> 128"
abbreviation (input) IOT_TENTRIES :: nat where "IOT_TENTRIES \<equiv> 5"
abbreviation (input) IOT_SENTRIES :: nat where "IOT_SENTRIES \<equiv> 16"
abbreviation (input) CLK_QUANTUM :: u16 where "CLK_QUANTUM \<equiv> 6"
abbreviation (input) DRV_BUFSIZ :: u16 where "DRV_BUFSIZ \<equiv> 2048"
abbreviation (input) TASK_BASE :: u16 where "TASK_BASE \<equiv> 0x6000"
abbreviation (input) TOP_STACK :: u16 where "TOP_STACK \<equiv> 0xE000"
abbreviation (input) KRN_STACK :: u16 where "KRN_STACK \<equiv> 1024"
abbreviation (input) kstackt :: u16 where "kstackt \<equiv> TOP_STACK - 2"
abbreviation (input) ustackt :: u16 where "ustackt \<equiv> TOP_STACK - KRN_STACK - 2"

section \<open>Structures\<close>

subsection \<open>Task control blocks\<close>

record cpustate =
  gpr :: "u16 list"  \<comment> \<open>R0 to R5\<close>
  cs_sp :: u16
  cs_pc :: u16
  cs_psw :: u16
  cs_usp :: u16
  cs_ssp :: u16
  cs_ksp :: u16

record mmustate =
  upar :: "u16 list"
  updr :: "u16 list"
  kpar :: "u16 list"
  kpdr :: "u16 list"

record tucb =
  heapb :: u16
  heapt :: u16
  endcode :: u16
  toptask :: u16
  t_errno :: int
  tu_iote :: "ptr list"

record tcb =
  taskname :: string
  pid :: u16
  ppid :: u16
  uic :: u32
  status :: u16
  flword :: u16
  prvword :: u16
  taskType :: u16
  taskTUCB :: u16
  firstChild :: ptr
  lastChild :: ptr
  nextSibling :: ptr
  nextInQueue :: ptr
  prevInQueue :: ptr
  cpuState :: cpustate
  mmuState :: mmustate
  clockTicks :: u32
  created_timestamp :: u32
  localFlags :: u32

definition operprv :: "tcb \<Rightarrow> bool" where
  "operprv t = bit (prvword t) 0"

definition ioprv :: "tcb \<Rightarrow> bool" where
  "ioprv t = bit (prvword t) 1"

definition auditprv :: "tcb \<Rightarrow> bool" where
  "auditprv t = bit (prvword t) 2"

definition LOCALFLAG :: "tcb \<Rightarrow> nat \<Rightarrow> u32" where
  "LOCALFLAG t f = drop_bit f (localFlags t) AND 1"

definition SETLOCALF :: "tcb \<Rightarrow> nat \<Rightarrow> u32" where
  "SETLOCALF t f = localFlags t OR push_bit f 1"

definition CLRLOCALF :: "tcb \<Rightarrow> nat \<Rightarrow> u32" where
  "CLRLOCALF t f = localFlags t AND NOT (push_bit f 1)"

record tqueue =
  head :: ptr
  tail :: ptr
  count :: int

subsection \<open>Memory management control blocks\<close>

record mmcb =
  blockAddr :: u16
  blockSize :: u16
  ownerPID :: u16
  ownerPAR :: u16
  nextBlock :: ptr
  prevBlock :: ptr
  mmcbFlags :: u16

record mmcbt =
  mcbeye :: string
  numEntries :: u16
  mmcbs :: "mmcb list"

subsection \<open>Device drivers and channels\<close>

record drvisr =
  isr_handler :: u16
  isr_vector :: u16
  isr_ilevel :: u16

record drvdesc =
  callbacks :: "u16 list"
  da_shareable :: bool
  da_record :: bool
  da_files :: bool
  da_buffered :: bool
  dd_devname :: string
  defbufsiz :: u16
  numisr :: u16
  isrtable :: "drvisr list"

record drvcb =
  drvname :: string
  desc :: "drvdesc option"
  df_free :: bool
  df_loaded :: bool
  df_active :: bool
  df_stopped :: bool
  df_alloc :: bool
  taskid :: u16
  ownerid :: ptr
  drv_status :: u16

record drvcbt =
  eyecat :: string
  numdrvcb :: u16
  drvcbs :: "drvcb list"

record iopkt =
  iop_function :: u16
  iop_error :: int
  iop_param :: "u16 list"
  iop_size :: u16
  ioarea :: "u8 list"

record iote =
  io_driver :: ptr
  io_open :: bool
  io_eof :: bool
  io_ioerror :: bool
  io_dealloc :: bool
  io_attributes :: bool
  io_buffered :: bool
  io_position :: u32
  io_controller :: u8
  io_unit :: u8
  io_error :: int
  io_attraddr :: u16
  io_buffaddr :: "u16"

record iott =
  ioteye :: string
  iotes :: "iote list"

section \<open>The global state of the kernel\<close>

text \<open>
  One field per global variable. The type parameter \<open>'d\<close> is the state of the devices, which only
  driver callbacks touch. \<open>tucbs\<close> holds, per TCB, the task user control block that \<open>taskTUCB\<close>
  points to in the task's own memory. \<open>cpu\<close>, \<open>mmu\<close> and \<open>ipl\<close> are the processor's registers, the
  memory management registers and the priority level of the processor; \<open>vecs\<close> is the interrupt
  vector area and \<open>phys\<close> the physical memory. In the machine the tables and the TUCBs are bytes of that
  memory too (the kernel is its first 24 KB); here a write to \<open>phys\<close> does not change them, so what is
  proved is about runs that write there only by way of these variables.
\<close>

record 'd kstate =
  tct :: "tcb list"
  curtasks :: u16
  readyq :: tqueue
  blockq :: tqueue
  suspq :: tqueue
  curtcb :: ptr
  topspid :: u16
  minspid :: u16
  maxspid :: u16
  topupid :: u16
  minupid :: u16
  maxupid :: u16
  mcbt :: mmcbt
  drvt :: drvcbt
  mutexes :: "u8 list"
  chnt :: iott
  utimeticks :: u32
  clkcountdown :: u16
  clkquantum :: u16
  tucbs :: "tucb list"
  ipl :: u16
  cpu :: cpustate
  mmu :: mmustate
  vecs :: "u16 \<Rightarrow> u16"
  phys :: "nat \<Rightarrow> u8"
  dev :: 'd

text \<open>\<open>setpl7()\<close> and \<open>setpl(l)\<close> of \<open>kernel/spl.s\<close>: set the priority, return the old one.\<close>

definition setpl7 :: "'d kstate \<Rightarrow> u16 \<times> 'd kstate" where
  "setpl7 s = (ipl s, s\<lparr>ipl := 7\<rparr>)"

definition setpl :: "u16 \<Rightarrow> 'd kstate \<Rightarrow> 'd kstate" where
  "setpl l s = s\<lparr>ipl := l AND 7\<rparr>"

text \<open>Update one TCB, or the error number in the TUCB of the current task.\<close>

definition upd_tcb :: "nat \<Rightarrow> (tcb \<Rightarrow> tcb) \<Rightarrow> 'd kstate \<Rightarrow> 'd kstate" where
  "upd_tcb i f s = s\<lparr>tct := (tct s)[i := f (tct s ! i)]\<rparr>"

definition set_errno :: "int \<Rightarrow> 'd kstate \<Rightarrow> 'd kstate" where
  "set_errno e s =
     (case curtcb s of
        None \<Rightarrow> s
      | Some c \<Rightarrow> s\<lparr>tucbs := (tucbs s)[c := (tucbs s ! c)\<lparr>t_errno := e\<rparr>]\<rparr>)"

definition get_errno :: "'d kstate \<Rightarrow> int" where
  "get_errno s = (case curtcb s of None \<Rightarrow> 0 | Some c \<Rightarrow> t_errno (tucbs s ! c))"

lemmas setpl_defs [run_simps] = setpl7_def setpl_def

section \<open>The initial contents of the kernel's memory\<close>

text \<open>
  The tables are zero-filled static storage (\<open>kernel/muxx_static.c\<close>); the scalars have the initial
  values of the system control block (\<open>h/SCB.s\<close>).
\<close>

definition zero_cpustate :: cpustate where
  "zero_cpustate = \<lparr>gpr = replicate 6 0, cs_sp = 0, cs_pc = 0, cs_psw = 0, cs_usp = 0, cs_ssp = 0,
     cs_ksp = 0\<rparr>"

definition zero_mmustate :: mmustate where
  "zero_mmustate = \<lparr>upar = replicate 8 0, updr = replicate 8 0, kpar = replicate 8 0,
     kpdr = replicate 8 0\<rparr>"

definition zero_tucb :: tucb where
  "zero_tucb = \<lparr>heapb = 0, heapt = 0, endcode = 0, toptask = 0, t_errno = 0,
     tu_iote = replicate IOT_TENTRIES None\<rparr>"

definition nul_name :: string where
  "nul_name = replicate 8 (CHR 0x00)"

definition zero_tcb :: tcb where
  "zero_tcb = \<lparr>taskname = nul_name, pid = 0, ppid = 0, uic = 0, status = 0, flword = 0,
     prvword = 0, taskType = 0, taskTUCB = 0, firstChild = None, lastChild = None,
     nextSibling = None, nextInQueue = None, prevInQueue = None, cpuState = zero_cpustate,
     mmuState = zero_mmustate, clockTicks = 0, created_timestamp = 0, localFlags = 0\<rparr>"

definition zero_tqueue :: tqueue where
  "zero_tqueue = \<lparr>head = None, tail = None, count = 0\<rparr>"

definition zero_mmcb :: mmcb where
  "zero_mmcb = \<lparr>blockAddr = 0, blockSize = 0, ownerPID = 0, ownerPAR = 0, nextBlock = None,
     prevBlock = None, mmcbFlags = 0\<rparr>"

definition zero_mmcbt :: mmcbt where
  "zero_mmcbt = \<lparr>mcbeye = nul_name, numEntries = 0, mmcbs = replicate MEM_NMCBS zero_mmcb\<rparr>"

definition zero_drvcb :: drvcb where
  "zero_drvcb = \<lparr>drvname = nul_name, desc = None, df_free = False, df_loaded = False,
     df_active = False, df_stopped = False, df_alloc = False, taskid = 0, ownerid = None,
     drv_status = 0\<rparr>"

definition zero_drvcbt :: drvcbt where
  "zero_drvcbt = \<lparr>eyecat = nul_name, numdrvcb = 0, drvcbs = replicate MAX_DRV zero_drvcb\<rparr>"

definition zero_iote :: iote where
  "zero_iote = \<lparr>io_driver = None, io_open = False, io_eof = False, io_ioerror = False,
     io_dealloc = False, io_attributes = False, io_buffered = False, io_position = 0,
     io_controller = 0, io_unit = 0, io_error = 0, io_attraddr = 0, io_buffaddr = 0\<rparr>"

definition zero_iott :: iott where
  "zero_iott = \<lparr>ioteye = nul_name, iotes = replicate IOT_SENTRIES zero_iote\<rparr>"

definition boot_kstate :: "'d \<Rightarrow> (nat \<Rightarrow> u8) \<Rightarrow> 'd kstate" where
  "boot_kstate d M = \<lparr>tct = replicate MAX_TASKS zero_tcb, curtasks = 0, readyq = zero_tqueue,
     blockq = zero_tqueue, suspq = zero_tqueue, curtcb = None, topspid = 0, minspid = 1,
     maxspid = 63, topupid = 0, minupid = 64, maxupid = 511, mcbt = zero_mmcbt,
     drvt = zero_drvcbt, mutexes = replicate MUT_MUTEXES 0, chnt = zero_iott, utimeticks = 0,
     clkcountdown = CLK_QUANTUM, clkquantum = CLK_QUANTUM,
     tucbs = replicate MAX_TASKS zero_tucb, ipl = 7, cpu = zero_cpustate, mmu = zero_mmustate,
     vecs = (\<lambda>_. 0), phys = M, dev = d\<rparr>"

end
