(* ===== verification/Muxx_Queues.thy ===== *)
theory Muxx_Queues
  imports Muxx_Defs
begin

text \<open>
  The task queues of \<open>kernel/muxx_taskqueues.c\<close>: doubly linked lists threaded through the
  \<open>nextInQueue\<close> and \<open>prevInQueue\<close> fields of the TCBs, with a head, a tail and a count. The
  operations work on the queue and on the task control table together. \<open>queue_of\<close> is the
  representation relation: the queue holds exactly the listed tasks, in that order.
\<close>

section \<open>The operations\<close>

type_synonym qstate = "tqueue \<times> tcb list"

definition set_next :: "nat \<Rightarrow> ptr \<Rightarrow> tcb list \<Rightarrow> tcb list" where
  "set_next i p ts = ts[i := (ts ! i)\<lparr>nextInQueue := p\<rparr>]"

definition set_prev :: "nat \<Rightarrow> ptr \<Rightarrow> tcb list \<Rightarrow> tcb list" where
  "set_prev i p ts = ts[i := (ts ! i)\<lparr>prevInQueue := p\<rparr>]"

definition muxx_qAddTask :: "ptr \<Rightarrow> qstate \<Rightarrow> (unit, qstate) outcome" where
  "muxx_qAddTask task = (\<lambda>(q, ts).
     at_ptr ts task (q, ts) (\<lambda>t.
       if count q \<noteq> 0 then
         at_ptr ts (tail q) (q, ts) (\<lambda>last.
           let ts1 = set_next last task ts;
               ts2 = set_prev t (Some last) ts1;
               ts3 = set_next t None ts2
           in Ret () (q\<lparr>count := count q + 1, tail := task\<rparr>, ts3))
       else
         let ts1 = set_prev t None ts;
             ts2 = set_next t None ts1
         in Ret () (q\<lparr>head := task, tail := task, count := 1\<rparr>, ts2)))"

definition muxx_qGetTask :: "qstate \<Rightarrow> (ptr, qstate) outcome" where
  "muxx_qGetTask = (\<lambda>(q, ts).
     if count q > 0 then
       at_ptr ts (head q) (q, ts) (\<lambda>t.
         let q1 = q\<lparr>head := nextInQueue (ts ! t), count := count q - 1\<rparr>;
             clear = (\<lambda>ts. set_next t None (set_prev t None ts))
         in if count q1 = 0 then
              Ret (Some t) (q1\<lparr>head := None, tail := None\<rparr>, clear ts)
            else
              at_ptr ts (head q1) (q1, ts) (\<lambda>h.
                Ret (Some t) (q1, clear (set_prev h None ts))))
     else Stop (Fault NullDeref) (q, ts))"

text \<open>
  The search loop of \<open>muxx_qRemoveTask\<close>; \<open>None\<close> is a loop that never ends, which a chain with a
  cycle gives, and \<open>Some (Inl _)\<close> a chain that leaves the task control table.
\<close>

partial_function (option) q_walk :: "tcb list \<Rightarrow> ptr \<Rightarrow> ptr \<Rightarrow> (fault + ptr) option" where
  "q_walk ts task p =
     (if p = task \<or> p = None then Some (Inr p)
      else if the p < length ts then q_walk ts task (nextInQueue (ts ! the p))
      else Some (Inl WildPointer))"

definition muxx_qRemoveTask :: "ptr \<Rightarrow> qstate \<Rightarrow> (ptr, qstate) outcome" where
  "muxx_qRemoveTask task = (\<lambda>(q, ts).
     if count q = 0 then Ret None (q, ts)
     else case q_walk ts task (head q) of
       None \<Rightarrow> Stop Diverges (q, ts)
     | Some (Inl f) \<Rightarrow> Stop (Fault f) (q, ts)
     | Some (Inr None) \<Rightarrow> Ret None (q, ts)
     | Some (Inr (Some t)) \<Rightarrow>
         let ts1 = (if prevInQueue (ts ! t) \<noteq> None
                    then set_prev t (nextInQueue (ts ! t)) ts else ts);
             q1 = (if prevInQueue (ts ! t) \<noteq> None then q else q\<lparr>head := nextInQueue (ts ! t)\<rparr>);
             finish = (\<lambda>q ts. Ret (Some t)
               (q\<lparr>count := count q - 1\<rparr>, set_prev t None (set_next t None ts)))
         in if nextInQueue (ts1 ! t) \<noteq> None then
              at_ptr ts1 (nextInQueue (ts1 ! t)) (q1, ts1) (\<lambda>n.
                finish q1 (set_prev n (prevInQueue (ts1 ! t)) ts1))
            else finish (q1\<lparr>tail := prevInQueue (ts1 ! t)\<rparr>) ts1)"

section \<open>The representation relation\<close>

fun dlist :: "tcb list \<Rightarrow> ptr \<Rightarrow> nat list \<Rightarrow> ptr \<Rightarrow> bool" where
  "dlist ts prev [] p \<longleftrightarrow> p = None"
| "dlist ts prev (x # xs) p \<longleftrightarrow>
     p = Some x \<and> x < length ts \<and> prevInQueue (ts ! x) = prev \<and>
     dlist ts (Some x) xs (nextInQueue (ts ! x))"

definition queue_of :: "tcb list \<Rightarrow> tqueue \<Rightarrow> nat list \<Rightarrow> bool" where
  "queue_of ts q xs \<longleftrightarrow>
     distinct xs \<and> dlist ts None xs (head q) \<and>
     tail q = (if xs = [] then None else Some (last xs)) \<and> count q = int (length xs)"

text \<open>What a queue operation leaves alone: every field of every TCB but the two links.\<close>

definition unlinked :: "tcb \<Rightarrow> tcb" where
  "unlinked t = t\<lparr>nextInQueue := None, prevInQueue := None\<rparr>"

lemma length_set_next [simp]: "length (set_next i p ts) = length ts"
  and length_set_prev [simp]: "length (set_prev i p ts) = length ts"
  by (simp_all add: set_next_def set_prev_def)

lemma nth_set_next:
  "j < length ts \<Longrightarrow>
   set_next i p ts ! j = (if i = j then (ts ! j)\<lparr>nextInQueue := p\<rparr> else ts ! j)"
  by (simp add: set_next_def nth_list_update)

lemma nth_set_prev:
  "j < length ts \<Longrightarrow>
   set_prev i p ts ! j = (if i = j then (ts ! j)\<lparr>prevInQueue := p\<rparr> else ts ! j)"
  by (simp add: set_prev_def nth_list_update)

lemma unlinked_set_next [simp]: "map unlinked (set_next i p ts) = map unlinked ts"
  by (cases "i < length ts")
    (auto simp: set_next_def unlinked_def list_update_beyond intro!: map_update_same)

lemma unlinked_set_prev [simp]: "map unlinked (set_prev i p ts) = map unlinked ts"
  by (cases "i < length ts")
    (auto simp: set_prev_def unlinked_def list_update_beyond intro!: map_update_same)

lemmas link_simps = nth_set_next nth_set_prev

lemma dlist_bound: "dlist ts prev xs p \<Longrightarrow> x \<in> set xs \<Longrightarrow> x < length ts"
  by (induction xs arbitrary: prev p) auto

lemma dlist_cong:
  assumes "dlist ts prev xs p" and "length ts' = length ts"
    and "\<And>x. x \<in> set xs \<Longrightarrow> nextInQueue (ts' ! x) = nextInQueue (ts ! x) \<and>
      prevInQueue (ts' ! x) = prevInQueue (ts ! x)"
  shows "dlist ts' prev xs p"
  using assms by (induction xs arbitrary: prev p) auto

lemma dlist_append:
  "dlist ts prev (xs @ y # ys) p \<Longrightarrow> y < length ts"
  by (induction xs arbitrary: prev p) auto

text \<open>A new last element: its predecessor's link and its own two links change.\<close>

lemma dlist_snoc:
  assumes "dlist ts prev (xs @ [l]) p" and "distinct (xs @ [l])"
    and "t < length ts" and "t \<notin> set (xs @ [l])"
    and "length ts' = length ts"
    and "\<And>x. x \<in> set xs \<Longrightarrow> nextInQueue (ts' ! x) = nextInQueue (ts ! x) \<and>
      prevInQueue (ts' ! x) = prevInQueue (ts ! x)"
    and "nextInQueue (ts' ! l) = Some t" and "prevInQueue (ts' ! l) = prevInQueue (ts ! l)"
    and "nextInQueue (ts' ! t) = None" and "prevInQueue (ts' ! t) = Some l"
  shows "dlist ts' prev (xs @ [l, t]) p"
  using assms by (induction xs arbitrary: prev p) auto

lemma queue_of_head:
  "queue_of ts q (x # xs) \<Longrightarrow>
   head q = Some x \<and> x < length ts \<and> prevInQueue (ts ! x) = None \<and> x \<notin> set xs \<and>
   dlist ts (Some x) xs (nextInQueue (ts ! x)) \<and> count q = 1 + int (length xs)"
  by (simp add: queue_of_def)

lemma queue_of_empty [simp]:
  "queue_of ts q [] \<longleftrightarrow> head q = None \<and> tail q = None \<and> count q = 0"
  by (auto simp: queue_of_def)

lemma queue_of_bound: "queue_of ts q xs \<Longrightarrow> x \<in> set xs \<Longrightarrow> x < length ts"
  by (auto simp: queue_of_def dest: dlist_bound)

lemma queue_of_distinct: "queue_of ts q xs \<Longrightarrow> distinct xs"
  by (simp add: queue_of_def)

lemma queue_of_cong:
  assumes "queue_of ts q xs" and "length ts' = length ts"
    and "\<And>x. x \<in> set xs \<Longrightarrow> nextInQueue (ts' ! x) = nextInQueue (ts ! x) \<and>
      prevInQueue (ts' ! x) = prevInQueue (ts ! x)"
  shows "queue_of ts' q xs"
  using assms dlist_cong by (auto simp: queue_of_def)

section \<open>The contract of a FIFO queue\<close>

text \<open>Adding several tasks in turn.\<close>

fun add_all :: "(ptr \<Rightarrow> 'q \<Rightarrow> (unit, 'q) outcome) \<Rightarrow> nat list \<Rightarrow> 'q \<Rightarrow> (unit, 'q) outcome" where
  "add_all add [] q = Ret () q"
| "add_all add (t # ts) q = andthen (add (Some t) q) (\<lambda>_. add_all add ts)"

text \<open>
  What the scheduler relies on: \<open>add\<close> appends a task that is not in the queue, \<open>get\<close> takes the
  first one, and neither changes what \<open>rest\<close> shows of the state.
\<close>

locale task_queue =
  fixes add :: "ptr \<Rightarrow> 'q \<Rightarrow> (unit, 'q) outcome"
    and get :: "'q \<Rightarrow> (ptr, 'q) outcome"
    and rep :: "'q \<Rightarrow> nat list \<Rightarrow> bool"
    and slots :: "'q \<Rightarrow> nat set"
    and rest :: "'q \<Rightarrow> 'v"
  assumes add_spec: "rep q xs \<Longrightarrow> t \<in> slots q \<Longrightarrow> t \<notin> set xs \<Longrightarrow>
      \<exists>q'. add (Some t) q = Ret () q' \<and> rep q' (xs @ [t]) \<and> rest q' = rest q \<and> slots q' = slots q"
    and get_spec: "rep q (x # xs) \<Longrightarrow>
      \<exists>q'. get q = Ret (Some x) q' \<and> rep q' xs \<and> rest q' = rest q \<and> slots q' = slots q"
    and rep_slots: "rep q xs \<Longrightarrow> set xs \<subseteq> slots q"
    and rep_distinct: "rep q xs \<Longrightarrow> distinct xs"
begin

lemma add_all_spec:
  assumes "rep q xs" and "set ts \<subseteq> slots q" and "distinct (xs @ ts)"
  shows "\<exists>q'. add_all add ts q = Ret () q' \<and> rep q' (xs @ ts) \<and> rest q' = rest q \<and> slots q' = slots q"
  using assms
proof (induction ts arbitrary: q xs)
  case Nil
  then show ?case by simp
next
  case (Cons t ts)
  then obtain q1 where q1: "add (Some t) q = Ret () q1" "rep q1 (xs @ [t])"
      "rest q1 = rest q" "slots q1 = slots q"
    using add_spec [of q xs t] by auto
  with Cons.IH [of q1 "xs @ [t]"] Cons.prems show ?case by auto
qed

lemma get_n_spec:
  assumes "rep q (xs @ ys)"
  shows "\<exists>q'. repeat_n (length xs) get q = Ret (map Some xs) q' \<and> rep q' ys \<and> rest q' = rest q"
  using assms
proof (induction xs arbitrary: q)
  case Nil
  then show ?case by simp
next
  case (Cons x xs)
  then obtain q1 where q1: "get q = Ret (Some x) q1" "rep q1 (xs @ ys)" "rest q1 = rest q"
    using get_spec [of q x "xs @ ys"] by auto
  with Cons.IH [of q1] show ?case by auto
qed

lemma fifo:
  assumes "rep q []" and "set ts \<subseteq> slots q" and "distinct ts"
  shows "\<exists>q' q''. add_all add ts q = Ret () q' \<and> repeat_n (length ts) get q' = Ret (map Some ts) q'' \<and>
    rep q'' [] \<and> rest q'' = rest q"
  using add_all_spec [of q "[]" ts] get_n_spec [of _ ts "[]"] assms by fastforce

lemma add_get:
  assumes "rep q xs" and "t \<in> slots q" and "t \<notin> set xs"
  shows "\<exists>q'. andthen (add (Some t) q) (\<lambda>_. get) = Ret (Some (hd (xs @ [t]))) q' \<and>
    rep q' (tl (xs @ [t])) \<and> rest q' = rest q"
proof -
  from add_spec [OF assms] obtain q1 where q1: "add (Some t) q = Ret () q1"
      "rep q1 (xs @ [t])" "rest q1 = rest q" by blast
  then show ?thesis
    using get_spec [of q1 "hd (xs @ [t])" "tl (xs @ [t])"] by (cases xs) auto
qed

end

section \<open>The code meets the contract\<close>

definition rep_queue :: "qstate \<Rightarrow> nat list \<Rightarrow> bool" where
  "rep_queue = (\<lambda>(q, ts). queue_of ts q)"

lemma qAddTask_links:
  assumes "queue_of ts q xs" and "t < length ts" and "t \<notin> set xs"
  shows "\<exists>q' ts'. muxx_qAddTask (Some t) (q, ts) = Ret () (q', ts') \<and>
    queue_of ts' q' (xs @ [t]) \<and> length ts' = length ts \<and> map unlinked ts' = map unlinked ts \<and>
    (\<forall>i < length ts. i \<noteq> t \<and> i \<notin> set xs \<longrightarrow> ts' ! i = ts ! i)"
proof (cases xs rule: rev_cases)
  case Nil
  with assms show ?thesis
    by (auto simp: muxx_qAddTask_def queue_of_def link_simps Let_def)
next
  case (snoc ys l)
  with assms have l: "l < length ts" "tail q = Some l" "count q = 1 + int (length ys)"
      "distinct (ys @ [l])" "dlist ts None (ys @ [l]) (head q)"
    by (auto simp: queue_of_def dest: dlist_append)
  define ts' where "ts' = set_next t None (set_prev t (Some l) (set_next l (Some t) ts))"
  from l assms snoc have "dlist ts' None (ys @ [l, t]) (head q)"
    by (intro dlist_snoc [of ts]) (auto simp: ts'_def link_simps dest: dlist_bound)
  with l assms snoc show ?thesis
    by (auto simp: muxx_qAddTask_def queue_of_def ts'_def link_simps Let_def)
qed

lemma qGetTask_links:
  assumes "queue_of ts q (x # xs)"
  shows "\<exists>q' ts'. muxx_qGetTask (q, ts) = Ret (Some x) (q', ts') \<and> queue_of ts' q' xs \<and>
    length ts' = length ts \<and> map unlinked ts' = map unlinked ts \<and>
    (\<forall>i < length ts. i \<notin> set (x # xs) \<longrightarrow> ts' ! i = ts ! i)"
proof (cases xs)
  case Nil
  with assms queue_of_head [OF assms] show ?thesis
    by (auto simp: muxx_qGetTask_def queue_of_def link_simps Let_def)
next
  case (Cons y ys)
  from queue_of_head [OF assms] Cons have
    h: "head q = Some x" "x < length ts" "y < length ts" "nextInQueue (ts ! x) = Some y"
      "x \<notin> set (y # ys)" "dlist ts (Some y) ys (nextInQueue (ts ! y))" "count q = 2 + int (length ys)"
    by auto
  define ts' where "ts' = set_next x None (set_prev x None (set_prev y None ts))"
  from assms Cons have "y \<notin> set ys" by (simp add: queue_of_def)
  with h have "dlist ts' (Some y) ys (nextInQueue (ts ! y))"
    by (intro dlist_cong [OF h(6)]) (auto simp: ts'_def link_simps dest: dlist_bound)
  with h assms Cons show ?thesis
    by (auto simp: muxx_qGetTask_def queue_of_def ts'_def link_simps Let_def)
qed

interpretation mq: task_queue muxx_qAddTask muxx_qGetTask rep_queue
    "\<lambda>(q, ts). {..<length ts}" "\<lambda>(q, ts). map unlinked ts"
proof (unfold_locales, goal_cases)
  case (1 q xs t)
  then show ?case
    using qAddTask_links [of "snd q" "fst q" xs t] by (cases q) (auto simp: rep_queue_def)
next
  case (2 q x xs)
  then show ?case
    using qGetTask_links [of "snd q" "fst q" x xs] by (cases q) (auto simp: rep_queue_def)
next
  case (3 q xs)
  then show ?case by (auto simp: rep_queue_def queue_of_bound)
next
  case (4 q xs)
  then show ?case by (auto simp: rep_queue_def queue_of_distinct)
qed

section \<open>Removal from the middle of a queue\<close>

lemma q_walk_hit [simp]: "q_walk ts task task = Some (Inr task)"
  by (subst q_walk.simps) simp

lemma q_walk_null [simp]: "q_walk ts task None = Some (Inr None)"
  by (subst q_walk.simps) simp

lemma q_walk_next [simp]:
  "x \<noteq> t \<Longrightarrow> x < length ts \<Longrightarrow> q_walk ts (Some t) (Some x) = q_walk ts (Some t) (nextInQueue (ts ! x))"
  by (subst q_walk.simps) simp

lemma q_walk_found:
  "dlist ts prev xs p \<Longrightarrow> t \<in> set xs \<Longrightarrow> q_walk ts (Some t) p = Some (Inr (Some t))"
proof (induction xs arbitrary: prev p)
  case Nil
  then show ?case by simp
next
  case (Cons x xs)
  then show ?case by (cases "x = t") auto
qed

lemma q_walk_absent:
  "dlist ts prev xs p \<Longrightarrow> t \<notin> set xs \<Longrightarrow> q_walk ts (Some t) p = Some (Inr None)"
  by (induction xs arbitrary: prev p) auto

lemma dlist_suffix:
  "dlist ts prev (xs @ t # ys) p \<Longrightarrow>
   dlist ts (if xs = [] then prev else Some (last xs)) (t # ys) (Some t)"
proof (induction xs arbitrary: prev p)
  case Nil
  then show ?case by simp
next
  case (Cons x xs)
  then have "dlist ts (Some x) (xs @ t # ys) (nextInQueue (ts ! x))" by simp
  from Cons.IH [OF this] show ?case by (cases xs) simp_all
qed

lemma dlist_nth_links:
  assumes "dlist ts prev (xs @ t # ys) p"
  shows "t < length ts" and "prevInQueue (ts ! t) = (if xs = [] then prev else Some (last xs))"
    and "nextInQueue (ts ! t) = (case ys of [] \<Rightarrow> None | y # _ \<Rightarrow> Some y)"
    and "dlist ts (Some t) ys (nextInQueue (ts ! t))"
    and "y \<in> set ys \<Longrightarrow> y < length ts"
proof -
  from dlist_suffix [OF assms]
  have d: "dlist ts (if xs = [] then prev else Some (last xs)) (t # ys) (Some t)" .
  then show "t < length ts" "prevInQueue (ts ! t) = (if xs = [] then prev else Some (last xs))"
    and rest: "dlist ts (Some t) ys (nextInQueue (ts ! t))"
    by simp_all
  from rest show "nextInQueue (ts ! t) = (case ys of [] \<Rightarrow> None | y # _ \<Rightarrow> Some y)"
    by (cases ys) simp_all
  from rest show "y \<in> set ys \<Longrightarrow> y < length ts" by (rule dlist_bound)
qed

text \<open>Removing the first task, or one that is not in the queue, does what it should.\<close>

lemma qRemoveTask_first:
  assumes "queue_of ts q (t # xs)"
  shows "\<exists>q' ts'. muxx_qRemoveTask (Some t) (q, ts) = Ret (Some t) (q', ts') \<and>
    queue_of ts' q' xs \<and> length ts' = length ts \<and> map unlinked ts' = map unlinked ts \<and>
    (\<forall>i < length ts. i \<notin> set (t # xs) \<longrightarrow> ts' ! i = ts ! i)"
proof (cases xs)
  case Nil
  with assms queue_of_head [OF assms] show ?thesis
    by (auto simp: muxx_qRemoveTask_def queue_of_def link_simps Let_def)
next
  case (Cons y ys)
  from queue_of_head [OF assms] Cons have
    h: "head q = Some t" "t < length ts" "y < length ts" "nextInQueue (ts ! t) = Some y"
      "prevInQueue (ts ! t) = None" "t \<notin> set (y # ys)" "count q = 2 + int (length ys)"
      "dlist ts (Some y) ys (nextInQueue (ts ! y))"
    by auto
  from assms have w: "q_walk ts (Some t) (head q) = Some (Inr (Some t))"
    by (auto simp: queue_of_def intro: q_walk_found)
  define ts' where "ts' = set_prev t None (set_next t None (set_prev y None ts))"
  from assms Cons have "y \<notin> set ys" by (simp add: queue_of_def)
  with h have "dlist ts' (Some y) ys (nextInQueue (ts ! y))"
    by (intro dlist_cong [OF h(8)]) (auto simp: ts'_def link_simps dest: dlist_bound)
  with h w assms Cons show ?thesis
    by (auto simp: muxx_qRemoveTask_def queue_of_def ts'_def link_simps Let_def)
qed

lemma qRemoveTask_absent:
  assumes "queue_of ts q xs" and "t \<notin> set xs"
  shows "muxx_qRemoveTask (Some t) (q, ts) = Ret None (q, ts)"
proof -
  from assms have "q_walk ts (Some t) (head q) = Some (Inr None)"
    by (auto simp: queue_of_def intro: q_walk_absent)
  then show ?thesis by (simp add: muxx_qRemoveTask_def)
qed

text \<open>The tasks met on the way from a pointer along \<open>nextInQueue\<close>.\<close>

fun fwd_chain :: "tcb list \<Rightarrow> nat list \<Rightarrow> ptr \<Rightarrow> bool" where
  "fwd_chain ts [] p \<longleftrightarrow> p = None"
| "fwd_chain ts (x # xs) p \<longleftrightarrow> p = Some x \<and> x < length ts \<and> fwd_chain ts xs (nextInQueue (ts ! x))"

lemma dlist_fwd: "dlist ts prev xs p \<Longrightarrow> fwd_chain ts xs p"
  by (induction xs arbitrary: prev p) auto

lemma fwd_chain_bound: "fwd_chain ts xs p \<Longrightarrow> x \<in> set xs \<Longrightarrow> x < length ts"
  by (induction xs arbitrary: p) auto

lemma fwd_chain_last: "fwd_chain ts (xs @ [t]) p \<Longrightarrow> nextInQueue (ts ! t) = None"
  by (induction xs arbitrary: p) auto

lemma queue_of_last: "queue_of ts q (xs @ [t]) \<Longrightarrow> nextInQueue (ts ! t) = None"
  by (rule fwd_chain_last [of ts xs t "head q"]) (auto simp: queue_of_def intro: dlist_fwd)

lemma fwd_chain_unique: "fwd_chain ts xs p \<Longrightarrow> fwd_chain ts ys p \<Longrightarrow> xs = ys"
proof (induction xs arbitrary: p ys)
  case Nil
  then show ?case by (cases ys) auto
next
  case (Cons x xs)
  then show ?case by (cases ys) auto
qed

lemma dlist_cut:
  assumes "dlist ts prev (xs @ t # ys) p" and "t \<notin> set xs" and "length ts' = length ts"
    and "\<And>x. x \<in> set xs \<Longrightarrow> nextInQueue (ts' ! x) = nextInQueue (ts ! x)"
    and "nextInQueue (ts' ! t) = None"
  shows "fwd_chain ts' (xs @ [t]) p"
  using assms by (induction xs arbitrary: prev p) auto

lemma qRemoveTask_later:
  assumes "queue_of ts q (xs @ t # ys)" and "xs \<noteq> []"
  shows "\<exists>q' ts'. muxx_qRemoveTask (Some t) (q, ts) = Ret (Some t) (q', ts') \<and>
    head q' = head q \<and> count q' = count q - 1 \<and>
    tail q' = (if ys = [] then None else tail q) \<and>
    fwd_chain ts' (xs @ [t]) (head q') \<and> length ts' = length ts \<and>
    prevInQueue (ts' ! t) = None \<and>
    (\<forall>i < length ts. i \<notin> set (xs @ t # ys) \<longrightarrow> ts' ! i = ts ! i)"
proof -
  from assms(1) have d: "dlist ts None (xs @ t # ys) (head q)" and dist: "distinct (xs @ t # ys)"
    and cnt: "count q \<noteq> 0"
    by (auto simp: queue_of_def)
  note l = dlist_nth_links [OF d]
  from d have w: "q_walk ts (Some t) (head q) = Some (Inr (Some t))"
    by (rule q_walk_found) simp
  show ?thesis
  proof (cases ys)
    case Nil
    define ts' where "ts' = set_prev t None (set_next t None (set_prev t None ts))"
    from l dist d have "fwd_chain ts' (xs @ [t]) (head q)"
      by (intro dlist_cut [OF d]) (auto simp: ts'_def link_simps dest: dlist_bound)
    with Nil l w cnt assms(2) show ?thesis
      by (auto simp: muxx_qRemoveTask_def ts'_def link_simps Let_def)
  next
    case (Cons y zs)
    define ts' where "ts' = set_prev t None (set_next t None
      (set_prev y (Some y) (set_prev t (Some y) ts)))"
    from l dist d have "fwd_chain ts' (xs @ [t]) (head q)"
      by (intro dlist_cut [OF d]) (auto simp: ts'_def link_simps dest: dlist_bound)
    with Cons l w cnt assms(2) dist show ?thesis
      by (auto simp: muxx_qRemoveTask_def ts'_def link_simps Let_def)
  qed
qed

end
