(* ===== verification/Muxx_Tasks.thy ===== *)
theory Muxx_Tasks
  imports Muxx_Defs
begin

text \<open>
  The task control table: \<open>kernel/muxx_tctinit.c\<close>, \<open>kernel/muxx_taskinit.c\<close>,
  \<open>kernel/muxx_task_svc.c\<close> and \<open>kernel/muxx_fakeproc.c\<close>. A slot of the table is free when its
  \<open>pid\<close> is 0. The lemmas follow a table that is filled slot by slot from the INIT task on, which is
  how the kernel uses it, since no service ever frees a slot.
\<close>

section \<open>Initialisation of the table\<close>

definition muxx_tcbinit :: "tcb \<Rightarrow> tcb" where
  "muxx_tcbinit t = t\<lparr>pid := 0, ppid := 0, uic := 0, status := TSK_INIT, flword := 0,
     prvword := 0, firstChild := None, lastChild := None, nextSibling := None,
     cpuState := zero_cpustate, mmuState := zero_mmustate, clockTicks := 0,
     created_timestamp := 0, taskTUCB := 0\<rparr>"

definition muxx_tctinit :: "'d kstate \<Rightarrow> 'd kstate" where
  "muxx_tctinit s = fold (\<lambda>i. upd_tcb i muxx_tcbinit) [0..<MAX_TASKS] s"

section \<open>Creation of a task\<close>

definition reusespid :: "'d kstate \<Rightarrow> (u16, 'd kstate) outcome" where
  "reusespid s = Stop (Panic ''REUSESPID'') s"

definition reuseupid :: "'d kstate \<Rightarrow> (u16, 'd kstate) outcome" where
  "reuseupid s = Stop (Panic ''REUSEUPID'') s"

text \<open>The \<open>switch\<close> on the task type: a process id for the new task.\<close>

definition new_pid :: "u16 \<Rightarrow> 'd kstate \<Rightarrow> (u16, 'd kstate) outcome" where
  "new_pid type s =
     (if type = SYS_TASK \<or> type = DRV_TASK then
        let s1 = (if topspid s = 0 then s\<lparr>topspid := minspid s\<rparr> else s);
            p = topspid s1 + 1
        in if p > maxspid s1 then reusespid s1 else Ret p (s1\<lparr>topspid := topspid s1 + 1\<rparr>)
      else
        let s1 = (if topupid s = 0 then s\<lparr>topupid := minupid s\<rparr> else s);
            p = topupid s1 + 1
        in if p > maxupid s1 then reuseupid s1 else Ret p (s1\<lparr>topupid := topupid s1 + 1\<rparr>))"

text \<open>The slot search: the last value of \<open>found\<close>, where 0 also stands for "none".\<close>

definition find_slot :: "tcb list \<Rightarrow> nat" where
  "find_slot ts =
     for_until 0 MAX_TASKS (\<lambda>found. found \<noteq> 0) (\<lambda>i found. if pid (ts ! i) = 0 then i else found) 0"

definition new_tcb :: "u16 \<Rightarrow> u16 \<Rightarrow> u16 \<Rightarrow> u16 \<Rightarrow> u16 \<Rightarrow> tcb \<Rightarrow> tcb" where
  "new_tcb p type parent entry privs t =
     (let t1 = muxx_tcbinit t
      in t1\<lparr>pid := p, ppid := parent, taskType := type, prvword := privs, flword := 0,
            cpuState := (cpuState t1)\<lparr>cs_pc := entry, cs_psw := 0xC000, cs_sp := ustackt,
              cs_usp := ustackt, cs_ksp := kstackt\<rparr>,
            status := TSK_INIT\<rparr>)"

definition muxx_taskinit ::
  "u16 \<Rightarrow> u16 \<Rightarrow> u16 \<Rightarrow> u16 \<Rightarrow> 'd kstate \<Rightarrow> (int, 'd kstate) outcome" where
  "muxx_taskinit type parent entry privs s =
     (if curtasks s \<ge> 16 then Ret EMAXTASK s
      else andthen (new_pid type s) (\<lambda>p s.
        if p \<le> 0 then Ret ENOPID s
        else let found = find_slot (tct s)
             in if found = 0 then Stop (Panic ''TCT full'') s
                else Ret (int found) (upd_tcb found (new_tcb p type parent entry privs) s)))"

section \<open>Lookup\<close>

definition muxx_findtcb :: "u16 \<Rightarrow> 'd kstate \<Rightarrow> ptr" where
  "muxx_findtcb p s =
     (if p = 0 then curtcb s else find (\<lambda>i. pid (tct s ! i) = p) [0..<MAX_TASKS])"

text \<open>The result is the return code and what was copied to the caller's \<open>area\<close>, if anything.\<close>

definition muxx_svc_gettpi :: "u16 \<Rightarrow> 'd kstate \<Rightarrow> (int \<times> tcb option, 'd kstate) outcome" where
  "muxx_svc_gettpi p s =
     (let source = (if p = 0 then curtcb s else muxx_findtcb p s)
      in at_ptr (tct s) source s (\<lambda>src. at_ptr (tct s) (curtcb s) s (\<lambda>c.
           if uic (tct s ! src) = uic (tct s ! c) \<or> operprv (tct s ! c) \<or> auditprv (tct s ! c)
           then Ret (EOK, Some (tct s ! src)) s
           else Ret (ENOPRIV, None) s)))"

section \<open>The INIT task\<close>

text \<open>
  \<open>memset(mmu, 0, sizeof(TCB))\<close> starts at offset 60 of TCB 0 and clears 136 bytes: the last 76
  bytes of TCB 0 (its MMU state, tick counter, time stamp and local flags) and the first 60 bytes
  of TCB 1 (everything from its name to its CPU state).
\<close>

definition overrun_clear :: "tcb \<Rightarrow> tcb" where
  "overrun_clear t = zero_tcb\<lparr>mmuState := mmuState t, clockTicks := clockTicks t,
     created_timestamp := created_timestamp t, localFlags := localFlags t\<rparr>"

definition init_mmu :: mmustate where
  "init_mmu = \<lparr>
     upar = [0, 0x80, 0x100, 0, 0, 0, 0x180 - 0x40, 0xF80],
     updr = [0x7F06, 0x7F06, 0x7F06, 0, 0, 0, 0x400E, 0x7F04],
     kpar = [0, 0x80, 0x100, 0, 0, 0, 0x180 - 0x40, 0xF80],
     kpdr = [0x7F06, 0x7F06, 0x7F06, 0, 0, 0, 0x400E, 0x7F06]\<rparr>"

definition muxx_fakeproc :: "u16 \<Rightarrow> 'd kstate \<Rightarrow> 'd kstate" where
  "muxx_fakeproc init_entry s =
     (let t = zero_tcb\<lparr>taskname := ''INIT    '', pid := 1, ppid := 0, uic := 1,
            status := TSK_INIT,
            cpuState := zero_cpustate\<lparr>cs_pc := init_entry, cs_psw := 0xC000, cs_sp := ustackt,
              cs_usp := ustackt, cs_ksp := kstackt\<rparr>,
            prvword := 0x0007, mmuState := init_mmu, taskTUCB := 8192 * 3 - 64\<rparr>
      in s\<lparr>tct := (tct s)[0 := t, 1 := overrun_clear (tct s ! 1)], topspid := 1,
           curtcb := Some 0\<rparr>)"

section \<open>The slot search\<close>

definition slot_used :: "tcb list \<Rightarrow> nat \<Rightarrow> bool" where
  "slot_used ts i \<longleftrightarrow> pid (ts ! i) \<noteq> 0"

definition find_slot_ptr :: "tcb list \<Rightarrow> ptr" where
  "find_slot_ptr ts = (if find_slot ts = 0 then None else Some (find_slot ts))"

lemma find_slot_find:
  "find_slot ts = (case find (\<lambda>i. \<not> slot_used ts i) [1..<MAX_TASKS] of None \<Rightarrow> 0 | Some j \<Rightarrow> j)"
  unfolding find_slot_def slot_used_def
  using for_until_find_from_0 [of MAX_TASKS "\<lambda>i. pid (ts ! i) = 0"] by simp

lemma find_slot_ptr_find: "find_slot_ptr ts = find (\<lambda>i. \<not> slot_used ts i) [1..<MAX_TASKS]"
  by (auto simp: find_slot_ptr_def find_slot_find dest: find_upt_Some split: option.splits)

interpretation tct_slots: slot_table find_slot_ptr slot_used 1 MAX_TASKS
  by (rule find_slot_table) (rule find_slot_ptr_find)

section \<open>A table that is filled slot by slot\<close>

text \<open>The process ids given out so far: system and driver tasks from 1, user tasks from 65.\<close>

definition pid_given :: "'d kstate \<Rightarrow> u16 \<Rightarrow> bool" where
  "pid_given s p \<longleftrightarrow> 1 \<le> p \<and> p \<le> topspid s \<or> 65 \<le> p \<and> p \<le> topupid s"

definition tasks_inv :: "nat \<Rightarrow> 'd kstate \<Rightarrow> bool" where
  "tasks_inv k s \<longleftrightarrow>
     length (tct s) = MAX_TASKS \<and> 1 \<le> k \<and> k \<le> MAX_TASKS \<and> curtasks s < 16 \<and>
     minspid s = 1 \<and> maxspid s = 63 \<and> minupid s = 64 \<and> maxupid s = 511 \<and>
     1 \<le> unat (topspid s) \<and> unat (topspid s) \<le> k \<and>
     (topupid s = 0 \<or> 64 \<le> unat (topupid s) \<and> unat (topupid s) \<le> 63 + k) \<and>
     (\<forall>i < MAX_TASKS. slot_used (tct s) i \<longleftrightarrow> i < k) \<and>
     (\<forall>i < k. pid_given s (pid (tct s ! i))) \<and>
     (\<forall>i < k. \<forall>j < i. pid (tct s ! i) \<noteq> pid (tct s ! j))"

lemma tasks_inv_find: "tasks_inv k s \<Longrightarrow> find_slot (tct s) = (if k < MAX_TASKS then k else 0)"
  using tct_slots.prefix_fill [of "tct s" k]
  by (auto simp: tasks_inv_def find_slot_ptr_def split: if_splits)

text \<open>A process id that was not given out before, by either branch of the \<open>switch\<close>.\<close>

definition fresh_pid :: "u16 \<Rightarrow> 'd kstate \<Rightarrow> u16" where
  "fresh_pid type s =
     (if type = SYS_TASK \<or> type = DRV_TASK then topspid s + 1
      else if topupid s = 0 then 65 else topupid s + 1)"

definition given_state :: "u16 \<Rightarrow> 'd kstate \<Rightarrow> 'd kstate" where
  "given_state type s =
     (if type = SYS_TASK \<or> type = DRV_TASK then s\<lparr>topspid := fresh_pid type s\<rparr>
      else s\<lparr>topupid := fresh_pid type s\<rparr>)"

lemma tasks_inv_unat:
  assumes "tasks_inv k s"
  shows "unat (topspid s + 1) = unat (topspid s) + 1" and "unat (topspid s + 1) < 18"
    and "topupid s \<noteq> 0 \<Longrightarrow> unat (topupid s + 1) = unat (topupid s) + 1"
    and "topupid s \<noteq> 0 \<Longrightarrow> unat (topupid s + 1) < 81"
proof -
  from assms have *: "unat (topspid s) < 17" "topupid s \<noteq> 0 \<Longrightarrow> unat (topupid s) < 80"
    by (auto simp: tasks_inv_def)
  then show "unat (topspid s + 1) = unat (topspid s) + 1"
    and "topupid s \<noteq> 0 \<Longrightarrow> unat (topupid s + 1) = unat (topupid s) + 1"
    by (auto simp: unat_inc16)
  with * show "unat (topspid s + 1) < 18" "topupid s \<noteq> 0 \<Longrightarrow> unat (topupid s + 1) < 81"
    by auto
qed

lemma new_pid_fresh:
  assumes "tasks_inv k s"
  shows "new_pid type s = Ret (fresh_pid type s) (given_state type s)"
proof -
  note u = tasks_inv_unat [OF assms]
  from assms have "topspid s \<noteq> 0" "minspid s = 1" "maxspid s = 63" "minupid s = 64" "maxupid s = 511"
    by (auto simp: tasks_inv_def)
  moreover have "\<not> topspid s + 1 > 63" "topupid s \<noteq> 0 \<Longrightarrow> \<not> topupid s + 1 > 511"
    using u by (auto simp: word_less_nat_alt)
  ultimately show ?thesis
    by (auto simp: new_pid_def fresh_pid_def given_state_def Let_def)
qed

lemma fresh_pid_props:
  assumes "tasks_inv k s"
  shows "fresh_pid type s \<noteq> 0" and "\<not> pid_given s (fresh_pid type s)"
    and "pid_given (given_state type s) (fresh_pid type s)"
    and "pid_given s q \<Longrightarrow> pid_given (given_state type s) q"
proof -
  note u = tasks_inv_unat [OF assms]
  from assms have *: "1 \<le> unat (topspid s)" "unat (topspid s) < 17"
      "topupid s \<noteq> 0 \<Longrightarrow> 64 \<le> unat (topupid s)" "topupid s \<noteq> 0 \<Longrightarrow> unat (topupid s) < 80"
    by (auto simp: tasks_inv_def)
  show "fresh_pid type s \<noteq> 0"
    using u * by (auto simp: fresh_pid_def word_eq_iff_unsigned simp flip: unat_eq_nat_uint)
  show "\<not> pid_given s (fresh_pid type s)"
    using u * by (cases "topupid s = 0") (auto simp: fresh_pid_def pid_given_def word_le_nat_alt)
  show "pid_given (given_state type s) (fresh_pid type s)"
    using u * by (cases "topupid s = 0") (auto simp: fresh_pid_def given_state_def pid_given_def word_le_nat_alt)
  show "pid_given s q \<Longrightarrow> pid_given (given_state type s) q"
    using u * by (cases "topupid s = 0") (auto simp: fresh_pid_def given_state_def pid_given_def word_le_nat_alt)
qed

text \<open>The state after a successful creation.\<close>

definition created ::
  "nat \<Rightarrow> u16 \<Rightarrow> u16 \<Rightarrow> u16 \<Rightarrow> u16 \<Rightarrow> 'd kstate \<Rightarrow> 'd kstate" where
  "created k type parent entry privs s =
     upd_tcb k (new_tcb (fresh_pid type s) type parent entry privs) (given_state type s)"

lemma given_state_fields [simp]:
  "tct (given_state type s) = tct s" "curtasks (given_state type s) = curtasks s"
  "curtcb (given_state type s) = curtcb s" "mcbt (given_state type s) = mcbt s"
  "readyq (given_state type s) = readyq s" "suspq (given_state type s) = suspq s"
  "tucbs (given_state type s) = tucbs s" "ipl (given_state type s) = ipl s"
  "minspid (given_state type s) = minspid s" "maxspid (given_state type s) = maxspid s"
  "minupid (given_state type s) = minupid s" "maxupid (given_state type s) = maxupid s"
  by (simp_all add: given_state_def)

lemma created_tct:
  "tct (created k type parent entry privs s) =
     (tct s)[k := new_tcb (fresh_pid type s) type parent entry privs (tct s ! k)]"
  by (simp add: created_def upd_tcb_def)

lemma created_fields [simp]:
  "curtasks (created k type parent entry privs s) = curtasks s"
  "curtcb (created k type parent entry privs s) = curtcb s"
  "mcbt (created k type parent entry privs s) = mcbt s"
  "readyq (created k type parent entry privs s) = readyq s"
  "suspq (created k type parent entry privs s) = suspq s"
  "tucbs (created k type parent entry privs s) = tucbs s"
  "ipl (created k type parent entry privs s) = ipl s"
  by (simp_all add: created_def upd_tcb_def)

lemma new_tcb_pid [simp]: "pid (new_tcb p type parent entry privs t) = p"
  by (simp add: new_tcb_def Let_def)

lemma taskinit_next:
  assumes inv: "tasks_inv k s" and k: "k < MAX_TASKS"
  shows "muxx_taskinit type parent entry privs s = Ret (int k) (created k type parent entry privs s)"
proof -
  have "find_slot (tct (given_state type s)) = k" "1 \<le> k" "\<not> curtasks s \<ge> 16"
    using inv k tasks_inv_find [OF inv] by (auto simp: tasks_inv_def)
  then show ?thesis
    using new_pid_fresh [OF inv, of type] fresh_pid_props(1) [OF inv, of type]
    by (simp add: muxx_taskinit_def created_def Let_def)
qed

lemma taskinit_full:
  assumes inv: "tasks_inv MAX_TASKS s"
  shows "muxx_taskinit type parent entry privs s = Stop (Panic ''TCT full'') (given_state type s)"
proof -
  have "find_slot (tct (given_state type s)) = 0" "\<not> curtasks s \<ge> 16"
    using inv tasks_inv_find [OF inv] by (auto simp: tasks_inv_def)
  then show ?thesis
    using new_pid_fresh [OF inv, of type] fresh_pid_props(1) [OF inv, of type]
    by (simp add: muxx_taskinit_def Let_def)
qed

lemma created_inv:
  assumes inv: "tasks_inv k s" and k: "k < MAX_TASKS"
  shows "tasks_inv (Suc k) (created k type parent entry privs s)"
proof -
  let ?s = "created k type parent entry privs s" and ?p = "fresh_pid type s"
  note fp = fresh_pid_props [OF inv, of type] and u = tasks_inv_unat [OF inv]
  have len: "length (tct s) = MAX_TASKS" using inv by (simp add: tasks_inv_def)
  have given: "pid_given ?s = pid_given (given_state type s)"
    by (rule ext) (simp add: pid_given_def created_def upd_tcb_def)
  have pids: "pid (tct ?s ! i) = (if i = k then ?p else pid (tct s ! i))" if "i < MAX_TASKS" for i
    using that len by (simp add: created_tct nth_list_update)
  have used: "slot_used (tct ?s) i \<longleftrightarrow> i < Suc k" if "i < MAX_TASKS" for i
    using that inv fp(1) by (auto simp: pids slot_used_def tasks_inv_def)
  have old: "pid_given s (pid (tct s ! i))" if "i < k" for i
    using that inv by (simp add: tasks_inv_def)
  then have newd: "?p \<noteq> pid (tct s ! i)" if "i < k" for i using that fp(2) by metis
  have "pid_given (given_state type s) (pid (tct s ! i))" if "i < k" for i
    using fresh_pid_props(4) [OF inv old [OF that]] .
  with fp(3) have "pid_given ?s (pid (tct ?s ! i))" if "i < Suc k" for i
    using that k by (auto simp: pids given less_Suc_eq)
  moreover have "pid (tct ?s ! i) \<noteq> pid (tct ?s ! j)" if "i < Suc k" "j < i" for i j
    using that k inv newd by (auto simp: pids less_Suc_eq tasks_inv_def)
  moreover have "1 \<le> unat (topspid ?s)" "unat (topspid ?s) \<le> Suc k"
      "topupid ?s = 0 \<or> 64 \<le> unat (topupid ?s) \<and> unat (topupid ?s) \<le> 63 + Suc k"
    using inv u by (auto simp: tasks_inv_def created_def upd_tcb_def given_state_def fresh_pid_def)
  moreover have "minspid ?s = 1" "maxspid ?s = 63" "minupid ?s = 64" "maxupid ?s = 511"
    using inv by (auto simp: tasks_inv_def created_def upd_tcb_def)
  ultimately show ?thesis
    using inv k used by (simp add: tasks_inv_def) (simp add: created_tct)
qed

text \<open>
  From the table that \<open>muxx_fakeproc\<close> leaves, with INIT in slot 0, the slots fill up in order.
\<close>

lemma length_tctinit [simp]: "length (tct (muxx_tctinit s)) = length (tct s)"
proof -
  have "length (tct (fold (\<lambda>i. upd_tcb i muxx_tcbinit) is s)) = length (tct s)" for "is"
    by (induction "is" arbitrary: s) (simp_all add: upd_tcb_def)
  then show ?thesis by (simp only: muxx_tctinit_def)
qed

lemma fold_upd_tcb:
  "j < length (tct s) \<Longrightarrow> distinct is \<Longrightarrow>
   tct (fold (\<lambda>i. upd_tcb i f) is s) ! j = (if j \<in> set is then f (tct s ! j) else tct s ! j)"
proof (induction "is" arbitrary: s)
  case Nil
  then show ?case by simp
next
  case (Cons a "is")
  then show ?case
    using Cons.IH [of "upd_tcb a f s"] by (cases "j = a") (auto simp: upd_tcb_def)
qed

lemma tctinit_free:
  "length (tct s) = MAX_TASKS \<Longrightarrow> i < MAX_TASKS \<Longrightarrow>
   tct (muxx_tctinit s) ! i = muxx_tcbinit (tct s ! i)"
  unfolding muxx_tctinit_def by (subst fold_upd_tcb) auto

definition start_state :: "u16 \<Rightarrow> 'd \<Rightarrow> (nat \<Rightarrow> u8) \<Rightarrow> 'd kstate" where
  "start_state init_entry d M = muxx_fakeproc init_entry (muxx_tctinit (boot_kstate d M))"

lemma tctinit_other [simp]:
  "curtasks (muxx_tctinit s) = curtasks s" "minspid (muxx_tctinit s) = minspid s"
  "maxspid (muxx_tctinit s) = maxspid s" "minupid (muxx_tctinit s) = minupid s"
  "maxupid (muxx_tctinit s) = maxupid s" "topupid (muxx_tctinit s) = topupid s"
proof -
  have "fold (\<lambda>i. upd_tcb i muxx_tcbinit) is s = s\<lparr>tct := tct (fold (\<lambda>i. upd_tcb i muxx_tcbinit) is s)\<rparr>"
    for "is" :: "nat list"
  proof (induction "is" arbitrary: s)
    case Nil
    then show ?case by simp
  next
    case (Cons i "is")
    show ?case
      using Cons.IH [of "upd_tcb i muxx_tcbinit s"] by (simp add: upd_tcb_def)
  qed
  from this [of "[0..<MAX_TASKS]"] have "muxx_tctinit s = s\<lparr>tct := tct (muxx_tctinit s)\<rparr>"
    by (simp only: muxx_tctinit_def)
  then obtain ts where "muxx_tctinit s = s\<lparr>tct := ts\<rparr>" ..
  then show "curtasks (muxx_tctinit s) = curtasks s" "minspid (muxx_tctinit s) = minspid s"
    "maxspid (muxx_tctinit s) = maxspid s" "minupid (muxx_tctinit s) = minupid s"
    "maxupid (muxx_tctinit s) = maxupid s" "topupid (muxx_tctinit s) = topupid s"
    by simp_all
qed

lemma start_tasks_inv: "tasks_inv 1 (start_state init_entry d M)"
proof -
  let ?b = "boot_kstate d M" and ?s = "start_state init_entry d M"
  have b: "length (tct ?b) = 16" "\<And>i. i < 16 \<Longrightarrow> tct ?b ! i = zero_tcb"
    by (simp_all add: boot_kstate_def)
  have "pid (tct ?s ! i) = (if i = 0 then 1 else 0)" if "i < 16" for i
    using that b by (auto simp: start_state_def muxx_fakeproc_def Let_def nth_list_update
      tctinit_free overrun_clear_def muxx_tcbinit_def zero_tcb_def)
  then show ?thesis
    using b(1) by (auto simp: tasks_inv_def slot_used_def pid_given_def)
      (auto simp: start_state_def muxx_fakeproc_def Let_def boot_kstate_def)
qed

text \<open>Creating several tasks in a row.\<close>

type_synonym task_spec = "u16 \<times> u16 \<times> u16 \<times> u16"

fun create_all :: "task_spec list \<Rightarrow> 'd kstate \<Rightarrow> (int list, 'd kstate) outcome" where
  "create_all [] s = Ret [] s"
| "create_all ((type, parent, entry, privs) # ts) s =
     andthen (muxx_taskinit type parent entry privs s) (\<lambda>r s.
       andthen (create_all ts s) (\<lambda>rs. Ret (r # rs)))"

lemma create_all_fills:
  "tasks_inv k s \<Longrightarrow> k + length specs \<le> MAX_TASKS \<Longrightarrow>
   \<exists>s'. create_all specs s = Ret (map int [k..<k + length specs]) s' \<and>
        tasks_inv (k + length specs) s'"
proof (induction specs arbitrary: k s)
  case Nil
  then show ?case by simp
next
  case (Cons spec specs)
  obtain type parent entry privs where spec: "spec = (type, parent, entry, privs)"
    by (cases spec)
  from Cons.prems have k: "k < MAX_TASKS" by simp
  let ?s = "created k type parent entry privs s"
  from Cons.IH [OF created_inv [OF Cons.prems(1) k]] Cons.prems(2)
  obtain s' where "create_all specs ?s = Ret (map int [Suc k..<Suc k + length specs]) s'"
      "tasks_inv (Suc k + length specs) s'"
    by fastforce
  moreover have "[k..<k + length (spec # specs)] = k # [Suc k..<Suc k + length specs]"
    by (simp add: upt_conv_Cons del: upt_Suc)
  ultimately show ?case
    by (simp add: spec taskinit_next [OF Cons.prems(1) k] del: upt_Suc)
qed

section \<open>Lookup\<close>

lemma findtcb_sound:
  "p \<noteq> 0 \<Longrightarrow> muxx_findtcb p s = Some i \<Longrightarrow> i < MAX_TASKS \<and> pid (tct s ! i) = p"
  using find_upt_Some [of "\<lambda>i. pid (tct s ! i) = p" 0 MAX_TASKS i] by (simp add: muxx_findtcb_def)

lemma tasks_inv_distinct:
  "tasks_inv k s \<Longrightarrow> i < k \<Longrightarrow> j < i \<Longrightarrow> pid (tct s ! i) \<noteq> pid (tct s ! j)"
  by (simp add: tasks_inv_def)

lemma findtcb_unique:
  assumes inv: "tasks_inv k s" and i: "i < k"
  shows "muxx_findtcb (pid (tct s ! i)) s = Some i"
proof -
  from inv i have i16: "i < MAX_TASKS" and p: "pid (tct s ! i) \<noteq> 0"
    by (auto simp: tasks_inv_def slot_used_def)
  let ?P = "\<lambda>j. pid (tct s ! j) = pid (tct s ! i)"
  show ?thesis
  proof (cases "find ?P [0..<MAX_TASKS]")
    case None
    with i16 find_upt_None [of ?P 0 MAX_TASKS] show ?thesis by auto
  next
    case (Some j)
    from find_upt_Some [OF this] have j: "?P j" "\<forall>m. 0 \<le> m \<and> m < j \<longrightarrow> \<not> ?P m" by blast+
    from j(2) have "\<not> i < j" by blast
    moreover have "\<not> j < i" using j(1) tasks_inv_distinct [OF inv i] by metis
    ultimately have "j = i" by simp
    with Some p show ?thesis by (simp add: muxx_findtcb_def)
  qed
qed

lemma findtcb_unknown:
  "p \<noteq> 0 \<Longrightarrow> (\<And>i. i < MAX_TASKS \<Longrightarrow> pid (tct s ! i) \<noteq> p) \<Longrightarrow> muxx_findtcb p s = None"
  using find_upt_None [of "\<lambda>i. pid (tct s ! i) = p" 0 MAX_TASKS] by (simp add: muxx_findtcb_def)

lemma gettpi_source:
  "(if p = 0 then curtcb s else muxx_findtcb p s) = muxx_findtcb p s"
  by (simp add: muxx_findtcb_def)

end
