(* ===== verification/Muxx_Sched.thy ===== *)
theory Muxx_Sched
  imports Muxx_Queues Muxx_Tasks
begin

text \<open>
  Scheduling: \<open>kernel/muxx_schedule.c\<close>, \<open>kernel/muxx_yield.c\<close>, \<open>kernel/muxx_clock_svc.c\<close>, the
  yield and suspend services of \<open>kernel/muxx_systrap_svc.c\<close>, and the assembly routines they rest
  on (\<open>kernel/muxx_switch.s\<close>, \<open>kernel/muxx_copytrapframe.s\<close>). \<open>sched_rep\<close> relates the kernel state
  to the abstract scheduler: the running task, the ready queue and the suspended queue as lists.

  In a state that runs user code, \<open>cpu\<close> holds the registers of the current task. A trap or an
  interrupt pushes them on the kernel stack as the trap frame, whose address is the argument \<open>fp\<close>:
  all of them for the clock and for exceptions, but zeros in place of R0 and R1 for a system call
  (the macro \<open>traphandle\<close> of \<open>h/MACLIB.s\<close>). The frame itself stays on the task's own kernel stack until the task is dispatched again, so that
  the PC and PSW the final \<open>rti\<close> pops are the ones \<open>copytrapfp\<close> saved.
\<close>

section \<open>The processor context\<close>

definition saved_context :: "u16 \<Rightarrow> cpustate \<Rightarrow> cpustate \<Rightarrow> cpustate" where
  "saved_context fp regs old = old\<lparr>gpr := gpr regs, cs_pc := cs_pc regs, cs_psw := cs_psw regs,
     cs_ksp := fp + 14, cs_usp := cs_usp regs,
     cs_sp := (if cs_psw regs AND 0xC000 = 0xC000 then cs_usp regs else fp + 14)\<rparr>"

text \<open>The frame of a system call; the other traps use the registers themselves.\<close>

definition syscall_frame :: "cpustate \<Rightarrow> cpustate" where
  "syscall_frame regs = regs\<lparr>gpr := (gpr regs)[0 := 0, 1 := 0]\<rparr>"

definition copytrapfp :: "u16 \<Rightarrow> cpustate \<Rightarrow> 'd kstate \<Rightarrow> (unit, 'd kstate) outcome" where
  "copytrapfp fp frame s = at_ptr (tct s) (curtcb s) s (\<lambda>c.
     Ret () (upd_tcb c (\<lambda>t. t\<lparr>cpuState := saved_context fp frame (cpuState t)\<rparr>) s))"

definition copyMMUstate :: "'d kstate \<Rightarrow> (unit, 'd kstate) outcome" where
  "copyMMUstate s = at_ptr (tct s) (curtcb s) s (\<lambda>c.
     Ret () (upd_tcb c (\<lambda>t. t\<lparr>mmuState := mmu s\<rparr>) s))"

text \<open>The priority comes back with the task's PSW.\<close>

definition muxx_switch :: "'d kstate \<Rightarrow> (unit, 'd kstate) outcome" where
  "muxx_switch s = at_ptr (tct s) (curtcb s) s (\<lambda>c.
     let t = tct s ! c
     in Stop Switched ((upd_tcb c (\<lambda>t. t\<lparr>status := TSK_RUN\<rparr>) s)
          \<lparr>cpu := cpuState t, mmu := mmuState t, ipl := drop_bit 5 (cs_psw (cpuState t)) AND 7\<rparr>))"

section \<open>Queue operations on the kernel state\<close>

definition put_ready :: "'d kstate \<Rightarrow> qstate \<Rightarrow> 'd kstate" where
  "put_ready s = (\<lambda>(q, ts). s\<lparr>readyq := q, tct := ts\<rparr>)"

definition put_susp :: "'d kstate \<Rightarrow> qstate \<Rightarrow> 'd kstate" where
  "put_susp s = (\<lambda>(q, ts). s\<lparr>suspq := q, tct := ts\<rparr>)"

definition on_readyq ::
  "(qstate \<Rightarrow> ('a, qstate) outcome) \<Rightarrow> 'd kstate \<Rightarrow> ('a, 'd kstate) outcome" where
  "on_readyq f s =
     (case f (readyq s, tct s) of
        Ret a qs \<Rightarrow> Ret a (put_ready s qs)
      | Stop e qs \<Rightarrow> Stop e (put_ready s qs))"

definition on_suspq ::
  "(qstate \<Rightarrow> ('a, qstate) outcome) \<Rightarrow> 'd kstate \<Rightarrow> ('a, 'd kstate) outcome" where
  "on_suspq f s =
     (case f (suspq s, tct s) of
        Ret a qs \<Rightarrow> Ret a (put_susp s qs)
      | Stop e qs \<Rightarrow> Stop e (put_susp s qs))"

section \<open>The scheduler\<close>

definition muxx_schedule :: "'d kstate \<Rightarrow> (unit, 'd kstate) outcome" where
  "muxx_schedule s =
     (let (_, s) = setpl7 s
      in andthen (on_readyq muxx_qGetTask s) (\<lambda>tcb s.
         andthen (muxx_switch (s\<lparr>curtcb := tcb\<rparr>)) (\<lambda>_ s.
           Stop (Panic ''Switch didn't switch'') s)))"

definition muxx_yield :: "'d kstate \<Rightarrow> (int, 'd kstate) outcome" where
  "muxx_yield s = at_ptr (tct s) (curtcb s) s (\<lambda>c.
     andthen (on_readyq (muxx_qAddTask (Some c)) (upd_tcb c (\<lambda>t. t\<lparr>status := TSK_READY\<rparr>) s))
       (\<lambda>_ s. Ret 0 s))"

definition muxx_svc_yield :: "u16 \<Rightarrow> 'd kstate \<Rightarrow> (int, 'd kstate) outcome" where
  "muxx_svc_yield fp s =
     (let (_, s) = setpl7 s
      in at_ptr (tct s) (curtcb s) s (\<lambda>c.
         andthen (on_readyq (muxx_qAddTask (Some c)) (upd_tcb c (\<lambda>t. t\<lparr>status := TSK_READY\<rparr>) s))
           (\<lambda>_ s. andthen (copytrapfp fp (syscall_frame (cpu s)) s) (\<lambda>_ s. andthen (copyMMUstate s) (\<lambda>_ s.
              andthen (muxx_schedule s) (\<lambda>_. Stop (Panic ''YIELD returning!'')))))))"

definition muxx_svc_suspend :: "u16 \<Rightarrow> ptr \<Rightarrow> 'd kstate \<Rightarrow> (int, 'd kstate) outcome" where
  "muxx_svc_suspend fp task s =
     (let theTask = (if task = None then curtcb s else task)
      in at_ptr (tct s) (curtcb s) s (\<lambda>c. at_ptr (tct s) theTask s (\<lambda>t.
         if operprv (tct s ! c) \<or> uic (tct s ! c) = uic (tct s ! t) then
           (let (curpl, s) = setpl7 s
            in andthen (on_readyq (muxx_qRemoveTask theTask) s) (\<lambda>_ s.
               andthen (on_suspq (muxx_qAddTask theTask)
                         (upd_tcb t (\<lambda>t. t\<lparr>status := TSK_SUSP\<rparr>) s)) (\<lambda>_ s.
               andthen (if theTask = curtcb s then
                          andthen (copytrapfp fp (syscall_frame (cpu s)) s) (\<lambda>_ s. andthen (copyMMUstate s) (\<lambda>_ s.
                            muxx_schedule s))
                        else Ret () s) (\<lambda>_ s.
               Ret EOK (setpl curpl s)))))
         else Ret ENOPRIV s)))"

section \<open>The clock\<close>

definition muxx_check_quantums :: "u16 \<Rightarrow> 'd kstate \<Rightarrow> (unit, 'd kstate) outcome" where
  "muxx_check_quantums fp s =
     (if count (readyq s) > 0 then
        let (_, s) = setpl7 s
        in andthen (copytrapfp fp (cpu s) s) (\<lambda>_ s. andthen (muxx_yield s) (\<lambda>_ s. muxx_schedule s))
      else Ret () s)"

definition muxx_check_timers :: "'d kstate \<Rightarrow> (unit, 'd kstate) outcome" where
  "muxx_check_timers s = Ret () s"

definition muxx_clock_handler :: "u16 \<Rightarrow> 'd kstate \<Rightarrow> (unit, 'd kstate) outcome" where
  "muxx_clock_handler fp s =
     (let s1 = s\<lparr>utimeticks := utimeticks s + 1\<rparr>
      in andthen
           (if curtcb s1 \<noteq> None then
              at_ptr (tct s1) (curtcb s1) s1 (\<lambda>c.
                Ret () (upd_tcb c (\<lambda>t. t\<lparr>clockTicks := clockTicks t + 1\<rparr>) s1))
            else Ret () s1)
           (\<lambda>_ s. let s = s\<lparr>clkcountdown := clkcountdown s - 1\<rparr>
              in andthen
                   (if clkcountdown s \<le> 0 then muxx_check_quantums fp (s\<lparr>clkcountdown := clkquantum s\<rparr>)
                    else Ret () s)
                   (\<lambda>_. muxx_check_timers)))"

section \<open>The abstract scheduler\<close>

definition is_ready :: "tcb \<Rightarrow> bool" where
  "is_ready t \<longleftrightarrow> status t = TSK_INIT \<or> status t = TSK_READY"

definition ready_rep :: "'d kstate \<Rightarrow> nat list \<Rightarrow> nat list \<Rightarrow> bool" where
  "ready_rep s rs ss \<longleftrightarrow>
     length (tct s) = MAX_TASKS \<and>
     queue_of (tct s) (readyq s) rs \<and> queue_of (tct s) (suspq s) ss \<and> distinct (rs @ ss) \<and>
     (\<forall>r \<in> set rs. is_ready (tct s ! r)) \<and> (\<forall>t \<in> set ss. status (tct s ! t) = TSK_SUSP)"

definition sched_rep :: "'d kstate \<Rightarrow> nat \<Rightarrow> nat list \<Rightarrow> nat list \<Rightarrow> bool" where
  "sched_rep s c rs ss \<longleftrightarrow>
     ready_rep s rs ss \<and> curtcb s = Some c \<and> c < MAX_TASKS \<and> c \<notin> set rs \<and> c \<notin> set ss \<and>
     status (tct s ! c) = TSK_RUN"

text \<open>
  What scheduling leaves alone: the identity of the tasks, and the rest of the kernel state.
\<close>

definition identity :: "tcb \<Rightarrow> tcb" where
  "identity t = t\<lparr>nextInQueue := None, prevInQueue := None, status := 0,
     cpuState := zero_cpustate, mmuState := zero_mmustate, clockTicks := 0\<rparr>"

definition unsched :: "'d kstate \<Rightarrow> 'd kstate" where
  "unsched s = s\<lparr>tct := map identity (tct s), readyq := zero_tqueue, suspq := zero_tqueue,
     curtcb := None, cpu := zero_cpustate, mmu := zero_mmustate, ipl := 0, utimeticks := 0,
     clkcountdown := 0\<rparr>"

definition context_of :: "tcb \<Rightarrow> cpustate \<times> mmustate" where
  "context_of t = (cpuState t, mmuState t)"

definition contexts :: "'d kstate \<Rightarrow> (cpustate \<times> mmustate) list" where
  "contexts s = map context_of (tct s)"

lemma identity_unlinked: "identity (unlinked t) = identity t"
  by (simp add: identity_def unlinked_def)

lemma context_unlinked: "context_of (unlinked t) = context_of t"
  by (simp add: context_of_def unlinked_def)

lemma unlinked_same:
  assumes "map unlinked ts' = map unlinked ts"
  shows "length ts' = length ts" and "map identity ts' = map identity ts"
    and "map context_of ts' = map context_of ts"
    and "i < length ts \<Longrightarrow> status (ts' ! i) = status (ts ! i)"
    and "i < length ts \<Longrightarrow> cpuState (ts' ! i) = cpuState (ts ! i)"
    and "i < length ts \<Longrightarrow> mmuState (ts' ! i) = mmuState (ts ! i)"
proof -
  show l: "length ts' = length ts" using arg_cong [OF assms, of length] by simp
  have "map identity ts' = map (identity \<circ> unlinked) ts'" by (simp add: identity_unlinked)
  also have "\<dots> = map (identity \<circ> unlinked) ts" using assms by (simp flip: map_map)
  finally show "map identity ts' = map identity ts" by (simp add: identity_unlinked)
  have "map context_of ts' = map (context_of \<circ> unlinked) ts'" by (simp add: context_unlinked)
  also have "\<dots> = map (context_of \<circ> unlinked) ts" using assms by (simp flip: map_map)
  finally show "map context_of ts' = map context_of ts" by (simp add: context_unlinked)
  assume "i < length ts"
  then have "unlinked (ts' ! i) = unlinked (ts ! i)"
    using arg_cong [OF assms, of "\<lambda>xs. xs ! i"] l by simp
  then show "status (ts' ! i) = status (ts ! i)" "cpuState (ts' ! i) = cpuState (ts ! i)"
    "mmuState (ts' ! i) = mmuState (ts ! i)"
    by (auto simp: unlinked_def dest: arg_cong [of _ _ status] arg_cong [of _ _ cpuState]
        arg_cong [of _ _ mmuState])
qed

lemma ready_rep_bound: "ready_rep s rs ss \<Longrightarrow> t \<in> set rs \<union> set ss \<Longrightarrow> t < MAX_TASKS"
  by (auto simp: ready_rep_def dest: queue_of_bound)

text \<open>A change of one TCB that keeps its links, and its status when it is queued.\<close>

lemma ready_rep_upd:
  assumes "ready_rep s rs ss" and "i < MAX_TASKS"
    and "\<And>t. nextInQueue (f t) = nextInQueue t \<and> prevInQueue (f t) = prevInQueue t"
    and "i \<in> set (rs @ ss) \<Longrightarrow> status (f (tct s ! i)) = status (tct s ! i)"
  shows "ready_rep (upd_tcb i f s) rs ss"
proof -
  have "queue_of (tct (upd_tcb i f s)) q xs" if "queue_of (tct s) q xs" for q xs
    using that assms(1-3) by (intro queue_of_cong [OF that]) (auto simp: upd_tcb_def ready_rep_def nth_list_update)
  with assms show ?thesis
    by (auto simp: ready_rep_def upd_tcb_def nth_list_update is_ready_def)
qed

lemma ready_rep_cong:
  "tct s' = tct s \<Longrightarrow> readyq s' = readyq s \<Longrightarrow> suspq s' = suspq s \<Longrightarrow>
   ready_rep s' rs ss = ready_rep s rs ss"
  by (simp add: ready_rep_def)

lemma on_readyq_Ret:
  "f (readyq s, tct s) = Ret a (q, ts) \<Longrightarrow> on_readyq f s = Ret a (s\<lparr>readyq := q, tct := ts\<rparr>)"
  by (simp add: on_readyq_def put_ready_def)

lemma on_suspq_Ret:
  "f (suspq s, tct s) = Ret a (q, ts) \<Longrightarrow> on_suspq f s = Ret a (s\<lparr>suspq := q, tct := ts\<rparr>)"
  by (simp add: on_suspq_def put_susp_def)

lemma enqueue_rep:
  assumes rep: "ready_rep s rs ss" and t: "t < MAX_TASKS" "t \<notin> set rs" "t \<notin> set ss"
    and st: "is_ready (tct s ! t)"
  shows "\<exists>q ts. on_readyq (muxx_qAddTask (Some t)) s = Ret () (s\<lparr>readyq := q, tct := ts\<rparr>) \<and>
    ready_rep (s\<lparr>readyq := q, tct := ts\<rparr>) (rs @ [t]) ss \<and> map unlinked ts = map unlinked (tct s)"
proof -
  from rep have len: "length (tct s) = MAX_TASKS" and rq: "queue_of (tct s) (readyq s) rs"
    and sq: "queue_of (tct s) (suspq s) ss" by (simp_all add: ready_rep_def)
  from qAddTask_links [OF rq _ t(2)] t(1) len obtain q ts where
    add: "muxx_qAddTask (Some t) (readyq s, tct s) = Ret () (q, ts)" "queue_of ts q (rs @ [t])"
      "map unlinked ts = map unlinked (tct s)" and
    same: "\<forall>i < length (tct s). i \<noteq> t \<and> i \<notin> set rs \<longrightarrow> ts ! i = tct s ! i"
    by auto
  note u = unlinked_same [OF add(3)]
  have "ts ! x = tct s ! x" if "x \<in> set ss" for x
    using that same rep t queue_of_bound [OF sq that] by (auto simp: ready_rep_def)
  then have "queue_of ts (suspq s) ss" by (intro queue_of_cong [OF sq u(1)]) simp
  moreover have "\<forall>r \<in> set (rs @ [t]). is_ready (ts ! r)" "\<forall>x \<in> set ss. status (ts ! x) = TSK_SUSP"
    using rep st t len u(4) ready_rep_bound [OF rep] by (auto simp: ready_rep_def is_ready_def)
  ultimately have "ready_rep (s\<lparr>readyq := q, tct := ts\<rparr>) (rs @ [t]) ss"
    using rep add t u(1) by (auto simp: ready_rep_def)
  with add on_readyq_Ret [where f = "muxx_qAddTask (Some t)", OF add(1)] show ?thesis by blast
qed

lemma dequeue_rep:
  assumes rep: "ready_rep s (r # rs) ss"
  shows "\<exists>q ts. on_readyq muxx_qGetTask s = Ret (Some r) (s\<lparr>readyq := q, tct := ts\<rparr>) \<and>
    ready_rep (s\<lparr>readyq := q, tct := ts\<rparr>) rs ss \<and> map unlinked ts = map unlinked (tct s)"
proof -
  from rep have len: "length (tct s) = MAX_TASKS" and rq: "queue_of (tct s) (readyq s) (r # rs)"
    and sq: "queue_of (tct s) (suspq s) ss" by (simp_all add: ready_rep_def)
  from qGetTask_links [OF rq] obtain q ts where
    get: "muxx_qGetTask (readyq s, tct s) = Ret (Some r) (q, ts)" "queue_of ts q rs"
      "map unlinked ts = map unlinked (tct s)" and
    same: "\<forall>i < length (tct s). i \<notin> set (r # rs) \<longrightarrow> ts ! i = tct s ! i"
    by auto
  note u = unlinked_same [OF get(3)]
  have "ts ! x = tct s ! x" if "x \<in> set ss" for x
    using that same rep queue_of_bound [OF sq that] by (auto simp: ready_rep_def)
  then have "queue_of ts (suspq s) ss" by (intro queue_of_cong [OF sq u(1)]) simp
  moreover have "\<forall>r \<in> set rs. is_ready (ts ! r)" "\<forall>x \<in> set ss. status (ts ! x) = TSK_SUSP"
    using rep len u(4) ready_rep_bound [OF rep] by (auto simp: ready_rep_def is_ready_def)
  ultimately have "ready_rep (s\<lparr>readyq := q, tct := ts\<rparr>) rs ss"
    using rep get u(1) by (auto simp: ready_rep_def)
  with get on_readyq_Ret [where f = muxx_qGetTask, OF get(1)] show ?thesis by blast
qed

lemma suspend_rep:
  assumes rep: "ready_rep s rs ss" and t: "t < MAX_TASKS" "t \<notin> set rs" "t \<notin> set ss"
    and st: "status (tct s ! t) = TSK_SUSP"
  shows "\<exists>q ts. on_suspq (muxx_qAddTask (Some t)) s = Ret () (s\<lparr>suspq := q, tct := ts\<rparr>) \<and>
    ready_rep (s\<lparr>suspq := q, tct := ts\<rparr>) rs (ss @ [t]) \<and> map unlinked ts = map unlinked (tct s)"
proof -
  from rep have len: "length (tct s) = MAX_TASKS" and rq: "queue_of (tct s) (readyq s) rs"
    and sq: "queue_of (tct s) (suspq s) ss" by (simp_all add: ready_rep_def)
  from qAddTask_links [OF sq _ t(3)] t(1) len obtain q ts where
    add: "muxx_qAddTask (Some t) (suspq s, tct s) = Ret () (q, ts)" "queue_of ts q (ss @ [t])"
      "map unlinked ts = map unlinked (tct s)" and
    same: "\<forall>i < length (tct s). i \<noteq> t \<and> i \<notin> set ss \<longrightarrow> ts ! i = tct s ! i"
    by auto
  note u = unlinked_same [OF add(3)]
  have "ts ! x = tct s ! x" if "x \<in> set rs" for x
    using that same rep t queue_of_bound [OF rq that] by (auto simp: ready_rep_def)
  then have "queue_of ts (readyq s) rs" by (intro queue_of_cong [OF rq u(1)]) simp
  moreover have "\<forall>r \<in> set rs. is_ready (ts ! r)" "\<forall>x \<in> set (ss @ [t]). status (ts ! x) = TSK_SUSP"
    using rep st t len u(4) ready_rep_bound [OF rep] by (auto simp: ready_rep_def is_ready_def)
  ultimately have "ready_rep (s\<lparr>suspq := q, tct := ts\<rparr>) rs (ss @ [t])"
    using rep add t u(1) by (auto simp: ready_rep_def)
  with add on_suspq_Ret [where f = "muxx_qAddTask (Some t)", OF add(1)] show ?thesis by blast
qed

text \<open>A dispatch: the first ready task runs with the context its TCB holds.\<close>

definition loaded :: "'d kstate \<Rightarrow> nat \<Rightarrow> bool" where
  "loaded s r \<longleftrightarrow> (cpu s, mmu s) = context_of (tct s ! r)"

definition same_identity :: "'d kstate \<Rightarrow> 'd kstate \<Rightarrow> bool" where
  "same_identity s s' \<longleftrightarrow> map identity (tct s') = map identity (tct s)"

lemma schedule_rep:
  assumes rep: "ready_rep s (r # rs) ss"
  shows "\<exists>s'. muxx_schedule s = Stop Switched s' \<and> sched_rep s' r rs ss \<and> loaded s' r \<and>
    contexts s' = contexts s \<and> unsched s' = unsched s \<and> clkcountdown s' = clkcountdown s"
proof -
  let ?s = "s\<lparr>ipl := 7\<rparr>"
  have "ready_rep ?s (r # rs) ss" using rep by (simp add: ready_rep_cong [of ?s s])
  from dequeue_rep [OF this] obtain q ts where
    get: "on_readyq muxx_qGetTask ?s = Ret (Some r) (?s\<lparr>readyq := q, tct := ts\<rparr>)" and
    rep1: "ready_rep (?s\<lparr>readyq := q, tct := ts\<rparr>) rs ss" and
    ul: "map unlinked ts = map unlinked (tct s)" by auto
  note u = unlinked_same [OF ul]
  have r: "r < length ts" "r \<notin> set (rs @ ss)"
    using rep u(1) ready_rep_bound [OF rep, of r] by (auto simp: ready_rep_def)
  let ?run = "\<lambda>t. t\<lparr>status := TSK_RUN\<rparr>"
  let ?s1 = "?s\<lparr>readyq := q, tct := ts, curtcb := Some r\<rparr>"
  let ?s2 = "(upd_tcb r ?run ?s1)\<lparr>cpu := cpuState (ts ! r), mmu := mmuState (ts ! r),
    ipl := drop_bit 5 (cs_psw (cpuState (ts ! r))) AND 7\<rparr>"
  have sch: "muxx_schedule s = Stop Switched ?s2"
    using get r by (simp add: muxx_schedule_def setpl_defs muxx_switch_def Let_def upd_tcb_def)
  have "ready_rep (upd_tcb r ?run ?s1) rs ss"
    using rep1 r u(1) rep
    by (intro ready_rep_upd) (auto simp: ready_rep_cong [of ?s1 "?s\<lparr>readyq := q, tct := ts\<rparr>"] ready_rep_def)
  then have "ready_rep ?s2 rs ss"
    by (simp add: ready_rep_def)
  then have "sched_rep ?s2 r rs ss"
    using r rep u(1) by (auto simp: sched_rep_def ready_rep_def upd_tcb_def)
  moreover have "loaded ?s2 r" using r by (simp add: loaded_def context_of_def upd_tcb_def)
  moreover have "contexts ?s2 = contexts s"
    using r u(3) by (simp add: contexts_def upd_tcb_def map_update_same context_of_def)
  moreover have "unsched ?s2 = unsched s"
    using r u(2) by (simp add: unsched_def upd_tcb_def map_update_same identity_def)
  moreover have "clkcountdown ?s2 = clkcountdown s" by (simp add: upd_tcb_def)
  ultimately show ?thesis using sch by blast
qed

text \<open>Updates of one TCB, seen through the projections.\<close>

lemma contexts_upd:
  "c < length (tct s) \<Longrightarrow> contexts (upd_tcb c f s) = (contexts s)[c := context_of (f (tct s ! c))]"
  by (simp add: contexts_def upd_tcb_def map_update)

lemma unsched_upd:
  "c < length (tct s) \<Longrightarrow> identity (f (tct s ! c)) = identity (tct s ! c) \<Longrightarrow>
   unsched (upd_tcb c f s) = unsched s"
  by (simp add: unsched_def upd_tcb_def map_update_same)

lemma upd_tcb_fields [simp]:
  "curtcb (upd_tcb c f s) = curtcb s" "cpu (upd_tcb c f s) = cpu s" "mmu (upd_tcb c f s) = mmu s"
  "clkcountdown (upd_tcb c f s) = clkcountdown s" "clkquantum (upd_tcb c f s) = clkquantum s"
  "readyq (upd_tcb c f s) = readyq s" "length (tct (upd_tcb c f s)) = length (tct s)"
  "utimeticks (upd_tcb c f s) = utimeticks s" "ipl (upd_tcb c f s) = ipl s"
  "suspq (upd_tcb c f s) = suspq s"
  "c < length (tct s) \<Longrightarrow> tct (upd_tcb c f s) ! c = f (tct s ! c)"
  by (simp_all add: upd_tcb_def)

text \<open>The current task goes to the end of the ready queue.\<close>

definition same_but_queues :: "'d kstate \<Rightarrow> 'd kstate \<Rightarrow> bool" where
  "same_but_queues s s' \<longleftrightarrow>
     contexts s' = contexts s \<and> unsched s' = unsched s \<and> curtcb s' = curtcb s \<and> cpu s' = cpu s \<and>
     mmu s' = mmu s \<and> clkcountdown s' = clkcountdown s \<and> clkquantum s' = clkquantum s"

lemma requeue_rep:
  assumes rep: "sched_rep s c rs ss"
  shows "\<exists>s'. on_readyq (muxx_qAddTask (Some c)) (upd_tcb c (\<lambda>t. t\<lparr>status := TSK_READY\<rparr>) s) = Ret () s' \<and>
    ready_rep s' (rs @ [c]) ss \<and> same_but_queues s s'"
proof -
  let ?f = "\<lambda>t. t\<lparr>status := TSK_READY\<rparr>" and ?s = "upd_tcb c (\<lambda>t. t\<lparr>status := TSK_READY\<rparr>) s"
  from rep have c: "c < MAX_TASKS" "c \<notin> set rs" "c \<notin> set ss" "length (tct s) = MAX_TASKS"
    by (simp_all add: sched_rep_def ready_rep_def)
  have "ready_rep ?s rs ss" using rep c by (intro ready_rep_upd) (auto simp: sched_rep_def)
  from enqueue_rep [OF this c(1-3)] c obtain q ts where
    add: "on_readyq (muxx_qAddTask (Some c)) ?s = Ret () (?s\<lparr>readyq := q, tct := ts\<rparr>)" and
    rep': "ready_rep (?s\<lparr>readyq := q, tct := ts\<rparr>) (rs @ [c]) ss" and
    ul: "map unlinked ts = map unlinked (tct ?s)"
    by (auto simp: is_ready_def)
  note u = unlinked_same [OF ul]
  have "contexts ?s = contexts s" "unsched ?s = unsched s"
    using c by (simp_all add: contexts_def unsched_def upd_tcb_def map_update_same context_of_def identity_def)
  then have "same_but_queues s (?s\<lparr>readyq := q, tct := ts\<rparr>)"
    using u by (simp add: same_but_queues_def contexts_def unsched_def upd_tcb_def)
  with add rep' show ?thesis by blast
qed

text \<open>\<open>copytrapfp\<close> and \<open>copyMMUstate\<close> write the context of the current task only.\<close>

lemma save_rep:
  assumes rep: "ready_rep s rs ss" and c: "curtcb s = Some c" "c < MAX_TASKS"
    and f: "\<And>t. nextInQueue (f t) = nextInQueue t \<and> prevInQueue (f t) = prevInQueue t \<and>
      status (f t) = status t \<and> identity (f t) = identity t"
  shows "ready_rep (upd_tcb c f s) rs ss"
    and "contexts (upd_tcb c f s) = (contexts s)[c := context_of (f (tct s ! c))]"
    and "unsched (upd_tcb c f s) = unsched s"
proof -
  have "c < length (tct s)" using rep c by (simp add: ready_rep_def)
  then show "contexts (upd_tcb c f s) = (contexts s)[c := context_of (f (tct s ! c))]"
    and "unsched (upd_tcb c f s) = unsched s" using f by (simp_all add: contexts_upd unsched_upd)
  show "ready_rep (upd_tcb c f s) rs ss" using rep c f by (intro ready_rep_upd) auto
qed

lemma nth_contexts: "c < length (tct s) \<Longrightarrow> contexts s ! c = (cpuState (tct s ! c), mmuState (tct s ! c))"
  by (simp add: contexts_def context_of_def)

lemma save_context_rep:
  assumes rep: "ready_rep s rs ss" and c: "curtcb s = Some c" "c < MAX_TASKS"
  shows "\<exists>s'. copytrapfp fp frame s = Ret () s' \<and> ready_rep s' rs ss \<and> unsched s' = unsched s \<and>
      contexts s' = (contexts s)[c := (saved_context fp frame (fst (contexts s ! c)), snd (contexts s ! c))] \<and>
      curtcb s' = curtcb s \<and> cpu s' = cpu s \<and> mmu s' = mmu s \<and>
      clkcountdown s' = clkcountdown s \<and> clkquantum s' = clkquantum s"
    and "\<exists>s'. copyMMUstate s = Ret () s' \<and> ready_rep s' rs ss \<and> unsched s' = unsched s \<and>
      contexts s' = (contexts s)[c := (fst (contexts s ! c), mmu s)] \<and>
      curtcb s' = curtcb s \<and> cpu s' = cpu s \<and> mmu s' = mmu s \<and>
      clkcountdown s' = clkcountdown s \<and> clkquantum s' = clkquantum s"
proof -
  from rep c have len: "c < length (tct s)" by (simp add: ready_rep_def)
  let ?f = "\<lambda>t. t\<lparr>cpuState := saved_context fp frame (cpuState t)\<rparr>" and
    ?g = "\<lambda>t :: tcb. t\<lparr>mmuState := mmu s\<rparr>"
  have "copytrapfp fp frame s = Ret () (upd_tcb c ?f s)" using c len by (simp add: copytrapfp_def)
  with save_rep [OF rep c, of ?f] len
  show "\<exists>s'. copytrapfp fp frame s = Ret () s' \<and> ready_rep s' rs ss \<and> unsched s' = unsched s \<and>
      contexts s' = (contexts s)[c := (saved_context fp frame (fst (contexts s ! c)), snd (contexts s ! c))] \<and>
      curtcb s' = curtcb s \<and> cpu s' = cpu s \<and> mmu s' = mmu s \<and>
      clkcountdown s' = clkcountdown s \<and> clkquantum s' = clkquantum s"
    by (auto simp: identity_def nth_contexts context_of_def)
  have "copyMMUstate s = Ret () (upd_tcb c ?g s)" using c len by (simp add: copyMMUstate_def)
  with save_rep [OF rep c, of ?g] len
  show "\<exists>s'. copyMMUstate s = Ret () s' \<and> ready_rep s' rs ss \<and> unsched s' = unsched s \<and>
      contexts s' = (contexts s)[c := (fst (contexts s ! c), mmu s)] \<and>
      curtcb s' = curtcb s \<and> cpu s' = cpu s \<and> mmu s' = mmu s \<and>
      clkcountdown s' = clkcountdown s \<and> clkquantum s' = clkquantum s"
    by (auto simp: identity_def nth_contexts context_of_def)
qed

section \<open>The services refine the abstract scheduler\<close>

lemma sched_rep_cong:
  "tct s' = tct s \<Longrightarrow> readyq s' = readyq s \<Longrightarrow> suspq s' = suspq s \<Longrightarrow> curtcb s' = curtcb s \<Longrightarrow>
   sched_rep s' c rs ss = sched_rep s c rs ss"
  by (simp add: sched_rep_def ready_rep_def)

lemma unsched_clk: "unsched s' = unsched s \<Longrightarrow> clkquantum s' = clkquantum s"
  by (drule arg_cong [of _ _ clkquantum]) (simp add: unsched_def)

lemma unsched_frame [simp]:
  "unsched (s\<lparr>ipl := l\<rparr>) = unsched s" "unsched (s\<lparr>clkcountdown := n\<rparr>) = unsched s"
  "unsched (s\<lparr>utimeticks := u\<rparr>) = unsched s" "contexts (s\<lparr>ipl := l\<rparr>) = contexts s"
  "contexts (s\<lparr>clkcountdown := n\<rparr>) = contexts s" "contexts (s\<lparr>utimeticks := u\<rparr>) = contexts s"
  by (simp_all add: unsched_def contexts_def)

lemma yield_spec:
  assumes rep: "sched_rep s c rs ss"
  shows "\<exists>s'. muxx_svc_yield fp s = Stop Switched s' \<and>
    sched_rep s' (hd (rs @ [c])) (tl (rs @ [c])) ss \<and> loaded s' (hd (rs @ [c])) \<and>
    contexts s' = (contexts s)[c := (saved_context fp (syscall_frame (cpu s)) (fst (contexts s ! c)), mmu s)] \<and>
    unsched s' = unsched s \<and> clkcountdown s' = clkcountdown s"
proof -
  let ?s = "s\<lparr>ipl := 7\<rparr>"
  have rep0: "sched_rep ?s c rs ss" using rep by (simp add: sched_rep_cong [of ?s s])
  then have c: "curtcb ?s = Some c" "c < length (tct ?s)" "c < MAX_TASKS"
    by (simp_all add: sched_rep_def ready_rep_def)
  from requeue_rep [OF rep0] obtain s1 where
    s1: "on_readyq (muxx_qAddTask (Some c)) (upd_tcb c (\<lambda>t. t\<lparr>status := TSK_READY\<rparr>) ?s) = Ret () s1"
      "ready_rep s1 (rs @ [c]) ss" "same_but_queues ?s s1" by blast
  then have k1: "curtcb s1 = Some c" "cpu s1 = cpu s" "mmu s1 = mmu s" "contexts s1 = contexts s"
      "unsched s1 = unsched s" "clkcountdown s1 = clkcountdown s"
    using c by (simp_all add: same_but_queues_def)
  from save_context_rep(1) [OF s1(2) k1(1) c(3), of fp "syscall_frame (cpu s)"] obtain s2 where
    s2: "copytrapfp fp (syscall_frame (cpu s1)) s1 = Ret () s2" "ready_rep s2 (rs @ [c]) ss" "unsched s2 = unsched s"
      "contexts s2 = (contexts s)[c := (saved_context fp (syscall_frame (cpu s)) (fst (contexts s ! c)), snd (contexts s ! c))]"
      "curtcb s2 = Some c" "mmu s2 = mmu s" "clkcountdown s2 = clkcountdown s"
    using k1 by auto
  from save_context_rep(2) [OF s2(2,5) c(3)] obtain s3 where
    s3: "copyMMUstate s2 = Ret () s3" "ready_rep s3 (rs @ [c]) ss" "unsched s3 = unsched s"
      "contexts s3 = (contexts s2)[c := (fst (contexts s2 ! c), mmu s)]"
      "clkcountdown s3 = clkcountdown s"
    using s2 by auto
  have len: "c < length (contexts s)" using c by (simp add: contexts_def)
  obtain r rs' where r: "rs @ [c] = r # rs'" by (cases "rs @ [c]") auto
  from schedule_rep [of s3 r rs' ss] s3(2) r obtain s4 where
    s4: "muxx_schedule s3 = Stop Switched s4" "sched_rep s4 r rs' ss" "loaded s4 r"
      "contexts s4 = contexts s3" "unsched s4 = unsched s3" "clkcountdown s4 = clkcountdown s3"
    by auto
  have "muxx_svc_yield fp s = Stop Switched s4"
    using c s1(1) s2(1) s3(1) s4(1) by (simp add: muxx_svc_yield_def setpl_defs)
  then show ?thesis using s4 s3 s2 r len by auto
qed

text \<open>A clock tick preempts at the end of the quantum, and only when another task is ready.\<close>

lemma tick_keeps:
  assumes rep: "sched_rep s c rs ss" and n: "clkcountdown s - 1 \<noteq> 0"
  shows "\<exists>s'. muxx_clock_handler fp s = Ret () s' \<and> sched_rep s' c rs ss \<and>
    contexts s' = contexts s \<and> unsched s' = unsched s \<and> cpu s' = cpu s \<and> mmu s' = mmu s \<and>
    clkcountdown s' = clkcountdown s - 1"
proof -
  let ?s = "s\<lparr>utimeticks := utimeticks s + 1\<rparr>" and ?f = "\<lambda>t. t\<lparr>clockTicks := clockTicks t + 1\<rparr>"
  have rep0: "sched_rep ?s c rs ss" using rep by (simp add: sched_rep_cong [of ?s s])
  then have c: "curtcb ?s = Some c" "c < length (tct ?s)" "c < MAX_TASKS"
    by (simp_all add: sched_rep_def ready_rep_def)
  let ?s1 = "(upd_tcb c ?f ?s)\<lparr>clkcountdown := clkcountdown s - 1\<rparr>"
  have "muxx_clock_handler fp s = Ret () ?s1"
    using c n by (simp add: muxx_clock_handler_def muxx_check_timers_def Let_def upd_tcb_def)
  moreover have "ready_rep (upd_tcb c ?f ?s) rs ss"
    using rep0 c by (intro ready_rep_upd) (auto simp: sched_rep_def)
  then have "sched_rep ?s1 c rs ss"
    using rep0 c by (simp add: sched_rep_def ready_rep_def)
  moreover have "contexts ?s1 = contexts s" "unsched ?s1 = unsched s"
    using c by (simp_all add: contexts_upd unsched_upd identity_def context_of_def contexts_def map_update_same)
      (simp_all add: upd_tcb_def context_of_def map_update_same)
  ultimately show ?thesis by auto
qed

lemma tick_start:
  assumes rep: "sched_rep s c rs ss" and n: "clkcountdown s - 1 = 0"
  shows "\<exists>s1. muxx_clock_handler fp s = andthen (muxx_check_quantums fp s1) (\<lambda>_. muxx_check_timers) \<and>
    sched_rep s1 c rs ss \<and> contexts s1 = contexts s \<and> unsched s1 = unsched s \<and>
    cpu s1 = cpu s \<and> mmu s1 = mmu s \<and> clkcountdown s1 = clkquantum s"
proof -
  let ?s = "s\<lparr>utimeticks := utimeticks s + 1\<rparr>" and ?f = "\<lambda>t. t\<lparr>clockTicks := clockTicks t + 1\<rparr>"
  have rep0: "sched_rep ?s c rs ss" using rep by (simp add: sched_rep_cong [of ?s s])
  then have c: "curtcb ?s = Some c" "c < length (tct ?s)" "c < MAX_TASKS"
    by (simp_all add: sched_rep_def ready_rep_def)
  let ?s1 = "(upd_tcb c ?f ?s)\<lparr>clkcountdown := clkquantum s\<rparr>"
  have "muxx_clock_handler fp s = andthen (muxx_check_quantums fp ?s1) (\<lambda>_. muxx_check_timers)"
    using c n by (simp add: muxx_clock_handler_def Let_def upd_tcb_def)
  moreover have "ready_rep (upd_tcb c ?f ?s) rs ss"
    using rep0 c by (intro ready_rep_upd) (auto simp: sched_rep_def)
  then have "sched_rep ?s1 c rs ss"
    using rep0 c by (simp add: sched_rep_def ready_rep_def)
  moreover have "contexts ?s1 = contexts s" "unsched ?s1 = unsched s"
    using c by (simp_all add: contexts_upd unsched_upd identity_def context_of_def contexts_def map_update_same)
      (simp_all add: upd_tcb_def context_of_def map_update_same)
  ultimately show ?thesis by (intro exI [of _ ?s1]) auto
qed

lemma ready_count: "sched_rep s c rs ss \<Longrightarrow> count (readyq s) = int (length rs)"
  by (simp add: sched_rep_def ready_rep_def queue_of_def)

lemma tick_idle:
  assumes rep: "sched_rep s c [] ss" and n: "clkcountdown s - 1 = 0"
  shows "\<exists>s'. muxx_clock_handler fp s = Ret () s' \<and> sched_rep s' c [] ss \<and>
    contexts s' = contexts s \<and> unsched s' = unsched s \<and> cpu s' = cpu s \<and> mmu s' = mmu s \<and>
    clkcountdown s' = clkquantum s"
proof -
  from tick_start [OF rep n, of fp] obtain s1 where
    s1: "muxx_clock_handler fp s = andthen (muxx_check_quantums fp s1) (\<lambda>_. muxx_check_timers)"
      "sched_rep s1 c [] ss" "contexts s1 = contexts s" "unsched s1 = unsched s"
      "cpu s1 = cpu s" "mmu s1 = mmu s" "clkcountdown s1 = clkquantum s" by blast
  from ready_count [OF s1(2)] have "muxx_check_quantums fp s1 = Ret () s1"
    by (simp add: muxx_check_quantums_def)
  with s1 show ?thesis by (simp add: muxx_check_timers_def)
qed

lemma tick_preempts:
  assumes rep: "sched_rep s c rs ss" and n: "clkcountdown s - 1 = 0" and rs: "rs \<noteq> []"
  shows "\<exists>s'. muxx_clock_handler fp s = Stop Switched s' \<and>
    sched_rep s' (hd (rs @ [c])) (tl (rs @ [c])) ss \<and> loaded s' (hd (rs @ [c])) \<and>
    contexts s' = (contexts s)[c :=
      (saved_context fp (cpu s) (fst (contexts s ! c)), snd (contexts s ! c))] \<and>
    unsched s' = unsched s \<and> clkcountdown s' = clkquantum s"
proof -
  from tick_start [OF rep n, of fp] obtain s1 where
    s1: "muxx_clock_handler fp s = andthen (muxx_check_quantums fp s1) (\<lambda>_. muxx_check_timers)"
      "sched_rep s1 c rs ss" "contexts s1 = contexts s" "unsched s1 = unsched s"
      "cpu s1 = cpu s" "mmu s1 = mmu s" "clkcountdown s1 = clkquantum s" by blast
  let ?s1 = "s1\<lparr>ipl := 7\<rparr>"
  have rep1: "sched_rep ?s1 c rs ss" using s1(2) by (simp add: sched_rep_cong [of ?s1 s1])
  then have c: "ready_rep ?s1 rs ss" "curtcb ?s1 = Some c" "c < MAX_TASKS" "c < length (tct s)"
      "c \<notin> set rs" "c \<notin> set ss" "status (tct ?s1 ! c) = TSK_RUN"
    using rep by (simp_all add: sched_rep_def ready_rep_def)
  from c have len1: "c < length (tct ?s1)" by (simp add: ready_rep_def)
  let ?f = "\<lambda>t. t\<lparr>cpuState := saved_context fp (cpu ?s1) (cpuState t)\<rparr>"
  let ?s2 = "upd_tcb c ?f ?s1"
  have s2: "copytrapfp fp (cpu ?s1) ?s1 = Ret () ?s2" using c(2) len1 by (simp add: copytrapfp_def)
  have "ready_rep ?s2 rs ss" by (rule save_rep(1) [OF c(1-3)]) (simp add: identity_def)
  then have rep2: "sched_rep ?s2 c rs ss" using c len1 by (simp add: sched_rep_def)
  have con2: "contexts ?s2 = (contexts s)[c :=
      (saved_context fp (cpu s) (fst (contexts s ! c)), snd (contexts s ! c))]"
    using len1 s1(3,5) nth_contexts [OF len1] by (simp add: contexts_upd context_of_def)
  have un2: "unsched ?s2 = unsched s" using len1 s1(4) by (simp add: unsched_upd identity_def)
  from requeue_rep [OF rep2] obtain s3 where
    s3: "on_readyq (muxx_qAddTask (Some c)) (upd_tcb c (\<lambda>t. t\<lparr>status := TSK_READY\<rparr>) ?s2) = Ret () s3"
      "ready_rep s3 (rs @ [c]) ss" "same_but_queues ?s2 s3" by blast
  obtain r rs' where r: "rs @ [c] = r # rs'" by (cases "rs @ [c]") auto
  from schedule_rep [of s3 r rs' ss] s3(2) r obtain s4 where
    s4: "muxx_schedule s3 = Stop Switched s4" "sched_rep s4 r rs' ss" "loaded s4 r"
      "contexts s4 = contexts s3" "unsched s4 = unsched s3" "clkcountdown s4 = clkcountdown s3"
    by auto
  from ready_count [OF s1(2)] rs have "count (readyq s1) > 0" by simp
  with s2 s3(1) s4(1) c(2) len1 have "muxx_check_quantums fp s1 = Stop Switched s4"
    by (simp add: muxx_check_quantums_def muxx_yield_def setpl_defs)
  with s1 s3(3) s4 con2 un2 r show ?thesis
    by (auto simp: same_but_queues_def)
qed

text \<open>The current task suspends itself; it must not be the only one that can run.\<close>

lemma dequeue_absent:
  assumes rep: "ready_rep s rs ss" and t: "t \<notin> set rs"
  shows "on_readyq (muxx_qRemoveTask (Some t)) s = Ret None s"
  using rep t qRemoveTask_absent [of "tct s" "readyq s" rs t]
  by (simp add: on_readyq_def put_ready_def ready_rep_def)

lemma park_rep:
  assumes rep: "ready_rep s rs ss" and t: "t < MAX_TASKS" "t \<notin> set rs" "t \<notin> set ss"
  shows "\<exists>s'. on_suspq (muxx_qAddTask (Some t)) (upd_tcb t (\<lambda>t. t\<lparr>status := TSK_SUSP\<rparr>) s) = Ret () s' \<and>
    ready_rep s' rs (ss @ [t]) \<and> same_but_queues s s' \<and>
    (\<forall>i < MAX_TASKS. i \<noteq> t \<longrightarrow> status (tct s' ! i) = status (tct s ! i))"
proof -
  let ?f = "\<lambda>t. t\<lparr>status := TSK_SUSP\<rparr>" and ?s = "upd_tcb t (\<lambda>t. t\<lparr>status := TSK_SUSP\<rparr>) s"
  from rep have len: "length (tct s) = MAX_TASKS" by (simp add: ready_rep_def)
  have "ready_rep ?s rs ss" using rep t by (intro ready_rep_upd) auto
  from suspend_rep [OF this t] t len obtain q ts where
    add: "on_suspq (muxx_qAddTask (Some t)) ?s = Ret () (?s\<lparr>suspq := q, tct := ts\<rparr>)" and
    rep': "ready_rep (?s\<lparr>suspq := q, tct := ts\<rparr>) rs (ss @ [t])" and
    ul: "map unlinked ts = map unlinked (tct ?s)"
    by auto
  note u = unlinked_same [OF ul]
  have "contexts ?s = contexts s" "unsched ?s = unsched s"
    using t len by (simp_all add: contexts_def unsched_def upd_tcb_def map_update_same context_of_def identity_def)
  then have "same_but_queues s (?s\<lparr>suspq := q, tct := ts\<rparr>)"
    using u by (simp add: same_but_queues_def contexts_def unsched_def upd_tcb_def)
  moreover have "\<forall>i < MAX_TASKS. i \<noteq> t \<longrightarrow> status (ts ! i) = status (tct s ! i)"
    using u(4) len by (simp add: upd_tcb_def)
  ultimately show ?thesis using add rep' by auto
qed

lemma suspend_self_enqueued:
  assumes rep: "sched_rep s c rs ss" and task: "task = None \<or> task = Some c"
  shows "\<exists>s3. muxx_svc_suspend fp task s =
      andthen (muxx_schedule s3) (\<lambda>_ s'. Ret EOK (setpl (ipl s) s')) \<and>
    ready_rep s3 rs (ss @ [c]) \<and> unsched s3 = unsched s \<and>
    contexts s3 = (contexts s)[c := (saved_context fp (syscall_frame (cpu s)) (fst (contexts s ! c)), mmu s)] \<and>
    clkcountdown s3 = clkcountdown s"
proof -
  let ?s = "s\<lparr>ipl := 7\<rparr>"
  have rep0: "ready_rep ?s rs ss" using rep by (simp add: sched_rep_def ready_rep_cong [of ?s s])
  from rep have c: "curtcb ?s = Some c" "c < length (tct ?s)" "c < MAX_TASKS" "c \<notin> set rs" "c \<notin> set ss"
    by (simp_all add: sched_rep_def ready_rep_def)
  note r1 = dequeue_absent [OF rep0 c(4)]
  from park_rep [OF rep0 c(3,4,5)] obtain s1 where
    s1: "on_suspq (muxx_qAddTask (Some c)) (upd_tcb c (\<lambda>t. t\<lparr>status := TSK_SUSP\<rparr>) ?s) = Ret () s1"
      "ready_rep s1 rs (ss @ [c])" "same_but_queues ?s s1" by blast
  then have k1: "curtcb s1 = Some c" "cpu s1 = cpu s" "mmu s1 = mmu s" "contexts s1 = contexts s"
      "unsched s1 = unsched s" "clkcountdown s1 = clkcountdown s"
    using c by (simp_all add: same_but_queues_def)
  from save_context_rep(1) [OF s1(2) k1(1) c(3), of fp "syscall_frame (cpu s)"] obtain s2 where
    s2: "copytrapfp fp (syscall_frame (cpu s1)) s1 = Ret () s2" "ready_rep s2 rs (ss @ [c])" "unsched s2 = unsched s"
      "contexts s2 = (contexts s)[c := (saved_context fp (syscall_frame (cpu s)) (fst (contexts s ! c)), snd (contexts s ! c))]"
      "curtcb s2 = Some c" "mmu s2 = mmu s" "clkcountdown s2 = clkcountdown s"
    using k1 by auto
  from save_context_rep(2) [OF s2(2,5) c(3)] obtain s3 where
    s3: "copyMMUstate s2 = Ret () s3" "ready_rep s3 rs (ss @ [c])" "unsched s3 = unsched s"
      "contexts s3 = (contexts s2)[c := (fst (contexts s2 ! c), mmu s)]"
      "clkcountdown s3 = clkcountdown s"
    using s2 by auto
  have len: "c < length (contexts s)" using c by (simp add: contexts_def)
  have "(if task = None then curtcb s else task) = Some c" using task c by auto
  then have "muxx_svc_suspend fp task s = andthen (muxx_schedule s3) (\<lambda>_ s'. Ret EOK (setpl (ipl s) s'))"
    using c r1 s1(1) s2(1) s3(1) k1(1) by (simp add: muxx_svc_suspend_def setpl7_def Let_def)
  with s3 s2 len show ?thesis by auto
qed

lemma suspend_self_spec:
  assumes rep: "sched_rep s c (r # rs) ss" and task: "task = None \<or> task = Some c"
  shows "\<exists>s'. muxx_svc_suspend fp task s = Stop Switched s' \<and> sched_rep s' r rs (ss @ [c]) \<and>
    loaded s' r \<and> unsched s' = unsched s \<and> clkcountdown s' = clkcountdown s \<and>
    contexts s' = (contexts s)[c := (saved_context fp (syscall_frame (cpu s)) (fst (contexts s ! c)), mmu s)]"
proof -
  from suspend_self_enqueued [OF assms, of fp] obtain s3 where
    s3: "muxx_svc_suspend fp task s = andthen (muxx_schedule s3) (\<lambda>_ s'. Ret EOK (setpl (ipl s) s'))"
      "ready_rep s3 (r # rs) (ss @ [c])" "unsched s3 = unsched s"
      "contexts s3 = (contexts s)[c := (saved_context fp (syscall_frame (cpu s)) (fst (contexts s ! c)), mmu s)]"
      "clkcountdown s3 = clkcountdown s" by blast
  from schedule_rep [OF s3(2)] obtain s4 where
    "muxx_schedule s3 = Stop Switched s4" "sched_rep s4 r rs (ss @ [c])" "loaded s4 r"
    "contexts s4 = contexts s3" "unsched s4 = unsched s3" "clkcountdown s4 = clkcountdown s3" by blast
  with s3 show ?thesis by auto
qed

lemma schedule_empty:
  "ready_rep s [] ss \<Longrightarrow> \<exists>s'. muxx_schedule s = Stop (Fault NullDeref) s'"
  by (simp add: muxx_schedule_def setpl_defs on_readyq_def muxx_qGetTask_def ready_rep_def)

lemma suspend_last_spec:
  assumes rep: "sched_rep s c [] ss" and task: "task = None \<or> task = Some c"
  shows "\<exists>s'. muxx_svc_suspend fp task s = Stop (Fault NullDeref) s'"
proof -
  from suspend_self_enqueued [OF assms, of fp] obtain s3 where
    s3: "muxx_svc_suspend fp task s = andthen (muxx_schedule s3) (\<lambda>_ s'. Ret EOK (setpl (ipl s) s'))"
      "ready_rep s3 [] (ss @ [c])" by blast
  from schedule_empty [OF s3(2)] s3(1) show ?thesis by auto
qed

text \<open>Suspending another task: who may, and what happens to the ready queue.\<close>

definition may_suspend :: "'d kstate \<Rightarrow> nat \<Rightarrow> nat \<Rightarrow> bool" where
  "may_suspend s c t \<longleftrightarrow> operprv (tct s ! c) \<or> uic (tct s ! c) = uic (tct s ! t)"

lemma suspend_denied:
  assumes "curtcb s = Some c" and "c < length (tct s)" and "t < length (tct s)"
    and "\<not> may_suspend s c t"
  shows "muxx_svc_suspend fp (Some t) s = Ret ENOPRIV s"
  using assms by (simp add: muxx_svc_suspend_def may_suspend_def)

lemma dequeue_first_rep:
  assumes rep: "ready_rep s (r # rs) ss"
  shows "\<exists>q ts. on_readyq (muxx_qRemoveTask (Some r)) s = Ret (Some r) (s\<lparr>readyq := q, tct := ts\<rparr>) \<and>
    ready_rep (s\<lparr>readyq := q, tct := ts\<rparr>) rs ss \<and> map unlinked ts = map unlinked (tct s)"
proof -
  from rep have len: "length (tct s) = MAX_TASKS" and rq: "queue_of (tct s) (readyq s) (r # rs)"
    and sq: "queue_of (tct s) (suspq s) ss" by (simp_all add: ready_rep_def)
  from qRemoveTask_first [OF rq] obtain q ts where
    rem: "muxx_qRemoveTask (Some r) (readyq s, tct s) = Ret (Some r) (q, ts)" "queue_of ts q rs"
      "map unlinked ts = map unlinked (tct s)" and
    same: "\<forall>i < length (tct s). i \<notin> set (r # rs) \<longrightarrow> ts ! i = tct s ! i"
    by auto
  note u = unlinked_same [OF rem(3)]
  have "ts ! x = tct s ! x" if "x \<in> set ss" for x
    using that same rep queue_of_bound [OF sq that] by (auto simp: ready_rep_def)
  then have "queue_of ts (suspq s) ss" by (intro queue_of_cong [OF sq u(1)]) simp
  moreover have "\<forall>r \<in> set rs. is_ready (ts ! r)" "\<forall>x \<in> set ss. status (ts ! x) = TSK_SUSP"
    using rep len u(4) ready_rep_bound [OF rep] by (auto simp: ready_rep_def is_ready_def)
  ultimately have "ready_rep (s\<lparr>readyq := q, tct := ts\<rparr>) rs ss"
    using rep rem u(1) by (auto simp: ready_rep_def)
  with rem on_readyq_Ret [where f = "muxx_qRemoveTask (Some r)", OF rem(1)] show ?thesis by blast
qed

lemma suspend_first_spec:
  assumes rep: "sched_rep s c (r # rs) ss" and may: "may_suspend s c r"
  shows "\<exists>s'. muxx_svc_suspend fp (Some r) s = Ret EOK s' \<and> sched_rep s' c rs (ss @ [r]) \<and>
    contexts s' = contexts s \<and> unsched s' = unsched s \<and> cpu s' = cpu s \<and> mmu s' = mmu s"
proof -
  let ?s = "s\<lparr>ipl := 7\<rparr>"
  have rep0: "ready_rep ?s (r # rs) ss" using rep by (simp add: sched_rep_def ready_rep_cong [of ?s s])
  from rep have c: "curtcb s = Some c" "c < length (tct s)" "c < MAX_TASKS" "c \<noteq> r"
      "c \<notin> set rs" "c \<notin> set ss" "status (tct s ! c) = TSK_RUN" "length (tct s) = MAX_TASKS"
    by (auto simp: sched_rep_def ready_rep_def)
  from rep0 have r: "r < MAX_TASKS" "r \<notin> set rs" "r \<notin> set ss"
    using ready_rep_bound [OF rep0, of r] by (auto simp: ready_rep_def)
  from dequeue_first_rep [OF rep0] obtain q ts where
    d: "on_readyq (muxx_qRemoveTask (Some r)) ?s = Ret (Some r) (?s\<lparr>readyq := q, tct := ts\<rparr>)"
      "ready_rep (?s\<lparr>readyq := q, tct := ts\<rparr>) rs ss" "map unlinked ts = map unlinked (tct s)" by auto
  note u = unlinked_same [OF d(3)]
  let ?s1 = "?s\<lparr>readyq := q, tct := ts\<rparr>"
  have same1: "same_but_queues s ?s1"
    using u by (simp add: same_but_queues_def contexts_def unsched_def)
  from park_rep [OF d(2) r] obtain s2 where
    s2: "on_suspq (muxx_qAddTask (Some r)) (upd_tcb r (\<lambda>t. t\<lparr>status := TSK_SUSP\<rparr>) ?s1) = Ret () s2"
      "ready_rep s2 rs (ss @ [r])" "same_but_queues ?s1 s2"
      "\<forall>i < MAX_TASKS. i \<noteq> r \<longrightarrow> status (tct s2 ! i) = status (ts ! i)" by auto
  let ?s3 = "setpl (ipl s) s2"
  have cur2: "curtcb s2 = Some c" using s2(3) c(1) by (simp add: same_but_queues_def)
  have "muxx_svc_suspend fp (Some r) s = Ret EOK ?s3"
    using c r d(1) s2(1) cur2 may by (simp add: muxx_svc_suspend_def setpl7_def Let_def may_suspend_def)
  moreover have "sched_rep ?s3 c rs (ss @ [r])"
    using s2 c cur2 u(4) by (simp add: sched_rep_def setpl_def ready_rep_def)
  moreover have "same_but_queues s ?s3"
    using same1 s2(3) by (simp add: same_but_queues_def setpl_def)
  ultimately show ?thesis by (auto simp: same_but_queues_def)
qed

text \<open>
  A task that is not the first of the ready queue: afterwards it is in the suspended queue and
  marked suspended, but it is still reached from the ready queue, as its last element, and the tasks
  behind it are not.
\<close>

lemma fwd_chain_cong:
  assumes "fwd_chain ts xs p" and "length ts' = length ts"
    and "\<And>x. x \<in> set xs \<Longrightarrow> nextInQueue (ts' ! x) = nextInQueue (ts ! x)"
  shows "fwd_chain ts' xs p"
  using assms by (induction xs arbitrary: p) auto

lemma suspend_later_spec:
  assumes rep: "sched_rep s c (xs @ t # ys) ss" and xs: "xs \<noteq> []" and may: "may_suspend s c t"
  shows "\<exists>s'. muxx_svc_suspend fp (Some t) s = Ret EOK s' \<and>
    fwd_chain (tct s') (xs @ [t]) (head (readyq s')) \<and> status (tct s' ! t) = TSK_SUSP \<and>
    count (readyq s') = int (length (xs @ ys)) \<and> queue_of (tct s') (suspq s') (ss @ [t])"
proof -
  let ?s = "s\<lparr>ipl := 7\<rparr>"
  from rep have c: "curtcb s = Some c" "c < length (tct s)" "length (tct s) = MAX_TASKS" "c \<noteq> t"
      "queue_of (tct s) (readyq s) (xs @ t # ys)" "queue_of (tct s) (suspq s) ss"
      "distinct ((xs @ t # ys) @ ss)"
    by (auto simp: sched_rep_def ready_rep_def)
  have t: "t < length (tct s)" using queue_of_bound [OF c(5)] by simp
  from qRemoveTask_later [OF c(5) xs] obtain q ts where
    rem: "muxx_qRemoveTask (Some t) (readyq s, tct s) = Ret (Some t) (q, ts)"
      "count q = count (readyq s) - 1" "fwd_chain ts (xs @ [t]) (head q)" "length ts = length (tct s)" and
    same: "\<forall>i < length (tct s). i \<notin> set (xs @ t # ys) \<longrightarrow> ts ! i = tct s ! i"
    by auto
  let ?s1 = "s\<lparr>ipl := 7, readyq := q, tct := ts\<rparr>"
  have r1: "on_readyq (muxx_qRemoveTask (Some t)) ?s = Ret (Some t) ?s1"
    using rem(1) by (simp add: on_readyq_def put_ready_def)
  let ?ts = "ts[t := (ts ! t)\<lparr>status := TSK_SUSP\<rparr>]"
  have sq: "queue_of ?ts (suspq s) ss"
  proof (rule queue_of_cong [OF c(6)])
    fix x assume "x \<in> set ss"
    then have "x < length (tct s)" "x \<notin> set (xs @ t # ys)" "t \<noteq> x"
      using c(7) queue_of_bound [OF c(6)] by auto
    then have "?ts ! x = tct s ! x" using same by simp
    then show "nextInQueue (?ts ! x) = nextInQueue (tct s ! x) \<and>
      prevInQueue (?ts ! x) = prevInQueue (tct s ! x)" by simp
  qed (simp add: rem(4))
  have "t \<notin> set ss" "t < length ?ts" using c(7) t rem(4) by auto
  from qAddTask_links [OF sq this(2,1)] obtain q2 ts2 where
    add: "muxx_qAddTask (Some t) (suspq s, ?ts) = Ret () (q2, ts2)" "queue_of ts2 q2 (ss @ [t])"
      "length ts2 = length ?ts" "map unlinked ts2 = map unlinked ?ts" and
    same2: "\<forall>i < length ?ts. i \<noteq> t \<and> i \<notin> set ss \<longrightarrow> ts2 ! i = ?ts ! i" by blast
  let ?s2 = "?s1\<lparr>suspq := q2, tct := ts2\<rparr>"
  have r2: "on_suspq (muxx_qAddTask (Some t)) (upd_tcb t (\<lambda>t. t\<lparr>status := TSK_SUSP\<rparr>) ?s1) = Ret () ?s2"
    using add(1) by (simp add: on_suspq_def put_susp_def upd_tcb_def)
  have end_t: "nextInQueue (ts2 ! t) = None" using add(2) by (rule queue_of_last)
  have ch: "fwd_chain ts2 (xs @ [t]) (head q)"
  proof (rule fwd_chain_cong [OF rem(3)])
    fix x assume x: "x \<in> set (xs @ [t])"
    show "nextInQueue (ts2 ! x) = nextInQueue (ts ! x)"
    proof (cases "x = t")
      case True
      then show ?thesis using end_t fwd_chain_last [OF rem(3)] by simp
    next
      case False
      with x have "x < length ?ts" "x \<notin> set ss" using fwd_chain_bound [OF rem(3) x] c(7) by auto
      with False same2 show ?thesis by simp
    qed
  qed (simp add: add(3))
  have "status (ts2 ! t) = status (?ts ! t)"
    using arg_cong [OF add(4), of "\<lambda>l. status (l ! t)"] t rem(4) add(3) by (simp add: unlinked_def)
  then have st: "status (ts2 ! t) = TSK_SUSP" using t rem(4) by simp
  have cnt: "count q = int (length (xs @ ys))" using c(5) rem(2) by (simp add: queue_of_def)
  have "muxx_svc_suspend fp (Some t) s = Ret EOK (setpl (ipl s) ?s2)"
    using c t r1 r2 may by (simp add: muxx_svc_suspend_def setpl7_def Let_def may_suspend_def)
  with ch st cnt add(2) show ?thesis by (simp add: setpl_def)
qed

section \<open>The scheduler as a step relation\<close>

text \<open>
  One step of the system as the scheduler sees it: the running task computes, the clock ticks, the
  task yields or suspends itself, or suspends the task at the head of the ready queue. (Suspending
  a task further back breaks the queue, see \<open>suspend_later_spec\<close>.)
\<close>

inductive sched_step :: "'d kstate \<Rightarrow> 'd kstate \<Rightarrow> bool" where
  computes: "sched_step s (s\<lparr>cpu := regs\<rparr>)"
| tick: "muxx_clock_handler fp s = Ret () s' \<Longrightarrow> sched_step s s'"
| tick_switch: "muxx_clock_handler fp s = Stop Switched s' \<Longrightarrow> sched_step s s'"
| yields: "muxx_svc_yield fp s = Stop Switched s' \<Longrightarrow> sched_step s s'"
| suspends: "muxx_svc_suspend fp None s = Stop Switched s' \<Longrightarrow> sched_step s s'"
| suspends_first: "head (readyq s) = Some t \<Longrightarrow> muxx_svc_suspend fp (Some t) s = Ret rc s' \<Longrightarrow>
    sched_step s s'"

text \<open>What every step guarantees: no task is lost or duplicated, none leaves the suspended queue, no context is touched but the
  running task's, and a task that starts to run finds the context its TCB holds.\<close>

definition step_ok :: "'d kstate \<Rightarrow> nat \<Rightarrow> nat list \<Rightarrow> nat list \<Rightarrow> 'd kstate \<Rightarrow> bool" where
  "step_ok s c rs ss s' \<longleftrightarrow>
     (\<exists>c' rs' ss'. sched_rep s' c' rs' ss' \<and>
        insert c' (set rs' \<union> set ss') = insert c (set rs \<union> set ss) \<and> set ss \<subseteq> set ss' \<and>
        (c' \<noteq> c \<longrightarrow> loaded s' c')) \<and>
     unsched s' = unsched s \<and> (\<forall>i < MAX_TASKS. i \<noteq> c \<longrightarrow> contexts s' ! i = contexts s ! i)"

lemma step_okI:
  "sched_rep s' c' rs' ss' \<Longrightarrow> insert c' (set rs' \<union> set ss') = insert c (set rs \<union> set ss) \<Longrightarrow>
   set ss \<subseteq> set ss' \<Longrightarrow> loaded s' c' \<or> c' = c \<Longrightarrow>
   unsched s' = unsched s \<Longrightarrow> contexts s' = contexts s \<or> (\<exists>x. contexts s' = (contexts s)[c := x]) \<Longrightarrow>
   step_ok s c rs ss s'"
  unfolding step_ok_def by auto

lemma rotate_set: "insert (hd (rs @ [c])) (set (tl (rs @ [c])) \<union> A) = insert c (set rs \<union> A)"
  by (cases rs) auto

lemma sched_rep_computes: "sched_rep s c rs ss \<Longrightarrow> sched_rep (s\<lparr>cpu := regs\<rparr>) c rs ss"
  by (simp add: sched_rep_cong [of "s\<lparr>cpu := regs\<rparr>" s])

lemma tick_result:
  assumes rep: "sched_rep s c rs ss"
    and r: "muxx_clock_handler fp s = Ret () s' \<or> muxx_clock_handler fp s = Stop Switched s'"
  shows "step_ok s c rs ss s'"
proof (cases "clkcountdown s - 1 = 0")
  case False
  from tick_keeps [OF rep this, of fp] r obtain "sched_rep s' c rs ss" "contexts s' = contexts s"
    "unsched s' = unsched s" by auto
  then show ?thesis by (intro step_okI) auto
next
  case True
  show ?thesis
  proof (cases rs)
    case Nil
    from tick_idle [OF _ True, of c ss fp] rep Nil r obtain "sched_rep s' c rs ss"
      "contexts s' = contexts s" "unsched s' = unsched s" by auto
    then show ?thesis by (intro step_okI) auto
  next
    case (Cons x xs)
    from tick_preempts [OF rep True, of fp] Cons r
    obtain "sched_rep s' (hd (rs @ [c])) (tl (rs @ [c])) ss" "loaded s' (hd (rs @ [c]))"
      "contexts s' = (contexts s)[c :=
        (saved_context fp (cpu s) (fst (contexts s ! c)), snd (contexts s ! c))]"
      "unsched s' = unsched s" by auto
    then show ?thesis using rotate_set [of rs c "set ss"]
      by (intro step_okI [of s' "hd (rs @ [c])" "tl (rs @ [c])" ss]) auto
  qed
qed

lemma sched_step_ok:
  assumes "sched_step s s'" and rep: "sched_rep s c rs ss"
  shows "step_ok s c rs ss s'"
  using assms(1)
proof cases
  case (computes regs)
  with sched_rep_computes [OF rep] show ?thesis
    by (intro step_okI) (auto simp: unsched_def contexts_def)
next
  case (tick fp)
  with tick_result [OF rep] show ?thesis by blast
next
  case (tick_switch fp)
  with tick_result [OF rep] show ?thesis by blast
next
  case (yields fp)
  with yield_spec [OF rep, of fp] obtain
    "sched_rep s' (hd (rs @ [c])) (tl (rs @ [c])) ss" "loaded s' (hd (rs @ [c]))"
    "contexts s' = (contexts s)[c := (saved_context fp (syscall_frame (cpu s)) (fst (contexts s ! c)), mmu s)]"
    "unsched s' = unsched s" by auto
  then show ?thesis using rotate_set [of rs c "set ss"]
      by (intro step_okI [of s' "hd (rs @ [c])" "tl (rs @ [c])" ss]) auto
next
  case (suspends fp)
  show ?thesis
  proof (cases rs)
    case Nil
    with suspend_last_spec [of s c ss None fp] rep suspends show ?thesis by auto
  next
    case (Cons r rs')
    with suspend_self_spec [of s c r rs' ss None fp] rep suspends obtain
      "sched_rep s' r rs' (ss @ [c])" "loaded s' r" "unsched s' = unsched s"
      "contexts s' = (contexts s)[c := (saved_context fp (syscall_frame (cpu s)) (fst (contexts s ! c)), mmu s)]"
      by auto
    then show ?thesis using Cons by (intro step_okI) auto
  qed
next
  case (suspends_first t fp rc)
  from rep suspends_first(1) obtain rs' where rs: "rs = t # rs'"
    by (cases rs) (auto simp: sched_rep_def ready_rep_def queue_of_def)
  have bounds: "curtcb s = Some c" "c < length (tct s)" "t < length (tct s)"
    using rep rs ready_rep_bound [of s rs ss t] by (auto simp: sched_rep_def ready_rep_def)
  show ?thesis
  proof (cases "may_suspend s c t")
    case True
    with suspend_first_spec [of s c t rs' ss fp] rep rs suspends_first obtain
      "sched_rep s' c rs' (ss @ [t])" "contexts s' = contexts s" "unsched s' = unsched s" by auto
    then show ?thesis using rs by (intro step_okI) auto
  next
    case False
    with suspend_denied [OF bounds, of fp] suspends_first rep have "s' = s" by simp
    with rep show ?thesis by (intro step_okI) auto
  qed
qed

lemma sched_steps_ok:
  assumes "sched_step\<^sup>*\<^sup>* s s'" and "sched_rep s c rs ss"
  shows "\<exists>c' rs' ss'. sched_rep s' c' rs' ss' \<and>
    insert c' (set rs' \<union> set ss') = insert c (set rs \<union> set ss) \<and> set ss \<subseteq> set ss' \<and>
    unsched s' = unsched s"
  using assms
proof (induction rule: rtranclp_induct)
  case base
  then show ?case by blast
next
  case (step s1 s2)
  then obtain c1 rs1 ss1 where "sched_rep s1 c1 rs1 ss1"
    "insert c1 (set rs1 \<union> set ss1) = insert c (set rs \<union> set ss)" "set ss \<subseteq> set ss1"
    "unsched s1 = unsched s" by blast
  with sched_step_ok [OF step.hyps(2)] show ?case unfolding step_ok_def by (metis subset_trans)
qed

text \<open>Steps during which a given task does not run.\<close>

definition step_off :: "nat \<Rightarrow> 'd kstate \<Rightarrow> 'd kstate \<Rightarrow> bool" where
  "step_off t s s' \<longleftrightarrow> sched_step s s' \<and> curtcb s \<noteq> Some t \<and> curtcb s' \<noteq> Some t"

lemma off_keeps_context:
  assumes "(step_off t)\<^sup>*\<^sup>* s s'" and "sched_rep s c rs ss" and t: "t < MAX_TASKS"
  shows "contexts s' ! t = contexts s ! t \<and> (\<exists>c' rs' ss'. sched_rep s' c' rs' ss')"
  using assms(1,2)
proof (induction rule: rtranclp_induct)
  case base
  then show ?case by blast
next
  case (step s1 s2)
  then obtain c1 rs1 ss1 where r1: "sched_rep s1 c1 rs1 ss1" and
    c1: "contexts s1 ! t = contexts s ! t" by blast
  from step.hyps(2) r1 have "sched_step s1 s2" "c1 \<noteq> t" by (auto simp: step_off_def sched_rep_def)
  with sched_step_ok [OF _ r1, of s2] c1 t show ?case by (auto simp: step_ok_def)
qed

lemma resume_context:
  assumes "(step_off t)\<^sup>*\<^sup>* s s'" and "sched_rep s c rs ss" and t: "t < MAX_TASKS"
    and off: "curtcb s' \<noteq> Some t" and on: "sched_step s' s''" "curtcb s'' = Some t"
  shows "(cpu s'', mmu s'') = contexts s ! t"
proof -
  from off_keeps_context [OF assms(1-3)] obtain c' rs' ss' where
    r: "sched_rep s' c' rs' ss'" and k: "contexts s' ! t = contexts s ! t" by blast
  from off r have c': "c' \<noteq> t" by (auto simp: sched_rep_def)
  from sched_step_ok [OF on(1) r] obtain c2 rs2 ss2 where
    r2: "sched_rep s'' c2 rs2 ss2" and l: "c2 \<noteq> c' \<longrightarrow> loaded s'' c2" and
    k2: "\<forall>i < MAX_TASKS. i \<noteq> c' \<longrightarrow> contexts s'' ! i = contexts s' ! i"
    unfolding step_ok_def by blast
  from r2 on(2) have "c2 = t" "t < length (tct s'')" using t by (auto simp: sched_rep_def ready_rep_def)
  with l c' have "(cpu s'', mmu s'') = contexts s'' ! t" by (auto simp: loaded_def contexts_def)
  with k k2 c' t show ?thesis by simp
qed

text \<open>What a task that gives up the processor, at a tick or by yielding, leaves in its TCB.\<close>

definition lets_go :: "bool \<Rightarrow> u16 \<Rightarrow> 'd kstate \<Rightarrow> 'd kstate \<Rightarrow> bool" where
  "lets_go preempted fp s s1 \<longleftrightarrow>
     (if preempted then muxx_clock_handler fp s = Stop Switched s1 else muxx_svc_yield fp s = Stop Switched s1)"

lemma lets_go_context:
  assumes rep: "sched_rep s t rs ss" and go: "lets_go preempted fp s s1"
  shows "sched_rep s1 (hd (rs @ [t])) (tl (rs @ [t])) ss"
    and "contexts s1 ! t = (saved_context fp (if preempted then cpu s else syscall_frame (cpu s)) (cpuState (tct s ! t)),
      if preempted then mmuState (tct s ! t) else mmu s)"
proof -
  from rep have t: "t < length (tct s)" "t < length (contexts s)"
    by (simp_all add: sched_rep_def ready_rep_def contexts_def)
  have "sched_rep s1 (hd (rs @ [t])) (tl (rs @ [t])) ss \<and> contexts s1 = (contexts s)[t :=
    (saved_context fp (if preempted then cpu s else syscall_frame (cpu s)) (fst (contexts s ! t)),
      if preempted then snd (contexts s ! t) else mmu s)]"
  proof (cases preempted)
    case True
    with go have tick: "muxx_clock_handler fp s = Stop Switched s1" by (simp add: lets_go_def)
    have n: "clkcountdown s - 1 = 0"
    proof (rule ccontr)
      assume "clkcountdown s - 1 \<noteq> 0"
      from tick_keeps [OF rep this, of fp] tick show False by auto
    qed
    have rs: "rs \<noteq> []"
      using tick_idle [OF _ n, of t ss fp] rep tick by (cases rs) auto
    from tick_preempts [OF rep n rs, of fp] tick True show ?thesis by auto
  next
    case False
    with go yield_spec [OF rep, of fp] show ?thesis by (auto simp: lets_go_def)
  qed
  with t show "sched_rep s1 (hd (rs @ [t])) (tl (rs @ [t])) ss"
    "contexts s1 ! t = (saved_context fp (if preempted then cpu s else syscall_frame (cpu s)) (cpuState (tct s ! t)),
      if preempted then mmuState (tct s ! t) else mmu s)"
    by (simp_all add: nth_contexts)
qed

section \<open>Round robin\<close>

text \<open>The running task computes up to the given registers, and yields or is interrupted.\<close>

fun run_yields :: "(u16 \<times> cpustate) list \<Rightarrow> 'd kstate \<Rightarrow> 'd kstate" where
  "run_yields [] s = s"
| "run_yields ((fp, regs) # es) s =
     run_yields es (final_state (muxx_svc_yield fp (s\<lparr>cpu := regs\<rparr>)))"

fun run_ticks :: "(u16 \<times> cpustate) list \<Rightarrow> 'd kstate \<Rightarrow> 'd kstate" where
  "run_ticks [] s = s"
| "run_ticks ((fp, regs) # es) s =
     run_ticks es (final_state (muxx_clock_handler fp (s\<lparr>cpu := regs\<rparr>)))"

definition sched_order :: "'d kstate \<Rightarrow> nat list \<Rightarrow> nat list \<Rightarrow> bool" where
  "sched_order s xs ss \<longleftrightarrow> xs \<noteq> [] \<and> sched_rep s (hd xs) (tl xs) ss"

lemma sched_order_rotate1:
  "xs \<noteq> [] \<Longrightarrow> sched_rep s (hd (tl xs @ [hd xs])) (tl (tl xs @ [hd xs])) ss \<longleftrightarrow>
   sched_order s (rotate1 xs) ss"
  by (cases xs) (auto simp: sched_order_def)

lemma yield_rotates:
  assumes "sched_order s xs ss"
  shows "\<exists>s'. muxx_svc_yield fp s = Stop Switched s' \<and> sched_order s' (rotate1 xs) ss"
  using assms yield_spec [of s "hd xs" "tl xs" ss fp] sched_order_rotate1 [of xs]
  by (auto simp: sched_order_def)

lemma sched_order_computes: "sched_order s xs ss \<Longrightarrow> sched_order (s\<lparr>cpu := regs\<rparr>) xs ss"
  by (simp add: sched_order_def sched_rep_computes)

lemma run_yields_rotate:
  "sched_order s xs ss \<Longrightarrow> sched_order (run_yields es s) (rotate (length es) xs) ss"
proof (induction es arbitrary: s xs)
  case Nil
  then show ?case by simp
next
  case (Cons e es)
  obtain fp regs where e: "e = (fp, regs)" by (cases e)
  from yield_rotates [OF sched_order_computes [OF Cons.prems], of fp regs] obtain s' where
    "muxx_svc_yield fp (s\<lparr>cpu := regs\<rparr>) = Stop Switched s'" "sched_order s' (rotate1 xs) ss" by blast
  with Cons.IH [of s' "rotate1 xs"] show ?case by (simp add: e rotate1_rotate_swap)
qed

lemma tick_order:
  assumes ord: "sched_order s xs ss" and q: "unat (clkquantum s) = Q" and j: "j < Q"
    and cd: "unat (clkcountdown s) = Q - j"
  shows "\<exists>r s'. (muxx_clock_handler fp s = Ret () s' \<or> muxx_clock_handler fp s = Stop Switched s') \<and>
    unat (clkquantum s') = Q \<and> unat (clkcountdown s') = Q - (Suc j mod Q) \<and>
    sched_order s' (if Suc j = Q then rotate1 xs else xs) ss"
proof (cases "Suc j = Q")
  case True
  with cd have one: "clkcountdown s = 1" by (simp add: word_unat_eq_iff)
  from ord have xs: "xs \<noteq> []" and rep: "sched_rep s (hd xs) (tl xs) ss"
    by (simp_all add: sched_order_def)
  show ?thesis
  proof (cases "tl xs = []")
    case True
    with rep have "sched_rep s (hd xs) [] ss" by simp
    from tick_idle [OF this, of fp] one obtain s' where
      s': "muxx_clock_handler fp s = Ret () s'" "sched_rep s' (hd xs) [] ss" "unsched s' = unsched s"
        "clkcountdown s' = clkquantum s" by auto
    from True xs have "rotate1 xs = xs" by (cases xs) auto
    with s' xs True q \<open>Suc j = Q\<close> unsched_clk [OF s'(3)] show ?thesis
      by (auto simp: sched_order_def)
  next
    case False
    from tick_preempts [OF rep _ False, of fp] one obtain s' where
      s': "muxx_clock_handler fp s = Stop Switched s'" "sched_order s' (rotate1 xs) ss"
        "unsched s' = unsched s" "clkcountdown s' = clkquantum s"
      using sched_order_rotate1 [OF xs] by auto
    with q \<open>Suc j = Q\<close> unsched_clk [OF s'(3)] show ?thesis by auto
  qed
next
  case False
  with j cd have big: "unat (clkcountdown s) > 1" by simp
  then have "clkcountdown s \<noteq> 0" by auto
  then have m: "unat (clkcountdown s - 1) = Q - Suc j"
    using cd unat_minus_one [of "clkcountdown s"] by simp
  with big cd have n: "clkcountdown s - 1 \<noteq> 0" by auto
  from ord have xs: "xs \<noteq> []" and rep: "sched_rep s (hd xs) (tl xs) ss"
    by (simp_all add: sched_order_def)
  from tick_keeps [OF rep n, of fp] obtain s' where
    s': "muxx_clock_handler fp s = Ret () s'" "sched_rep s' (hd xs) (tl xs) ss"
      "unsched s' = unsched s" "clkcountdown s' = clkcountdown s - 1" by blast
  with False j q m xs unsched_clk [OF s'(3)] show ?thesis by (auto simp: sched_order_def)
qed

lemma run_ticks_order:
  "sched_order s xs ss \<Longrightarrow> unat (clkquantum s) = Q \<Longrightarrow> j < Q \<Longrightarrow> unat (clkcountdown s) = Q - j \<Longrightarrow>
   sched_order (run_ticks es s) (rotate ((j + length es) div Q) xs) ss"
proof (induction es arbitrary: s xs j)
  case Nil
  then show ?case by simp
next
  case (Cons e es)
  obtain fp regs where e: "e = (fp, regs)" by (cases e)
  let ?s = "s\<lparr>cpu := regs\<rparr>"
  from tick_order [OF sched_order_computes [OF Cons.prems(1)], of regs Q j fp] Cons.prems
  obtain r s' where
    s': "final_state (muxx_clock_handler fp ?s) = s'" "unat (clkquantum s') = Q"
      "unat (clkcountdown s') = Q - (Suc j mod Q)"
      "sched_order s' (if Suc j = Q then rotate1 xs else xs) ss" by auto
  have "Suc j mod Q < Q" using Cons.prems(3) by simp
  from Cons.IH [OF s'(4,2) this s'(3)] s'(1) show ?case
  proof (cases "Suc j = Q")
    case True
    then have "j + length (e # es) = length es + Q" and "0 < Q" by simp_all
    then have "(j + length (e # es)) div Q = Suc (length es div Q)"
      by (simp only:) (simp add: div_add_self2)
    moreover from True have "Suc j mod Q = 0" by simp
    ultimately show ?thesis
      using Cons.IH [OF s'(4,2) \<open>Suc j mod Q < Q\<close> s'(3)] s'(1) True
      by (simp add: e rotate1_rotate_swap)
  next
    case False
    with Cons.prems(3) have "Suc j mod Q = Suc j" by simp
    with Cons.IH [OF s'(4,2) \<open>Suc j mod Q < Q\<close> s'(3)] s'(1) False show ?thesis
      by (simp add: e)
  qed
qed

lemma sched_order_current: "sched_order s xs ss \<Longrightarrow> curtcb s = Some (hd xs)"
  by (simp add: sched_order_def sched_rep_def)

end
