(* ===== verification/Muxx_MMU.thy ===== *)
theory Muxx_MMU
  imports Muxx_Defs
begin

text \<open>
  The memory management unit as the kernel programs it (the register layout is the one documented
  in \<open>h/CONFIG.s\<close>). A page address register (PAR) holds the first 64-byte block of a page; a page
  descriptor register (PDR) holds the access control field in bits 0 to 2, the expansion direction
  in bit 3 and the page length field, in blocks, in bits 8 to 14. An upward page maps the blocks
  0 to the length field, a downward page the blocks from the length field to 127.
\<close>

definition page_acf :: "u16 \<Rightarrow> u16" where
  "page_acf pdr = pdr AND 7"

definition page_readable :: "u16 \<Rightarrow> bool" where
  "page_readable pdr \<longleftrightarrow> page_acf pdr \<in> {1, 2, 4, 5, 6}"

definition page_writable :: "u16 \<Rightarrow> bool" where
  "page_writable pdr \<longleftrightarrow> page_acf pdr \<in> {4, 5, 6}"

definition page_plf :: "u16 \<Rightarrow> nat" where
  "page_plf pdr = unat (drop_bit 8 pdr AND 0x7F)"

definition page_down :: "u16 \<Rightarrow> bool" where
  "page_down pdr = bit pdr 3"

text \<open>The block of a page is within the length the descriptor allows.\<close>

definition block_in_page :: "u16 \<Rightarrow> nat \<Rightarrow> bool" where
  "block_in_page pdr b \<longleftrightarrow>
     (if page_down pdr then page_plf pdr \<le> b \<and> b < 128 else b \<le> page_plf pdr)"

text \<open>The physical blocks a page gives access to.\<close>

definition page_blocks :: "u16 \<Rightarrow> u16 \<Rightarrow> nat set" where
  "page_blocks par pdr = (if page_readable pdr then {unat par + b | b. block_in_page pdr b} else {})"

text \<open>
  Translation of a 16-bit virtual address through eight page registers: page number, block in
  page and byte in block; \<open>None\<close> is an abort.
\<close>

definition mmu_translate :: "(u16 \<Rightarrow> bool) \<Rightarrow> u16 list \<Rightarrow> u16 list \<Rightarrow> u16 \<Rightarrow> nat option" where
  "mmu_translate allowed pars pdrs va =
     (let page = unat va div 8192; off = unat va mod 8192
      in if allowed (pdrs ! page) \<and> block_in_page (pdrs ! page) (off div 64)
         then Some ((unat (pars ! page) * 64 + off) mod 2 ^ 18) else None)"

lemma page_blocks_up:
  "\<not> page_down pdr \<Longrightarrow> page_blocks par pdr \<subseteq> {unat par .. unat par + page_plf pdr}"
  by (auto simp: page_blocks_def block_in_page_def)

lemma page_blocks_down:
  "page_down pdr \<Longrightarrow> page_blocks par pdr \<subseteq> {unat par + page_plf pdr ..< unat par + 128}"
  by (auto simp: page_blocks_def block_in_page_def)

lemmas pdr_defs = page_acf_def page_readable_def page_writable_def page_plf_def page_down_def

section \<open>The map at system start\<close>

text \<open>
  \<open>mmu_initialize\<close> maps pages 0 to 2 to the first 24 KB, page 6 to the stack (the block number is
  that of the end of the 24 KB, less 4 KB) and page 7 to the I/O page, which user mode may not access.
  The registers of pages 3, 4 and 5 keep what they hold.
\<close>

definition mmu_initialize :: "mmustate \<Rightarrow> mmustate" where
  "mmu_initialize m =
     (let par = (\<lambda>rs. rs[0 := 0, 1 := 0x80, 2 := 0x100, 6 := 0x180 - 0x40, 7 := 0xF80]);
          pdr = (\<lambda>rs. rs[0 := 0x7F06, 1 := 0x7F06, 2 := 0x7F06, 6 := 0x3F0E])
      in m\<lparr>upar := par (upar m), kpar := par (kpar m),
           updr := (pdr (updr m))[7 := 0], kpdr := (pdr (kpdr m))[7 := 0x7F06]\<rparr>)"

text \<open>The first 24 KB are mapped to themselves, for the kernel and for users.\<close>

lemma mmu_initialize_identity:
  assumes "length (kpar m) = 8" and "length (kpdr m) = 8" and "unat va < 3 * 8192"
  shows "mmu_translate page_writable (kpar (mmu_initialize m)) (kpdr (mmu_initialize m)) va = Some (unat va)"
proof -
  have page: "unat va div 8192 = 0 \<or> unat va div 8192 = 1 \<or> unat va div 8192 = 2"
    using assms(3) by linarith
  have "unat va mod 8192 div 64 < 128" by (intro less_mult_imp_div_less) simp
  moreover have "page_plf (0x7F06) = 127" "\<not> page_down 0x7F06" "page_writable 0x7F06"
    by (simp_all add: page_plf_def page_down_def page_writable_def page_acf_def)
  ultimately have ok: "page_writable 0x7F06 \<and> block_in_page 0x7F06 (unat va mod 8192 div 64)"
    by (simp add: block_in_page_def)
  have v: "unat va div 8192 * 8192 + unat va mod 8192 = unat va" by simp
  show ?thesis
    using page ok assms v
    by (elim disjE) (simp_all add: mmu_translate_def mmu_initialize_def Let_def)
qed

lemma mmu_initialize_io_protected:
  assumes "length (upar m) = 8" and "length (updr m) = 8" and "7 * 8192 \<le> unat va"
  shows "mmu_translate page_readable (upar (mmu_initialize m)) (updr (mmu_initialize m)) va = None"
proof -
  have "unat va < 8 * 8192" using unsigned_less [where 'a = nat, of va] by simp
  then have "unat va div 8192 = 7" using assms(3) by linarith
  with assms show ?thesis
    by (simp add: mmu_translate_def mmu_initialize_def Let_def page_readable_def page_acf_def)
qed

end
