(* ===== verification/Muxx_Console.thy ===== *)
theory Muxx_Console
  imports Muxx_Text Muxx_Sched Muxx_MMU
begin

text \<open>
  The kernel's console output: the character routines of \<open>kernel/muxx_kconio.s\<close>, \<open>kprintf\<close>
  (\<open>kernel/kprintf.c\<close>) and what the kernel prints with them, the dumps of registers, memory
  management and tasks (\<open>kernel/muxx_dumpregs.c\<close>, \<open>muxx_dumpmmu.c\<close>, \<open>muxx_dumptcb.c\<close>), \<open>panic\<close>
  and the handlers of the processor's exceptions.
\<close>

section \<open>The console\<close>

text \<open>
  \<open>con_text\<close> is everything sent so far. The transmitter is polled before and after a character is
  stored, each time for at most 5000 rounds: \<open>txline\<close> says for the next characters whether they go
  out, go out but are not confirmed in time, or find the transmitter busy all the time and are
  lost. When the list is empty every character goes out.
\<close>

datatype tx = TxSent | TxLate | TxLost

record con =
  con_text :: string
  txline :: "tx list"

definition kconputc :: "char \<Rightarrow> con \<Rightarrow> int \<times> con" where
  "kconputc ch c =
     (case txline c of
        [] \<Rightarrow> (0, c\<lparr>con_text := con_text c @ [ch]\<rparr>)
      | TxSent # l \<Rightarrow> (0, c\<lparr>con_text := con_text c @ [ch], txline := l\<rparr>)
      | TxLate # l \<Rightarrow> (1, c\<lparr>con_text := con_text c @ [ch], txline := l\<rparr>)
      | TxLost # l \<Rightarrow> (1, c\<lparr>txline := l\<rparr>))"

text \<open>Characters in a row: the status of the last one is what is left in the result register.\<close>

fun kput_all :: "string \<Rightarrow> int \<Rightarrow> con \<Rightarrow> int \<times> con" where
  "kput_all [] rc c = (rc, c)"
| "kput_all (ch # s) rc c = (let (rc, c) = kconputc ch c in kput_all s rc c)"

text \<open>
  The length is counted down to zero with \<open>sob\<close> after a character is sent: length 0 means 65536.
  \<open>kputstrz\<close> ends with the NUL in the result register.
\<close>

definition kputstr :: "string \<Rightarrow> nat \<Rightarrow> con \<Rightarrow> (int, con) outcome" where
  "kputstr s n c =
     (let n = (if n = 0 then 65536 else n)
      in if length s < n then Stop (Fault BufferOverrun) c
         else let (rc, c) = kput_all (take n s) 0 c in Ret rc c)"

definition kputstrz :: "string \<Rightarrow> con \<Rightarrow> (int, con) outcome" where
  "kputstrz s c = Ret 0 (snd (kput_all (takeWhile (\<lambda>ch. ch \<noteq> CHR 0x00) s) 0 c))"

text \<open>The line variants end the line with a line feed and a carriage return, in this order.\<close>

definition kputstrl :: "string \<Rightarrow> nat \<Rightarrow> con \<Rightarrow> (int, con) outcome" where
  "kputstrl s n c = andthen (kputstr s n c) (\<lambda>_. kputstr [CHR 0x0A, CHR 0x0D] 2)"

definition kputstrzl :: "string \<Rightarrow> con \<Rightarrow> (int, con) outcome" where
  "kputstrzl s c = andthen (kputstrz s c) (\<lambda>_. kputstr [CHR 0x0A, CHR 0x0D] 2)"

text \<open>
  \<open>kcongetc\<close> polls the receiver: each reading of the status and the data register is a pair. It goes
  on until the status has the done bit; a character is extended with its sign.
\<close>

fun kcongetc :: "(u16 \<times> u8) list \<Rightarrow> u16 option" where
  "kcongetc [] = None"
| "kcongetc ((rcsr, rbuf) # polls) = (if bit rcsr 7 then Some (scast rbuf) else kcongetc polls)"

definition kputoct :: "u16 \<Rightarrow> con \<Rightarrow> (int, con) outcome" where
  "kputoct w c = kputstr (itoo w) 6 c"

abbreviation (input) NL :: char where "NL \<equiv> CHR 0x0A"
abbreviation (input) CR :: char where "CR \<equiv> CHR 0x0D"
abbreviation (input) TAB :: char where "TAB \<equiv> CHR 0x09"

section \<open>Formatted output\<close>

text \<open>The variable arguments: a word (also a character or an address), a longword or a string.\<close>

datatype karg = KWord u16 | KLong u32 | KStr string

text \<open>
  After one conversion: the arguments left and the variables \<open>rc\<close> and \<open>numc\<close>, or the return code.
\<close>

datatype conv = Conv "karg list" int int | Quit int

definition counted :: "karg list \<Rightarrow> int \<Rightarrow> int \<Rightarrow> conv" where
  "counted args rc numc = (if rc \<ge> 0 then Conv args rc (numc + rc) else Quit rc)"

definition kprintf_conv ::
  "char \<Rightarrow> karg list \<Rightarrow> int \<Rightarrow> int \<Rightarrow> con \<Rightarrow> (conv, con) outcome" where
  "kprintf_conv f args rc numc c =
     (if f = CHR ''c'' then
        (case args of
           KWord w # args \<Rightarrow>
             let (rc, c) = kconputc (char_of (unat w)) c
             in Ret (Conv args rc (if rc = 0 then numc + 1 else numc)) c
         | _ \<Rightarrow> Stop (Fault BadArgument) c)
      else if f = CHR ''s'' then
        (case args of
           KStr s # args \<Rightarrow> andthen (kputstrz s c) (\<lambda>rc. Ret (counted args rc numc))
         | _ \<Rightarrow> Stop (Fault BadArgument) c)
      else if f = CHR ''o'' then
        (case args of
           KWord w # args \<Rightarrow> andthen (kputstr (itoo w) 6 c) (\<lambda>rc. Ret (counted args rc numc))
         | _ \<Rightarrow> Stop (Fault BadArgument) c)
      else if f = CHR ''O'' then
        (case args of
           KLong l # args \<Rightarrow> andthen (kputstr (itool l) 11 c) (\<lambda>rc. Ret (counted args rc numc))
         | _ \<Rightarrow> Stop (Fault BadArgument) c)
      else if f = CHR ''d'' then
        (case args of
           KWord w # args \<Rightarrow> andthen (kputstr (itods w) 6 c) (\<lambda>_. Ret (counted args rc numc))
         | _ \<Rightarrow> Stop (Fault BadArgument) c)
      else if f = CHR ''l'' then
        (case args of
           KLong l # args \<Rightarrow>
             (case itodl l of
                None \<Rightarrow> Stop (Fault BadArgument) c
              | Some t \<Rightarrow> andthen (kputstr t 9 c) (\<lambda>rc. Ret (counted args rc numc)))
         | _ \<Rightarrow> Stop (Fault BadArgument) c)
      else if f = CHR ''x'' \<or> f = CHR ''X'' then
        (case args of
           KWord w # args \<Rightarrow> andthen (kputstr (itoh w) 4 c) (\<lambda>rc. Ret (counted args rc numc))
         | _ \<Rightarrow> Stop (Fault BadArgument) c)
      else
        let (rc, c) = kconputc CHR ''%'' c
        in Ret (if rc = 0 then Conv args rc (numc + 1) else Quit rc) c)"

text \<open>A format that ends in a percent sign makes the loop run past the end of the string.\<close>

fun kprintf_loop :: "string \<Rightarrow> karg list \<Rightarrow> int \<Rightarrow> int \<Rightarrow> con \<Rightarrow> (int, con) outcome" where
  "kprintf_loop [] args rc numc c = Ret numc c"
| "kprintf_loop (ch # fmt) args rc numc c =
     (if ch = CHR ''%'' then
        (case fmt of
           [] \<Rightarrow> Stop (Fault BufferOverrun) c
         | f # fmt' \<Rightarrow> andthen (kprintf_conv f args rc numc c) (\<lambda>r c.
             case r of
               Conv args rc numc \<Rightarrow> kprintf_loop fmt' args rc numc c
             | Quit rc \<Rightarrow> Ret rc c))
      else if ch = NL then
        andthen (kputstr [CR, NL] 2 c) (\<lambda>rc c.
          if rc = 0 then kprintf_loop fmt args rc (numc + 2) c else Ret rc c)
      else
        (let (rc, c) = kconputc ch c
         in if rc = 0 then kprintf_loop fmt args rc (numc + 1) c else Ret rc c))"

definition kprintf :: "string \<Rightarrow> karg list \<Rightarrow> con \<Rightarrow> (int, con) outcome" where
  "kprintf fmt args c = kprintf_loop fmt args 0 0 c"

section \<open>Dumps\<close>

text \<open>A dump is a list of calls made one after another for what they print.\<close>

fun run_all :: "(con \<Rightarrow> (unit, con) outcome) list \<Rightarrow> con \<Rightarrow> (unit, con) outcome" where
  "run_all [] c = Ret () c"
| "run_all (act # acts) c = andthen (act c) (\<lambda>_. run_all acts)"

definition say :: "string \<Rightarrow> karg list \<Rightarrow> con \<Rightarrow> (unit, con) outcome" where
  "say fmt args c = andthen (kprintf fmt args c) (\<lambda>_. Ret ())"

definition put :: "string \<Rightarrow> nat \<Rightarrow> con \<Rightarrow> (unit, con) outcome" where
  "put s n c = andthen (kputstr s n c) (\<lambda>_. Ret ())"

definition say_if :: "bool \<Rightarrow> string \<Rightarrow> con \<Rightarrow> (unit, con) outcome" where
  "say_if b fmt c = (if b then say fmt [] c else Ret () c)"

subsection \<open>Registers\<close>

definition cpu_words :: "cpustate \<Rightarrow> u16 list" where
  "cpu_words cpus = gpr cpus @ [cs_sp cpus, cs_pc cpus, cs_psw cpus, cs_usp cpus, cs_ssp cpus,
     cs_ksp cpus]"

definition digit_of :: "u16 \<Rightarrow> con \<Rightarrow> (unit, con) outcome" where
  "digit_of w = put (drop 5 (itoo w)) 1"

definition psw_flag :: "u16 \<Rightarrow> nat \<Rightarrow> char \<Rightarrow> con \<Rightarrow> (unit, con) outcome" where
  "psw_flag psw k letter =
     (if bit psw k then put [CHR '' '', letter, CHR ''+''] 3 else put [CHR '' '', letter, CHR ''-''] 3)"

definition muxx_dumpregs :: "cpustate \<Rightarrow> con \<Rightarrow> (unit, con) outcome" where
  "muxx_dumpregs cpus =
     (let r = (\<lambda>i. KWord (cpu_words cpus ! i)); psw = cs_psw cpus
      in run_all
        [say [NL] [],
         say ('' R0=%o, R1=%o, R2=%o, R3=%o'' @ [NL]) [r 0, r 1, r 2, r 3],
         say ('' R4=%o, R5=%o, SP=%o, PC=%o'' @ [NL]) [r 4, r 5, r 6, r 7],
         say (''PSW=%o,USP=%o,SSP=%o,KSP=%o'' @ [NL]) [r 8, r 9, r 10, r 11],
         put '' CM:'' 4, digit_of (drop_bit 14 psw),
         put '' PM:'' 4, digit_of (drop_bit 12 (psw AND 0x3000)),
         put '' IPL:'' 5, digit_of (drop_bit 5 (psw AND 0x00E0)),
         psw_flag psw 0 CHR ''C'', psw_flag psw 1 CHR ''V'', psw_flag psw 2 CHR ''Z'',
         psw_flag psw 3 CHR ''N'', psw_flag psw 4 CHR ''T'',
         say [NL] []])"

definition muxx_dumptcbregs :: "'d kstate \<Rightarrow> con \<Rightarrow> (unit, con) outcome" where
  "muxx_dumptcbregs s c = at_ptr (tct s) (curtcb s) c (\<lambda>i. muxx_dumpregs (cpuState (tct s ! i)) c)"

subsection \<open>Memory management\<close>

text \<open>\<open>WORD\<close> arithmetic: the sum wraps at 16 bits before it becomes a longword.\<close>

definition muxx_vtop :: "u16 \<Rightarrow> u16 \<Rightarrow> u32" where
  "muxx_vtop virtual par = ucast ((virtual AND 0x3FFF) + par * 64)"

definition muxx_dumpmmu :: "mmustate \<Rightarrow> con \<Rightarrow> (unit, con) outcome" where
  "muxx_dumpmmu m = run_all
     ([say ([NL] @ ''Saved MMU status:'' @ [NL]) [],
       say (''USER'' @ [TAB, TAB, TAB] @ ''KERNEL'' @ [NL]) []] @
      map (\<lambda>i. say (''%o-%o'' @ [TAB, TAB] @ ''%o-%o'' @ [NL])
        [KWord (upar m ! i), KWord (updr m ! i), KWord (kpar m ! i), KWord (kpdr m ! i)]) [0..<8])"

text \<open>
  Addresses of table entries are printed as numbers; where the linker has put the tables is the
  parameter \<open>symbols\<close>.
\<close>

record symbols =
  sym_tcb :: "nat \<Rightarrow> u16"
  sym_mcb :: "nat \<Rightarrow> u16"

definition ptr_word :: "(nat \<Rightarrow> u16) \<Rightarrow> ptr \<Rightarrow> karg" where
  "ptr_word f p = KWord (case p of None \<Rightarrow> 0 | Some i \<Rightarrow> f i)"

definition dump_mcb :: "symbols \<Rightarrow> nat \<Rightarrow> mmcb \<Rightarrow> con \<Rightarrow> (unit, con) outcome" where
  "dump_mcb syms i b =
     (let pstart = (ucast (blockAddr b) :: u32) * 64;
          pend = pstart + (ucast (blockSize b) :: u32) * 64 - 1;
          fl = mmcbFlags b
      in run_all
        [say '' MMCB=%o ADDR=%o SIZE=%o''
           [KWord (sym_mcb syms i), KWord (blockAddr b), KWord (blockSize b)],
         (if ownerPID b = 0 then say '' OWNR=*FREE* PAGE=*NONE*'' []
          else say '' OWNR=%o PAGE=%o'' [KWord (ownerPID b), KWord (ownerPAR b)]),
         say '' NEXT=%o PREV=%o''
           [ptr_word (sym_mcb syms) (nextBlock b), ptr_word (sym_mcb syms) (prevBlock b)],
         say '' PHY=%O:%O'' [KLong pstart, KLong pend],
         say_if (bit fl 0) '' SHR'', say_if (bit fl 1) '' FIX'', say_if (bit fl 2) '' PRV'',
         say_if (bit fl 3) '' IO '', say_if (bit fl 4) '' STK'', say_if (bit fl 5) '' BUF'',
         say [NL] []])"

definition muxx_dumpmemsvc :: "symbols \<Rightarrow> 'd kstate \<Rightarrow> con \<Rightarrow> (unit, con) outcome" where
  "muxx_dumpmemsvc syms s = run_all
     ([say ([NL] @ ''*** Memory Management Control Blocks (MMCBs):'' @ [NL]) []] @
      map (\<lambda>i. if ownerPID (mmcbs (mcbt s) ! i) \<noteq> - 1
               then dump_mcb syms i (mmcbs (mcbt s) ! i) else Ret ()) [0..<MEM_NMCBS] @
      [say (''---'' @ [NL]) []])"

subsection \<open>Tasks\<close>

text \<open>A word of memory as the kernel reads it through its own pages.\<close>

definition kernel_word :: "'d kstate \<Rightarrow> u16 \<Rightarrow> u16 + fault" where
  "kernel_word s va =
     (if odd va then Inr OddAddress
      else (case (mmu_translate page_readable (kpar (mmu s)) (kpdr (mmu s)) va,
                  mmu_translate page_readable (kpar (mmu s)) (kpdr (mmu s)) (va + 1)) of
              (Some lo, Some hi) \<Rightarrow> Inl (word_cat (phys s hi) (phys s lo))
            | _ \<Rightarrow> Inr MMUAbort))"

definition stack_word :: "'d kstate \<Rightarrow> u16 \<Rightarrow> u16 \<Rightarrow> con \<Rightarrow> (unit, con) outcome" where
  "stack_word s ptr limit c =
     (if ptr \<le> limit then
        (case kernel_word s ptr of
           Inl w \<Rightarrow> say (''%o: %o'' @ [TAB]) [KWord ptr, KWord w] c
         | Inr e \<Rightarrow> Stop (Fault e) c)
      else say [TAB, TAB] [] c)"

definition stack_line :: "'d kstate \<Rightarrow> u16 \<Rightarrow> u16 \<Rightarrow> nat \<Rightarrow> con \<Rightarrow> (unit, con) outcome" where
  "stack_line s wptr wptru i = run_all
     [stack_word s (wptr + 2 * of_nat i) kstackt, stack_word s (wptru + 2 * of_nat i) ustackt,
      say [NL] []]"

definition status_text :: "u16 \<Rightarrow> string" where
  "status_text st =
     (if st = TSK_INIT then ''INIT'' else if st = TSK_READY then ''READY''
      else if st = TSK_BLOCKED then ''BLOCKED'' else if st = TSK_RUN then ''RUN''
      else if st = TSK_SUSP then ''SUSPENDED'' else if st = TSK_DISPOSE then ''DISPOSE'' else ''INVALID'')"

definition type_text :: "u16 \<Rightarrow> string" where
  "type_text ty =
     (let k = ty AND 0x07 in
      if k = USR_TASK then ''USER    '' else if k = SYS_TASK then ''SYSTEM  ''
      else if k = DRV_TASK then ''DRIVER  '' else ''INVALID '')"

definition size_text :: "u16 \<Rightarrow> string" where
  "size_text ty =
     (let k = ty AND 0x38 in
      if k = TSZ_SMALL then ''SMALL '' else if k = TSZ_MED then ''MED   ''
      else if k = TSZ_BIG then ''BIG   '' else ''INVAL '')"

text \<open>The cases of the stack size are those of the code size again.\<close>

definition stack_text :: "u16 \<Rightarrow> string" where
  "stack_text ty =
     (let k = ty AND 0x1C0 in
      if k = TSZ_SMALLS then ''SMALLS '' @ [NL] else if k = TSZ_MED then ''MEDS   '' @ [NL]
      else if k = TSZ_BIG then ''BIGS   '' @ [NL] else ''INVAL  '' @ [NL])"

definition dump_task :: "symbols \<Rightarrow> 'd kstate \<Rightarrow> nat \<Rightarrow> con \<Rightarrow> (unit, con) outcome" where
  "dump_task syms s i =
     (let t = tct s ! i
      in run_all
        ([say ([NL] @ ''TCB at address %o ('') [KWord (sym_tcb syms i)],
          put (taskname t) 8,
          say ('') PID   : %o '' @ [NL]) [KWord (pid t)],
          say ''Status: %o '' [KWord (status t)], say (status_text (status t)) [], say [NL] [],
          say ''Flags : %o '' [KWord (flword t)],
          say_if (bit (flword t) 0) ''SENDING '', say_if (bit (flword t) 1) ''RECEIVING '',
          say_if (bit (flword t) 2) ''SUSPENDED '', say_if (bit (flword t) 3) ''MSGWAIT '',
          say [NL] [],
          say ''Privs : %o '' [KWord (prvword t)],
          say_if (operprv t) ''OPERPRV '', say_if (ioprv t) ''IOPRV '',
          say_if (auditprv t) ''AUDITPRV '',
          say ([NL] @ ''Type  : %o '') [KWord (taskType t)],
          say (type_text (taskType t)) [], say (size_text (taskType t)) [],
          say (stack_text (taskType t)) [],
          muxx_dumpregs (cpuState t),
          say ([NL] @ ''16 top Kernel/User stack words:'' @ [NL]) [],
          say (''KERNEL'' @ [TAB, TAB] @ ''USER'' @ [NL]) []] @
         map (stack_line s (cs_ksp (cpuState t)) (cs_usp (cpuState t))) [0..<15]))"

definition muxx_dumptcb :: "symbols \<Rightarrow> 'd kstate \<Rightarrow> ptr \<Rightarrow> con \<Rightarrow> (unit, con) outcome" where
  "muxx_dumptcb syms s task c =
     at_ptr (tct s) (if task = None then curtcb s else task) c (\<lambda>i. dump_task syms s i c)"

definition muxx_dumpctcb :: "symbols \<Rightarrow> 'd kstate \<Rightarrow> con \<Rightarrow> (unit, con) outcome" where
  "muxx_dumpctcb syms s = muxx_dumptcb syms s (curtcb s)"

section \<open>Panic\<close>

definition panic_dumps :: "symbols \<Rightarrow> 'd kstate \<Rightarrow> (con \<Rightarrow> (unit, con) outcome) list" where
  "panic_dumps syms s =
     [muxx_dumpctcb syms s,
      say ([NL] @ ''*** TCBT information:'' @ [NL]) []] @
     map (\<lambda>i c. if pid (tct s ! i) \<noteq> 0
                then andthen (muxx_dumptcb syms s (Some i) c) (\<lambda>_.
                       muxx_dumpmmu (mmuState (tct s ! i)))
                else Ret () c) [0..<MAX_TASKS] @
     [muxx_dumpmemsvc syms s,
      say ([NL] @ ''*** Halting system...'' @ [NL]) []]"

definition panic_report :: "symbols \<Rightarrow> string \<Rightarrow> 'd kstate \<Rightarrow> con \<Rightarrow> (unit, con) outcome" where
  "panic_report syms msg s = run_all
     (say (''System panic!'' @ [NL] @ ''%s'' @ [NL] @ ''*** Last saved frame:'' @ [NL]) [KStr msg] #
      panic_dumps syms s)"

text \<open>The kernel and its console as one state.\<close>

fun with_kernel :: "'d kstate \<Rightarrow> ('a, con) outcome \<Rightarrow> ('a, 'd kstate \<times> con) outcome" where
  "with_kernel s (Ret a c) = Ret a (s, c)"
| "with_kernel s (Stop e c) = Stop e (s, c)"

fun with_con :: "con \<Rightarrow> ('a, 'd kstate) outcome \<Rightarrow> ('a, 'd kstate \<times> con) outcome" where
  "with_con c (Ret a s) = Ret a (s, c)"
| "with_con c (Stop e s) = Stop e (s, c)"

definition panic ::
  "symbols \<Rightarrow> string \<Rightarrow> 'd kstate \<times> con \<Rightarrow> (unit, 'd kstate \<times> con) outcome" where
  "panic syms msg =
     (\<lambda>(s, c). let s = snd (setpl7 s)
               in andthen (with_kernel s (panic_report syms msg s c)) (\<lambda>_. Stop (Panic msg)))"

section \<open>Processor exceptions\<close>

text \<open>
  Every handler saves the interrupted context, says what happened and panics. The registers the
  processor reports errors in are parameters of the handlers that read them.
\<close>

definition trapped ::
  "symbols \<Rightarrow> u16 \<Rightarrow> (con \<Rightarrow> (unit, con) outcome) \<Rightarrow> string \<Rightarrow> 'd kstate \<times> con \<Rightarrow>
   (unit, 'd kstate \<times> con) outcome" where
  "trapped syms fp report msg =
     (\<lambda>(s, c). andthen (with_con c (copytrapfp fp (cpu s) s)) (\<lambda>_ (s, c).
        andthen (with_kernel s (report c)) (\<lambda>_. panic syms msg)))"

definition muxx_handle_cpuerr ::
  "symbols \<Rightarrow> u16 \<Rightarrow> u16 \<Rightarrow> 'd kstate \<times> con \<Rightarrow> (unit, 'd kstate \<times> con) outcome" where
  "muxx_handle_cpuerr syms cpuerr fp = trapped syms fp
     (run_all
       [say ([NL] @ ''CPUERR exception'' @ [NL]) [],
        say (''Error mask: %o'' @ [NL]) [KWord cpuerr],
        say_if (bit cpuerr 2) (''Stack overflow (red)'' @ [NL]),
        say_if (bit cpuerr 3) (''Stack overflow (yellow)'' @ [NL]),
        say_if (bit cpuerr 4) (''UNIBUS timeout'' @ [NL]),
        say_if (bit cpuerr 5) (''Non-existent memory'' @ [NL]),
        say_if (bit cpuerr 6) (''Odd address'' @ [NL]),
        say_if (bit cpuerr 7) (''Illegal HALT'' @ [NL])]) ''CPUERR''"

definition muxx_handle_illins ::
  "symbols \<Rightarrow> u16 \<Rightarrow> 'd kstate \<times> con \<Rightarrow> (unit, 'd kstate \<times> con) outcome" where
  "muxx_handle_illins syms fp =
     trapped syms fp (say ([NL] @ ''ILLINS exception'' @ [NL]) []) ''ILLINS''"

definition muxx_handle_iot ::
  "symbols \<Rightarrow> u16 \<Rightarrow> 'd kstate \<times> con \<Rightarrow> (unit, 'd kstate \<times> con) outcome" where
  "muxx_handle_iot syms fp = trapped syms fp (say ([NL] @ ''IOT    exception'' @ [NL]) []) ''IOT''"

definition muxx_handle_buserr ::
  "symbols \<Rightarrow> u16 \<Rightarrow> 'd kstate \<times> con \<Rightarrow> (unit, 'd kstate \<times> con) outcome" where
  "muxx_handle_buserr syms fp =
     trapped syms fp (say ([NL] @ ''BUSERR exception'' @ [NL]) []) ''BUSERR''"

definition muxx_handle_fperr ::
  "symbols \<Rightarrow> u16 \<Rightarrow> 'd kstate \<times> con \<Rightarrow> (unit, 'd kstate \<times> con) outcome" where
  "muxx_handle_fperr syms fp =
     trapped syms fp (say ([NL] @ ''FPERR  exception'' @ [NL]) []) ''FPERR''"

definition muxx_handle_mmuerr ::
  "symbols \<Rightarrow> u16 \<Rightarrow> u16 \<Rightarrow> u16 \<Rightarrow> 'd kstate \<times> con \<Rightarrow> (unit, 'd kstate \<times> con) outcome" where
  "muxx_handle_mmuerr syms mmr0 mmr2 fp =
     (\<lambda>(s, c). andthen (with_con c (andthen (copytrapfp fp (cpu s) s) (\<lambda>_. copyMMUstate))) (\<lambda>_ (s, c).
        let page = drop_bit 1 (mmr0 AND 0x000D)
        in andthen (with_kernel s (run_all
             [say ([NL] @ ''MMUERR exception at %o'' @ [NL]) [KWord mmr2],
              say (''MMR0: %o - page %o'' @ [NL]) [KWord mmr0, KWord page],
              say_if (bit mmr0 15) (''Non resident'' @ [NL]),
              say_if (bit mmr0 14) (''Page length'' @ [NL]),
              say_if (bit mmr0 13) (''Read only abort'' @ [NL]),
              say_if (bit mmr0 12) (''MMU trap'' @ [NL]),
              (\<lambda>c. at_ptr (tct s) (curtcb s) c (\<lambda>i. muxx_dumpmmu (mmuState (tct s ! i)) c))] c))
             (\<lambda>_. panic syms ''MMUERR'')))"

definition muxx_handle_trace ::
  "symbols \<Rightarrow> u16 \<Rightarrow> 'd kstate \<times> con \<Rightarrow> (unit, 'd kstate \<times> con) outcome" where
  "muxx_handle_trace syms fp = trapped syms fp (say ([NL] @ ''TRACE trap'' @ [NL]) []) ''TRACE''"

definition muxx_handle_power ::
  "symbols \<Rightarrow> u16 \<Rightarrow> 'd kstate \<times> con \<Rightarrow> (unit, 'd kstate \<times> con) outcome" where
  "muxx_handle_power syms fp = trapped syms fp (say ([NL] @ ''POWER exception'' @ [NL]) []) ''POWER''"

definition muxx_handle_unimpl ::
  "symbols \<Rightarrow> u16 \<Rightarrow> 'd kstate \<times> con \<Rightarrow> (unit, 'd kstate \<times> con) outcome" where
  "muxx_handle_unimpl syms fp =
     trapped syms fp (say ([NL] @ ''UNIMPL exception'' @ [NL]) []) ''unimplemented''"

section \<open>A console that is ready\<close>

text \<open>What a format and its arguments stand for, and how many of its characters are literal.\<close>

fun conv_text :: "char \<Rightarrow> karg list \<Rightarrow> (string \<times> karg list) option" where
  "conv_text f [] = (if f \<in> set ''csoOdlxX'' then None else Some (''%'', []))"
| "conv_text f (KWord w # args) =
     (if f = CHR ''c'' then Some ([char_of (unat w)], args)
      else if f = CHR ''o'' then Some (itoo w, args)
      else if f = CHR ''d'' then Some (itods w, args)
      else if f \<in> set ''xX'' then Some (itoh w, args)
      else if f \<in> set ''sOl'' then None else Some (''%'', KWord w # args))"
| "conv_text f (KLong l # args) =
     (if f = CHR ''O'' then Some (itool l, args)
      else if f = CHR ''l'' then map_option (\<lambda>t. (t, args)) (itodl l)
      else if f \<in> set ''csodxX'' then None else Some (''%'', KLong l # args))"
| "conv_text f (KStr s # args) =
     (if f = CHR ''s'' then Some (takeWhile (\<lambda>ch. ch \<noteq> CHR 0x00) s, args)
      else if f \<in> set ''coOdlxX'' then None else Some (''%'', KStr s # args))"

fun expand :: "string \<Rightarrow> karg list \<Rightarrow> string option" where
  "expand [] args = Some []"
| "expand (ch # fmt) args =
     (if ch = CHR ''%'' then
        (case fmt of
           [] \<Rightarrow> None
         | f # fmt' \<Rightarrow> (case conv_text f args of
             None \<Rightarrow> None
           | Some (t, args) \<Rightarrow> map_option (\<lambda>u. t @ u) (expand fmt' args)))
      else map_option (\<lambda>u. (if ch = NL then [CR, NL] else [ch]) @ u) (expand fmt args))"

definition crlf :: "string \<Rightarrow> string" where
  "crlf s = concat (map (\<lambda>ch. if ch = NL then [CR, NL] else [ch]) s)"

lemma expand_text: "CHR ''%'' \<notin> set s \<Longrightarrow> expand (s @ fmt) args = map_option ((@) (crlf s)) (expand fmt args)"
  by (cases "expand fmt args"; induction s) (auto simp: crlf_def)

fun literals :: "string \<Rightarrow> int" where
  "literals [] = 0"
| "literals (ch # fmt) =
     (if ch = CHR ''%'' then
        (case fmt of
           [] \<Rightarrow> 0
         | f # fmt' \<Rightarrow> (if f \<in> set ''soOdlxX'' then 0 else 1) + literals fmt')
      else (if ch = NL then 2 else 1) + literals fmt)"

definition shows_text :: "con \<Rightarrow> string \<Rightarrow> con" where
  "shows_text c t = c\<lparr>con_text := con_text c @ t\<rparr>"

lemma shows_text_sel [simp]:
  "con_text (shows_text c t) = con_text c @ t" "txline (shows_text c t) = txline c"
  by (simp_all add: shows_text_def)

lemma shows_text_append [simp]: "shows_text (shows_text c t) u = shows_text c (t @ u)"
  by (simp add: shows_text_def)

lemma shows_text_Nil [simp]: "shows_text c [] = c"
  by (simp add: shows_text_def)

named_theorems ready_simps "what a call prints on a ready console"

lemma kconputc_ready [ready_simps]: "txline c = [] \<Longrightarrow> kconputc ch c = (0, shows_text c [ch])"
  by (simp add: kconputc_def shows_text_def)

lemma kput_all_ready [ready_simps]:
  "txline c = [] \<Longrightarrow> kput_all s rc c = (if s = [] then rc else 0, shows_text c s)"
proof (induction s rc c rule: kput_all.induct)
  case (2 ch s rc c)
  then show ?case by (simp add: kconputc_ready)
qed simp

lemma kputstr_ready [ready_simps]:
  "txline c = [] \<Longrightarrow> 0 < n \<Longrightarrow> n \<le> length s \<Longrightarrow> kputstr s n c = Ret 0 (shows_text c (take n s))"
  by (auto simp: kputstr_def kput_all_ready)

lemma kputstrz_ready [ready_simps]:
  "txline c = [] \<Longrightarrow> kputstrz s c = Ret 0 (shows_text c (takeWhile (\<lambda>ch. ch \<noteq> CHR 0x00) s))"
  by (simp add: kputstrz_def kput_all_ready)

lemma kputstrl_ready:
  "txline c = [] \<Longrightarrow> 0 < n \<Longrightarrow> n \<le> length s \<Longrightarrow>
   kputstrl s n c = Ret 0 (shows_text c (take n s @ [CHR 0x0A, CHR 0x0D]))"
  "txline c = [] \<Longrightarrow>
   kputstrzl s c = Ret 0 (shows_text c (takeWhile (\<lambda>ch. ch \<noteq> CHR 0x00) s @ [CHR 0x0A, CHR 0x0D]))"
  by (simp_all add: kputstrl_def kputstrzl_def ready_simps)

lemma kcongetc_waits:
  "\<forall>(rcsr, rbuf) \<in> set polls. \<not> bit rcsr 7 \<Longrightarrow> bit r 7 \<Longrightarrow>
   kcongetc (polls @ (r, b) # later) = Some (scast b)"
  by (induction polls) auto

lemma itodl_length: "itodl l = Some t \<Longrightarrow> length t = 9"
  by (auto simp: itodl_def Let_def split: if_splits)

lemma kprintf_conv_ready:
  assumes "txline c = []" and "conv_text f args = Some (t, args')"
  shows "kprintf_conv f args 0 numc c =
    Ret (Conv args' 0 (numc + (if f \<in> set ''soOdlxX'' then 0 else 1))) (shows_text c t)"
proof (cases args)
  case Nil
  with assms show ?thesis
    by (auto simp: kprintf_conv_def kconputc_ready split: if_splits)
next
  case (Cons a as)
  note len = itoo_length itool_length itodl_length
  show ?thesis
  proof (cases a)
    case (KWord w)
    with assms Cons show ?thesis
      by (auto simp: kprintf_conv_def ready_simps counted_def len split: if_splits)
  next
    case (KLong l)
    with assms Cons show ?thesis
      by (auto simp: kprintf_conv_def ready_simps counted_def len split: if_splits)
  next
    case (KStr s)
    with assms Cons show ?thesis
      by (auto simp: kprintf_conv_def ready_simps counted_def split: if_splits)
  qed
qed

lemma kprintf_loop_ready:
  "txline c = [] \<Longrightarrow> expand fmt args = Some t \<Longrightarrow>
   kprintf_loop fmt args 0 numc c = Ret (numc + literals fmt) (shows_text c t)"
proof (induction fmt args arbitrary: t numc c rule: expand.induct)
  case (1 args)
  then show ?case by simp
next
  case (2 ch fmt args)
  show ?case
  proof (cases "ch = CHR ''%''")
    case True
    with "2.prems" obtain f fmt' v args' u where
      fmt: "fmt = f # fmt'" and v: "conv_text f args = Some (v, args')"
      and u: "expand fmt' args' = Some u" and t: "t = v @ u"
      by (auto split: list.splits option.splits)
    show ?thesis
      using kprintf_conv_ready [OF "2.prems"(1) v, of numc] "2.prems"(1) True fmt v u t
        "2.IH"(1) [OF True fmt v refl _ u]
      by (simp add: add.assoc)
  next
    case False
    with "2.prems" obtain u where
      u: "expand fmt args = Some u" and t: "t = (if ch = NL then [CR, NL] else [ch]) @ u"
      by auto
    show ?thesis
      using "2.prems"(1) False t "2.IH"(2) [OF False _ u]
      by (simp add: ready_simps add.assoc)
  qed
qed

lemma kprintf_ready:
  "txline c = [] \<Longrightarrow> expand fmt args = Some t \<Longrightarrow>
   kprintf fmt args c = Ret (literals fmt) (shows_text c t)"
  by (simp add: kprintf_def kprintf_loop_ready)

section \<open>What the dumps print\<close>

text \<open>A call that prints \<open>t\<close> on every ready console, and one that prints something.\<close>

definition prints_text :: "(con \<Rightarrow> (unit, con) outcome) \<Rightarrow> string \<Rightarrow> bool" where
  "prints_text act t \<longleftrightarrow> (\<forall>c. txline c = [] \<longrightarrow> act c = Ret () (shows_text c t))"

definition prints :: "(con \<Rightarrow> (unit, con) outcome) \<Rightarrow> bool" where
  "prints act \<longleftrightarrow> (\<exists>t. prints_text act t)"

named_theorems prints_intros "calls that print"

lemma prints_textD: "prints_text act t \<Longrightarrow> txline c = [] \<Longrightarrow> act c = Ret () (shows_text c t)"
  by (simp add: prints_text_def)

lemma prints_say_text: "expand fmt args = Some t \<Longrightarrow> prints_text (say fmt args) t"
  by (simp add: prints_text_def say_def kprintf_ready)

lemma prints_say [prints_intros]: "expand fmt args \<noteq> None \<Longrightarrow> prints (say fmt args)"
  by (auto simp: prints_def intro: prints_say_text)

lemma prints_Ret [prints_intros]: "prints (Ret ())"
  by (auto simp: prints_def prints_text_def intro!: exI [of _ "[]"])

lemma prints_say_if [prints_intros]: "expand fmt [] \<noteq> None \<Longrightarrow> prints (say_if b fmt)"
proof -
  assume "expand fmt [] \<noteq> None"
  moreover have "say_if b fmt = (if b then say fmt [] else Ret ())"
    by (rule ext) (simp add: say_if_def)
  ultimately show ?thesis using prints_say prints_Ret by simp
qed

lemma prints_put [prints_intros]: "0 < n \<Longrightarrow> n \<le> length s \<Longrightarrow> prints (put s n)"
  by (auto simp: prints_def prints_text_def put_def kputstr_ready)

lemma prints_text_then:
  "prints_text act t \<Longrightarrow> prints_text act' u \<Longrightarrow>
   prints_text (\<lambda>c. andthen (act c) (\<lambda>_. act')) (t @ u)"
  by (simp add: prints_text_def)

lemma prints_then [prints_intros]:
  "prints act \<Longrightarrow> prints act' \<Longrightarrow> prints (\<lambda>c. andthen (act c) (\<lambda>_. act'))"
  unfolding prints_def by (blast intro: prints_text_then)

lemma run_all_Cons_fun: "run_all (act # acts) = (\<lambda>c. andthen (act c) (\<lambda>_. run_all acts))"
  by (rule ext) simp

lemma prints_run_all: "(\<And>act. act \<in> set acts \<Longrightarrow> prints act) \<Longrightarrow> prints (run_all acts)"
proof (induction acts)
  case Nil
  have "run_all [] = Ret ()" by (rule ext) simp
  with prints_Ret show ?case by metis
next
  case (Cons act acts)
  then show ?case by (simp add: run_all_Cons_fun prints_then)
qed

lemma prints_run_all_Cons [prints_intros]:
  "prints act \<Longrightarrow> prints (run_all acts) \<Longrightarrow> prints (run_all (act # acts))"
  by (simp add: run_all_Cons_fun prints_then)

lemma prints_run_all_Nil [prints_intros]: "prints (run_all [])"
  by (rule prints_run_all) simp

lemma prints_psw_flag [prints_intros]: "prints (psw_flag psw k letter)"
  by (simp add: psw_flag_def prints_put)

lemma prints_digit_of [prints_intros]: "prints (digit_of w)"
  by (simp add: digit_of_def prints_put itoo_length)

lemma prints_dumpregs [prints_intros]: "prints (muxx_dumpregs cpus)"
  unfolding muxx_dumpregs_def Let_def by (intro prints_intros) simp_all

lemma prints_dumpmmu [prints_intros]: "prints (muxx_dumpmmu m)"
  unfolding muxx_dumpmmu_def by (rule prints_run_all) (auto intro!: prints_say)

lemma prints_dump_mcb: "prints (dump_mcb syms i b)"
  unfolding dump_mcb_def Let_def
  by (intro prints_intros) (auto simp: ptr_word_def intro!: prints_say)

lemma prints_dumpmemsvc [prints_intros]: "prints (muxx_dumpmemsvc syms s)"
  unfolding muxx_dumpmemsvc_def
  by (rule prints_run_all) (auto intro!: prints_say prints_Ret prints_dump_mcb)

text \<open>The words at the top of a task's stacks that the dump reads can be read.\<close>

definition stacks_readable :: "'d kstate \<Rightarrow> cpustate \<Rightarrow> bool" where
  "stacks_readable s cs \<longleftrightarrow>
     (\<forall>i < 15. (cs_ksp cs + 2 * of_nat i \<le> kstackt \<longrightarrow> isl (kernel_word s (cs_ksp cs + 2 * of_nat i))) \<and>
               (cs_usp cs + 2 * of_nat i \<le> ustackt \<longrightarrow> isl (kernel_word s (cs_usp cs + 2 * of_nat i))))"

lemma prints_stack_word:
  "(ptr \<le> limit \<longrightarrow> isl (kernel_word s ptr)) \<Longrightarrow> prints (stack_word s ptr limit)"
proof -
  assume ok: "ptr \<le> limit \<longrightarrow> isl (kernel_word s ptr)"
  have "\<exists>fmt args. stack_word s ptr limit = say fmt args \<and> expand fmt args \<noteq> None"
  proof (cases "ptr \<le> limit")
    case True
    with ok obtain w where "kernel_word s ptr = Inl w" by (auto simp: isl_def)
    with True show ?thesis
      by (intro exI [of _ "''%o: %o'' @ [TAB]"] exI [of _ "[KWord ptr, KWord w]"])
        (auto simp: stack_word_def fun_eq_iff)
  next
    case False
    then show ?thesis
      by (intro exI [of _ "[TAB, TAB]"] exI [of _ "[]"]) (auto simp: stack_word_def fun_eq_iff)
  qed
  then show ?thesis using prints_say by metis
qed

lemma prints_dump_task:
  assumes "length (taskname (tct s ! i)) = 8" and "stacks_readable s (cpuState (tct s ! i))"
  shows "prints (dump_task syms s i)"
proof -
  have "prints (stack_line s (cs_ksp (cpuState (tct s ! i))) (cs_usp (cpuState (tct s ! i))) k)"
    if "k < 15" for k
    using assms(2) that unfolding stack_line_def stacks_readable_def
    by (intro prints_intros prints_stack_word) auto
  then show ?thesis
    using assms(1) unfolding dump_task_def Let_def
    by (intro prints_run_all)
      (auto simp: status_text_def type_text_def size_text_def stack_text_def Let_def
        intro!: prints_say prints_say_if prints_put prints_dumpregs)
qed

lemma prints_dumptcb:
  assumes "i < length (tct s)" and "length (taskname (tct s ! i)) = 8"
    and "stacks_readable s (cpuState (tct s ! i))"
  shows "prints (muxx_dumptcb syms s (Some i))"
proof -
  have "muxx_dumptcb syms s (Some i) = dump_task syms s i"
    using assms(1) by (intro ext) (simp add: muxx_dumptcb_def)
  then show ?thesis using prints_dump_task [OF assms(2,3)] by simp
qed

section \<open>Panic and exceptions\<close>

text \<open>
  The report needs a current task, and the tops of the stacks of that task and of every task with
  a process id must be readable at the addresses saved for them.
\<close>

definition dumpable :: "'d kstate \<Rightarrow> bool" where
  "dumpable s \<longleftrightarrow>
     length (tct s) = MAX_TASKS \<and> (\<exists>c < MAX_TASKS. curtcb s = Some c) \<and>
     (\<forall>i < MAX_TASKS. curtcb s = Some i \<or> pid (tct s ! i) \<noteq> 0 \<longrightarrow>
        length (taskname (tct s ! i)) = 8 \<and> stacks_readable s (cpuState (tct s ! i)))"

lemma kernel_word_cong: "mmu t = mmu s \<Longrightarrow> phys t = phys s \<Longrightarrow> kernel_word t = kernel_word s"
  by (rule ext) (auto simp: kernel_word_def split: option.split)

lemma stacks_readable_cong:
  assumes "mmu t = mmu s" and "phys t = phys s"
  shows "stacks_readable t cs = stacks_readable s cs"
  unfolding stacks_readable_def kernel_word_cong [OF assms] ..

lemma dumpable_setpl7 [simp]: "dumpable (s\<lparr>ipl := l\<rparr>) = dumpable s"
  by (simp add: dumpable_def stacks_readable_cong [of "s\<lparr>ipl := l\<rparr>" s])

definition panic_head :: "string \<Rightarrow> string" where
  "panic_head msg =
     ''System panic!'' @ [CR, NL] @ msg @ [CR, NL] @ ''*** Last saved frame:'' @ [CR, NL]"

lemma panic_report_prints:
  assumes "dumpable s" and "CHR 0x00 \<notin> set msg"
  shows "\<exists>t. prints_text (panic_report syms msg s) (panic_head msg @ t)"
proof -
  obtain c where c: "curtcb s = Some c" "c < MAX_TASKS" using assms(1) by (auto simp: dumpable_def)
  have "prints (\<lambda>c. if pid (tct s ! i) \<noteq> 0
      then andthen (muxx_dumptcb syms s (Some i) c) (\<lambda>_. muxx_dumpmmu (mmuState (tct s ! i)))
      else Ret () c)" if "i < MAX_TASKS" for i
    using assms(1) that by (cases "pid (tct s ! i) = 0")
      (auto simp: dumpable_def intro!: prints_then prints_dumptcb prints_dumpmmu prints_Ret)
  moreover have "prints (muxx_dumpctcb syms s)"
    using assms(1) c prints_dumptcb [of c s syms] by (auto simp: muxx_dumpctcb_def dumpable_def)
  ultimately have "prints (run_all (panic_dumps syms s))"
    unfolding panic_dumps_def by (intro prints_run_all) (auto intro!: prints_say prints_dumpmemsvc)
  then obtain t where rest: "prints_text (run_all (panic_dumps syms s)) t"
    unfolding prints_def by blast
  have "takeWhile (\<lambda>ch. ch \<noteq> CHR 0x00) msg = msg"
    using assms(2) by (auto simp: takeWhile_eq_all_conv)
  then have head: "expand (''System panic!'' @ [NL] @ ''%s'' @ [NL] @ ''*** Last saved frame:'' @ [NL])
      [KStr msg] = Some (panic_head msg)"
    by (simp add: panic_head_def)
  show ?thesis
    using prints_text_then [OF prints_say_text [OF head] rest]
    unfolding panic_report_def run_all_Cons_fun by blast
qed

lemma panic_ready:
  assumes "dumpable s" and "txline c = []" and "CHR 0x00 \<notin> set msg"
  shows "\<exists>t. panic syms msg (s, c) = Stop (Panic msg) (s\<lparr>ipl := 7\<rparr>, shows_text c (panic_head msg @ t))"
proof -
  obtain t where "prints_text (panic_report syms msg (s\<lparr>ipl := 7\<rparr>)) (panic_head msg @ t)"
    using panic_report_prints [of "s\<lparr>ipl := 7\<rparr>" msg syms] assms by auto
  from prints_textD [OF this assms(2)] show ?thesis
    by (auto simp: panic_def setpl7_def)
qed

lemma trapped_ready:
  assumes save: "copytrapfp fp (cpu s) s = Ret () s'" and dump: "dumpable s'" and con: "txline c = []"
    and report: "prints_text report r" and msg: "CHR 0x00 \<notin> set msg"
  shows "\<exists>t. trapped syms fp report msg (s, c) =
    Stop (Panic msg) (s'\<lparr>ipl := 7\<rparr>, shows_text c (r @ panic_head msg @ t))"
  using panic_ready [OF dump _ msg, of "shows_text c r" syms] prints_textD [OF report con] con save
  by (simp add: trapped_def)

lemma exception_text:
  "CHR ''%'' \<notin> set s \<Longrightarrow> prints_text (say ([NL] @ s @ [NL]) []) ([CR, NL] @ crlf s @ [CR, NL])"
  using expand_text [of "[NL] @ s @ [NL]" "[]" "[]"]
  by (intro prints_say_text) (simp add: crlf_def)

text \<open>
  The entries of the exception vectors (\<open>muxx_cputrap.s\<close>). The processor has taken the new PSW, of
  priority 7. As the system is configured (\<open>MUXX_TRAPHALT\<close> in \<open>h/CONFIG.s\<close>) the first instruction is a
  \<open>halt\<close>: whether the operator continues the processor from there, \<open>go_on\<close>, is not the program's
  doing. Only then \<open>traphandle\<close> saves the registers and calls the handler.
\<close>

abbreviation (input) MUXX_TRAPHALT :: nat where "MUXX_TRAPHALT \<equiv> 1"

definition trap_entry ::
  "bool \<Rightarrow> ('d kstate \<times> con \<Rightarrow> (unit, 'd kstate \<times> con) outcome) \<Rightarrow> 'd kstate \<times> con \<Rightarrow>
   (unit, 'd kstate \<times> con) outcome" where
  "trap_entry go_on handler =
     (\<lambda>(s, c). let s = s\<lparr>ipl := 7\<rparr>
        in if MUXX_TRAPHALT = 1 \<and> \<not> go_on then Stop Halted (s, c)
           else andthen (handler (s, c)) (\<lambda>_. Stop Halted))"

text \<open>The handlers that only announce their exception.\<close>

definition plain_handlers ::
  "symbols \<Rightarrow> ((u16 \<Rightarrow> 'd kstate \<times> con \<Rightarrow> (unit, 'd kstate \<times> con) outcome) \<times> string \<times> string) list" where
  "plain_handlers syms =
     [(muxx_handle_illins syms, ''ILLINS exception'', ''ILLINS''),
      (muxx_handle_iot syms, ''IOT    exception'', ''IOT''),
      (muxx_handle_buserr syms, ''BUSERR exception'', ''BUSERR''),
      (muxx_handle_fperr syms, ''FPERR  exception'', ''FPERR''),
      (muxx_handle_trace syms, ''TRACE trap'', ''TRACE''),
      (muxx_handle_power syms, ''POWER exception'', ''POWER''),
      (muxx_handle_unimpl syms, ''UNIMPL exception'', ''unimplemented'')]"

lemma plain_handler:
  assumes "(h, text, msg) \<in> set (plain_handlers syms)"
  shows "h fp = trapped syms fp (say ([NL] @ text @ [NL]) []) msg \<and> CHR ''%'' \<notin> set text \<and>
    crlf text = text \<and> CHR 0x00 \<notin> set msg"
  using assms
  by (auto simp: plain_handlers_def crlf_def muxx_handle_illins_def muxx_handle_iot_def
      muxx_handle_buserr_def muxx_handle_fperr_def muxx_handle_trace_def muxx_handle_power_def
      muxx_handle_unimpl_def)

end
