(* ===== verification/Lib_Stdio.thy ===== *)
theory Lib_Stdio
  imports Muxx_Console
begin

text \<open>
  The output routines of the user library: \<open>lib/conio.c\<close>, \<open>lib/stdio/puts.c\<close>, \<open>lib/stdio/putc.c\<close>,
  \<open>lib/stdio/strout.c\<close> and \<open>lib/gen/perror.c\<close>, and \<open>strlen\<close>. They send single characters with the
  \<open>conputc\<close> system call, whose service hands the low byte of its parameter to \<open>kconputc\<close>.

  A C string is the list of the bytes from its address on as far as the caller's object reaches,
  the terminating NUL included; reading past that list is a \<open>BufferOverrun\<close>.
\<close>

section \<open>Console output\<close>

definition conputc :: "char \<Rightarrow> con \<Rightarrow> (int, con) outcome" where
  "conputc ch c = (let (rc, c) = kconputc ch c in Ret rc c)"

text \<open>\<open>for (i = 0; i < size && rc == 0; i++)\<close> with the number of rounds left.\<close>

fun putstr_loop :: "nat \<Rightarrow> int \<Rightarrow> string \<Rightarrow> con \<Rightarrow> (int, con) outcome" where
  "putstr_loop 0 rc ptr c = Ret rc c"
| "putstr_loop (Suc n) rc ptr c =
     (if rc = 0 then
        (case ptr of
           [] \<Rightarrow> Stop (Fault BufferOverrun) c
         | ch # ptr \<Rightarrow> andthen (conputc ch c) (\<lambda>rc c. putstr_loop n rc ptr c))
      else Ret rc c)"

definition putstr :: "string \<Rightarrow> int \<Rightarrow> con \<Rightarrow> (int, con) outcome" where
  "putstr buffer len c = putstr_loop (nat len) 0 buffer c"

definition putoct :: "u16 \<Rightarrow> con \<Rightarrow> (int, con) outcome" where
  "putoct w c = putstr (itoo w) 6 c"

definition putstrl :: "string \<Rightarrow> int \<Rightarrow> con \<Rightarrow> (int, con) outcome" where
  "putstrl buffer len c =
     andthen (putstr buffer len c) (\<lambda>rc c. if rc = 0 then putstr [CR, NL] 2 c else Ret rc c)"

fun putstrz_loop :: "int \<Rightarrow> string \<Rightarrow> con \<Rightarrow> (int, con) outcome" where
  "putstrz_loop rc [] c = Stop (Fault BufferOverrun) c"
| "putstrz_loop rc (ch # ptr) c =
     (if ch \<noteq> CHR 0x00 \<and> rc = 0 then andthen (conputc ch c) (\<lambda>rc c. putstrz_loop rc ptr c)
      else Ret rc c)"

definition putstrz :: "string \<Rightarrow> con \<Rightarrow> (int, con) outcome" where
  "putstrz buffer c = putstrz_loop 0 buffer c"

definition putstrzl :: "string \<Rightarrow> con \<Rightarrow> (int, con) outcome" where
  "putstrzl buffer c =
     andthen (putstrz buffer c) (\<lambda>rc c. if rc = 0 then putstr [CR, NL] 2 c else Ret rc c)"

section \<open>Standard output\<close>

text \<open>The stream of \<open>putc\<close> is ignored.\<close>

definition putc :: "char \<Rightarrow> con \<Rightarrow> (int, con) outcome" where
  "putc ch c = (if ch = NL then andthen (conputc CR c) (\<lambda>_. conputc ch) else conputc ch c)"

fun puts_loop :: "int \<Rightarrow> string \<Rightarrow> con \<Rightarrow> (int, con) outcome" where
  "puts_loop n [] c = Stop (Fault BufferOverrun) c"
| "puts_loop n (ch # str) c =
     (if ch \<noteq> CHR 0x00 then
        if ch = NL then andthen (putstr [NL, CR] 2 c) (\<lambda>_. puts_loop (n + 2) str)
        else andthen (conputc ch c) (\<lambda>_. puts_loop (n + 1) str)
      else Ret n c)"

definition puts :: "string \<Rightarrow> con \<Rightarrow> (int, con) outcome" where
  "puts str c = puts_loop 0 str c"

text \<open>
  The output of one converted field. A negative \<open>adjust\<close> pads on the left, a positive one on the
  right; before padding with zeros a minus sign goes out first.
\<close>

fun strout_left ::
  "nat \<Rightarrow> int \<Rightarrow> string \<Rightarrow> char \<Rightarrow> con \<Rightarrow> (int \<times> string, con) outcome" where
  "strout_left 0 cnt str fillch c = Ret (cnt, str) c"
| "strout_left (Suc n) cnt str fillch c =
     (case str of
        [] \<Rightarrow> Stop (Fault BufferOverrun) c
      | ch # rest \<Rightarrow>
          andthen (if ch = CHR ''-'' \<and> fillch = CHR ''0''
                   then andthen (putc ch c) (\<lambda>_. Ret (cnt - 1, rest)) else Ret (cnt, str) c)
            (\<lambda>(cnt, str) c. andthen (putc fillch c) (\<lambda>_. strout_left n cnt str fillch)))"

fun strout_body :: "nat \<Rightarrow> string \<Rightarrow> con \<Rightarrow> (string, con) outcome" where
  "strout_body 0 str c = Ret str c"
| "strout_body (Suc n) str c =
     (case str of
        [] \<Rightarrow> Stop (Fault BufferOverrun) c
      | ch # str \<Rightarrow> andthen (putc ch c) (\<lambda>_. strout_body n str))"

fun strout_right :: "nat \<Rightarrow> char \<Rightarrow> con \<Rightarrow> (unit, con) outcome" where
  "strout_right 0 fillch c = Ret () c"
| "strout_right (Suc n) fillch c = andthen (putc fillch c) (\<lambda>_. strout_right n fillch)"

definition strout :: "int \<Rightarrow> string \<Rightarrow> int \<Rightarrow> char \<Rightarrow> con \<Rightarrow> (unit, con) outcome" where
  "strout cnt str adjust fillch c =
     andthen (strout_left (nat (- adjust)) cnt str fillch c) (\<lambda>(cnt, str) c.
     andthen (strout_body (nat cnt) str c) (\<lambda>_. strout_right (nat adjust) fillch))"

fun strlen :: "string \<Rightarrow> int option" where
  "strlen [] = None"
| "strlen (ch # s) = (if ch = CHR 0x00 then Some 0 else map_option (\<lambda>n. n + 1) (strlen s))"

section \<open>Error messages\<close>

text \<open>
  \<open>perror\<close> calls \<open>putstrl\<close> without the length, which is then the word that happens to follow on the
  stack (\<open>garbage\<close>), except for the first call, where it is the address of the message, and the
  last, where it is \<open>errno\<close>. The case of \<open>ENOTOPEN\<close> falls through to \<open>EEOF\<close> and that to the default.
\<close>

definition errno_name :: "int \<Rightarrow> string option" where
  "errno_name e =
     map_of [(ENOMEM, ''ENOMEM''), (EMAXTASK, ''EMAXTASK''), (ENOPID, ''ENOPID''),
       (ETCTFULL, ''ETCTFULL''), (EILLINST, ''EILLINST''), (EINVVAL, ''EINVVAL''),
       (ENOPRIV, ''ENOPRIV''), (ELOCKED, ''ELOCKED''), (ENOAVAIL, ''ENOAVAIL''),
       (ENOTALLOC, ''ENOTALLOC''), (ENOTFOUND, ''ENOTFOUND''), (ERRDEV, ''ERRDEV''),
       (EOFFLINE, ''EOFFLINE''), (ENOSYSRES, ''ENOSYSRES''), (ENOTOPEN, ''ENOTOPEN''),
       (EEOF, ''EEOF'')] e"

definition line_of :: "string \<Rightarrow> string" where
  "line_of s = s @ [NL, CHR 0x00]"

definition perror_default :: "int \<Rightarrow> con \<Rightarrow> (int, con) outcome" where
  "perror_default e c = putstrl (line_of ''ERRNO: %d'') e c"

definition perror :: "int \<Rightarrow> u16 \<Rightarrow> int \<Rightarrow> con \<Rightarrow> (int, con) outcome" where
  "perror garbage msg e c =
     andthen (if msg \<noteq> 0 then putstrl (''%s: '' @ [CHR 0x00]) (sint msg) c else Ret 0 c) (\<lambda>_ c.
       if e = ENOTOPEN then
         andthen (putstrl (line_of ''ENOTOPEN'') garbage c) (\<lambda>_ c.
         andthen (putstrl (line_of ''EEOF'') garbage c) (\<lambda>_. perror_default e))
       else if e = EEOF then andthen (putstrl (line_of ''EEOF'') garbage c) (\<lambda>_. perror_default e)
       else (case errno_name e of
               Some name \<Rightarrow> putstrl (line_of name) garbage c
             | None \<Rightarrow> perror_default e c))"

section \<open>A console that is ready\<close>

lemma conputc_ready [ready_simps]: "txline c = [] \<Longrightarrow> conputc ch c = Ret 0 (shows_text c [ch])"
  by (simp add: conputc_def ready_simps)

lemma putstr_loop_ready:
  "txline c = [] \<Longrightarrow> n \<le> length ptr \<Longrightarrow> putstr_loop n 0 ptr c = Ret 0 (shows_text c (take n ptr))"
proof (induction n arbitrary: ptr c)
  case (Suc n)
  then show ?case by (cases ptr) (simp_all add: conputc_ready)
qed simp

lemma putstr_ready [ready_simps]:
  "txline c = [] \<Longrightarrow> nat len \<le> length buffer \<Longrightarrow>
   putstr buffer len c = Ret 0 (shows_text c (take (nat len) buffer))"
  by (simp add: putstr_def putstr_loop_ready)

lemma putstrl_ready:
  "txline c = [] \<Longrightarrow> nat len \<le> length buffer \<Longrightarrow>
   putstrl buffer len c = Ret 0 (shows_text c (take (nat len) buffer @ [CR, NL]))"
  by (simp add: putstrl_def ready_simps)

lemma putstrz_ready:
  "txline c = [] \<Longrightarrow> CHR 0x00 \<notin> set s \<Longrightarrow>
   putstrz (s @ CHR 0x00 # rest) c = Ret 0 (shows_text c s)"
proof -
  have "txline c = [] \<Longrightarrow> CHR 0x00 \<notin> set s \<Longrightarrow>
      putstrz_loop 0 (s @ CHR 0x00 # rest) c = Ret 0 (shows_text c s)" for c
    by (induction s arbitrary: c) (auto simp: ready_simps)
  then show "txline c = [] \<Longrightarrow> CHR 0x00 \<notin> set s \<Longrightarrow> ?thesis"
    by (simp add: putstrz_def)
qed

lemma strlen_length: "CHR 0x00 \<notin> set s \<Longrightarrow> strlen (s @ CHR 0x00 # rest) = Some (int (length s))"
  by (induction s) auto

subsection \<open>Fields\<close>

lemma putc_ready [ready_simps]:
  "txline c = [] \<Longrightarrow> putc ch c = Ret 0 (shows_text c (if ch = NL then [CR, NL] else [ch]))"
  by (simp add: putc_def ready_simps)

lemma putc_ready_crlf: "txline c = [] \<Longrightarrow> putc ch c = Ret 0 (shows_text c (crlf [ch]))"
  by (simp add: putc_ready crlf_def)

lemma crlf_Cons: "crlf (ch # s) = crlf [ch] @ crlf s"
  by (simp add: crlf_def)

lemma crlf_Nil [simp]: "crlf [] = []"
  by (simp add: crlf_def)

lemma strout_body_ready:
  "txline c = [] \<Longrightarrow> n \<le> length str \<Longrightarrow>
   strout_body n str c = Ret (drop n str) (shows_text c (crlf (take n str)))"
proof (induction n arbitrary: str c)
  case (Suc n)
  then show ?case
    by (cases str) (simp_all add: putc_ready_crlf crlf_Cons [of _ "take n _"])
qed simp

lemma strout_right_ready:
  "txline c = [] \<Longrightarrow> strout_right n fillch c = Ret () (shows_text c (crlf (replicate n fillch)))"
  by (induction n arbitrary: c) (simp_all add: putc_ready_crlf crlf_Cons [of _ "replicate _ _"])

lemma strout_left_plain:
  "txline c = [] \<Longrightarrow> str \<noteq> [] \<Longrightarrow> hd str \<noteq> CHR ''-'' \<or> fillch \<noteq> CHR ''0'' \<Longrightarrow>
   strout_left n cnt str fillch c = Ret (cnt, str) (shows_text c (crlf (replicate n fillch)))"
proof (induction n arbitrary: c)
  case (Suc n)
  then show ?case
    by (cases str) (auto simp: putc_ready_crlf crlf_Cons [of _ "replicate _ _"])
qed simp

text \<open>A number is padded with zeros between its sign and its digits.\<close>

lemma strout_left_minus:
  assumes "txline c = []" and "str = CHR ''-'' # d # rest" and "d \<noteq> CHR ''-''"
  shows "strout_left (Suc n) cnt str CHR ''0'' c =
    Ret (cnt - 1, d # rest) (shows_text c (CHR ''-'' # replicate (Suc n) CHR ''0''))"
proof -
  have z: "crlf (replicate k CHR ''0'') = replicate k CHR ''0''" for k
    by (induction k) (simp_all add: crlf_def)
  show ?thesis
    using assms strout_left_plain [of "shows_text c ''-0''" "d # rest" "CHR ''0''" n "cnt - 1"]
    by (simp add: putc_ready z)
qed

end
