(* ===== verification/Lib_Printf.thy ===== *)
theory Lib_Printf
  imports Lib_Stdio "HOL-Library.Signed_Division" "HOL-Library.Monad_Syntax"
begin

text \<open>
  Formatted output of the user library: \<open>doprnt\<close> of \<open>lib/stdio/doprnt.s\<close> with the routine of
  \<open>lib/stdio/ffltpr.s\<close> that stands in for floating point, and \<open>printf\<close> of \<open>lib/stdio/printf.c\<close>.

  The format is the list of the bytes from its address on; \<open>args\<close> are the words of the argument
  list from \<open>r4\<close> on; \<open>mem\<close> is what the task's memory holds, for the text of a \<open>%s\<close>. Reading past
  the format or the arguments, and filling the 300 bytes of \<open>buffer\<close> beyond their end, is a
  \<open>BufferOverrun\<close> (\<open>None\<close> in the routines that print nothing). \<open>ndfnd\<close> is left out: only the
  floating point conversions would look at it, and their stand-in does not.

  The second part says what a format shows: a reference function for the text of a list of fields,
  and the theorem that \<open>doprnt\<close> shows that text.
\<close>

section \<open>Numbers\<close>

text \<open>The \<open>DIV\<close> instruction on the register pair \<open>r0:r1\<close>: quotient and remainder, or an overflow
  that leaves the registers alone.\<close>

definition div_pair :: "u16 \<Rightarrow> u16 \<Rightarrow> u16 \<Rightarrow> u16 \<times> u16" where
  "div_pair r0 r1 src =
     (let n = sint (word_cat r0 r1 :: u32); d = sint src; q = n sdiv d
      in if d = 0 \<or> q < - 32768 \<or> 32767 < q then (r0, r1)
         else (word_of_int q, word_of_int (n smod d)))"

text \<open>One digit of \<open>r4:r5\<close>: the quotient, and the digit.\<close>

definition compute_step :: "u16 \<Rightarrow> u16 \<Rightarrow> u16 \<Rightarrow> u16 \<times> u16 \<times> u16" where
  "compute_step r2 r4 r5 =
     (let (r4, r0) = (if r4 = 0 then (r4, 0) else div_pair 0 r4 r2);
          (q, r1) = div_pair r0 r5 (r2 + r2);
          q = q + q
      in if sint r1 < sint r2 then (r4, q, r1) else (r4, q + 1, r1 - r2))"

definition digit_text :: "u16 \<Rightarrow> char" where
  "digit_text r0 =
     (let r0 = r0 + 0x30; r0 = (if sint r0 \<le> 0x39 then r0 else r0 + (0x61 - 0x30 - 10))
      in char_of (unat r0 mod 256))"

partial_function (option) compute_digits :: "u16 \<Rightarrow> u16 \<Rightarrow> u16 \<Rightarrow> string option" where
  "compute_digits r2 r4 r5 =
     (let (r4, r5, d) = compute_step r2 r4 r5
      in if r5 \<noteq> 0 \<or> r4 \<noteq> 0
         then Option.bind (compute_digits r2 r4 r5) (\<lambda>s. Some (s @ [digit_text d]))
         else Some [digit_text d])"

text \<open>A precision puts a single zero in front of a number that is not zero.\<close>

definition compute :: "u16 \<Rightarrow> u16 \<Rightarrow> string \<Rightarrow> u16 \<Rightarrow> u16 \<Rightarrow> string option" where
  "compute r2 ndigit buf r0 r1 = do {
     s \<leftarrow> compute_digits r2 r0 r1;
     Some (buf @ (if (r0 \<noteq> 0 \<or> r1 \<noteq> 0) \<and> ndigit \<noteq> 0 then ''0'' else []) @ s)
   }"

text \<open>The negated pair \<open>r0:r1\<close>: \<open>neg r0\<close>, \<open>neg r1\<close>, \<open>sbc r0\<close>.\<close>

definition neg_pair :: "u16 \<Rightarrow> u16 \<Rightarrow> u16 \<times> u16" where
  "neg_pair r0 r1 = (- r0 - (if r1 = 0 then 0 else 1), - r1)"

section \<open>The parts of a directive\<close>

fun next_arg :: "u16 list \<Rightarrow> (u16 \<times> u16 list) option" where
  "next_arg [] = None"
| "next_arg (a # r4) = Some (a, r4)"

text \<open>\<open>gnum\<close> reads digits and stars, and the character behind them.\<close>

fun gnum :: "string \<Rightarrow> u16 list \<Rightarrow> u16 \<Rightarrow> (u16 \<times> char \<times> string \<times> u16 list) option" where
  "gnum [] r4 r1 = None"
| "gnum (ch # formp) r4 r1 =
     (if ch = CHR ''*'' then
        (case r4 of [] \<Rightarrow> None | a # r4 \<Rightarrow> gnum formp r4 (r1 * 10 + a))
      else if 0x30 \<le> (of_char ch :: nat) \<and> (of_char ch :: nat) \<le> 0x39
      then gnum formp r4 (r1 * 10 + (of_char ch - 0x30))
      else Some (r1, ch, formp, r4))"

datatype handler =
  h_general | h_longorunsg | h_octal | h_loct | h_hex | h_lhex | h_decimal | h_unsigned | h_long | h_lunsigned
  | h_charac | h_string | h_float | h_scien

definition swtab :: "(char \<times> handler) list" where
  "swtab =
     [(CHR ''d'', h_decimal), (CHR ''o'', h_octal), (CHR ''x'', h_hex), (CHR ''f'', h_float),
      (CHR ''e'', h_scien), (CHR ''g'', h_general), (CHR ''c'', h_charac), (CHR ''s'', h_string),
      (CHR ''l'', h_longorunsg), (CHR ''L'', h_longorunsg), (CHR ''u'', h_unsigned), (CHR ''D'', h_long),
      (CHR ''O'', h_loct), (CHR ''X'', h_lhex), (CHR ''U'', h_lunsigned)]"

text \<open>Behind an \<open>l\<close>: the conversion of a long, or one of a word without a letter of its own.\<close>

fun long_letter :: "string \<Rightarrow> (handler \<times> string) option" where
  "long_letter [] = None"
| "long_letter (ch # formp) =
     Some (if ch = CHR ''o'' then (h_loct, formp)
           else if ch = CHR ''x'' then (h_lhex, formp)
           else if ch = CHR ''d'' then (h_long, formp)
           else if ch = CHR ''u'' then (h_lunsigned, formp)
           else (h_unsigned, ch # formp))"

text \<open>\<open>general\<close>, \<open>float\<close> and \<open>scien\<close> skip the eight bytes of a double and show a question mark.\<close>

definition pgen :: "u16 list \<Rightarrow> (string \<times> u16 list) option" where
  "pgen r4 = (if length r4 < 4 then None else Some (''?'', drop 4 r4))"

text \<open>A string ends before its NUL, or after \<open>r1\<close> bytes (0 stands for 65536).\<close>

fun string_span :: "(u16 \<Rightarrow> char) \<Rightarrow> u16 \<Rightarrow> nat \<Rightarrow> nat" where
  "string_span mem r2 0 = 0"
| "string_span mem r2 (Suc n) = (if mem r2 = CHR 0x00 then 0 else Suc (string_span mem (r2 + 1) n))"

definition span_limit :: "u16 \<Rightarrow> nat" where
  "span_limit r1 = (if r1 = 0 then 65536 else unat r1)"

text \<open>The bytes \<open>strout\<close> may look at: the ones it prints and the one behind them.\<close>

definition bytes_from :: "(u16 \<Rightarrow> char) \<Rightarrow> u16 \<Rightarrow> u16 \<Rightarrow> string" where
  "bytes_from mem r2 n = map (\<lambda>i. mem (r2 + of_nat i)) [0..<nat (sint n) + 1]"

section \<open>Conversion\<close>

datatype converted = Converted
  (shown_count: u16)      \<comment> \<open>number of characters to show\<close>
  (shown_bytes: string)   \<comment> \<open>what is at \<open>r2\<close>\<close>
  (fill_char: char)      \<comment> \<open>\<open>zfill\<close>\<close>
  (left_over: "string \<times> u16 list")

definition prbuf :: "string \<Rightarrow> char \<Rightarrow> string \<Rightarrow> u16 list \<Rightarrow> converted" where
  "prbuf buf zfill formp r4 = Converted (of_nat (length buf)) buf zfill (formp, r4)"

fun convert_number :: "handler \<Rightarrow> u16 \<Rightarrow> u16 list \<Rightarrow> (string \<times> u16 list) option" where
  "convert_number h_octal ndigit r4 = do {
     (r1, r4) \<leftarrow> next_arg r4; s \<leftarrow> compute 8 ndigit [] 0 r1; Some (s, r4) }"
| "convert_number h_loct ndigit r4 = do {
     (r0, r4) \<leftarrow> next_arg r4; (r1, r4) \<leftarrow> next_arg r4; s \<leftarrow> compute 8 ndigit [] r0 r1; Some (s, r4) }"
| "convert_number h_hex ndigit r4 = do {
     (r1, r4) \<leftarrow> next_arg r4; s \<leftarrow> compute 16 ndigit [] 0 r1; Some (s, r4) }"
| "convert_number h_lhex ndigit r4 = do {
     (r0, r4) \<leftarrow> next_arg r4; (r1, r4) \<leftarrow> next_arg r4; s \<leftarrow> compute 16 ndigit [] r0 r1; Some (s, r4) }"
| "convert_number h_decimal ndigit r4 = do {
     (r1, r4) \<leftarrow> next_arg r4;
     s \<leftarrow> (if sint r1 < 0 then (let (r0, r1) = neg_pair (- 1) r1 in compute 10 ndigit ''-'' r0 r1)
          else compute 10 ndigit [] 0 r1);
     Some (s, r4) }"
| "convert_number h_unsigned ndigit r4 = do {
     (r1, r4) \<leftarrow> next_arg r4; s \<leftarrow> compute 10 ndigit [] 0 r1; Some (s, r4) }"
| "convert_number h_long ndigit r4 = do {
     (r0, r4) \<leftarrow> next_arg r4; (r1, r4) \<leftarrow> next_arg r4;
     s \<leftarrow> (if sint r0 < 0 then (let (r0, r1) = neg_pair r0 r1 in compute 10 ndigit ''-'' r0 r1)
          else compute 10 ndigit [] r0 r1);
     Some (s, r4) }"
| "convert_number h_lunsigned ndigit r4 = do {
     (r0, r4) \<leftarrow> next_arg r4; (r1, r4) \<leftarrow> next_arg r4; s \<leftarrow> compute 10 ndigit [] r0 r1; Some (s, r4) }"
| "convert_number h_charac ndigit r4 = do {
     (r0, r4) \<leftarrow> next_arg r4; Some ([char_of (unat r0 mod 256)], r4) }"
| "convert_number h ndigit r4 = pgen r4"

definition convert ::
  "(u16 \<Rightarrow> char) \<Rightarrow> char \<Rightarrow> u16 \<Rightarrow> char \<Rightarrow> string \<Rightarrow> u16 list \<Rightarrow> converted option" where
  "convert mem r0 ndigit zfill formp r4 =
     (case map_of swtab r0 of
        None \<Rightarrow> Some (prbuf [r0] zfill formp r4)
      | Some h_string \<Rightarrow> do {
          (r2, r4) \<leftarrow> next_arg r4;
          let n = of_nat (string_span mem r2 (span_limit ndigit));
          Some (Converted n (bytes_from mem r2 n) (CHR '' '') (formp, r4)) }
      | Some h \<Rightarrow> do {
          (h, formp) \<leftarrow> (if h = h_longorunsg then long_letter formp else Some (h, formp));
          (buf, r4) \<leftarrow> convert_number h ndigit r4;
          Some (prbuf buf (if h = h_charac then CHR '' '' else zfill) formp r4) })"

text \<open>From behind the percent sign: the adjustment of the field and what there is to show.\<close>

definition directive ::
  "(u16 \<Rightarrow> char) \<Rightarrow> string \<Rightarrow> u16 list \<Rightarrow> (u16 \<times> converted) option" where
  "directive mem formp r4 =
     (let (rjust, formp) =
        (case formp of [] \<Rightarrow> (False, []) | ch # f \<Rightarrow> if ch = CHR ''-'' then (True, f) else (False, formp));
        zfill = (case formp of [] \<Rightarrow> CHR '' '' | ch # f \<Rightarrow> if ch = CHR ''0'' then CHR ''0'' else CHR '' '')
      in do {
        (width, r0, formp, r4) \<leftarrow> gnum formp r4 0;
        (ndigit, r0, formp, r4) \<leftarrow> (if r0 = CHR ''.'' then gnum formp r4 0 else Some (0, r0, formp, r4));
        field \<leftarrow> convert mem r0 ndigit zfill formp r4;
        let r1 = (if sint (shown_count field) \<le> sint width then width - shown_count field else 0);
        Some (if rjust then r1 else - r1, field) })"

text \<open>The text in front of the next percent sign or of the end: what is behind it, and whether it
  is the end.\<close>

fun literal :: "string \<Rightarrow> (string \<times> bool \<times> string) option" where
  "literal [] = None"
| "literal (ch # r1) =
     (if ch = CHR 0x00 then Some ([], True, r1)
      else if ch = CHR ''%'' then Some ([], False, r1)
      else map_option (\<lambda>(r3, e). (ch # r3, e)) (literal r1))"

lemma gnum_shorter: "gnum f r4 w = Some (w', ch, f', r4') \<Longrightarrow> length f' < length f"
  by (induction f r4 w rule: gnum.induct) (auto split: if_splits list.splits)

lemma long_letter_shorter: "long_letter f = Some (h, f') \<Longrightarrow> length f' \<le> length f"
  by (cases f) (auto split: if_splits)

lemma convert_shorter:
  "convert mem r0 nd z f r4 = Some field \<Longrightarrow> length (fst (left_over field)) \<le> length f"
  by (auto simp: convert_def prbuf_def Let_def split: option.splits handler.splits bind_splits if_splits
      dest!: long_letter_shorter)

lemma directive_shorter:
  "directive mem f r4 = Some (adj, Converted n b z (f', r4')) \<Longrightarrow> length f' < length f"
  by (auto simp: directive_def Let_def split: list.splits if_splits bind_splits
      dest!: gnum_shorter convert_shorter)

lemma literal_shorter: "literal f = Some (t, e, f') \<Longrightarrow> length f' < length f"
  by (induction f arbitrary: t e f') (auto split: if_splits)

section \<open>doprnt and printf\<close>

text \<open>\<open>__strout\<close> for one field; the stream is not looked at.\<close>

definition show_field :: "u16 \<Rightarrow> converted \<Rightarrow> con \<Rightarrow> (unit, con) outcome" where
  "show_field adjust field c = strout (sint (shown_count field)) (shown_bytes field) (sint adjust) (fill_char field) c"

definition show_literal :: "string \<Rightarrow> con \<Rightarrow> (unit, con) outcome" where
  "show_literal r3 c =
     (if r3 = [] then Ret () c
      else if 300 < length r3 then Stop (Fault BufferOverrun) c
      else strout (int (length r3)) r3 0 (CHR '' '') c)"

lemma andthen_cong [fundef_cong]:
  "m = m' \<Longrightarrow> (\<And>a s. m' = Ret a s \<Longrightarrow> k a s = k' a s) \<Longrightarrow> andthen m k = andthen m' k'"
  by (cases m') auto

function doprnt :: "(u16 \<Rightarrow> char) \<Rightarrow> string \<Rightarrow> u16 list \<Rightarrow> con \<Rightarrow> (unit, con) outcome" where
  "doprnt mem fmt r4 c =
     (case literal fmt of
        None \<Rightarrow> Stop (Fault BufferOverrun) c
      | Some (r3, at_end, formp) \<Rightarrow>
          andthen (show_literal r3 c) (\<lambda>_ c.
            if at_end then Ret () c
            else (case directive mem formp r4 of
                    None \<Rightarrow> Stop (Fault BufferOverrun) c
                  | Some (adjust, Converted n r2 zfill (formp, r4)) \<Rightarrow>
                      andthen (show_field adjust (Converted n r2 zfill (formp, r4)) c)
                        (\<lambda>_ c. doprnt mem formp r4 c))))"
  by pat_completeness auto
termination
  by (relation "measure (\<lambda>(mem, fmt, r4, c). length fmt)")
    (auto dest!: literal_shorter directive_shorter)

declare doprnt.simps [simp del]

definition printf :: "(u16 \<Rightarrow> char) \<Rightarrow> string \<Rightarrow> u16 list \<Rightarrow> con \<Rightarrow> (int, con) outcome" where
  "printf mem fmt args c = andthen (doprnt mem fmt args c) (\<lambda>_. Ret 0)"

section \<open>What a number looks like\<close>

function numeral_text :: "nat \<Rightarrow> nat \<Rightarrow> string" where
  "numeral_text b n =
     (if n < b \<or> b < 2 then [''0123456789abcdef'' ! n] else numeral_text b (n div b) @ [''0123456789abcdef'' ! (n mod b)])"
  by pat_completeness auto
termination
  by (relation "measure (\<lambda>(b, n). n)") auto

declare numeral_text.simps [simp del]

text \<open>A register pair read as one number.\<close>

lemma unat_lt2p_16: "unat (w :: u16) < 65536"
  using unsigned_less [where 'a = nat, of w] by simp

definition pair_value :: "u16 \<Rightarrow> u16 \<Rightarrow> nat" where
  "pair_value r0 r1 = unat r0 * 65536 + unat r1"

lemma pair_value_less: "pair_value r0 r1 < 4294967296"
  using unat_lt2p_16 [of r0] unat_lt2p_16 [of r1] by (simp add: pair_value_def)

lemma pair_value_0 [simp]: "pair_value 0 r1 = unat r1"
  by (simp add: pair_value_def)

lemma pair_value_eq_0: "pair_value r0 r1 = 0 \<longleftrightarrow> r0 = 0 \<and> r1 = 0"
  by (auto simp: pair_value_def unat_eq_0)

lemma uint_pair: "uint (word_cat r0 r1 :: u32) = int (pair_value r0 r1)"
proof -
  have "uint (word_cat r0 r1 :: u32) = (uint r1 + uint r0 * 65536) mod 4294967296"
    unfolding word_cat_eq' uint_word_of_int concat_bit_eq push_bit_eq_mult
    using uint_lt2p [of r1] by (simp add: take_bit_eq_mod)
  also have "\<dots> = uint r1 + uint r0 * 65536"
    using uint_lt2p [of r0] uint_lt2p [of r1] by simp
  finally show ?thesis by (simp add: pair_value_def)
qed

lemma sdiv_nat: "int a sdiv int b = int (a div b)"
  by (cases "a = 0"; cases "b = 0") (simp_all add: signed_divide_int_def sgn_if zdiv_int)

lemma smod_nat: "int a smod int b = int (a mod b)"
  by (cases "a = 0"; cases "b = 0") (simp_all add: signed_modulo_int_def sgn_if zmod_int)

lemma sint_word_small:
  assumes "unat (w :: u16) < 32768"
  shows "sint w = int (unat w)"
proof -
  have "int (unat w) < int 32768" using assms by (simp only: of_nat_less_iff)
  moreover have "- (2 ^ 15) \<le> uint w" by (rule order.trans [OF _ uint_ge_0]) simp
  ultimately show ?thesis by (simp add: sint_uint signed_take_bit_int_eq_self)
qed

lemma div_pair_pos:
  assumes "0 < unat d" and "unat d < 32768" and "pair_value r0 r1 div unat d < 32768"
    and "unat r0 < 32768"
  shows "div_pair r0 r1 d = (of_nat (pair_value r0 r1 div unat d), of_nat (pair_value r0 r1 mod unat d))"
proof -
  have "pair_value r0 r1 < 2147483648"
    using assms(4) unat_lt2p_16 [of r1] by (simp add: pair_value_def)
  then have n: "sint (word_cat r0 r1 :: u32) = int (pair_value r0 r1)"
    by (simp add: sint_uint uint_pair signed_take_bit_int_eq_self)
  have d: "sint d = int (unat d)" using assms(2) by (rule sint_word_small)
  have d0: "uint d \<noteq> 0" using assms(1) by (auto simp: uint_0_iff)
  have q: "int (pair_value r0 r1) sdiv int (unat d) = int (pair_value r0 r1 div unat d)"
    "int (pair_value r0 r1) smod int (unat d) = int (pair_value r0 r1 mod unat d)"
    using assms(1) by (simp_all only: sdiv_nat smod_nat)
  show ?thesis using assms(3) d0 by (simp only: div_pair_def Let_def n d q) simp
qed

lemma div_mod_of: "n = a * b + c \<Longrightarrow> c < b \<Longrightarrow> n div b = a \<and> n mod b = (c :: nat)"
  by simp

text \<open>The quotient of a pair that may need all of its low word is built in two halves.\<close>

lemma compute_step_div:
  assumes b: "unat r2 \<in> {8, 10, 16}" and step: "compute_step r2 r4 r5 = (h, l, d)"
  shows "pair_value h l = pair_value r4 r5 div unat r2" and "unat d = pair_value r4 r5 mod unat r2"
proof -
  let ?b = "unat r2"
  define r where "r = unat r4 mod ?b"
  define q where "q = unat r4 div ?b"
  have rb: "r < ?b" "0 < ?b" "?b < 32768" "q < 32768" "q < 65536"
    using b unat_lt2p_16 [of r4] by (auto simp: r_def q_def)
  have r4: "unat r4 = q * ?b + r" by (simp add: r_def q_def)
  have first: "(if r4 = 0 then (r4, 0) else div_pair 0 r4 r2) = (of_nat q, of_nat r)"
  proof (cases "r4 = 0")
    case True
    then show ?thesis by (simp add: r_def q_def)
  next
    case False
    with rb show ?thesis using div_pair_pos [of r2 0 r4] by (simp add: q_def r_def)
  qed
  define n where "n = r * 65536 + unat r5"
  have rr: "unat (of_nat r :: u16) = r" using rb b by (auto simp: unat_of_nat)
  have n: "pair_value (of_nat r) r5 = n" by (simp add: pair_value_def n_def rr)
  have two: "unat (r2 + r2) = 2 * ?b" using b by (auto simp: unat_word_ariths)
  have nb: "n < ?b * 65536" using rb unat_lt2p_16 [of r5] by (auto simp: n_def)
  then have "n div (2 * ?b) < 32768" using rb by (simp add: less_mult_imp_div_less)
  then have second: "div_pair (of_nat r) r5 (r2 + r2) = (of_nat (n div (2 * ?b)), of_nat (n mod (2 * ?b)))"
    using div_pair_pos [of "r2 + r2" "of_nat r" r5, unfolded n two rr] b rb by auto
  define q2 m where "q2 = n div (2 * ?b)" and "m = n mod (2 * ?b)"
  have m: "m < 2 * ?b" "q2 < 32768" using rb \<open>n div (2 * ?b) < 32768\<close> by (simp_all add: q2_def m_def)
  have n_eq: "n = q2 * (2 * ?b) + m" unfolding q2_def m_def by (rule div_mult_mod_eq [symmetric])
  have um: "unat (of_nat m :: u16) = m" "unat (of_nat q2 :: u16) = q2"
    using m b by (auto simp: unat_of_nat)
  have cmp: "sint (of_nat m :: u16) < sint r2 \<longleftrightarrow> m < ?b"
  proof -
    have "sint (of_nat m :: u16) = int m" using m b um by (subst sint_word_small) auto
    moreover have "sint r2 = int ?b" using b by (intro sint_word_small) auto
    ultimately show ?thesis by (simp only: of_nat_less_iff)
  qed
  have val: "pair_value r4 r5 = q * 65536 * ?b + n"
    by (simp add: pair_value_def r4 n_def algebra_simps)
  have vd: "pair_value r4 r5 div ?b = q * 65536 + n div ?b" "pair_value r4 r5 mod ?b = n mod ?b"
    using rb by (simp_all add: val)
  have res: "(h, l, d) = (if m < ?b then (of_nat q, of_nat q2 + of_nat q2, of_nat m)
      else (of_nat q, of_nat q2 + of_nat q2 + 1, of_nat m - r2))"
    using step unfolding compute_step_def first Let_def prod.case second cmp
      q2_def [symmetric] m_def [symmetric] by simp
  have uq: "unat (of_nat q :: u16) = q" using rb by (simp add: unat_of_nat)
  have u2: "unat (of_nat q2 + of_nat q2 :: u16) = 2 * q2"
    "unat (of_nat q2 + of_nat q2 + 1 :: u16) = 2 * q2 + 1"
    using m um(2) by (simp_all add: unat_word_ariths)
  have done_step: "pair_value h l = pair_value r4 r5 div ?b \<and> unat d = pair_value r4 r5 mod ?b"
  proof (cases "m < ?b")
    case True
    have "n = 2 * q2 * ?b + m" by (simp add: n_eq)
    with True have "n div ?b = 2 * q2" "n mod ?b = m"
      using rb by simp_all
    with True res u2 uq um rb show ?thesis
      by (simp add: vd pair_value_def [of "of_nat q"])
  next
    case False
    then have "n = (2 * q2 + 1) * ?b + (m - ?b)" "m - ?b < ?b" using m by (simp_all add: n_eq algebra_simps)
    then have "n div ?b = 2 * q2 + 1" "n mod ?b = m - ?b" using div_mod_of by blast+
    moreover have "unat (of_nat m - r2) = m - ?b" using False um by (subst unat_sub) (simp_all add: word_le_nat_alt)
    ultimately show ?thesis using False res u2 uq um rb
      by (simp add: vd pair_value_def [of "of_nat q"])
  qed
  show "pair_value h l = pair_value r4 r5 div unat r2" and "unat d = pair_value r4 r5 mod unat r2"
    using done_step by simp_all
qed

lemma digit_text_hex:
  assumes "unat d < 16"
  shows "digit_text d = ''0123456789abcdef'' ! unat d"
proof -
  have "\<forall>k\<in>set [0..<16]. digit_text (of_nat k) = ''0123456789abcdef'' ! k" by code_simp
  from bspec [OF this, of "unat d"] show ?thesis using assms by (simp add: unsigned_ucast_eq ucast_id)
qed

lemma compute_digits_numeral:
  assumes b: "unat r2 \<in> {8, 10, 16}"
  shows "compute_digits r2 r4 r5 = Some (numeral_text (unat r2) (pair_value r4 r5))"
proof (induction "pair_value r4 r5" arbitrary: r4 r5 rule: less_induct)
  case less
  obtain h l d where step: "compute_step r2 r4 r5 = (h, l, d)" by (metis prod_cases3)
  note s = compute_step_div [OF b step]
  have small: "unat d < unat r2" "unat r2 \<le> 16" "2 \<le> unat r2" using s(2) b by auto
  then have "digit_text d = ''0123456789abcdef'' ! (pair_value r4 r5 mod unat r2)"
    using digit_text_hex [of d] by (metis s(2) order_less_le_trans)
  moreover have "l \<noteq> 0 \<or> h \<noteq> 0 \<longleftrightarrow> unat r2 \<le> pair_value r4 r5"
    using pair_value_eq_0 [of h l] s(1) small by (auto simp: div_eq_0_iff)
  moreover have "pair_value h l < pair_value r4 r5" if "unat r2 \<le> pair_value r4 r5"
    using that small by (simp add: s(1))
  ultimately show ?case
    using less [of h l] small s(1)
    by (simp add: compute_digits.simps [of r2 r4 r5] step numeral_text.simps [of _ "pair_value r4 r5"])
qed

lemma compute_numeral:
  assumes "unat r2 \<in> {8, 10, 16}"
  shows "compute r2 ndigit buf r0 r1 =
    Some (buf @ (if pair_value r0 r1 \<noteq> 0 \<and> ndigit \<noteq> 0 then ''0'' else []) @
      numeral_text (unat r2) (pair_value r0 r1))"
  using pair_value_eq_0 [of r0 r1] by (auto simp: compute_def compute_digits_numeral [OF assms])

section \<open>What a format shows\<close>

text \<open>The conversions, each with its arguments; the high word of a long comes first.\<close>

datatype item =
    Dec u16 | Uns u16 | Oct u16 | Hex u16
  | LDec u16 u16 | LUns u16 u16 | LOct u16 u16 | LHex u16 u16
  | Chr u16 | Str u16

record field_spec =
  left_adjusted :: bool
  zero_filled :: bool
  field_width :: nat
  precision :: nat
  item :: item

fun letters :: "item \<Rightarrow> string" where
  "letters (Dec w) = ''d''" | "letters (Uns w) = ''u''"
| "letters (Oct w) = ''o''" | "letters (Hex w) = ''x''"
| "letters (LDec h l) = ''ld''" | "letters (LUns h l) = ''lu''"
| "letters (LOct h l) = ''lo''" | "letters (LHex h l) = ''lx''"
| "letters (Chr w) = ''c''" | "letters (Str p) = ''s''"

fun item_args :: "item \<Rightarrow> u16 list" where
  "item_args (Dec w) = [w]" | "item_args (Uns w) = [w]"
| "item_args (Oct w) = [w]" | "item_args (Hex w) = [w]"
| "item_args (LDec h l) = [h, l]" | "item_args (LUns h l) = [h, l]"
| "item_args (LOct h l) = [h, l]" | "item_args (LHex h l) = [h, l]"
| "item_args (Chr w) = [w]" | "item_args (Str p) = [p]"

definition directive_text :: "field_spec \<Rightarrow> string" where
  "directive_text d =
     ''%'' @ (if left_adjusted d then ''-'' else []) @ (if zero_filled d then ''0'' else []) @
     (if field_width d = 0 then [] else numeral_text 10 (field_width d)) @
     (if precision d = 0 then [] else CHR ''.'' # numeral_text 10 (precision d)) @ letters (item d)"

definition unsigned_text :: "nat \<Rightarrow> nat \<Rightarrow> nat \<Rightarrow> string" where
  "unsigned_text b p n = (if n \<noteq> 0 \<and> p \<noteq> 0 then ''0'' else []) @ numeral_text b n"

definition signed_text :: "nat \<Rightarrow> int \<Rightarrow> string" where
  "signed_text p v = (if v < 0 then ''-'' else []) @ unsigned_text 10 p (nat \<bar>v\<bar>)"

fun item_text :: "(u16 \<Rightarrow> char) \<Rightarrow> nat \<Rightarrow> item \<Rightarrow> string" where
  "item_text mem p (Dec w) = signed_text p (sint w)"
| "item_text mem p (Uns w) = unsigned_text 10 p (unat w)"
| "item_text mem p (Oct w) = unsigned_text 8 p (unat w)"
| "item_text mem p (Hex w) = unsigned_text 16 p (unat w)"
| "item_text mem p (LDec h l) = signed_text p (sint (word_cat h l :: u32))"
| "item_text mem p (LUns h l) = unsigned_text 10 p (pair_value h l)"
| "item_text mem p (LOct h l) = unsigned_text 8 p (pair_value h l)"
| "item_text mem p (LHex h l) = unsigned_text 16 p (pair_value h l)"
| "item_text mem p (Chr w) = [char_of (unat w mod 256)]"
| "item_text mem p (Str r) =
     takeWhile (\<lambda>ch. ch \<noteq> CHR 0x00)
       (map (\<lambda>i. mem (r + of_nat i)) [0..<if p = 0 then 65536 else p])"

text \<open>Zeros go behind the sign; a character or a string is never filled with zeros.\<close>

definition fill_of :: "field_spec \<Rightarrow> char" where
  "fill_of d = (if zero_filled d \<and> (case item d of Chr _ \<Rightarrow> False | Str _ \<Rightarrow> False | _ \<Rightarrow> True)
     then CHR ''0'' else CHR '' '')"

definition adjusted :: "bool \<Rightarrow> char \<Rightarrow> nat \<Rightarrow> string \<Rightarrow> string" where
  "adjusted left z width s =
     (let pad = replicate (width - length s) z
      in if left then s @ pad
         else if z = CHR ''0'' \<and> s \<noteq> [] \<and> hd s = CHR ''-'' then CHR ''-'' # pad @ tl s
         else pad @ s)"

definition field_text :: "(u16 \<Rightarrow> char) \<Rightarrow> field_spec \<Rightarrow> string" where
  "field_text mem d =
     adjusted (left_adjusted d) (fill_of d) (field_width d) (item_text mem (precision d) (item d))"

definition fits :: "(u16 \<Rightarrow> char) \<Rightarrow> field_spec \<Rightarrow> bool" where
  "fits mem d \<longleftrightarrow>
     field_width d < 32768 \<and> precision d < 65536 \<and>
     length (item_text mem (precision d) (item d)) < 32768"

text \<open>Text between two directives.\<close>

definition plain :: "string \<Rightarrow> bool" where
  "plain s \<longleftrightarrow> CHR ''%'' \<notin> set s \<and> CHR 0x00 \<notin> set s \<and> length s \<le> 300"

subsection \<open>Reading a directive\<close>

lemma gnum_numeral: "gnum (numeral_text 10 n @ f) r4 0 = gnum f r4 (of_nat n)"
proof (induction n arbitrary: f rule: less_induct)
  case (less n)
  have digit: "gnum (''0123456789abcdef'' ! k # f) r4 w = gnum f r4 (w * 10 + of_nat k)"
    if "k < 10" for k w
    using that by (auto simp: less_Suc_eq numeral_eq_Suc)
  show ?case
  proof (cases "n < 10")
    case True
    then show ?thesis by (simp add: numeral_text.simps [of 10 n] digit del: gnum.simps)
  next
    case False
    have "(of_nat (n div 10) * 10 + of_nat (n mod 10) :: u16) = of_nat (n div 10 * 10 + n mod 10)"
      by (simp only: of_nat_add of_nat_mult of_nat_numeral)
    with False less [of "n div 10"] show ?thesis
      by (simp add: numeral_text.simps [of 10 n] digit del: gnum.simps)
  qed
qed

lemma numeral_text_head:
  assumes "0 < n"
  shows "\<exists>ch s. numeral_text 10 n = ch # s \<and> ch \<noteq> CHR ''0'' \<and> ch \<noteq> CHR ''-''"
  using assms
proof (induction n rule: less_induct)
  case (less n)
  have digit: "''0123456789abcdef'' ! k \<noteq> CHR ''0'' \<and> ''0123456789abcdef'' ! k \<noteq> CHR ''-''"
    if "k < 10" "0 < k" for k
    using that by (auto simp: less_Suc_eq numeral_eq_Suc)
  show ?case
  proof (cases "n < 10")
    case True
    with less.prems digit show ?thesis by (simp add: numeral_text.simps [of 10 n])
  next
    case False
    then have "n div 10 < n" "0 < n div 10" by (auto simp: div_greater_zero_iff)
    from less.IH [OF this] False show ?thesis by (auto simp: numeral_text.simps [of 10 n])
  qed
qed

lemma numeral_text_nonempty: "numeral_text b n \<noteq> []"
  by (subst numeral_text.simps) simp

text \<open>A character that ends a number.\<close>

definition ends_number :: "char \<Rightarrow> bool" where
  "ends_number ch \<longleftrightarrow>
     ch \<noteq> CHR ''*'' \<and> \<not> (0x30 \<le> (of_char ch :: nat) \<and> (of_char ch :: nat) \<le> 0x39)"

lemma gnum_end: "ends_number ch \<Longrightarrow> gnum (ch # f) r4 w = Some (w, ch, f, r4)"
  by (auto simp: ends_number_def)

lemma gnum_width:
  assumes "ends_number ch"
  shows "gnum ((if n = 0 then [] else numeral_text 10 n) @ ch # f) r4 0 = Some (of_nat n, ch, f, r4)"
  using assms by (simp add: gnum_numeral gnum_end del: gnum.simps)

definition flags_text :: "field_spec \<Rightarrow> string" where
  "flags_text d = (if left_adjusted d then ''-'' else []) @ (if zero_filled d then ''0'' else [])"

lemma directive_parse:
  assumes ch: "ends_number ch" "ch \<noteq> CHR ''.''" "ch \<noteq> CHR ''-''" "ch \<noteq> CHR ''0''"
  shows "directive mem (flags_text d @ (if field_width d = 0 then [] else numeral_text 10 (field_width d)) @
      (if precision d = 0 then [] else CHR ''.'' # numeral_text 10 (precision d)) @ ch # f) r4 =
    map_option (\<lambda>field.
        let r1 = (if sint (shown_count field) \<le> sint (of_nat (field_width d) :: u16)
                  then of_nat (field_width d) - shown_count field else 0)
        in (if left_adjusted d then r1 else - r1, field))
      (convert mem ch (of_nat (precision d)) (if zero_filled d then CHR ''0'' else CHR '' '') f r4)"
proof -
  let ?w = "if field_width d = 0 then [] else numeral_text 10 (field_width d)"
  let ?p = "if precision d = 0 then [] else CHR ''.'' # numeral_text 10 (precision d)"
  have dot: "ends_number (CHR ''.'')" by (simp add: ends_number_def)
  have head: "\<exists>c t. ?w @ ?p @ ch # f = c # t \<and> c \<noteq> CHR ''0'' \<and> c \<noteq> CHR ''-''"
    using numeral_text_head [of "field_width d"] ch by auto
  have g: "gnum (?w @ ?p @ ch # f) r4 0 = Some (of_nat (field_width d),
      if precision d = 0 then ch else CHR ''.'',
      if precision d = 0 then f else numeral_text 10 (precision d) @ ch # f, r4)"
    using gnum_width [OF ch(1)] gnum_width [OF dot]
    by (cases "precision d = 0") (simp_all del: gnum.simps)
  have g0: "gnum (CHR ''0'' # s) r4 0 = gnum s r4 0" for s by simp
  have p: "gnum (numeral_text 10 (precision d) @ ch # f) r4 0 = Some (of_nat (precision d), ch, f, r4)"
    using gnum_end [OF ch(1)] by (simp add: gnum_numeral del: gnum.simps)
  obtain c t where ct: "?w @ ?p @ ch # f = c # t" "c \<noteq> CHR ''0''" "c \<noteq> CHR ''-''" using head by blast
  note g' = g [unfolded ct(1)]
  show ?thesis
    unfolding flags_text_def append_assoc ct(1) using ct(2,3) ch p
    by (cases "left_adjusted d"; cases "zero_filled d"; cases "precision d = 0")
      (simp_all add: directive_def g0 g' Let_def map_option_case bind_eq_Some_conv option.case_eq_if
         del: gnum.simps split: bind_splits)
qed

subsection \<open>Converting an argument\<close>

lemma shifted_mod: "0 \<le> u \<Longrightarrow> u < 2 * m \<Longrightarrow>
    (u + m) mod (2 * m) - m = (if u < m then u else u - 2 * m)" for u m :: int
proof (cases "u < m")
  case False
  moreover assume "0 \<le> u" "u < 2 * m"
  ultimately have "(u - m) mod (2 * m) = u - m" by (intro mod_pos_pos_trivial) auto
  then have "(u - m + 2 * m) mod (2 * m) = u - m" by (simp only: mod_add_self2)
  then show ?thesis using False by (simp add: algebra_simps)
qed simp

lemma sint_word: "sint (w :: u16) = (if uint w < 32768 then uint w else uint w - 65536)"
  using shifted_mod [of "uint w" 32768] uint_lt2p [of w]
  by (simp add: sint_uint signed_take_bit_eq_take_bit_shift take_bit_eq_mod)

lemma sint_long: "sint (w :: u32) = (if uint w < 2147483648 then uint w else uint w - 4294967296)"
  using shifted_mod [of "uint w" 2147483648] uint_lt2p [of w]
  by (simp add: sint_uint signed_take_bit_eq_take_bit_shift take_bit_eq_mod)

lemma uint_minus: "w \<noteq> 0 \<Longrightarrow> uint (- w :: u16) = 65536 - uint w"
proof -
  assume "w \<noteq> 0"
  then have "0 < uint w" by (simp add: uint_0_iff order.strict_iff_order)
  then have "(65536 - uint w) mod 65536 = 65536 - uint w"
    using uint_lt2p [of w] by (intro mod_pos_pos_trivial) simp_all
  then show ?thesis by (simp add: uint_word_ariths)
qed

lemma sint_pair:
  "sint (word_cat h l :: u32) =
    (if uint h < 32768 then int (pair_value h l) else int (pair_value h l) - 4294967296)"
proof (cases "uint h < 32768")
  case True
  then show ?thesis using uint_lt2p [of l] by (simp add: sint_long uint_pair pair_value_def)
next
  case False
  then have "\<not> uint h * 65536 + uint l < 2147483648" using uint_ge_0 [of l] by linarith
  with False show ?thesis by (simp add: sint_long uint_pair pair_value_def)
qed

lemma neg_pair_value:
  assumes "sint h < 0" and "neg_pair h l = (h', l')"
  shows "int (pair_value h' l') = - sint (word_cat h l :: u32)"
proof -
  have h: "32768 \<le> uint h" "h \<noteq> 0"
    using assms(1) uint_ge_0 [of h] by (auto simp: sint_word split: if_splits)
  have eqs: "h' = - h - (if l = 0 then 0 else 1)" "l' = - l" using assms(2) by (auto simp: neg_pair_def)
  show ?thesis
  proof (cases "l = 0")
    case True
    with h eqs show ?thesis by (simp add: sint_pair pair_value_def uint_minus)
  next
    case False
    have "uint (- h - 1) = uint (- h) - 1"
      using uint_lt2p [of h] by (subst uint_sub_if') (simp add: uint_minus [OF h(2)])
    with False h eqs show ?thesis by (simp add: sint_pair pair_value_def uint_minus)
  qed
qed

lemma neg_word_value:
  assumes "sint w < 0" and "neg_pair (- 1) w = (h', l')"
  shows "h' = 0 \<and> int (unat l') = - sint w"
  using assms uint_ge_0 [of w] by (auto simp: sint_word neg_pair_def uint_minus split: if_splits)

lemma compute_unsigned:
  assumes "unat r2 \<in> {8, 10, 16}" and "p < 65536"
  shows "compute r2 (of_nat p) buf r0 r1 = Some (buf @ unsigned_text (unat r2) p (pair_value r0 r1))"
proof -
  have "(of_nat p :: u16) = 0 \<longleftrightarrow> p = 0"
    using assms(2) by (simp add: word_unat_eq_iff unat_of_nat)
  then show ?thesis by (simp add: compute_numeral [OF assms(1)] unsigned_text_def)
qed

lemma string_span_takeWhile:
  "string_span mem p n = length (takeWhile (\<lambda>ch. ch \<noteq> CHR 0x00) (map (\<lambda>i. mem (p + of_nat i)) [0..<n]))"
proof (induction n arbitrary: p)
  case (Suc n)
  have "map (\<lambda>i. mem (p + of_nat i)) [0..<Suc n] = mem p # map (\<lambda>i. mem (p + 1 + of_nat i)) [0..<n]"
    by (simp add: upt_conv_Cons map_Suc_upt [symmetric] add.assoc del: upt_Suc)
  with Suc [of "p + 1"] show ?case by (simp del: upt_Suc)
qed simp

lemma takeWhile_upt:
  "length (takeWhile P (map g [0..<n])) = k \<Longrightarrow> takeWhile P (map g [0..<n]) = map g [0..<k]"
  by (metis takeWhile_eq_take take_map take_upt length_map length_upt length_takeWhile_le add_0 diff_zero)

lemma compute_signed:
  assumes "p < 65536" and "int (pair_value h l) = - v" and "v < 0"
  shows "compute 10 (of_nat p) ''-'' h l = Some (signed_text p v)"
proof -
  have "pair_value h l = nat \<bar>v\<bar>" using assms(2,3) by linarith
  then show ?thesis
    using compute_unsigned [OF _ assms(1), of 10 "''-''" h l] assms(3) by (simp add: signed_text_def)
qed

lemma compute_nonneg:
  "p < 65536 \<Longrightarrow> 0 \<le> v \<Longrightarrow> int (pair_value h l) = v \<Longrightarrow>
   compute 10 (of_nat p) [] h l = Some (signed_text p v)"
  using compute_unsigned [of 10 p "[]" h l] by (auto simp: signed_text_def)

text \<open>The conversions that fill \<open>buffer\<close>.\<close>

fun item_handler :: "item \<Rightarrow> handler" where
  "item_handler (Dec w) = h_decimal" | "item_handler (Uns w) = h_unsigned"
| "item_handler (Oct w) = h_octal" | "item_handler (Hex w) = h_hex"
| "item_handler (LDec h l) = h_long" | "item_handler (LUns h l) = h_lunsigned"
| "item_handler (LOct h l) = h_loct" | "item_handler (LHex h l) = h_lhex"
| "item_handler (Chr w) = h_charac" | "item_handler (Str p) = h_string"

lemma convert_number_item:
  assumes "p < 65536" and "\<And>r. i \<noteq> Str r"
  shows "convert_number (item_handler i) (of_nat p) (item_args i @ r4) = Some (item_text mem p i, r4)"
proof (cases i)
  case (Dec w)
  show ?thesis
  proof (cases "sint w < 0")
    case True
    obtain h l where hl: "neg_pair (- 1) w = (h, l)" by (cases "neg_pair (- 1) w")
    with neg_word_value [OF True hl] have "int (pair_value h l) = - sint w" by simp
    with Dec True hl show ?thesis using compute_signed [OF assms(1) _ True] by simp
  next
    case False
    then have pv: "int (pair_value 0 w) = sint w"
      using uint_lt2p [of w] by (auto simp: sint_word split: if_splits)
    have "compute 10 (of_nat p) [] 0 w = Some (signed_text p (sint w))"
      using False by (intro compute_nonneg assms(1) pv) simp
    with False show ?thesis by (simp add: Dec)
  qed
next
  case (LDec h l)
  show ?thesis
  proof (cases "sint h < 0")
    case True
    obtain h' l' where hl: "neg_pair h l = (h', l')" by (cases "neg_pair h l")
    have "sint (word_cat h l :: u32) < 0"
      using True uint_lt2p [of h] uint_lt2p [of l]
      by (auto simp: sint_pair sint_word pair_value_def split: if_splits)
    with LDec True hl show ?thesis
      using compute_signed [OF assms(1) neg_pair_value [OF True hl]] by simp
  next
    case False
    then have "int (pair_value h l) = sint (word_cat h l :: u32)"
      using uint_lt2p [of h] by (auto simp: sint_pair sint_word split: if_splits)
    moreover from this have "0 \<le> sint (word_cat h l :: u32)" by linarith
    ultimately show ?thesis using LDec False compute_nonneg [OF assms(1)] by simp
  qed
qed (use assms compute_unsigned [OF _ assms(1)] in simp_all)


lemma item_letter:
  assumes "letters i = ch # ls" and "\<And>r. i \<noteq> Str r"
  shows "\<exists>k. map_of swtab ch = Some k \<and> k \<noteq> h_string \<and>
    (if k = h_longorunsg then long_letter (ls @ f) else Some (k, ls @ f)) = Some (item_handler i, f)"
proof -
  have eqs: "ch = hd (letters i)" "ls = tl (letters i)" using assms(1) by auto
  show ?thesis unfolding eqs by (cases i) (simp_all add: swtab_def assms(2))
qed

lemma convert_buffered:
  assumes "map_of swtab r0 = Some k" and "k \<noteq> h_string"
  shows "convert mem r0 ndigit zfill formp r4 = do {
    (h, formp) \<leftarrow> (if k = h_longorunsg then long_letter formp else Some (k, formp));
    (buf, r4) \<leftarrow> convert_number h ndigit r4;
    Some (prbuf buf (if h = h_charac then CHR '' '' else zfill) formp r4) }"
  using assms by (cases k) (simp_all add: convert_def)

text \<open>A directive in full: the letter after the numbers, and what it converts.\<close>

lemma convert_item:
  assumes fits: "fits mem d" and letters: "letters (item d) = ch # ls"
  defines "t \<equiv> item_text mem (precision d) (item d)"
  obtains b where
    "convert mem ch (of_nat (precision d)) (if zero_filled d then CHR ''0'' else CHR '' '') (ls @ f)
      (item_args (item d) @ r4) = Some (Converted (of_nat (length t)) b (fill_of d) (f, r4))"
    "b \<noteq> []" "take (length t) b = t"
proof (cases "\<exists>p. item d = Str p")
  case False
  let ?b = "item_text mem (precision d) (item d)"
  have n: "convert_number (item_handler (item d)) (of_nat (precision d)) (item_args (item d) @ r4) =
      Some (?b, r4)"
    using fits False by (intro convert_number_item) (auto simp: fits_def)
  have b: "?b \<noteq> []"
    using False by (cases "item d")
      (auto simp: signed_text_def unsigned_text_def numeral_text_nonempty)
  have "convert mem ch (of_nat (precision d)) (if zero_filled d then CHR ''0'' else CHR '' '') (ls @ f)
      (item_args (item d) @ r4) = Some (Converted (of_nat (length ?b)) ?b (fill_of d) (f, r4))"
  proof -
    obtain k where k: "map_of swtab ch = Some k" "k \<noteq> h_string"
        "(if k = h_longorunsg then long_letter (ls @ f) else Some (k, ls @ f)) =
         Some (item_handler (item d), f)"
      using item_letter [OF letters] False by blast
    have "item_handler (item d) = h_charac \<longleftrightarrow> (\<exists>w. item d = Chr w)" by (cases "item d") auto
    then have "(if item_handler (item d) = h_charac then CHR '' ''
        else if zero_filled d then CHR ''0'' else CHR '' '') = fill_of d"
      using False by (cases "item d") (auto simp: fill_of_def)
    with n show ?thesis unfolding convert_buffered [OF k(1,2)] k(3) by (simp add: prbuf_def)
  qed
  then show thesis using b that by (simp add: t_def)
next
  case True
  then obtain p where p: "item d = Str p" by blast
  let ?n = "if precision d = 0 then 65536 else precision d"
  have lim: "span_limit (of_nat (precision d)) = ?n"
    using fits by (auto simp: fits_def span_limit_def unat_of_nat word_unat_eq_iff)
  have len: "string_span mem p ?n = length t"
    by (simp only: string_span_takeWhile t_def p item_text.simps)
  have small: "length t < 32768" using fits by (simp add: fits_def t_def)
  let ?b = "bytes_from mem p (of_nat (length t))"
  have sint: "sint (of_nat (length t) :: u16) = int (length t)"
    using small by (simp add: sint_word_small unat_of_nat)
  have "t = map (\<lambda>i. mem (p + of_nat i)) [0..<length t]"
    unfolding t_def p item_text.simps by (rule takeWhile_upt) (rule refl)
  moreover have "take (length t) ?b = map (\<lambda>i. mem (p + of_nat i)) [0..<length t]"
    by (simp add: bytes_from_def sint take_map take_upt del: upt_Suc)
  ultimately have "take (length t) ?b = t" by simp
  moreover have "?b \<noteq> []" by (simp add: bytes_from_def)
  moreover have "convert mem ch (of_nat (precision d)) (if zero_filled d then CHR ''0'' else CHR '' '') (ls @ f)
      (item_args (item d) @ r4) = Some (Converted (of_nat (length t)) ?b (fill_of d) (f, r4))"
    using letters by (auto simp: p convert_def swtab_def Let_def lim len fill_of_def)
  ultimately show thesis by (intro that)
qed

subsection \<open>Showing it\<close>

lemma crlf_append: "crlf (s @ t) = crlf s @ crlf t"
  by (simp add: crlf_def)

lemma crlf_replicate: "z \<noteq> NL \<Longrightarrow> crlf (replicate n z) = replicate n z"
  by (induction n) (simp_all add: crlf_def)

lemma nat_plus: "nat (int k + 1) = Suc k" "nat (1 + int k) = Suc k" "nat (2 + int k) = Suc (Suc k)"
  by linarith+

lemma strout_shows:
  assumes ready: "txline c = []" and b: "b \<noteq> []" "take (length t) b = t" and z: "z = CHR '' '' \<or> z = CHR ''0''"
    and minus: "z = CHR ''0'' \<Longrightarrow> hd b = CHR ''-'' \<Longrightarrow> \<exists>e u. t = CHR ''-'' # e # u \<and> e \<noteq> CHR ''-''"
  shows "strout (int (length t)) b (if left then int n else - int n) z c =
    Ret () (shows_text c (crlf (adjusted left z (length t + n) t)))"
proof -
  have len: "length t \<le> length b" by (metis b(2) length_take min.cobounded1)
  have zn: "z \<noteq> NL" using z by auto
  show ?thesis
  proof (cases "left \<or> n = 0")
    case True
    then have "adjusted left z (length t + n) t = t @ replicate n z"
      by (cases t) (auto simp: adjusted_def Let_def)
    with True show ?thesis
      using ready len b(2)
      by (auto simp: strout_def strout_body_ready strout_right_ready crlf_append)
  next
    case False
    then obtain k where k: "n = Suc k" "\<not> left" by (cases n) auto
    show ?thesis
    proof (cases "z = CHR ''0'' \<and> hd b = CHR ''-''")
      case True
      then obtain e u where t: "t = CHR ''-'' # e # u" "e \<noteq> CHR ''-''" using minus by blast
      then obtain u' where bt: "b = CHR ''-'' # e # u'" "take (length u) u' = u"
        using b(2) by (cases b; cases "tl b") auto
      then have u': "length u \<le> length u'" by (metis length_take min.cobounded1)
      have "crlf (CHR ''-'' # replicate n (CHR ''0'') @ e # u) =
          (CHR ''-'' # replicate n (CHR ''0'')) @ crlf (e # u)"
        using crlf_Cons [of "CHR ''-''"] crlf_replicate [of "CHR ''0''"] by (simp add: crlf_append crlf_def)
      then show ?thesis
        using strout_left_minus [OF ready bt(1) t(2), of k "int (length t)"] ready True u' k t bt
        by (simp add: strout_def strout_body_ready strout_right_ready adjusted_def Let_def nat_plus
            del: strout_left.simps strout_body.simps)
    next
      case no_minus: False
      have "\<not> (z = CHR ''0'' \<and> t \<noteq> [] \<and> hd t = CHR ''-'')"
        using no_minus b by (cases t; cases b) auto
      then have adj: "adjusted False z (length t + n) t = replicate n z @ t"
        using k by (auto simp: adjusted_def Let_def)
      show ?thesis
        using strout_left_plain [OF ready b(1), of z n "int (length t)"] no_minus ready len b(2) False
        by (auto simp: strout_def strout_body_ready strout_right_ready adj crlf_append simp del: strout_left.simps)
    qed
  qed
qed

lemma numeral_text_value: "text_value 10 (numeral_text 10 n) = n"
proof (induction n rule: less_induct)
  case (less n)
  have digit: "digit_value (''0123456789abcdef'' ! k) = k" if "k < 10" for k
    using that by (auto simp: less_Suc_eq numeral_eq_Suc digit_value_def)
  have one: "text_value 10 [ch] = digit_value ch" for ch
    using text_value_snoc [of 10 "[]" ch] by simp
  show ?case
    using less [of "n div 10"] digit [of n] digit [of "n mod 10"]
    by (simp add: numeral_text.simps [of 10 n] one)
qed

lemma numeral_text_minus: "b \<le> 16 \<Longrightarrow> 2 \<le> b \<Longrightarrow> hd (numeral_text b n) \<noteq> CHR ''-''"
proof (induction b n rule: numeral_text.induct)
  case (1 b n)
  have digit: "''0123456789abcdef'' ! k \<noteq> CHR ''-''" if "k < 16" for k
    using that by (auto simp: less_Suc_eq numeral_eq_Suc)
  show ?case
  proof (cases "n < b")
    case True
    with 1 digit [of n] show ?thesis by (simp add: numeral_text.simps [of b n])
  next
    case False
    with 1 show ?thesis
      by (simp add: numeral_text.simps [of b n] numeral_text_nonempty div_greater_zero_iff)
  qed
qed

lemma fits_width:
  assumes "fits mem d"
  defines "t \<equiv> item_text mem (precision d) (item d)" and "w \<equiv> of_nat (field_width d) :: u16"
  shows "sint (if sint (of_nat (length t) :: u16) \<le> sint w then w - of_nat (length t) else 0) =
      int (field_width d - length t)"
    and "sint (- (if sint (of_nat (length t) :: u16) \<le> sint w then w - of_nat (length t) else 0)) =
      - int (field_width d - length t)"
    and "sint (of_nat (length t) :: u16) = int (length t)"
proof -
  have small: "sint (of_nat n :: u16) = int n" if "n < 32768" for n
    using that by (simp add: sint_word_small unat_of_nat)
  have neg: "sint (- of_nat n :: u16) = - int n" if "n < 32768" for n
  proof (cases "n = 0")
    case False
    have u: "unat (of_nat n :: u16) = n" using that by (simp add: unat_of_nat)
    then have "(of_nat n :: u16) \<noteq> 0" using False by (metis unat_0)
    moreover from u have "uint (of_nat n :: u16) = int n" by (metis uint_nat)
    ultimately show ?thesis using that by (simp add: sint_word uint_minus)
  qed simp
  have lt: "length t < 32768" "field_width d < 32768" using assms by (auto simp: fits_def)
  have eq: "(if sint (of_nat (length t) :: u16) \<le> sint w then w - of_nat (length t) else 0) =
      of_nat (field_width d - length t)"
    using lt by (auto simp: small w_def of_nat_diff)
  show "sint (if sint (of_nat (length t) :: u16) \<le> sint w then w - of_nat (length t) else 0) =
      int (field_width d - length t)"
    "sint (- (if sint (of_nat (length t) :: u16) \<le> sint w then w - of_nat (length t) else 0)) =
      - int (field_width d - length t)"
    "sint (of_nat (length t) :: u16) = int (length t)"
    unfolding eq using lt by (simp_all add: small neg)
qed

lemma show_field_item:
  assumes ready: "txline c = []" and fits: "fits mem d"
    and b: "b \<noteq> []" "take (length (item_text mem (precision d) (item d))) b = item_text mem (precision d) (item d)"
  defines "t \<equiv> item_text mem (precision d) (item d)"
  defines "r1 \<equiv> if sint (of_nat (length t) :: u16) \<le> sint (of_nat (field_width d) :: u16)
    then of_nat (field_width d) - of_nat (length t) else 0"
  shows "show_field (if left_adjusted d then r1 else - r1)
      (Converted (of_nat (length t)) b (fill_of d) r) c = Ret () (shows_text c (crlf (field_text mem d)))"
proof -
  note w = fits_width [OF fits, folded t_def, folded r1_def]
  have adj: "sint (if left_adjusted d then r1 else - r1) =
      (if left_adjusted d then int (field_width d - length t) else - int (field_width d - length t))"
    by (simp only: w if_distrib [of sint])
  have width: "adjusted l z (length t + (field_width d - length t)) t = adjusted l z (field_width d) t" for l z
    by (simp add: adjusted_def)
  have minus: "\<exists>e u. t = CHR ''-'' # e # u \<and> e \<noteq> CHR ''-''"
    if z: "fill_of d = CHR ''0''" and hd: "hd b = CHR ''-''"
  proof -
    have number: "\<not> (\<exists>w. item d = Chr w)" "\<not> (\<exists>w. item d = Str w)"
      using z by (auto simp: fill_of_def split: if_splits item.splits)
    have uns: "unsigned_text k p n \<noteq> [] \<and> hd (unsigned_text k p n) \<noteq> CHR ''-''"
      if "k \<in> {8, 10, 16}" for k p n
      using that numeral_text_minus [of k n] numeral_text_nonempty [of k n]
      by (auto simp: unsigned_text_def)
    have "t \<noteq> []" using number uns by (cases "item d") (auto simp: t_def signed_text_def)
    then have "hd t = CHR ''-''" using hd b by (cases b; cases t) (auto simp: t_def)
    then obtain p v where v: "t = signed_text p v" "v < 0"
      using number uns by (cases "item d") (auto simp: t_def signed_text_def split: if_splits)
    with uns [of 10 p "nat \<bar>v\<bar>"] show ?thesis
      by (cases "unsigned_text 10 p (nat \<bar>v\<bar>)") (auto simp: signed_text_def)
  qed
  show ?thesis
    using strout_shows [OF ready b [folded t_def] _ minus, where left = "left_adjusted d" and n = "field_width d - length t"]
    by (simp add: show_field_def adj w width field_text_def fill_of_def flip: t_def)
qed

text \<open>Text and fields in turn, text at the end.\<close>

definition format_text :: "(string \<times> field_spec) list \<Rightarrow> string \<Rightarrow> string" where
  "format_text parts end_text = concat (map (\<lambda>(s, d). s @ directive_text d) parts) @ end_text"

definition format_args :: "(string \<times> field_spec) list \<Rightarrow> u16 list" where
  "format_args parts = concat (map (\<lambda>(s, d). item_args (item d)) parts)"

definition shown_text :: "(u16 \<Rightarrow> char) \<Rightarrow> (string \<times> field_spec) list \<Rightarrow> string \<Rightarrow> string" where
  "shown_text mem parts end_text = concat (map (\<lambda>(s, d). s @ field_text mem d) parts) @ end_text"

lemma literal_text:
  "CHR ''%'' \<notin> set s \<Longrightarrow> CHR 0x00 \<notin> set s \<Longrightarrow> ch = CHR ''%'' \<or> ch = CHR 0x00 \<Longrightarrow>
   literal (s @ ch # f) = Some (s, ch = CHR 0x00, f)"
  by (induction s) auto

lemma show_literal_ready:
  "txline c = [] \<Longrightarrow> length s \<le> 300 \<Longrightarrow> show_literal s c = Ret () (shows_text c (crlf s))"
  by (simp add: show_literal_def strout_def strout_body_ready)

lemma directive_item:
  assumes "fits mem d"
  shows "\<exists>r1 field. directive mem (tl (directive_text d) @ f) (item_args (item d) @ r4) = Some (r1, field) \<and>
    left_over field = (f, r4) \<and>
    (\<forall>c. txline c = [] \<longrightarrow> show_field r1 field c = Ret () (shows_text c (crlf (field_text mem d))))"
proof -
  obtain ch ls where ls: "letters (item d) = ch # ls" by (cases "item d") auto
  have ch: "ends_number ch" "ch \<noteq> CHR ''.''" "ch \<noteq> CHR ''-''" "ch \<noteq> CHR ''0''"
    using ls by (cases "item d"; auto simp: ends_number_def)+
  obtain b where b: "convert mem ch (of_nat (precision d)) (if zero_filled d then CHR ''0'' else CHR '' '')
      (ls @ f) (item_args (item d) @ r4) =
      Some (Converted (of_nat (length (item_text mem (precision d) (item d)))) b (fill_of d) (f, r4))"
    "b \<noteq> []" "take (length (item_text mem (precision d) (item d))) b = item_text mem (precision d) (item d)"
    using convert_item [OF assms ls] by blast
  have shape: "tl (directive_text d) @ f =
      flags_text d @ (if field_width d = 0 then [] else numeral_text 10 (field_width d)) @
      (if precision d = 0 then [] else CHR ''.'' # numeral_text 10 (precision d)) @ ch # ls @ f"
    by (simp add: directive_text_def flags_text_def ls)
  let ?n = "of_nat (length (item_text mem (precision d) (item d))) :: u16"
  let ?r1 = "if sint ?n \<le> sint (of_nat (field_width d) :: u16) then of_nat (field_width d) - ?n else 0"
  have "directive mem (tl (directive_text d) @ f) (item_args (item d) @ r4) =
      Some (if left_adjusted d then ?r1 else - ?r1, Converted ?n b (fill_of d) (f, r4))"
    unfolding shape directive_parse [OF ch] b(1) by (simp only: option.map converted.sel Let_def)
  moreover have "txline c = [] \<Longrightarrow> show_field (if left_adjusted d then ?r1 else - ?r1)
      (Converted ?n b (fill_of d) (f, r4)) c = Ret () (shows_text c (crlf (field_text mem d)))" for c
    by (rule show_field_item [OF _ assms b(2,3)])
  ultimately show ?thesis by (metis converted.sel(4))
qed

text \<open>What \<open>doprnt\<close> shows, on a console that is ready.\<close>

lemma doprnt_shows:
  assumes "txline c = []" and "\<And>s d. (s, d) \<in> set parts \<Longrightarrow> plain s \<and> fits mem d" and "plain end_text"
  shows "doprnt mem (format_text parts end_text @ CHR 0x00 # f) (format_args parts @ r4) c =
    Ret () (shows_text c (crlf (shown_text mem parts end_text)))"
  using assms
proof (induction parts arbitrary: c)
  case Nil
  then show ?case
    by (simp add: doprnt.simps format_text_def shown_text_def plain_def literal_text show_literal_ready)
next
  case (Cons p parts)
  obtain s d where p: "p = (s, d)" by (cases p)
  have sd: "plain s" "fits mem d" using Cons.prems(2) [of s d] by (simp_all add: p)
  have hd: "directive_text d = CHR ''%'' # tl (directive_text d)" by (simp add: directive_text_def)
  let ?f = "format_text parts end_text @ CHR 0x00 # f"
  have lit: "literal (s @ CHR ''%'' # tl (directive_text d) @ ?f) = Some (s, False, tl (directive_text d) @ ?f)"
    using sd(1) by (simp add: literal_text plain_def)
  have split: "format_text (p # parts) end_text @ CHR 0x00 # f = s @ CHR ''%'' # tl (directive_text d) @ ?f"
    "format_args (p # parts) @ r4 = item_args (item d) @ format_args parts @ r4"
    using hd [symmetric] by (simp_all add: format_text_def format_args_def p flip: append_Cons)
  obtain r1 n b z where dir: "directive mem (tl (directive_text d) @ ?f) (item_args (item d) @ format_args parts @ r4) =
      Some (r1, Converted n b z (?f, format_args parts @ r4))"
    and shown: "\<And>c. txline c = [] \<Longrightarrow> show_field r1 (Converted n b z (?f, format_args parts @ r4)) c =
        Ret () (shows_text c (crlf (field_text mem d)))"
    using directive_item [OF sd(2), of ?f "format_args parts @ r4"] by (metis converted.collapse)
  have IH: "doprnt mem ?f (format_args parts @ r4) (shows_text c (crlf s @ crlf (field_text mem d))) =
      Ret () (shows_text (shows_text c (crlf s @ crlf (field_text mem d)))
        (crlf (shown_text mem parts end_text)))"
    by (rule Cons.IH) (use Cons.prems in auto)
  have ready: "txline c = []" "length s \<le> 300" using Cons.prems(1) sd(1) by (simp_all add: plain_def)
  show ?case
    unfolding split doprnt.simps [of mem "s @ _"] lit
    by (simp add: show_literal_ready ready dir shown IH) (simp add: shown_text_def p crlf_append)
qed

text \<open>Every number fits; a string fits when it is not longer than an \<open>int\<close> can say.\<close>

lemma numeral_text_length: "n < b ^ k \<Longrightarrow> 0 < k \<Longrightarrow> 2 \<le> b \<Longrightarrow> length (numeral_text b n) \<le> k"
proof (induction k arbitrary: n)
  case (Suc k)
  show ?case
  proof (cases "n < b")
    case True
    then show ?thesis by (simp add: numeral_text.simps [of b n])
  next
    case False
    then have "0 < k" using Suc.prems(1) by (cases k) auto
    moreover have "n div b < b ^ k" using Suc.prems(1,3) by (simp add: less_mult_imp_div_less mult.commute)
    ultimately show ?thesis
      using Suc.IH [of "n div b"] Suc.prems(3) False by (simp add: numeral_text.simps [of b n])
  qed
qed simp

lemma unsigned_text_length:
  assumes "n < 4294967296" and "b \<in> {8, 10, 16}"
  shows "length (unsigned_text b p n) \<le> 12"
proof -
  have "n < b ^ 11" using assms by auto
  with assms(2) have "length (numeral_text b n) \<le> 11" by (intro numeral_text_length) auto
  then show ?thesis by (simp add: unsigned_text_def)
qed

lemma signed_text_length:
  assumes "\<bar>v\<bar> < 4294967296"
  shows "length (signed_text p v) \<le> 13"
proof -
  have "nat \<bar>v\<bar> < 4294967296" using assms by linarith
  then show ?thesis using unsigned_text_length [of "nat \<bar>v\<bar>" 10 p]
    by (cases "v < 0") (simp_all add: signed_text_def)
qed

lemma fits_number:
  assumes "\<And>r. item d \<noteq> Str r" and "field_width d < 32768" and "precision d < 65536"
  shows "fits mem d"
proof -
  have w: "\<bar>sint (w :: u16)\<bar> < 4294967296" for w
    using uint_lt2p [of w] uint_ge_0 [of w] by (auto simp: sint_word abs_if)
  have l: "\<bar>sint (l :: u32)\<bar> < 4294967296" for l
    using uint_lt2p [of l] uint_ge_0 [of l] by (auto simp: sint_long abs_if)
  have u: "unat (w :: u16) < 4294967296" for w
    using unat_lt2p_16 [of w] by simp
  have "length (item_text mem (precision d) (item d)) \<le> 13"
    using assms(1) signed_text_length w l unsigned_text_length [OF u] unsigned_text_length [OF pair_value_less]
    by (cases "item d") (auto intro: order.trans [of _ 12])
  with assms(2,3) show ?thesis by (simp add: fits_def)
qed

end
