(* ===== verification/Lib_Time.thy ===== *)
theory Lib_Time
  imports Lib_Printf "HOL-Library.Signed_Division"
begin

text \<open>
  Dates and time zones of the C library (\<open>bsdlibc/gen/ctime.c\<close>, \<open>timezone.c\<close>, \<open>strftime.c\<close>). A
  \<open>time_t\<close> and a \<open>long\<close> are integers of 32 bits, an \<open>int\<close> of 16; division truncates. The pointers to
  zone names are positions in the characters of the time zone file, or literals. What the system tells
  (the environment, files, the kernel's time zone) is a parameter.
\<close>

section \<open>Broken-down time\<close>

datatype zname = Lit string | InChars nat

record tm =
  tm_sec :: int
  tm_min :: int
  tm_hour :: int
  tm_mday :: int
  tm_mon :: int
  tm_year :: int
  tm_wday :: int
  tm_yday :: int
  tm_isdst :: int
  tm_gmtoff :: int
  tm_zone :: zname

abbreviation (input) SECS_PER_MIN :: int where "SECS_PER_MIN \<equiv> 60"
abbreviation (input) SECS_PER_HOUR :: int where "SECS_PER_HOUR \<equiv> 3600"
abbreviation (input) SECS_PER_DAY :: int where "SECS_PER_DAY \<equiv> 86400"
abbreviation (input) DAYS_PER_WEEK :: int where "DAYS_PER_WEEK \<equiv> 7"
abbreviation (input) TM_YEAR_BASE :: int where "TM_YEAR_BASE \<equiv> 1900"
abbreviation (input) EPOCH_YEAR :: int where "EPOCH_YEAR \<equiv> 1970"
abbreviation (input) EPOCH_WDAY :: int where "EPOCH_WDAY \<equiv> 4"

definition isleap :: "int \<Rightarrow> bool" where
  "isleap y \<longleftrightarrow> y smod 4 = 0 \<and> y smod 100 \<noteq> 0 \<or> y smod 400 = 0"

definition mon_lengths :: "int list list" where
  "mon_lengths =
    [[31, 28, 31, 30, 31, 30, 31, 31, 30, 31, 30, 31],
     [31, 29, 31, 30, 31, 30, 31, 31, 30, 31, 30, 31]]"

definition year_lengths :: "int list" where
  "year_lengths = [365, 366]"

definition yleap :: "int \<Rightarrow> nat" where
  "yleap y = (if isleap y then 1 else 0)"

abbreviation year_length :: "int \<Rightarrow> int" where
  "year_length y \<equiv> year_lengths ! yleap y"

lemma year_length_pos: "365 \<le> year_length y" "year_length y \<le> 366"
  by (simp_all add: year_lengths_def yleap_def)

function low_rem :: "int \<Rightarrow> int \<Rightarrow> int \<times> int" where
  "low_rem rem days = (if rem < 0 then low_rem (rem + SECS_PER_DAY) (days - 1) else (rem, days))"
  by pat_completeness auto
termination by (relation "measure (\<lambda>(rem, days). nat (- rem))") auto

function high_rem :: "int \<Rightarrow> int \<Rightarrow> int \<times> int" where
  "high_rem rem days =
     (if SECS_PER_DAY \<le> rem then high_rem (rem - SECS_PER_DAY) (days + 1) else (rem, days))"
  by pat_completeness auto
termination by (relation "measure (\<lambda>(rem, days). nat rem)") auto

function year_up :: "int \<Rightarrow> int \<Rightarrow> int \<times> int" where
  "year_up y days =
     (if days < year_length y then (y, days) else year_up (y + 1) (days - year_length y))"
  by pat_completeness auto
termination
proof (relation "measure (\<lambda>(y, days). nat days)", goal_cases)
  case (2 y days)
  then show ?case using year_length_pos(1) [of y] by simp
qed simp

function year_down :: "int \<Rightarrow> int \<Rightarrow> int \<times> int" where
  "year_down y days =
     (let y = y - 1; days = days + year_length y
      in if days < 0 then year_down y days else (y, days))"
  by pat_completeness auto
termination
proof (relation "measure (\<lambda>(y, days). nat (- days))", goal_cases)
  case (2 y days y' days')
  then show ?case using year_length_pos(1) [of "y - 1"] by simp
qed simp

declare low_rem.simps [simp del] high_rem.simps [simp del] year_up.simps [simp del]
  year_down.simps [simp del]

fun month_loop :: "nat \<Rightarrow> int list \<Rightarrow> int \<Rightarrow> (nat \<times> int) option" where
  "month_loop m [] days = None"
| "month_loop m (l # ls) days = (if l \<le> days then month_loop (m + 1) ls (days - l) else Some (m, days))"

definition is_long :: "int \<Rightarrow> bool" where
  "is_long x \<longleftrightarrow> - (2 ^ 31) \<le> x \<and> x < 2 ^ 31"

definition offtime :: "int \<Rightarrow> int \<Rightarrow> tm option" where
  "offtime clock offset =
     (let days = clock sdiv SECS_PER_DAY; rem = clock smod SECS_PER_DAY + offset
      in if \<not> is_long rem then None
         else
           let (rem, days) = low_rem rem days; (rem, days) = high_rem rem days;
               hour = rem sdiv SECS_PER_HOUR; rem = rem smod SECS_PER_HOUR;
               wday = (EPOCH_WDAY + days) smod DAYS_PER_WEEK;
               wday = (if wday < 0 then wday + DAYS_PER_WEEK else wday);
               (y, yday) = (if days \<ge> 0 then year_up EPOCH_YEAR days else year_down EPOCH_YEAR days)
           in map_option (\<lambda>(mon, days).
                \<lparr>tm_sec = rem smod SECS_PER_MIN, tm_min = rem sdiv SECS_PER_MIN, tm_hour = hour,
                 tm_mday = days + 1, tm_mon = int mon, tm_year = y - TM_YEAR_BASE, tm_wday = wday,
                 tm_yday = yday, tm_isdst = 0, tm_gmtoff = offset, tm_zone = Lit ''''\<rparr>)
                (month_loop 0 (mon_lengths ! yleap y) yday))"

section \<open>The calendar\<close>

text \<open>The reference: the number of days from the first of January 1970 on, and what makes a date valid.\<close>

definition leap_year :: "int \<Rightarrow> bool" where
  "leap_year y \<longleftrightarrow> 4 dvd y \<and> (100 dvd y \<longrightarrow> 400 dvd y)"

definition month_days :: "int \<Rightarrow> int list" where
  "month_days y = [31, if leap_year y then 29 else 28, 31, 30, 31, 30, 31, 31, 30, 31, 30, 31]"

definition new_years_day :: "int \<Rightarrow> int" where
  "new_years_day y = 365 * (y - 1970) + (y - 1) div 4 - (y - 1) div 100 + (y - 1) div 400 - 477"

definition day_number :: "int \<Rightarrow> nat \<Rightarrow> int \<Rightarrow> int" where
  "day_number y m d = new_years_day y + sum_list (take m (month_days y)) + (d - 1)"

definition tm_seconds :: "tm \<Rightarrow> int" where
  "tm_seconds t = 86400 * day_number (tm_year t + 1900) (nat (tm_mon t)) (tm_mday t)
     + 3600 * tm_hour t + 60 * tm_min t + tm_sec t"

definition valid_tm :: "tm \<Rightarrow> bool" where
  "valid_tm t \<longleftrightarrow>
     0 \<le> tm_sec t \<and> tm_sec t < 60 \<and> 0 \<le> tm_min t \<and> tm_min t < 60 \<and> 0 \<le> tm_hour t \<and> tm_hour t < 24 \<and>
     0 \<le> tm_mon t \<and> tm_mon t < 12 \<and> 1 \<le> tm_mday t \<and>
     tm_mday t \<le> month_days (tm_year t + 1900) ! nat (tm_mon t) \<and>
     tm_yday t = day_number (tm_year t + 1900) (nat (tm_mon t)) (tm_mday t) - new_years_day (tm_year t + 1900) \<and>
     tm_wday t = (4 + day_number (tm_year t + 1900) (nat (tm_mon t)) (tm_mday t)) mod 7"

lemma smod_zero_iff: "0 < k \<Longrightarrow> (y :: int) smod k = 0 \<longleftrightarrow> k dvd y"
proof (cases "0 \<le> y")
  case False
  assume "0 < k"
  with False have "(- y) smod k = (- y) mod k" by (intro smod_mod_positive) simp_all
  then have "(- y) mod k = - (y smod k)" by simp
  with dvd_eq_mod_eq_0 [of k "- y"] show ?thesis by simp
qed (simp add: smod_mod_positive dvd_eq_mod_eq_0)

lemma isleap_leap_year: "isleap y = leap_year y"
  by (auto simp: isleap_def leap_year_def smod_zero_iff dvd_def)

lemma mon_lengths_month_days: "mon_lengths ! yleap y = month_days y"
  by (simp add: mon_lengths_def yleap_def month_days_def isleap_leap_year)

lemma div_step: "0 < k \<Longrightarrow> (y :: int) div k - (y - 1) div k = (if k dvd y then 1 else 0)"
proof -
  assume k: "0 < k"
  show ?thesis
  proof (cases "k dvd y")
    case True
    then obtain q where q: "y = k * q" by (auto simp: dvd_def)
    have "(k * q - 1) div k = q - 1"
      using k by (intro int_div_pos_eq [of _ _ _ "k - 1"]) (simp_all add: algebra_simps)
    with q k show ?thesis by simp
  next
    case False
    then have "0 < y mod k" using k by (simp add: dvd_eq_mod_eq_0 order_less_le)
    moreover have "y - 1 = k * (y div k) + (y mod k - 1)" by simp
    moreover have "y mod k - 1 < k" using pos_mod_bound [of k y] k by linarith
    ultimately have "(y - 1) div k = y div k"
      by (intro int_div_pos_eq [of _ _ _ "y mod k - 1"]) simp_all
    with False show ?thesis by simp
  qed
qed

text \<open>The length of a year by the Gregorian rule.\<close>

lemma days_difference:
  "365 * (y + 1 - 1970) + a - b + c - 477 - (365 * (y - 1970) + a' - b' + c' - 477) =
   365 + (a - a') - (b - b') + (c - (c' :: int))"
  by simp

lemma leap_length:
  "(c \<Longrightarrow> b) \<Longrightarrow> (b \<Longrightarrow> a) \<Longrightarrow>
   [365, 366 :: int] ! (if a \<and> (b \<longrightarrow> c) then 1 else 0) =
   365 + (if a then 1 else 0) - (if b then 1 else 0) + (if c then 1 else 0)"
  by auto

lemma year_length_days: "year_length y = new_years_day (y + 1) - new_years_day y"
proof -
  have "400 dvd y \<Longrightarrow> 100 dvd y" "100 dvd y \<Longrightarrow> 4 dvd y"
    by (rule dvd_trans [of _ "400"], simp_all) (rule dvd_trans [of _ "100"], simp_all)
  from leap_length [OF this] have "year_length y = 365 + (y div 4 - (y - 1) div 4) -
      (y div 100 - (y - 1) div 100) + (y div 400 - (y - 1) div 400)"
    unfolding year_lengths_def yleap_def isleap_leap_year leap_year_def
    by (simp only: div_step zero_less_numeral)
  then show ?thesis by (simp only: new_years_day_def add_diff_cancel_right' days_difference)
qed

lemma year_up_spec:
  "0 \<le> days \<Longrightarrow> year_up y days = (y', d) \<Longrightarrow>
   0 \<le> d \<and> d < year_length y' \<and> new_years_day y' + d = new_years_day y + days \<and> y \<le> y'"
proof (induction y days rule: year_up.induct)
  case (1 y days)
  show ?case
  proof (cases "days < year_length y")
    case True
    with 1(2,3) show ?thesis by (auto simp: year_up.simps [of y days])
  next
    case False
    then have up: "year_up (y + 1) (days - year_length y) = (y', d)" "0 \<le> days - year_length y"
      using 1(3) by (simp_all add: year_up.simps [of y days])
    show ?thesis using 1(1) [OF False up(2,1)] year_length_days [of y] by linarith
  qed
qed

lemma year_down_spec:
  "days < 0 \<Longrightarrow> year_down y days = (y', d) \<Longrightarrow>
   0 \<le> d \<and> d < year_length y' \<and> new_years_day y' + d = new_years_day y + days \<and> y' < y"
proof (induction y days rule: year_down.induct)
  case (1 y days)
  have l: "year_length (y - 1) = new_years_day y - new_years_day (y - 1)"
    using year_length_days [of "y - 1"] by simp
  show ?case
  proof (cases "days + year_length (y - 1) < 0")
    case True
    then have down: "year_down (y - 1) (days + year_length (y - 1)) = (y', d)"
      using 1(3) by (simp add: year_down.simps [of y days] Let_def)
    show ?thesis using 1(1) [OF refl refl True True down] l by linarith
  next
    case False
    with 1(3) have "y' = y - 1" "d = days + year_length (y - 1)"
      by (auto simp: year_down.simps [of y days] Let_def)
    with False 1(2) l show ?thesis by (simp only:) linarith
  qed
qed

lemma low_rem_spec:
  "low_rem rem days = (r, d) \<Longrightarrow>
   86400 * d + r = 86400 * days + rem \<and> 0 \<le> r \<and> (r < 86400 \<or> r = rem)"
proof (induction rem days rule: low_rem.induct)
  case (1 rem days)
  then show ?case
    by (cases "rem < 0") (auto simp: low_rem.simps [of rem days])
qed

lemma high_rem_spec:
  "0 \<le> rem \<Longrightarrow> high_rem rem days = (r, d) \<Longrightarrow>
   86400 * d + r = 86400 * days + rem \<and> 0 \<le> r \<and> r < 86400"
proof (induction rem days rule: high_rem.induct)
  case (1 rem days)
  then show ?case
    by (cases "86400 \<le> rem") (auto simp: high_rem.simps [of rem days])
qed

lemma month_loop_spec:
  "0 \<le> days \<Longrightarrow> days < sum_list ls \<Longrightarrow>
   \<exists>k d. month_loop m ls days = Some (m + k, d) \<and> k < length ls \<and> 0 \<le> d \<and> d < ls ! k \<and>
     days = sum_list (take k ls) + d"
proof (induction m ls days rule: month_loop.induct)
  case (2 m l ls days)
  show ?case
  proof (cases "l \<le> days")
    case True
    with 2 obtain k d where "month_loop (m + 1) ls (days - l) = Some (m + 1 + k, d)" "k < length ls"
        "0 \<le> d" "d < ls ! k" "days - l = sum_list (take k ls) + d" by auto
    with True show ?thesis by (intro exI [of _ "Suc k"]) auto
  next
    case False
    with 2 show ?thesis by (intro exI [of _ 0] exI [of _ days]) simp
  qed
qed simp

lemma month_days_total: "sum_list (month_days y) = year_length y"
  by (simp add: month_days_def year_lengths_def yleap_def isleap_leap_year)


section \<open>Converting a time\<close>

lemma sdiv_smod: "(a :: int) sdiv b * b + a smod b = a"
  by (rule sdiv_mult_smod_eq)

lemma pos_div_mod:
  "0 \<le> (a :: int) \<Longrightarrow> 0 < b \<Longrightarrow> a sdiv b = a div b \<and> a smod b = a mod b"
  by (simp add: smod_mod_positive signed_divide_int_def sgn_if)

theorem offtime_correct:
  assumes "is_long clock" and "- (2 ^ 31) + 86400 \<le> offset" and "offset \<le> 2 ^ 31 - 86400"
  shows "\<exists>t. offtime clock offset = Some t \<and> valid_tm t \<and> tm_seconds t = clock + offset \<and>
    tm_gmtoff t = offset \<and> tm_isdst t = 0"
proof -
  have r: "\<bar>clock smod 86400\<bar> < 86400" using smod_int_range [of 86400 clock] by auto
  then have long: "is_long (clock smod 86400 + offset)" using assms(2,3) by (auto simp: is_long_def)
  obtain r1 d1 where low: "low_rem (clock smod 86400 + offset) (clock sdiv 86400) = (r1, d1)" by fastforce
  from low_rem_spec [OF low] have l: "86400 * d1 + r1 = clock + offset" "0 \<le> r1"
    using sdiv_smod [of clock 86400] by linarith+
  obtain r2 d2 where high: "high_rem r1 d1 = (r2, d2)" by fastforce
  from high_rem_spec [OF l(2) high] l have h: "86400 * d2 + r2 = clock + offset" "0 \<le> r2" "r2 < 86400"
    by linarith+
  obtain y yday where year: "(if d2 \<ge> 0 then year_up 1970 d2 else year_down 1970 d2) = (y, yday)"
    by fastforce
  have "new_years_day 1970 = 0" by (simp add: new_years_day_def)
  then have y: "0 \<le> yday" "yday < year_length y" "new_years_day y + yday = d2"
    using year year_up_spec [of d2 1970 y yday] year_down_spec [of d2 1970 y yday]
    by (auto split: if_splits)
  have "length (month_days y) = 12" by (simp add: month_days_def)
  with month_loop_spec [of yday "month_days y" 0] y(1,2) month_days_total [of y]
  obtain m d where m: "month_loop 0 (month_days y) yday = Some (m, d)" "m < 12" "0 \<le> d"
      "d < month_days y ! m" "yday = sum_list (take m (month_days y)) + d"
    by (simp only:) auto
  define wday where "wday = (4 + d2) smod 7"
  have wday: "(if wday < 0 then wday + 7 else wday) = (4 + d2) mod 7"
  proof -
    have "\<bar>wday\<bar> < 7" using smod_int_range [of 7 "4 + d2"] by (auto simp: wday_def)
    moreover have "(4 + d2) mod 7 = wday mod 7"
      using sdiv_smod [of "4 + d2" 7] mod_mult_self3 [of "(4 + d2) sdiv 7" 7 wday] by (simp add: wday_def)
    moreover have "w < 0 \<Longrightarrow> \<bar>w\<bar> < 7 \<Longrightarrow> w mod 7 = w + 7" "0 \<le> w \<Longrightarrow> \<bar>w\<bar> < 7 \<Longrightarrow> w mod 7 = w" for w :: int
      by presburger+
    ultimately show ?thesis by (cases "wday < 0") simp_all
  qed
  define t where "t = \<lparr>tm_sec = r2 mod 3600 mod 60, tm_min = r2 mod 3600 div 60, tm_hour = r2 div 3600,
    tm_mday = d + 1, tm_mon = int m, tm_year = y - 1900, tm_wday = (4 + d2) mod 7,
    tm_yday = yday, tm_isdst = 0, tm_gmtoff = offset, tm_zone = Lit ''''\<rparr>"
  have dm: "r2 sdiv 3600 = r2 div 3600" "r2 smod 3600 = r2 mod 3600"
      "(r2 mod 3600) sdiv 60 = r2 mod 3600 div 60" "(r2 mod 3600) smod 60 = r2 mod 3600 mod 60"
    using pos_div_mod [of r2 3600] pos_div_mod [of "r2 mod 3600" 60] h by simp_all
  have "offtime clock offset = Some t"
    using long low high year m(1) wday [unfolded wday_def]
    by (simp add: offtime_def Let_def mon_lengths_month_days t_def dm split: if_splits)
  moreover have day: "day_number y m (d + 1) = d2"
    using m(5) y(3) by (simp add: day_number_def)
  moreover have "valid_tm t"
  proof -
    have "r2 mod 3600 div 60 < 60" "r2 div 3600 < 24" 
      using h mult_div_mod_eq [of 3600 r2] mult_div_mod_eq [of 60 "r2 mod 3600"]
        pos_mod_bound [of 3600 r2] pos_mod_sign [of 3600 r2] pos_mod_sign [of 60 "r2 mod 3600"] by linarith+
    moreover have "0 \<le> r2 mod 3600 div 60" "0 \<le> r2 div 3600"
      using h by (simp_all add: pos_imp_zdiv_nonneg_iff)
    ultimately show ?thesis using m y day h by (simp add: valid_tm_def t_def)
  qed
  moreover have "tm_seconds t = clock + offset"
  proof -
    have "3600 * (r2 div 3600) + 60 * (r2 mod 3600 div 60) + r2 mod 3600 mod 60 = r2"
      using mult_div_mod_eq [of 3600 r2] mult_div_mod_eq [of 60 "r2 mod 3600"] by linarith
    with day h(1) show ?thesis by (simp add: tm_seconds_def t_def)
  qed
  ultimately show ?thesis by (auto simp: t_def)
qed

end
