(* ===== verification/Lib_Zone.thy ===== *)
theory Lib_Zone
  imports Lib_Time
begin

text \<open>
  The rest of \<open>bsdlibc/gen/ctime.c\<close> and \<open>timezone.c\<close>: the text of a date, the time zone file that
  \<open>tzload\<close> reads into static tables, and the choice of the offset of a time. The environment, the file
  system (whether a file may be read; how many bytes \<open>read\<close> delivers and the buffer then) and the kernel's
  time zone are parameters. An access outside a table is \<open>None\<close>.
\<close>

section \<open>The text of a date\<close>

definition int16 :: "int \<Rightarrow> int" where
  "int16 x = sint (word_of_int x :: u16)"

lemma int16_id: "- (2 ^ 15) \<le> x \<Longrightarrow> x < 2 ^ 15 \<Longrightarrow> int16 x = x"
  by (auto simp: int16_def signed_of_int intro: signed_take_bit_int_eq_self)

definition signed_dec :: "int \<Rightarrow> string" where
  "signed_dec n = (if n < 0 then ''-'' else '''') @ numeral_text 10 (nat \<bar>n\<bar>)"

definition blank_field :: "nat \<Rightarrow> int \<Rightarrow> string" where
  "blank_field w n = replicate (w - length (signed_dec n)) CHR '' '' @ signed_dec n"

definition zero_field :: "nat \<Rightarrow> int \<Rightarrow> string" where
  "zero_field w n =
     (let d = numeral_text 10 (nat \<bar>n\<bar>); sign = (if n < 0 then ''-'' else '''')
      in sign @ replicate (w - length sign - length d) CHR ''0'' @ d)"

definition wday_name :: "string list" where
  "wday_name = [''Sun'', ''Mon'', ''Tue'', ''Wed'', ''Thu'', ''Fri'', ''Sat'']"

definition mon_name :: "string list" where
  "mon_name = [''Jan'', ''Feb'', ''Mar'', ''Apr'', ''May'', ''Jun'', ''Jul'', ''Aug'', ''Sep'', ''Oct'',
     ''Nov'', ''Dec'']"

text \<open>The buffer has 26 bytes, the terminating NUL included.\<close>

definition asctime :: "tm \<Rightarrow> string option" where
  "asctime t =
     (if 0 \<le> tm_wday t \<and> tm_wday t < 7 \<and> 0 \<le> tm_mon t \<and> tm_mon t < 12 then
        let result = wday_name ! nat (tm_wday t) @ '' '' @ mon_name ! nat (tm_mon t) @
              blank_field 3 (tm_mday t) @ '' '' @ zero_field 2 (tm_hour t) @ '':'' @
              zero_field 2 (tm_min t) @ '':'' @ zero_field 2 (tm_sec t) @ '' '' @
              signed_dec (int16 (TM_YEAR_BASE + tm_year t)) @ [CHR 0x0A]
        in if length result < 26 then Some result else None
      else None)"

section \<open>Names of time zones\<close>

definition zonetab :: "(int \<times> string \<times> string option) list" where
  "zonetab =
    [(-60, ''MET'', Some ''MET DST''), (-120, ''EET'', Some ''EET DST''), (240, ''AST'', Some ''ADT''),
     (300, ''EST'', Some ''EDT''), (360, ''CST'', Some ''CDT''), (420, ''MST'', Some ''MDT''),
     (480, ''PST'', Some ''PDT''), (0, ''WET'', Some ''WET DST''), (-600, ''EST'', Some ''EST''),
     (-570, ''CST'', Some ''CST''), (-480, ''WST'', None)]"

fun zone_search :: "(int \<times> string \<times> string option) list \<Rightarrow> int \<Rightarrow> bool \<Rightarrow> string option" where
  "zone_search [] zone dst = None"
| "zone_search ((offset, stdzone, dlzone) # zs) zone dst =
     (if offset = zone then
        (if dst then (case dlzone of Some z \<Rightarrow> Some z | None \<Rightarrow> zone_search zs zone dst) else Some stdzone)
      else zone_search zs zone dst)"

definition tztab :: "int \<Rightarrow> bool \<Rightarrow> string" where
  "tztab zone dst =
     (case zone_search zonetab zone dst of
        Some z \<Rightarrow> z
      | None \<Rightarrow>
          let z = (if zone < 0 then int16 (- zone) else zone); sign = (if zone < 0 then ''+'' else ''-'')
          in ''GMT'' @ sign @ signed_dec (z sdiv 60) @ '':'' @ zero_field 2 (z smod 60))"

definition timezone :: "string option \<Rightarrow> int \<Rightarrow> bool \<Rightarrow> string" where
  "timezone TZNAME zone dst =
     (case TZNAME of
        None \<Rightarrow> tztab zone dst
      | Some b \<Rightarrow>
          if CHR '','' \<in> set b then
            (if dst then tl (dropWhile (\<lambda>c. c \<noteq> CHR '','') b)
             else take 49 (takeWhile (\<lambda>c. c \<noteq> CHR '','') b))
          else b)"

section \<open>The time zone tables\<close>

abbreviation (input) TZ_MAX_TIMES :: nat where "TZ_MAX_TIMES \<equiv> 370"
abbreviation (input) TZ_MAX_TYPES :: nat where "TZ_MAX_TYPES \<equiv> 10"
abbreviation (input) TZ_MAX_CHARS :: nat where "TZ_MAX_CHARS \<equiv> 50"

record ttinfo =
  tt_gmtoff :: int
  tt_isdst :: int
  tt_abbrind :: int

record zstate =
  timecnt :: int
  typecnt :: int
  charcnt :: int
  ats :: "int list"
  types :: "u8 list"
  ttis :: "ttinfo list"
  chars :: "u8 list"
  tz_is_set :: bool
  tzname :: "zname list"

definition zstate_init :: zstate where
  "zstate_init = \<lparr>timecnt = 0, typecnt = 0, charcnt = 0, ats = replicate TZ_MAX_TIMES 0,
     types = replicate TZ_MAX_TIMES 0,
     ttis = replicate TZ_MAX_TYPES \<lparr>tt_gmtoff = 0, tt_isdst = 0, tt_abbrind = 0\<rparr>,
     chars = replicate (TZ_MAX_CHARS + 1) 0, tz_is_set = False, tzname = [Lit ''GMT'', Lit ''GMT'']\<rparr>"

definition detzcode :: "(nat \<Rightarrow> u8) \<Rightarrow> nat \<Rightarrow> u32" where
  "detzcode buf p = fold (\<lambda>i result. push_bit 8 result OR ucast (buf (p + i))) [0..<4] 0"

definition detzint :: "(nat \<Rightarrow> u8) \<Rightarrow> nat \<Rightarrow> int" where
  "detzint buf p = sint (ucast (detzcode buf p) :: u16)"

definition put_first :: "'a list \<Rightarrow> 'a list \<Rightarrow> 'a list" where
  "put_first new old = new @ drop (length new) old"

text \<open>The tables that follow the header of 44 bytes; a negative count stands for an empty table.\<close>

definition tz_tables :: "(nat \<Rightarrow> u8) \<Rightarrow> zstate \<Rightarrow> zstate" where
  "tz_tables buf s =
     (let n = nat (timecnt s); k = nat (typecnt s); m = nat (charcnt s);
          p1 = 44; p2 = p1 + 4 * n; p3 = p2 + n; p4 = p3 + 6 * k
      in s\<lparr>ats := put_first (map (\<lambda>i. sint (detzcode buf (p1 + 4 * i))) [0..<n]) (ats s),
           types := put_first (map (\<lambda>i. buf (p2 + i)) [0..<n]) (types s),
           ttis := put_first (map (\<lambda>i. \<lparr>tt_gmtoff = sint (detzcode buf (p3 + 6 * i)),
               tt_isdst = uint (buf (p3 + 6 * i + 4)), tt_abbrind = uint (buf (p3 + 6 * i + 5))\<rparr>) [0..<k]) (ttis s),
           chars := put_first (map (\<lambda>i. buf (p4 + i)) [0..<m] @ [0]) (chars s)\<rparr>)"

definition tz_names :: "zstate \<Rightarrow> zstate" where
  "tz_names s = s\<lparr>tzname := fold (\<lambda>i names. names[(if tt_isdst (ttis s ! i) \<noteq> 0 then 1 else 0) :=
       InChars (nat (tt_abbrind (ttis s ! i)))]) [1..<nat (typecnt s)] [InChars 0, InChars 0]\<rparr>"

definition tz_parse :: "int \<Rightarrow> (nat \<Rightarrow> u8) \<Rightarrow> zstate \<Rightarrow> bool \<times> zstate" where
  "tz_parse i buf s =
     (let s1 = s\<lparr>timecnt := detzint buf 32, typecnt := detzint buf 36, charcnt := detzint buf 40\<rparr>;
          s2 = tz_tables buf s1
      in if (word_of_int i :: u16) < 44 then (False, s)
         else if timecnt s1 > int TZ_MAX_TIMES \<or> typecnt s1 = 0 \<or> typecnt s1 > int TZ_MAX_TYPES \<or>
           charcnt s1 > int TZ_MAX_CHARS then (False, s1)
         else if (word_of_int i :: u16) < word_of_int (44 + timecnt s1 * 5 + typecnt s1 * 6 + charcnt s1)
         then (False, s1)
         else if \<exists>j \<in> set [0..<nat (timecnt s2)]. uint (types s2 ! j) \<ge> typecnt s2 then (False, s2)
         else if \<exists>j \<in> set [0..<nat (typecnt s2)]. tt_abbrind (ttis s2 ! j) \<ge> charcnt s2 then (False, s2)
         else (True, tz_names s2))"

record zone_env =
  ze_TZ :: "string option"
  ze_MAXPATHLEN :: nat
  ze_access :: "string \<Rightarrow> bool"
  ze_read :: "string \<Rightarrow> nat \<Rightarrow> (int \<times> (nat \<Rightarrow> u8)) option"
  ze_minuteswest :: "int option"

text \<open>The buffer is as large as the structure it is decoded into.\<close>

definition sizeof_state :: nat where "sizeof_state = 1988"

definition TZDIR :: string where "TZDIR = ''/usr/share/zoneinfo''"

definition TZDEFAULT :: string where "TZDEFAULT = ''/etc/localtime''"

definition tz_path :: "zone_env \<Rightarrow> string \<Rightarrow> (string \<times> bool) option" where
  "tz_path env name =
     (if name \<noteq> [] \<and> hd name = CHR ''/'' then Some (name, True)
      else if length TZDIR + length name + 1 \<ge> ze_MAXPATHLEN env then None
      else Some (TZDIR @ ''/'' @ name, CHR ''.'' \<in> set name))"

definition tzload :: "zone_env \<Rightarrow> string option \<Rightarrow> zstate \<Rightarrow> bool \<times> zstate" where
  "tzload env name s =
     (case tz_path env (case name of None \<Rightarrow> TZDEFAULT | Some n \<Rightarrow> n) of
        None \<Rightarrow> (False, s)
      | Some (path, doaccess) \<Rightarrow>
          if doaccess \<and> \<not> ze_access env path then (False, s)
          else case ze_read env path sizeof_state of
                 None \<Rightarrow> (False, s)
               | Some (i, buf) \<Rightarrow> tz_parse i buf s)"

definition strcpy_chars :: "string \<Rightarrow> u8 list \<Rightarrow> u8 list" where
  "strcpy_chars z cs = put_first (map (\<lambda>c. of_nat (of_char c)) z @ [0]) cs"

definition tzsetkernel :: "zone_env \<Rightarrow> zstate \<Rightarrow> bool \<times> zstate" where
  "tzsetkernel env s =
     (case ze_minuteswest env of
        None \<Rightarrow> (False, s)
      | Some west \<Rightarrow> (True, s\<lparr>timecnt := 0,
          ttis := (ttis s)[0 := (ttis s ! 0)\<lparr>tt_gmtoff := int16 (west * - 60), tt_abbrind := 0\<rparr>],
          chars := strcpy_chars (tztab west False) (chars s), tzname := [InChars 0, InChars 0]\<rparr>))"

definition tzsetgmt :: "zstate \<Rightarrow> zstate" where
  "tzsetgmt s = s\<lparr>timecnt := 0,
     ttis := (ttis s)[0 := (ttis s ! 0)\<lparr>tt_gmtoff := 0, tt_abbrind := 0\<rparr>],
     chars := strcpy_chars ''GMT'' (chars s), tzname := [InChars 0, InChars 0]\<rparr>"

definition tzset :: "zone_env \<Rightarrow> zstate \<Rightarrow> zstate" where
  "tzset env s =
     (let s = s\<lparr>tz_is_set := True\<rparr>; name = ze_TZ env
      in if name \<noteq> Some [] then
           let (ok, s) = (if name \<noteq> None then tzload env name s else (False, s))
           in if ok then s
              else let (ok, s) = tzload env None s
                   in if ok then s
                      else let (ok, s) = tzsetkernel env s in if ok then s else tzsetgmt s
         else tzsetgmt s)"

section \<open>Local time\<close>

text \<open>The first type that is not daylight saving time; the bound of the search is the number of
  transitions, not of types.\<close>

function std_type :: "ttinfo list \<Rightarrow> int \<Rightarrow> nat \<Rightarrow> nat option" where
  "std_type tts n i =
     (if i < length tts then
        if tt_isdst (tts ! i) = 0 then Some i
        else if int (i + 1) \<ge> n then Some 0 else std_type tts n (i + 1)
      else None)"
  by pat_completeness auto
termination by (relation "measure (\<lambda>(tts, n, i). length tts - i)") auto

declare std_type.simps [simp del]

definition transition :: "int \<Rightarrow> zstate \<Rightarrow> nat" where
  "transition t s =
     (case find (\<lambda>i. t < ats s ! i) [1..<nat (timecnt s)] of
        Some i \<Rightarrow> i | None \<Rightarrow> max 1 (nat (timecnt s)))"

definition time_type :: "int \<Rightarrow> zstate \<Rightarrow> nat option" where
  "time_type t s =
     (if timecnt s = 0 \<or> t < ats s ! 0 then std_type (ttis s) (timecnt s) 0
      else Some (unat (types s ! (transition t s - 1))))"

definition localtime :: "zone_env \<Rightarrow> int \<Rightarrow> zstate \<Rightarrow> (tm \<times> zstate) option" where
  "localtime env t s =
     (let s = (if tz_is_set s then s else tzset env s)
      in case time_type t s of
           None \<Rightarrow> None
         | Some i \<Rightarrow>
             if i < length (ttis s) then
               let tt = ttis s ! i; z = InChars (nat (tt_abbrind tt))
               in case offtime t (tt_gmtoff tt) of
                    None \<Rightarrow> None
                  | Some r \<Rightarrow>
                      if tt_isdst tt < 2 then
                        Some (r\<lparr>tm_isdst := tt_isdst tt, tm_zone := z\<rparr>, s\<lparr>tzname := (tzname s)[nat (tt_isdst tt) := z]\<rparr>)
                      else None
             else None)"

definition gmtime :: "int \<Rightarrow> zstate \<Rightarrow> (tm \<times> zstate) option" where
  "gmtime clock s =
     map_option (\<lambda>r. (r\<lparr>tm_zone := Lit ''GMT''\<rparr>, s\<lparr>tzname := (tzname s)[0 := Lit ''GMT'']\<rparr>)) (offtime clock 0)"

definition ctime :: "zone_env \<Rightarrow> int \<Rightarrow> zstate \<Rightarrow> (string \<times> zstate) option" where
  "ctime env t s =
     (case localtime env t s of
        None \<Rightarrow> None
      | Some (r, s) \<Rightarrow> map_option (\<lambda>text. (text, s)) (asctime r))"

section \<open>Dates have 25 characters\<close>

lemma numeral_small: "n < 10 \<Longrightarrow> length (numeral_text 10 n) = 1"
  by (simp add: numeral_text.simps [of 10 n])

lemma numeral_step: "10 \<le> n \<Longrightarrow> length (numeral_text 10 n) = length (numeral_text 10 (n div 10)) + 1"
  by (simp add: numeral_text.simps [of 10 n])

lemma numeral_two: "n < 100 \<Longrightarrow> length (numeral_text 10 n) = (if n < 10 then 1 else 2)"
  using numeral_small [of n] numeral_small [of "n div 10"] numeral_step [of n] by auto

lemma numeral_four: "1000 \<le> n \<Longrightarrow> n < 10000 \<Longrightarrow> length (numeral_text 10 n) = 4"
  using numeral_step [of n] numeral_step [of "n div 10"] numeral_two [of "n div 10 div 10"] by simp

lemma field_lengths:
  "0 \<le> n \<Longrightarrow> n < 100 \<Longrightarrow> length (zero_field 2 n) = 2"
  "0 \<le> n \<Longrightarrow> n < 100 \<Longrightarrow> length (blank_field 3 n) = 3"
  "1000 \<le> n \<Longrightarrow> n < 10000 \<Longrightarrow> length (signed_dec n) = 4"
  using numeral_two [of "nat n"] numeral_four [of "nat n"]
  by (auto simp: zero_field_def blank_field_def signed_dec_def Let_def nat_less_iff)

lemma name_lengths:
  "0 \<le> n \<Longrightarrow> n < 7 \<Longrightarrow> length (wday_name ! nat n) = 3"
  "0 \<le> n \<Longrightarrow> n < 12 \<Longrightarrow> length (mon_name ! nat n) = 3"
proof -
  have "\<forall>k < 7. length (wday_name ! k) = 3" "\<forall>k < 12. length (mon_name ! k) = 3" by code_simp+
  then show "0 \<le> n \<Longrightarrow> n < 7 \<Longrightarrow> length (wday_name ! nat n) = 3"
    "0 \<le> n \<Longrightarrow> n < 12 \<Longrightarrow> length (mon_name ! nat n) = 3"
    by (simp_all add: nat_less_iff)
qed

lemma month_days_bound: "m < 12 \<Longrightarrow> month_days y ! m \<le> 31"
proof -
  assume "m < 12"
  then have "month_days y ! m \<in> set (month_days y)" by (intro nth_mem) (simp add: month_days_def)
  then show ?thesis by (auto simp: month_days_def split: if_splits)
qed

lemma asctime_length:
  assumes "valid_tm t" and "- 900 \<le> tm_year t" and "tm_year t < 8100"
  shows "\<exists>r. asctime t = Some r \<and> length r = 25 \<and> last r = CHR 0x0A"
proof -
  note v = assms(1) [unfolded valid_tm_def]
  have "tm_mday t \<le> 31" 
    using v month_days_bound [of "nat (tm_mon t)" "tm_year t + 1900"] by (simp add: nat_less_iff)
  moreover have "0 \<le> tm_wday t" "tm_wday t < 7" using v by simp_all
  ultimately show ?thesis
    using v assms(2,3) by (simp add: asctime_def Let_def field_lengths name_lengths int16_id)
qed

text \<open>The years a 32-bit time reaches.\<close>

lemma gregorian_bounds:
  fixes z :: int
  assumes "z = 4 * a + r" "z = 100 * b + u" "z = 400 * c + w"
    and "0 \<le> r" "r < 4" "0 \<le> u" "u < 100" "0 \<le> w" "w < 400"
  shows "146097 * (z - 1969) - 1200 \<le> 400 * (365 * (z - 1969) + a - b + c - 477) \<and>
    400 * (365 * (z - 1969) + a - b + c - 477) \<le> 146097 * (z - 1969) + 1200"
  using assms by simp

lemma new_years_day_bounds:
  "146097 * (y - 1970) - 1200 \<le> 400 * new_years_day y" "400 * new_years_day y \<le> 146097 * (y - 1970) + 1200"
  using gregorian_bounds [of "y - 1" "(y - 1) div 4" "(y - 1) mod 4" "(y - 1) div 100" "(y - 1) mod 100"
      "(y - 1) div 400" "(y - 1) mod 400"]
  by (simp_all add: new_years_day_def)

lemma month_start:
  assumes "m < 12"
  shows "0 \<le> sum_list (take m (month_days y)) \<and> sum_list (take m (month_days y)) + month_days y ! m \<le> 366"
proof -
  have pos: "\<forall>d \<in> set (month_days y). 0 \<le> d" by (simp add: month_days_def)
  have len: "length (month_days y) = 12" by (simp add: month_days_def)
  have "sum_list (month_days y) =
      sum_list (take m (month_days y)) + month_days y ! m + sum_list (drop (Suc m) (month_days y))"
    using id_take_nth_drop [of m "month_days y"] assms len
    by (metis add.assoc sum_list.Cons sum_list_append)
  moreover have "0 \<le> sum_list (take m (month_days y))" "0 \<le> sum_list (drop (Suc m) (month_days y))"
    using pos by (auto intro!: sum_list_nonneg dest: in_set_takeD in_set_dropD)
  moreover have "sum_list (month_days y) \<le> 366" by (simp add: month_days_total year_length_pos)
  ultimately show ?thesis by linarith
qed

lemma valid_year_bounds:
  assumes "valid_tm t" and "\<bar>tm_seconds t\<bar> \<le> 2 ^ 32"
  shows "- 900 \<le> tm_year t \<and> tm_year t < 8100"
proof -
  note v = assms(1) [unfolded valid_tm_def]
  let ?y = "tm_year t + 1900"
  define dn where "dn = day_number ?y (nat (tm_mon t)) (tm_mday t)"
  have "nat (tm_mon t) < 12" using v by (simp add: nat_less_iff)
  from month_start [OF this, of ?y] v have d: "new_years_day ?y \<le> dn" "dn \<le> new_years_day ?y + 366"
    unfolding dn_def day_number_def by linarith+
  have "tm_seconds t = 86400 * dn + 3600 * tm_hour t + 60 * tm_min t + tm_sec t"
    by (simp add: tm_seconds_def dn_def)
  moreover have "(2 :: int) ^ 32 = 4294967296" by simp
  ultimately have "\<bar>86400 * dn\<bar> \<le> 4294967296 + 86400" using assms(2) v by linarith
  then have "- 50000 \<le> dn" "dn \<le> 50000" by (auto simp: abs_le_iff)
  with d new_years_day_bounds [of ?y] show ?thesis by simp
qed

theorem asctime_of_offtime:
  assumes "is_long clock" and "\<bar>offset\<bar> \<le> 86400"
  shows "\<exists>t r. offtime clock offset = Some t \<and> asctime t = Some r \<and> length r = 25 \<and> last r = CHR 0x0A"
proof -
  obtain t where t: "offtime clock offset = Some t" "valid_tm t" "tm_seconds t = clock + offset"
    using offtime_correct [of clock offset] assms by (auto simp: abs_le_iff)
  then have "\<bar>tm_seconds t\<bar> \<le> 2 ^ 32" using assms by (auto simp: is_long_def)
  with t valid_year_bounds [of t] asctime_length [of t] show ?thesis by auto
qed

section \<open>The type of a time\<close>

text \<open>With transitions in ascending order the type is that of the last transition before the time.\<close>

lemma transition_spec:
  assumes "0 < timecnt s" and "ats s ! 0 \<le> t" and "sorted (take (nat (timecnt s)) (ats s))"
    and "nat (timecnt s) \<le> length (ats s)"
  defines "i \<equiv> transition t s - 1"
  shows "i < nat (timecnt s)" and "ats s ! i \<le> t" and "j < nat (timecnt s) \<Longrightarrow> i < j \<Longrightarrow> t < ats s ! j"
proof -
  let ?n = "nat (timecnt s)"
  have mono: "ats s ! a \<le> ats s ! b" if "a \<le> b" "b < ?n" for a b
    using assms(3,4) that sorted_nth_mono [of "take ?n (ats s)" a b] by simp
  have "i < ?n \<and> ats s ! i \<le> t \<and> (\<forall>j. j < ?n \<longrightarrow> i < j \<longrightarrow> t < ats s ! j)"
  proof (cases "find (\<lambda>i. t < ats s ! i) [1..<?n]")
    case None
    then have "ats s ! j \<le> t" if "1 \<le> j" "j < ?n" for j using that by (auto simp: find_upt_None not_less)
    moreover have "i = ?n - 1" using None assms(1) by (simp add: i_def transition_def)
    ultimately show ?thesis using assms(1,2) by (cases "?n = 1") auto
  next
    case (Some k)
    from find_upt_Some [OF this] have k: "1 \<le> k" "k < ?n" "t < ats s ! k"
        "\<forall>j. 1 \<le> j \<and> j < k \<longrightarrow> \<not> t < ats s ! j" by auto
    have i: "i = k - 1" using Some by (simp add: i_def transition_def)
    have "ats s ! i \<le> t"
      using i k assms(2) by (cases "k = 1") (auto simp: not_less)
    moreover have "t < ats s ! j" if "j < ?n" "i < j" for j
      using mono [of k j] that i k by (auto intro: less_le_trans)
    ultimately show ?thesis using i k by auto
  qed
  then show "i < nat (timecnt s)" "ats s ! i \<le> t" "j < nat (timecnt s) \<Longrightarrow> i < j \<Longrightarrow> t < ats s ! j"
    by auto
qed

text \<open>
  Before the first transition the search for a type that is not daylight saving time is bounded by the
  number of transitions: when there are more of them than types, and every type has the flag, it leaves
  the table.
\<close>

lemma std_type_found:
  "i \<le> j \<Longrightarrow> j < length tts \<Longrightarrow> int j < n \<Longrightarrow> tt_isdst (tts ! j) = 0 \<Longrightarrow>
   (\<And>l. i \<le> l \<Longrightarrow> l < j \<Longrightarrow> tt_isdst (tts ! l) \<noteq> 0) \<Longrightarrow> std_type tts n i = Some j"
proof (induction "j - i" arbitrary: i)
  case 0
  then show ?case by (simp add: std_type.simps [of tts n i])
next
  case (Suc d)
  then have "std_type tts n (i + 1) = Some j" "int (i + 1) < n" "tt_isdst (tts ! i) \<noteq> 0" by auto
  with Suc show ?case by (simp add: std_type.simps [of tts n i])
qed

lemma std_type_escapes:
  "(\<And>l. i \<le> l \<Longrightarrow> l < length tts \<Longrightarrow> tt_isdst (tts ! l) \<noteq> 0) \<Longrightarrow> int (length tts) < n \<Longrightarrow>
   std_type tts n i = None"
proof (induction "length tts - i" arbitrary: i)
  case 0
  then show ?case by (simp add: std_type.simps [of tts n i])
next
  case (Suc d)
  then have "std_type tts n (i + 1) = None" by simp
  with Suc show ?case by (simp add: std_type.simps [of tts n i])
qed

section \<open>Reading a time zone file\<close>

text \<open>The file format of \<open>tzfile.h\<close>: numbers of four bytes, the highest first.\<close>

definition enc32 :: "int \<Rightarrow> u8 list" where
  "enc32 v = [word_of_int (drop_bit 24 v), word_of_int (drop_bit 16 v), word_of_int (drop_bit 8 v), word_of_int v]"

definition enc_ttinfo :: "ttinfo \<Rightarrow> u8 list" where
  "enc_ttinfo tt = enc32 (tt_gmtoff tt) @ [word_of_int (tt_isdst tt), word_of_int (tt_abbrind tt)]"

definition tz_image :: "u8 list \<Rightarrow> int list \<Rightarrow> u8 list \<Rightarrow> ttinfo list \<Rightarrow> u8 list \<Rightarrow> u8 list" where
  "tz_image reserved as tys tts cs =
     (reserved @ enc32 (int (length as)) @ enc32 (int (length tts)) @ enc32 (int (length cs))) @
     concat (map enc32 as) @ tys @ concat (map enc_ttinfo tts) @ cs"

definition zone_ok :: "int list \<Rightarrow> u8 list \<Rightarrow> ttinfo list \<Rightarrow> u8 list \<Rightarrow> bool" where
  "zone_ok as tys tts cs \<longleftrightarrow>
     length as \<le> TZ_MAX_TIMES \<and> length tys = length as \<and> 1 \<le> length tts \<and> length tts \<le> TZ_MAX_TYPES \<and>
     length cs \<le> TZ_MAX_CHARS \<and> (\<forall>a \<in> set as. is_long a) \<and> (\<forall>ty \<in> set tys. unat ty < length tts) \<and>
     (\<forall>tt \<in> set tts. is_long (tt_gmtoff tt) \<and> 0 \<le> tt_isdst tt \<and> tt_isdst tt < 2 \<and>
        0 \<le> tt_abbrind tt \<and> tt_abbrind tt < int (length cs))"

lemma concat_nth:
  assumes "\<And>x. x \<in> set xs \<Longrightarrow> length (f x) = k" and "i < length xs" and "j < k"
  shows "(concat (map f xs) @ rest) ! (k * i + j) = f (xs ! i) ! j"
proof -
  have "length (concat (map f (take i xs))) = k * i"
  proof -
    have "length (concat (map f ys)) = k * length ys" if "set ys \<subseteq> set xs" for ys
      using that assms(1) by (induction ys) auto
    from this [of "take i xs"] show ?thesis using assms(2) by (simp add: set_take_subset)
  qed
  moreover have "concat (map f xs) = concat (map f (take i xs)) @ f (xs ! i) @ concat (map f (drop (Suc i) xs))"
    using id_take_nth_drop [OF assms(2)] by (metis concat.simps(2) concat_append list.map(2) map_append)
  ultimately show ?thesis using assms by (simp add: nth_append)
qed

lemma concat_length: "(\<And>x. x \<in> set xs \<Longrightarrow> length (f x) = k) \<Longrightarrow> length (concat (map f xs)) = k * length xs"
  by (induction xs) auto

lemma enc32_length [simp]: "length (enc32 v) = 4"
  by (simp add: enc32_def)

lemma detzcode_enc32:
  assumes "\<And>k. k < 4 \<Longrightarrow> buf (p + k) = enc32 v ! k"
  shows "detzcode buf p = word_of_int v"
proof -
  have b: "buf p = word_of_int (drop_bit 24 v)" "buf (p + 1) = word_of_int (drop_bit 16 v)"
      "buf (p + 2) = word_of_int (drop_bit 8 v)" "buf (p + 3) = word_of_int v"
    using assms [of 0] assms [of 1] assms [of 2] assms [of 3] by (simp_all add: enc32_def)
  have c: "detzcode buf p = push_bit 8 (push_bit 8 (push_bit 8 (push_bit 8 0 OR ucast (buf p)) OR
      ucast (buf (p + 1))) OR ucast (buf (p + 2))) OR ucast (buf (p + 3))"
  proof -
    have "[0..<4 :: nat] = [0, 1, 2, 3]" by (simp add: upt_rec)
    then show ?thesis by (simp only: detzcode_def fold_simps add_0_right)
  qed
  show ?thesis
  proof (rule bit_word_eqI)
    fix n assume n: "n < LENGTH(32)"
    consider "n < 8" | "8 \<le> n" "n < 16" | "16 \<le> n" "n < 24" | "24 \<le> n" by linarith
    then show "bit (detzcode buf p) n = bit (word_of_int v :: u32) n"
      using n unfolding c b by cases (auto simp: bit_simps)
  qed
qed

lemma sint_long_word: "is_long v \<Longrightarrow> sint (word_of_int v :: u32) = v"
  by (auto simp: is_long_def signed_of_int intro: signed_take_bit_int_eq_self)

lemma detzint_enc32:
  assumes "\<And>k. k < 4 \<Longrightarrow> buf (p + k) = enc32 (int n) ! k" and "n < 32768"
  shows "detzint buf p = int n"
proof -
  have "ucast (word_of_int (int n) :: u32) = (word_of_int (int n) :: u16)"
    by (rule bit_word_eqI) (auto simp: bit_simps)
  moreover have "sint (word_of_int (int n) :: u16) = int n"
    using sint_word [of "word_of_int (int n)"] assms(2) by (simp add: uint_word_of_int del: of_int_of_nat_eq)
  ultimately show ?thesis using detzcode_enc32 [OF assms(1)] by (simp add: detzint_def)
qed

lemma put_first_take: "length new = n \<Longrightarrow> take n (put_first new old) = new"
  by (simp add: put_first_def)

lemma put_first_length: "length new \<le> length old \<Longrightarrow> length (put_first new old) = length old"
  by (simp add: put_first_def)

lemma put_first_nth: "i < length new \<Longrightarrow> put_first new old ! i = new ! i"
  by (simp add: put_first_def nth_append)

lemma short_word: "44 \<le> n \<Longrightarrow> n < 65536 \<Longrightarrow> \<not> (word_of_int (int n) :: u16) < 44"
proof -
  assume n: "44 \<le> n" "n < 65536"
  then have "uint (word_of_int (int n) :: u16) = int n" by (simp add: uint_word_of_int del: of_int_of_nat_eq)
  with n show ?thesis by (simp add: word_less_def del: of_int_of_nat_eq)
qed

theorem tz_parse_image:
  assumes ok: "zone_ok as tys tts cs" and res: "length reserved = 32"
    and buf: "\<And>i. i < length (tz_image reserved as tys tts cs) \<Longrightarrow> buf i = tz_image reserved as tys tts cs ! i"
  shows "\<exists>s'. tz_parse (int (length (tz_image reserved as tys tts cs))) buf s = (True, s') \<and>
    timecnt s' = int (length as) \<and> ats s' = put_first as (ats s) \<and> types s' = put_first tys (types s) \<and>
    ttis s' = put_first tts (ttis s) \<and> chars s' = put_first (cs @ [0]) (chars s)"
proof -
  let ?n = "length as" and ?k = "length tts" and ?m = "length cs"
  define img where "img = tz_image reserved as tys tts cs"
  have sizes: "?n \<le> 370" "length tys = ?n" "1 \<le> ?k" "?k \<le> 10" "?m \<le> 50"
    using ok by (simp_all add: zone_ok_def)
  have enc_len: "length (enc_ttinfo tt) = 6" for tt by (simp add: enc_ttinfo_def)
  have lens: "length (concat (map enc32 as)) = 4 * ?n" "length (concat (map enc_ttinfo tts)) = 6 * ?k"
    using concat_length [of as enc32 4] concat_length [of tts enc_ttinfo 6] enc_len by simp_all
  have len: "length img = 44 + 5 * ?n + 6 * ?k + ?m"
    using res sizes lens by (simp add: img_def tz_image_def)
  have b: "buf i = img ! i" if "i < length img" for i using buf that by (simp add: img_def)
  have hd: "img ! (32 + k) = enc32 (int ?n) ! k" "img ! (36 + k) = enc32 (int ?k) ! k"
      "img ! (40 + k) = enc32 (int ?m) ! k" if "k < 4" for k
    using that res by (simp_all add: img_def tz_image_def nth_append)
  have counts: "detzint buf 32 = int ?n" "detzint buf 36 = int ?k" "detzint buf 40 = int ?m"
    using hd b len sizes by (auto intro!: detzint_enc32)
  have a_at: "img ! (44 + 4 * i + k) = enc32 (as ! i) ! k" if "i < ?n" "k < 4" for i k
    using that res concat_nth [of as enc32 4 i k "tys @ concat (map enc_ttinfo tts) @ cs"]
    by (simp add: img_def tz_image_def nth_append)
  have ty_at: "img ! (44 + 4 * ?n + i) = tys ! i" if "i < ?n" for i
    using that res lens sizes by (simp add: img_def tz_image_def nth_append)
  have tt_at: "img ! (44 + 4 * ?n + ?n + (6 * i + k)) = enc_ttinfo (tts ! i) ! k" if "i < ?k" "k < 6" for i k
    using that res lens sizes enc_len concat_nth [of tts enc_ttinfo 6 i k cs]
    by (simp add: img_def tz_image_def nth_append)
  have ch_at: "img ! (44 + 4 * ?n + ?n + 6 * ?k + i) = cs ! i" if "i < ?m" for i
    using that res lens sizes by (simp add: img_def tz_image_def nth_append)
  have codes: "sint (detzcode buf (44 + 4 * i)) = as ! i" if "i < ?n" for i
    using detzcode_enc32 [of buf "44 + 4 * i" "as ! i"] that b a_at len sizes ok
    by (simp add: sint_long_word zone_ok_def)
  have infos: "\<lparr>tt_gmtoff = sint (detzcode buf (44 + 4 * ?n + ?n + 6 * i)),
      tt_isdst = uint (buf (44 + 4 * ?n + ?n + 6 * i + 4)),
      tt_abbrind = uint (buf (44 + 4 * ?n + ?n + 6 * i + 5))\<rparr> = tts ! i" if i: "i < ?k" for i
  proof -
    have tt: "is_long (tt_gmtoff (tts ! i))" "0 \<le> tt_isdst (tts ! i)" "tt_isdst (tts ! i) < 2"
        "0 \<le> tt_abbrind (tts ! i)" "tt_abbrind (tts ! i) < int ?m"
      using ok i by (simp_all add: zone_ok_def)
    have at: "buf (44 + 4 * ?n + ?n + 6 * i + k) = enc_ttinfo (tts ! i) ! k" if "k < 6" for k
      using b tt_at [OF i that] that i len sizes by (simp add: add.assoc)
    have "sint (detzcode buf (44 + 4 * ?n + ?n + 6 * i)) = tt_gmtoff (tts ! i)"
      using detzcode_enc32 [of buf "44 + 4 * ?n + ?n + 6 * i" "tt_gmtoff (tts ! i)"] at tt
      by (simp add: enc_ttinfo_def nth_append sint_long_word)
    moreover have "uint (buf (44 + 4 * ?n + ?n + 6 * i + 4)) = tt_isdst (tts ! i)"
      using at [of 4] tt by (simp add: enc_ttinfo_def nth_append unsigned_of_int take_bit_eq_mod)
    moreover have "uint (buf (44 + 4 * ?n + ?n + 6 * i + 5)) = tt_abbrind (tts ! i)"
      using at [of 5] tt sizes by (simp add: enc_ttinfo_def nth_append unsigned_of_int take_bit_eq_mod)
    ultimately show ?thesis by simp
  qed
  define s1 where "s1 = s\<lparr>timecnt := int ?n, typecnt := int ?k, charcnt := int ?m\<rparr>"
  define s2 where "s2 = tz_tables buf s1"
  have m1: "map (\<lambda>i. sint (detzcode buf (44 + 4 * i))) [0..<?n] = as"
    using codes by (intro nth_equalityI) simp_all
  have m2: "map (\<lambda>i. buf (44 + 4 * ?n + i)) [0..<?n] = tys"
    using b ty_at len sizes by (intro nth_equalityI) simp_all
  have m3: "map (\<lambda>i. \<lparr>tt_gmtoff = sint (detzcode buf (44 + 4 * ?n + ?n + 6 * i)),
      tt_isdst = uint (buf (44 + 4 * ?n + ?n + 6 * i + 4)),
      tt_abbrind = uint (buf (44 + 4 * ?n + ?n + 6 * i + 5))\<rparr>) [0..<?k] = tts"
    using infos by (intro nth_equalityI) simp_all
  have m4: "map (\<lambda>i. buf (44 + 4 * ?n + ?n + 6 * ?k + i)) [0..<?m] = cs"
    using b ch_at len sizes by (intro nth_equalityI) simp_all
  have s2: "s2 = s1\<lparr>ats := put_first as (ats s), types := put_first tys (types s),
      ttis := put_first tts (ttis s), chars := put_first (cs @ [0]) (chars s)\<rparr>"
    unfolding s2_def tz_tables_def Let_def s1_def using m1 m2 m3 m4 by simp
  have "\<not> uint (types s2 ! j) \<ge> int ?k" if "j < ?n" for j
  proof -
    have "unat (tys ! j) < ?k" using ok that by (simp add: zone_ok_def)
    moreover have "types s2 ! j = tys ! j" using that sizes by (simp add: s2 s1_def put_first_nth)
    moreover have "uint (tys ! j) = int (unat (tys ! j))" by simp
    ultimately show ?thesis by (simp only: not_le of_nat_less_iff)
  qed
  moreover have "\<not> tt_abbrind (ttis s2 ! j) \<ge> int ?m" if "j < ?k" for j
  proof -
    have "tt_abbrind (tts ! j) < int ?m" using ok that by (simp add: zone_ok_def)
    moreover have "ttis s2 ! j = tts ! j" using that by (simp add: s2 s1_def put_first_nth)
    ultimately show ?thesis by simp
  qed
  moreover have "\<not> (word_of_int (int (length img)) :: u16) < 44"
    by (rule short_word) (use len sizes in simp_all)
  moreover have total: "44 + int ?n * 5 + int ?k * 6 + int ?m = int (length img)" using len by simp
  moreover have "tts \<noteq> []" using sizes(3) by auto
  ultimately have "tz_parse (int (length img)) buf s = (True, tz_names s2)"
    unfolding tz_parse_def Let_def counts s1_def [symmetric] s2_def [symmetric]
    using sizes by (simp add: s2 s1_def del: of_int_of_nat_eq)
  then show ?thesis by (simp add: img_def [symmetric] tz_names_def s2 s1_def)
qed

text \<open>
  Local time, from the file to the fields: with the zone file that \<open>tzset\<close> finds, the result is a valid
  date, the moment shifted by the offset of the last transition before it.
\<close>

lemma tzset_loads:
  assumes "zone_ok as tys tts cs" and "length reserved = 32"
    and "ze_TZ env \<noteq> Some []"
    and "tz_path env (case ze_TZ env of None \<Rightarrow> TZDEFAULT | Some n \<Rightarrow> n) = Some (path, check)"
    and "check \<longrightarrow> ze_access env path"
    and "ze_read env path sizeof_state = Some (int (length (tz_image reserved as tys tts cs)), buf)"
    and "\<And>i. i < length (tz_image reserved as tys tts cs) \<Longrightarrow> buf i = tz_image reserved as tys tts cs ! i"
  shows "timecnt (tzset env s) = int (length as) \<and> ats (tzset env s) = put_first as (ats s) \<and>
    types (tzset env s) = put_first tys (types s) \<and> ttis (tzset env s) = put_first tts (ttis s)"
proof -
  let ?s = "s\<lparr>tz_is_set := True\<rparr>"
  obtain s' where p: "tz_parse (int (length (tz_image reserved as tys tts cs))) buf ?s = (True, s')"
    and s': "timecnt s' = int (length as)" "ats s' = put_first as (ats s)" "types s' = put_first tys (types s)"
      "ttis s' = put_first tts (ttis s)"
    using tz_parse_image [OF assms(1,2,7), of ?s] by auto
  have "tzload env (ze_TZ env) ?s = (True, s')"
    using assms(4-6) p by (simp add: tzload_def)
  then have "tzset env s = s'" using assms(3) by (auto simp: tzset_def Let_def)
  with s' show ?thesis by simp
qed

theorem localtime_zone_file:
  assumes zone: "zone_ok as tys tts cs" "length reserved = 32"
    and env: "ze_TZ env \<noteq> Some []"
      "tz_path env (case ze_TZ env of None \<Rightarrow> TZDEFAULT | Some n \<Rightarrow> n) = Some (path, check)"
      "check \<longrightarrow> ze_access env path"
      "ze_read env path sizeof_state = Some (int (length (tz_image reserved as tys tts cs)), buf)"
      "\<And>i. i < length (tz_image reserved as tys tts cs) \<Longrightarrow> buf i = tz_image reserved as tys tts cs ! i"
    and s: "\<not> tz_is_set s"
    and times: "is_long t" "as \<noteq> []" "as ! 0 \<le> t" "sorted as" "\<forall>tt \<in> set tts. \<bar>tt_gmtoff tt\<bar> \<le> 86400"
  shows "\<exists>r s' i. localtime env t s = Some (r, s') \<and> valid_tm r \<and> i < length as \<and> as ! i \<le> t \<and>
    (\<forall>j. i < j \<and> j < length as \<longrightarrow> t < as ! j) \<and> tm_gmtoff r = tt_gmtoff (tts ! unat (tys ! i)) \<and>
    tm_isdst r = tt_isdst (tts ! unat (tys ! i)) \<and> tm_seconds r = t + tm_gmtoff r"
proof -
  define z where "z = tzset env s"
  from tzset_loads [OF zone env, of s] have z: "timecnt z = int (length as)" "ats z = put_first as (ats s)"
      "types z = put_first tys (types s)" "ttis z = put_first tts (ttis s)" by (simp_all add: z_def)
  define i where "i = transition t z - 1"
  have sizes: "length tys = length as" "\<forall>ty \<in> set tys. unat ty < length tts" using zone(1) by (simp_all add: zone_ok_def)
  have at: "ats z ! j = as ! j" if "j < length as" for j using that by (simp add: z put_first_nth)
  have "take (nat (timecnt z)) (ats z) = as" by (simp add: z put_first_take)
  moreover have "nat (timecnt z) \<le> length (ats z)" by (simp add: z put_first_def)
  moreover have "0 < timecnt z" "ats z ! 0 \<le> t" using times at [of 0] by (simp_all add: z)
  ultimately have i: "i < length as" "as ! i \<le> t" "\<And>j. j < length as \<Longrightarrow> i < j \<Longrightarrow> t < as ! j"
    using transition_spec [of z t] times(4) at unfolding i_def by (auto simp: z)
  let ?ty = "unat (tys ! i)"
  have ty: "?ty < length tts" using sizes i(1) by simp
  have type: "time_type t z = Some ?ty"
    using \<open>0 < timecnt z\<close> \<open>ats z ! 0 \<le> t\<close> i(1) sizes
    by (simp add: time_type_def i_def [symmetric, simplified]) (simp add: z put_first_nth)
  have tt: "ttis z ! ?ty = tts ! ?ty" "?ty < length (ttis z)"
    using ty by (simp_all add: z put_first_nth) (simp add: put_first_def)
  have off: "\<bar>tt_gmtoff (tts ! ?ty)\<bar> \<le> 86400" "tt_isdst (tts ! ?ty) < 2"
    using ty times(5) zone(1) by (simp_all add: zone_ok_def)
  then obtain r where r: "offtime t (tt_gmtoff (tts ! ?ty)) = Some r" "valid_tm r"
      "tm_seconds r = t + tt_gmtoff (tts ! ?ty)" "tm_gmtoff r = tt_gmtoff (tts ! ?ty)"
    using offtime_correct [OF times(1), of "tt_gmtoff (tts ! ?ty)"] by (auto simp: abs_le_iff)
  have "\<exists>s'. localtime env t s = Some (r\<lparr>tm_isdst := tt_isdst (tts ! ?ty),
      tm_zone := InChars (nat (tt_abbrind (tts ! ?ty)))\<rparr>, s')"
    using s type tt off(2) r(1) by (simp add: localtime_def z_def [symmetric] Let_def)
  moreover have "valid_tm (r\<lparr>tm_isdst := a, tm_zone := b\<rparr>) \<and> tm_seconds (r\<lparr>tm_isdst := a, tm_zone := b\<rparr>) = tm_seconds r" for a b
    using r(2) by (simp add: valid_tm_def tm_seconds_def)
  ultimately show ?thesis using i r by (auto intro!: exI [of _ i])
qed

end
