(* ===== verification/Lib_Strftime.thy ===== *)
theory Lib_Strftime
  imports Lib_Zone
begin

text \<open>
  Formatted dates of the C library (\<open>bsdlibc/gen/strftime.c\<close>). The static variables \<open>pt\<close> and \<open>gsize\<close>
  are the text written so far and the room left for more; a routine returns whether it succeeded. The
  text a zone name points to is a parameter.
\<close>

section \<open>The code\<close>

definition Afmt :: "string list" where
  "Afmt = [''Sunday'', ''Monday'', ''Tuesday'', ''Wednesday'', ''Thursday'', ''Friday'', ''Saturday'']"

definition Bfmt :: "string list" where
  "Bfmt = [''January'', ''February'', ''March'', ''April'', ''May'', ''June'', ''July'', ''August'',
     ''September'', ''October'', ''November'', ''December'']"

fun add_text :: "string \<Rightarrow> string \<times> nat \<Rightarrow> bool \<times> string \<times> nat" where
  "add_text str (out, 0) = (False, out, 0)"
| "add_text [] (out, Suc g) = (True, out, Suc g)"
| "add_text (c # str) (out, Suc g) = add_text str (out @ [c], g)"

text \<open>The buffer of \<open>_conv\<close>: \<open>p\<close> is the number of characters in front of the current one.\<close>

fun conv_digits :: "nat \<Rightarrow> int \<Rightarrow> int \<Rightarrow> string \<Rightarrow> nat \<times> int \<times> string" where
  "conv_digits 0 n digits acc = (0, digits, acc)"
| "conv_digits (Suc p) n digits acc =
     (if 0 < n then conv_digits p (n sdiv 10) (digits - 1) (char_of (nat (n smod 10 + 48)) # acc)
      else (Suc p, digits, acc))"

fun conv_pad :: "nat \<Rightarrow> int \<Rightarrow> char \<Rightarrow> string \<Rightarrow> string" where
  "conv_pad 0 digits pad acc = acc"
| "conv_pad (Suc p) digits pad acc = (if 0 < digits then conv_pad p (digits - 1) pad (pad # acc) else acc)"

definition conv_field :: "int \<Rightarrow> int \<Rightarrow> char \<Rightarrow> string" where
  "conv_field n digits pad = (case conv_digits 8 n digits [] of (p, digits, acc) \<Rightarrow> conv_pad p digits pad acc)"

text \<open>What the letter behind a percent sign asks for.\<close>

datatype piece = Itself | Write string | Number int int char | Format string | Fail

definition twelve :: "int \<Rightarrow> int" where
  "twelve h = (if h smod 12 \<noteq> 0 then h smod 12 else 12)"

definition pieces :: "(zname \<Rightarrow> string) \<Rightarrow> tm \<Rightarrow> (char \<times> piece) list" where
  "pieces zone t =
    [(CHR ''A'', if tm_wday t < 0 \<or> tm_wday t > 6 then Fail else Write (Afmt ! nat (tm_wday t))),
     (CHR ''a'', if tm_wday t < 0 \<or> tm_wday t > 6 then Fail else Write (take 3 (Afmt ! nat (tm_wday t)))),
     (CHR ''B'', if tm_mon t < 0 \<or> tm_mon t > 11 then Fail else Write (Bfmt ! nat (tm_mon t))),
     (CHR ''b'', if tm_mon t < 0 \<or> tm_mon t > 11 then Fail else Write (take 3 (Bfmt ! nat (tm_mon t)))),
     (CHR ''h'', if tm_mon t < 0 \<or> tm_mon t > 11 then Fail else Write (Bfmt ! nat (tm_mon t))),
     (CHR ''C'', Format ''%a %b %e %H:%M:%S %Y''),
     (CHR ''c'', Format ''%m/%d/%y %H:%M:%S''),
     (CHR ''D'', Format ''%m/%d/%y''),
     (CHR ''d'', Number (tm_mday t) 2 CHR ''0''),
     (CHR ''e'', Number (tm_mday t) 2 CHR '' ''),
     (CHR ''H'', Number (tm_hour t) 2 CHR ''0''),
     (CHR ''I'', Number (twelve (tm_hour t)) 2 CHR ''0''),
     (CHR ''j'', Number (int16 (tm_yday t + 1)) 3 CHR ''0''),
     (CHR ''k'', Number (tm_hour t) 2 CHR '' ''),
     (CHR ''l'', Number (twelve (tm_hour t)) 2 CHR '' ''),
     (CHR ''M'', Number (tm_min t) 2 CHR ''0''),
     (CHR ''m'', Number (int16 (tm_mon t + 1)) 2 CHR ''0''),
     (CHR ''n'', Write [CHR 0x0A]),
     (CHR ''p'', Write (if tm_hour t \<ge> 12 then ''PM'' else ''AM'')),
     (CHR ''R'', Format ''%H:%M''),
     (CHR ''r'', Format ''%I:%M:%S %p''),
     (CHR ''S'', Number (tm_sec t) 2 CHR ''0''),
     (CHR ''T'', Format ''%H:%M:%S''),
     (CHR ''X'', Format ''%H:%M:%S''),
     (CHR ''t'', Write [CHR 0x09]),
     (CHR ''U'', Number (int16 (tm_yday t + 7 - tm_wday t) sdiv 7) 2 CHR ''0''),
     (CHR ''W'', Number (int16 (tm_yday t + 7 - (if tm_wday t \<noteq> 0 then tm_wday t - 1 else 6)) sdiv 7) 2 CHR ''0''),
     (CHR ''w'', Number (tm_wday t) 1 CHR ''0''),
     (CHR ''x'', Format ''%m/%d/%y''),
     (CHR ''y'', Number (int16 (tm_year t + TM_YEAR_BASE) smod 100) 2 CHR ''0''),
     (CHR ''Y'', Number (int16 (tm_year t + TM_YEAR_BASE)) 4 CHR ''0''),
     (CHR ''Z'', Write (zone (tm_zone t)))]"

definition piece_of :: "(zname \<Rightarrow> string) \<Rightarrow> tm \<Rightarrow> char \<Rightarrow> piece" where
  "piece_of zone t ch = (case map_of (pieces zone t) ch of Some p \<Rightarrow> p | None \<Rightarrow> Itself)"

text \<open>The formats that a letter stands for contain no such letter themselves.\<close>

definition weight :: "string \<Rightarrow> nat" where
  "weight f = sum_list (map (\<lambda>c. if c \<in> set ''CcDRrTXx'' then 50 else 1) f)"

lemma weight_Nil [simp]: "weight [] = 0"
  by (simp add: weight_def)

lemma weight_Cons [simp]: "weight (c # f) = (if c \<in> set ''CcDRrTXx'' then 50 else 1) + weight f"
  by (simp add: weight_def)

lemma pieces_weight:
  "list_all (\<lambda>(ch, p). case p of Format g \<Rightarrow> weight g < 50 \<and> ch \<in> set ''CcDRrTXx'' | _ \<Rightarrow> True) (pieces zone t)"
  by (simp add: pieces_def weight_def)

lemma piece_of_Format: "piece_of zone t ch = Format g \<Longrightarrow> weight g < 50 \<and> ch \<in> set ''CcDRrTXx''"
  using pieces_weight [of zone t]
  by (auto simp: piece_of_def list_all_iff split: option.splits dest!: map_of_SomeD)

declare weight_Cons [simp del]

lemma weight_less: "weight f < weight (c # f)" "weight f < weight (c # d # f)" "weight (d # f) < weight (c # d # f)"
  "0 < weight (c # f)"
  by (simp_all add: weight_Cons)

lemma weight_Format: "piece_of zone t ch = Format g \<Longrightarrow> weight g < weight (c # ch # f)"
  using piece_of_Format [of zone t ch g] by (simp add: weight_Cons [of c] weight_Cons [of ch])

definition put_char :: "char \<Rightarrow> string \<times> nat \<Rightarrow> bool \<times> string \<times> nat" where
  "put_char ch = (\<lambda>(out, g). if g = 0 then (False, out, 0) else (True, out @ [ch], g - 1))"

function strf_fmt :: "(zname \<Rightarrow> string) \<Rightarrow> tm \<Rightarrow> string \<Rightarrow> string \<times> nat \<Rightarrow> bool \<times> string \<times> nat" where
  "strf_fmt zone t [] st = (snd st \<noteq> 0, st)"
| "strf_fmt zone t [ch] st = (case put_char ch st of (ok, st) \<Rightarrow> if ok then strf_fmt zone t [] st else (False, st))"
| "strf_fmt zone t (c # ch # f) st =
     (if c = CHR ''%'' then
        case piece_of zone t ch of
          Itself \<Rightarrow> (case put_char ch st of (ok, st) \<Rightarrow> if ok then strf_fmt zone t f st else (False, st))
        | Write str \<Rightarrow> (case add_text str st of (ok, st) \<Rightarrow> if ok then strf_fmt zone t f st else (False, st))
        | Number n digits pad \<Rightarrow>
            (case add_text (conv_field n digits pad) st of (ok, st) \<Rightarrow> if ok then strf_fmt zone t f st else (False, st))
        | Format g \<Rightarrow> (case strf_fmt zone t g st of (ok, st) \<Rightarrow> if ok then strf_fmt zone t f st else (False, st))
        | Fail \<Rightarrow> (False, st)
      else case put_char c st of (ok, st) \<Rightarrow> if ok then strf_fmt zone t (ch # f) st else (False, st))"
  by pat_completeness auto
termination
  by (relation "measure (\<lambda>(zone, t, f, st). weight f)") (auto simp: weight_less weight_Format)

definition strftime :: "(zname \<Rightarrow> string) \<Rightarrow> nat \<Rightarrow> string \<Rightarrow> tm \<Rightarrow> nat \<times> string" where
  "strftime zone maxsize format t =
     (if maxsize < 1 then (0, [])
      else case strf_fmt zone t format ([], maxsize) of (ok, out, g) \<Rightarrow> (if ok then maxsize - g else 0, out))"

section \<open>What a format shows\<close>

text \<open>The reference: the text of a format, whatever its length, if it has one.\<close>

function shown :: "(zname \<Rightarrow> string) \<Rightarrow> tm \<Rightarrow> string \<Rightarrow> string option" where
  "shown zone t [] = Some []"
| "shown zone t [ch] = Some [ch]"
| "shown zone t (c # ch # f) =
     (if c = CHR ''%'' then
        case piece_of zone t ch of
          Itself \<Rightarrow> map_option (\<lambda>r. ch # r) (shown zone t f)
        | Write str \<Rightarrow> map_option (\<lambda>r. str @ r) (shown zone t f)
        | Number n digits pad \<Rightarrow> map_option (\<lambda>r. conv_field n digits pad @ r) (shown zone t f)
        | Format g \<Rightarrow> Option.bind (shown zone t g) (\<lambda>a. map_option (\<lambda>r. a @ r) (shown zone t f))
        | Fail \<Rightarrow> None
      else map_option (\<lambda>r. c # r) (shown zone t (ch # f)))"
  by pat_completeness auto
termination
  by (relation "measure (\<lambda>(zone, t, f). weight f)") (auto simp: weight_less weight_Format)

text \<open>Writing a text succeeds when it fits with a NUL behind it; nothing goes beyond the room there is.\<close>

definition written :: "string option \<Rightarrow> string \<times> nat \<Rightarrow> bool \<times> string \<times> nat \<Rightarrow> bool" where
  "written r st res \<longleftrightarrow>
     (if \<exists>x. r = Some x \<and> length x < snd st
      then res = (True, fst st @ the r, snd st - length (the r))
      else \<not> fst res) \<and>
     length (fst (snd res)) + snd (snd res) \<le> length (fst st) + snd st"

lemma add_text_eq:
  "add_text str (out, g) =
   (if length str < g then (True, out @ str, g - length str) else (False, out @ take g str, 0))"
  by (induction str "(out, g)" arbitrary: out g rule: add_text.induct) auto

lemma written_add_text: "written (Some str) st (add_text str st)"
  by (cases st) (auto simp: written_def add_text_eq)

lemma written_put_char: "snd st \<noteq> 0 \<Longrightarrow> put_char ch st = (True, fst st @ [ch], snd st - 1)"
  "snd st = 0 \<Longrightarrow> put_char ch st = (False, fst st, 0)"
  by (auto simp: put_char_def split: prod.splits)

lemma written_append:
  assumes "written a st res" and "\<And>st'. res = (True, st') \<Longrightarrow> written b st' (rest st')"
  shows "written (Option.bind a (\<lambda>x. map_option (\<lambda>r. x @ r) b)) st
    (case res of (ok, st) \<Rightarrow> if ok then rest st else (False, st))"
proof (cases "\<exists>x. a = Some x \<and> length x < snd st")
  case True
  then obtain x where x: "a = Some x" "length x < snd st" by auto
  with assms(1) have res: "res = (True, fst st @ x, snd st - length x)" by (simp add: written_def)
  from assms(2) [OF this] x show ?thesis
    by (cases b) (auto simp: written_def res)
next
  case False
  with assms(1) have "\<not> fst res" "length (fst (snd res)) + snd (snd res) \<le> length (fst st) + snd st"
    by (auto simp: written_def split: if_splits)
  moreover have "\<not> (\<exists>x. Option.bind a (\<lambda>x. map_option (\<lambda>r. x @ r) b) = Some x \<and> length x < snd st)"
    using False by (cases a; cases b) auto
  ultimately show ?thesis by (auto simp: written_def split: prod.splits)
qed

lemma written_char:
  assumes "snd st \<noteq> 0 \<Longrightarrow> written b (fst st @ [c], snd st - 1) (rest (fst st @ [c], snd st - 1))"
  shows "written (map_option (\<lambda>r. c # r) b) st
    (case put_char c st of (ok, st) \<Rightarrow> if ok then rest st else (False, st))"
proof (cases "snd st = 0")
  case True
  then show ?thesis by (cases b) (auto simp: written_def written_put_char)
next
  case False
  with assms have "written b (fst st @ [c], snd st - 1) (rest (fst st @ [c], snd st - 1))" by simp
  moreover have "put_char c st = (True, fst st @ [c], snd st - 1)" using False by (rule written_put_char)
  ultimately show ?thesis using False by (cases b) (auto simp: written_def split: if_splits)
qed

lemma written_text:
  assumes "\<And>st'. add_text str st = (True, st') \<Longrightarrow> written b st' (rest st')"
  shows "written (map_option (\<lambda>r. str @ r) b) st
    (case add_text str st of (ok, st) \<Rightarrow> if ok then rest st else (False, st))"
  using written_append [OF written_add_text assms] by simp

theorem fmt_shown: "written (shown zone t f) st (strf_fmt zone t f st)"
proof (induction zone t f st rule: strf_fmt.induct)
  case (1 zone t st)
  show ?case by (cases st) (auto simp: written_def)
next
  case (2 zone t ch st)
  have "written (Some []) st' (strf_fmt zone t [] st')" for st'
    by (cases st') (auto simp: written_def)
  then have "written (map_option (\<lambda>r. ch # r) (Some [])) st
      (case put_char ch st of (ok, st) \<Rightarrow> if ok then strf_fmt zone t [] st else (False, st))"
    by (intro written_char)
  then show ?case by simp
next
  case (3 zone t c ch f st)
  show ?case
  proof (cases "c = CHR ''%''")
    case False
    with 3 written_char [of st "shown zone t (ch # f)" c "strf_fmt zone t (ch # f)"] show ?thesis
      by (simp add: written_put_char)
  next
    case True
    note c = this
    show ?thesis
    proof (cases "piece_of zone t ch")
      case Itself
      with 3 c written_char [of st "shown zone t f" ch "strf_fmt zone t f"] show ?thesis
        by (simp add: written_put_char)
    next
      case (Write str)
      with 3 c written_text [of str st "shown zone t f" "strf_fmt zone t f"] show ?thesis by simp
    next
      case (Number n d p)
      with 3 c written_text [of "conv_field n d p" st "shown zone t f" "strf_fmt zone t f"] show ?thesis by simp
    next
      case (Format g)
      with 3 c written_append [of "shown zone t g" st "strf_fmt zone t g st" "shown zone t f" "strf_fmt zone t f"]
      show ?thesis by simp
    next
      case Fail
      with c show ?thesis by (simp add: written_def)
    qed
  qed
qed

theorem strftime_shows:
  "strftime zone maxsize f t = (n, out) \<Longrightarrow>
   length out \<le> maxsize \<and>
   (case shown zone t f of
      Some r \<Rightarrow> if length r < maxsize then n = length r \<and> out = r else n = 0
    | None \<Rightarrow> n = 0)"
  using fmt_shown [of zone t f "([], maxsize)"]
  by (auto simp: strftime_def written_def split: if_splits prod.splits option.splits)

section \<open>Numbers\<close>

lemma digit_chars: "0 \<le> n \<Longrightarrow> char_of (nat (n smod 10 + 48)) = ''0123456789abcdef'' ! (nat n mod 10)"
proof -
  assume n: "0 \<le> n"
  have "\<forall>k < 10. char_of (k + 48) = ''0123456789abcdef'' ! k" by code_simp
  moreover have "nat (n smod 10 + 48) = nat n mod 10 + 48"
    using n by (simp add: smod_mod_positive nat_add_distrib nat_mod_distrib)
  ultimately show ?thesis by simp
qed

lemma conv_digits_numeral:
  "0 < n \<Longrightarrow> length (numeral_text 10 (nat n)) \<le> p \<Longrightarrow>
   conv_digits p n digits acc =
     (p - length (numeral_text 10 (nat n)), digits - int (length (numeral_text 10 (nat n))), numeral_text 10 (nat n) @ acc)"
proof (induction p n digits acc rule: conv_digits.induct)
  case (1 n digits acc)
  then show ?case using numeral_text_nonempty [of 10 "nat n"] by simp
next
  case (2 p n digits acc)
  have sdiv: "n sdiv 10 = n div 10" using 2(2) by (simp add: pos_div_mod)
  show ?case
  proof (cases "n < 10")
    case True
    have "conv_digits p (n div 10) (digits - 1) (char_of (nat (n smod 10 + 48)) # acc) =
        (p, digits - 1, char_of (nat (n smod 10 + 48)) # acc)"
      using True 2(2) by (cases p) simp_all
    moreover have "numeral_text 10 (nat n) = [''0123456789abcdef'' ! nat n]"
    proof -
      have "nat n < 10" using True by linarith
      then show ?thesis by (simp add: numeral_text.simps [of 10 "nat n"])
    qed
    ultimately show ?thesis using True 2(2) by (simp add: sdiv digit_chars)
  next
    case False
    have "\<not> nat n < 10" using False by linarith
    then have "numeral_text 10 (nat n) = numeral_text 10 (nat (n div 10)) @ [''0123456789abcdef'' ! (nat n mod 10)]"
      by (simp add: numeral_text.simps [of 10 "nat n"] nat_div_distrib)
    moreover have "0 < n div 10" using False by simp
    ultimately show ?thesis using 2 by (simp add: sdiv digit_chars)
  qed
qed

lemma conv_pad_replicate: "digits \<le> int p \<Longrightarrow> conv_pad p digits pad acc = replicate (nat digits) pad @ acc"
proof (induction p digits pad acc rule: conv_pad.induct)
  case (2 p digits pad acc)
  show ?case
  proof (cases "0 < digits")
    case True
    then have "nat digits = Suc (nat (digits - 1))" by simp
    with 2 True show ?thesis by (simp add: replicate_app_Cons_same)
  qed simp
qed simp

lemma conv_numeral:
  assumes "0 < n" and "n < 10 ^ 8" and "digits \<le> 8"
  shows "conv_field n digits pad =
    replicate (nat digits - length (numeral_text 10 (nat n))) pad @ numeral_text 10 (nat n)"
proof -
  have l: "length (numeral_text 10 (nat n)) \<le> 8" using assms by (intro numeral_text_length) auto
  with assms conv_digits_numeral [of n 8 digits "[]"] show ?thesis
    by (simp add: conv_field_def conv_pad_replicate nat_diff_distrib')
qed

text \<open>Zero has no digits, it is shown as padding only.\<close>

lemma conv_zero: "digits \<le> 8 \<Longrightarrow> conv_field 0 digits pad = replicate (nat digits) pad"
proof -
  have "conv_digits p 0 digits acc = (p, digits, acc)" for p acc by (cases p) simp_all
  then show "digits \<le> 8 \<Longrightarrow> conv_field 0 digits pad = replicate (nat digits) pad"
    by (simp add: conv_field_def conv_pad_replicate)
qed

lemma conv_fields:
  "0 \<le> n \<Longrightarrow> n < 100 \<Longrightarrow> conv_field n 2 CHR ''0'' = zero_field 2 n"
  "0 < n \<Longrightarrow> n < 100 \<Longrightarrow> CHR '' '' # conv_field n 2 CHR '' '' = blank_field 3 n"
  "1000 \<le> n \<Longrightarrow> n < 10000 \<Longrightarrow> conv_field n 4 CHR ''0'' = signed_dec n"
proof -
  have z: "numeral_text 10 0 = ''0''" by (simp add: numeral_text.simps [of 10 0])
  show "0 \<le> n \<Longrightarrow> n < 100 \<Longrightarrow> conv_field n 2 CHR ''0'' = zero_field 2 n"
    by (cases "n = 0") (simp_all add: conv_zero conv_numeral zero_field_def Let_def z numeral_2_eq_2)
  show "0 < n \<Longrightarrow> n < 100 \<Longrightarrow> CHR '' '' # conv_field n 2 CHR '' '' = blank_field 3 n"
    using numeral_two [of "nat n"]
    by (auto simp: conv_numeral blank_field_def signed_dec_def numeral_2_eq_2 numeral_3_eq_3 nat_less_iff)
  show "1000 \<le> n \<Longrightarrow> n < 10000 \<Longrightarrow> conv_field n 4 CHR ''0'' = signed_dec n"
    using numeral_four [of "nat n"] by (simp add: conv_numeral signed_dec_def nat_less_iff)
qed

section \<open>The same date as asctime\<close>

lemma names_agree:
  "0 \<le> n \<Longrightarrow> n < 7 \<Longrightarrow> take 3 (Afmt ! nat n) = wday_name ! nat n"
  "0 \<le> n \<Longrightarrow> n < 12 \<Longrightarrow> take 3 (Bfmt ! nat n) = mon_name ! nat n"
proof -
  have "\<forall>k < 7. take 3 (Afmt ! k) = wday_name ! k" "\<forall>k < 12. take 3 (Bfmt ! k) = mon_name ! k"
    by code_simp+
  then show "0 \<le> n \<Longrightarrow> n < 7 \<Longrightarrow> take 3 (Afmt ! nat n) = wday_name ! nat n"
    "0 \<le> n \<Longrightarrow> n < 12 \<Longrightarrow> take 3 (Bfmt ! nat n) = mon_name ! nat n"
    by (simp_all add: nat_less_iff)
qed

lemma piece_letters:
  "piece_of zone t CHR ''C'' = Format ''%a %b %e %H:%M:%S %Y''"
  "piece_of zone t CHR ''a'' = (if tm_wday t < 0 \<or> tm_wday t > 6 then Fail else Write (take 3 (Afmt ! nat (tm_wday t))))"
  "piece_of zone t CHR ''b'' = (if tm_mon t < 0 \<or> tm_mon t > 11 then Fail else Write (take 3 (Bfmt ! nat (tm_mon t))))"
  "piece_of zone t CHR ''h'' = (if tm_mon t < 0 \<or> tm_mon t > 11 then Fail else Write (Bfmt ! nat (tm_mon t)))"
  "piece_of zone t CHR ''e'' = Number (tm_mday t) 2 CHR '' ''"
  "piece_of zone t CHR ''H'' = Number (tm_hour t) 2 CHR ''0''"
  "piece_of zone t CHR ''M'' = Number (tm_min t) 2 CHR ''0''"
  "piece_of zone t CHR ''S'' = Number (tm_sec t) 2 CHR ''0''"
  "piece_of zone t CHR ''Y'' = Number (int16 (tm_year t + 1900)) 4 CHR ''0''"
  "piece_of zone t CHR ''k'' = Number (tm_hour t) 2 CHR '' ''"
  by (simp_all only: piece_of_def pieces_def map_of.simps fst_conv snd_conv) simp_all

theorem strftime_asctime:
  assumes "valid_tm t" and "- 900 \<le> tm_year t" and "tm_year t < 8100" and "25 \<le> maxsize"
  shows "\<exists>r. asctime t = Some (r @ [CHR 0x0A]) \<and> strftime zone maxsize ''%C'' t = (24, r)"
proof -
  note v = assms(1) [unfolded valid_tm_def]
  obtain r where r: "asctime t = Some r" "length r = 25" "last r = CHR 0x0A"
    using asctime_length [OF assms(1-3)] by blast
  have r': "r = butlast r @ [CHR 0x0A]" using r(2,3) append_butlast_last_id [of r] by fastforce
  have day: "tm_mday t \<le> 31"
    using v month_days_bound [of "nat (tm_mon t)" "tm_year t + 1900"] by (simp add: nat_less_iff)
  have w: "0 \<le> tm_wday t" "tm_wday t < 7" using v by simp_all
  have f: "0 \<le> tm_mon t" "tm_mon t < 12" "0 < tm_mday t" "0 \<le> tm_hour t" "tm_hour t < 24"
      "0 \<le> tm_min t" "tm_min t < 60" "0 \<le> tm_sec t" "tm_sec t < 60" using v by simp_all
  have y: "int16 (tm_year t + 1900) = tm_year t + 1900" "int16 (1900 + tm_year t) = tm_year t + 1900"
    using assms(2,3) by (simp_all add: int16_id)
  have c: "shown zone t ''%C'' = Some (take 3 (Afmt ! nat (tm_wday t)) @ '' '' @
      take 3 (Bfmt ! nat (tm_mon t)) @ '' '' @ conv_field (tm_mday t) 2 CHR '' '' @ '' '' @
      conv_field (tm_hour t) 2 CHR ''0'' @ '':'' @ conv_field (tm_min t) 2 CHR ''0'' @ '':'' @
      conv_field (tm_sec t) 2 CHR ''0'' @ '' '' @ conv_field (int16 (tm_year t + 1900)) 4 CHR ''0'')"
    using w f(1,2) by (simp add: piece_letters)
  have rr: "r = take 3 (Afmt ! nat (tm_wday t)) @ '' '' @
      take 3 (Bfmt ! nat (tm_mon t)) @ (CHR '' '' # conv_field (tm_mday t) 2 CHR '' '') @ '' '' @
      conv_field (tm_hour t) 2 CHR ''0'' @ '':'' @ conv_field (tm_min t) 2 CHR ''0'' @ '':'' @
      conv_field (tm_sec t) 2 CHR ''0'' @ '' '' @ conv_field (int16 (tm_year t + 1900)) 4 CHR ''0'' @ [CHR 0x0A]"
    using r(1) f w assms(2,3) y day
    by (simp add: asctime_def Let_def names_agree conv_fields split: if_splits)
  have sh: "shown zone t ''%C'' = Some (butlast r)" unfolding c by (subst rr) (simp add: butlast_append)
  obtain n out where st: "strftime zone maxsize ''%C'' t = (n, out)" by fastforce
  have "length (butlast r) = 24" using r(2) by simp
  then have "n = 24" "out = butlast r"
    using strftime_shows [OF st] assms(4) unfolding sh by simp_all
  with r(1) r' st show ?thesis by auto
qed

text \<open>An hour of zero is shown as two blanks by \<open>%k\<close>, and \<open>%h\<close> is the full name of the month.\<close>

lemma strftime_midnight: "tm_hour t = 0 \<Longrightarrow> shown zone t ''%k'' = Some ''  ''"
  by (simp add: piece_letters conv_zero numeral_2_eq_2)

lemma strftime_h: "0 \<le> tm_mon t \<Longrightarrow> tm_mon t < 12 \<Longrightarrow> shown zone t ''%h'' = Some (Bfmt ! nat (tm_mon t))"
  by (simp add: piece_letters)

end
