(* ===== verification/Muxx_Mutex.thy ===== *)
theory Muxx_Mutex
  imports Muxx_Tasks
begin

text \<open>
  The mutex service of \<open>kernel/muxx_systrap_svc.c\<close>: an array of \<open>MUT_MUTEXES\<close> bytes, 0 for a free
  mutex and otherwise the process id of its holder, cut to eight bits. Its contract is the locale
  \<open>lock_service\<close>; the mutual exclusion theorem is proved there once and holds of the code for the
  process ids that fit in a byte.
\<close>

section \<open>The service\<close>

definition mutex_at ::
  "u16 \<Rightarrow> 'd kstate \<Rightarrow> (u8 \<Rightarrow> ('a, 'd kstate) outcome) \<Rightarrow> ('a, 'd kstate) outcome" where
  "mutex_at m s k =
     (if unat m < length (mutexes s) then k (mutexes s ! unat m) else Stop (Fault BufferOverrun) s)"

definition set_mutex :: "u16 \<Rightarrow> u8 \<Rightarrow> 'd kstate \<Rightarrow> 'd kstate" where
  "set_mutex m b s = s\<lparr>mutexes := (mutexes s)[unat m := b]\<rparr>"

text \<open>
  The service as the dispatcher calls it: where it leaves the priority at 7, the rest of the system call
  runs at that level; the \<open>rtt\<close> of the trap entry then restores the caller's PSW.
\<close>

definition muxx_svc_mutex :: "u16 \<Rightarrow> u16 \<Rightarrow> 'd kstate \<Rightarrow> (int, 'd kstate) outcome" where
  "muxx_svc_mutex mutex op s =
     (if unat mutex > MUT_MUTEXES then Ret EINVVAL s
      else if op = MUT_READ then mutex_at mutex s (\<lambda>b. Ret (uint b) s)
      else if op = MUT_ALLOC then
        (let (curpl, s) = setpl7 s
         in mutex_at mutex s (\<lambda>b.
              if b = 0 then
                at_ptr (tct s) (curtcb s) s (\<lambda>c.
                  Ret EOK (setpl curpl (set_mutex mutex (ucast (pid (tct s ! c))) s)))
              else Ret ELOCKED s))
      else if op = MUT_DEALLOC then
        (let (curpl, s) = setpl7 s
         in mutex_at mutex s (\<lambda>b.
              at_ptr (tct s) (curtcb s) s (\<lambda>c.
                if ucast b = pid (tct s ! c) then Ret EOK (setpl curpl (set_mutex mutex 0 s))
                else Ret ELOCKED s)))
      else Ret EINVVAL s)"

section \<open>The contract of a set of locks\<close>

datatype 't lock_op = Acquire 't | Release 't

fun lock_step ::
  "('m \<Rightarrow> 't \<Rightarrow> 's \<Rightarrow> (int, 's) outcome) \<Rightarrow> ('m \<Rightarrow> 't \<Rightarrow> 's \<Rightarrow> (int, 's) outcome) \<Rightarrow>
   'm \<Rightarrow> 't lock_op \<Rightarrow> 's \<Rightarrow> (int, 's) outcome" where
  "lock_step acquire release m (Acquire t) s = acquire m t s"
| "lock_step acquire release m (Release t) s = release m t s"

text \<open>A sequence of requests on numbered locks, with the return code of each.\<close>

fun run_lock_ops ::
  "('m \<Rightarrow> 't \<Rightarrow> 's \<Rightarrow> (int, 's) outcome) \<Rightarrow> ('m \<Rightarrow> 't \<Rightarrow> 's \<Rightarrow> (int, 's) outcome) \<Rightarrow>
   ('m \<times> 't lock_op) list \<Rightarrow> 's \<Rightarrow> (int list, 's) outcome" where
  "run_lock_ops acquire release [] s = Ret [] s"
| "run_lock_ops acquire release ((m, rq) # rqs) s =
     andthen (lock_step acquire release m rq s) (\<lambda>r s.
       andthen (run_lock_ops acquire release rqs s) (\<lambda>rs. Ret (r # rs)))"

fun requester :: "'t lock_op \<Rightarrow> 't" where
  "requester (Acquire t) = t"
| "requester (Release t) = t"

locale lock_service =
  fixes acquire release :: "'m \<Rightarrow> 't \<Rightarrow> 's \<Rightarrow> (int, 's) outcome"
    and holder :: "'m \<Rightarrow> 's \<Rightarrow> 't option"
    and lock :: "'m \<Rightarrow> bool"
    and wf :: "'t set \<Rightarrow> 's \<Rightarrow> bool"
  assumes acquire_free: "lock m \<Longrightarrow> wf T s \<Longrightarrow> t \<in> T \<Longrightarrow> holder m s = None \<Longrightarrow>
      \<exists>s'. acquire m t s = Ret EOK s' \<and> wf T s' \<and>
        (\<forall>k. lock k \<longrightarrow> holder k s' = (if k = m then Some t else holder k s))"
    and acquire_held: "lock m \<Longrightarrow> wf T s \<Longrightarrow> t \<in> T \<Longrightarrow> holder m s = Some u \<Longrightarrow>
      \<exists>s'. acquire m t s = Ret ELOCKED s' \<and> wf T s' \<and> (\<forall>k. lock k \<longrightarrow> holder k s' = holder k s)"
    and release_own: "lock m \<Longrightarrow> wf T s \<Longrightarrow> t \<in> T \<Longrightarrow> holder m s = Some t \<Longrightarrow>
      \<exists>s'. release m t s = Ret EOK s' \<and> wf T s' \<and>
        (\<forall>k. lock k \<longrightarrow> holder k s' = (if k = m then None else holder k s))"
    and release_other: "lock m \<Longrightarrow> wf T s \<Longrightarrow> t \<in> T \<Longrightarrow> holder m s \<noteq> Some t \<Longrightarrow>
      \<exists>s'. release m t s = Ret ELOCKED s' \<and> wf T s' \<and> (\<forall>k. lock k \<longrightarrow> holder k s' = holder k s)"
begin

abbreviation "run \<equiv> run_lock_ops acquire release"

abbreviation "good_ops T ops \<equiv> (\<forall>(m, rq) \<in> set ops. lock m \<and> requester rq \<in> T)"

lemma step_ex:
  assumes "lock m" and "wf T s" and "requester rq \<in> T"
  shows "\<exists>s' r. lock_step acquire release m rq s = Ret r s' \<and> wf T s' \<and>
    (r = EOK \<longleftrightarrow> (case rq of Acquire t \<Rightarrow> holder m s = None | Release t \<Rightarrow> holder m s = Some t)) \<and>
    (\<forall>k. lock k \<longrightarrow> holder k s' = (if k = m \<and> r = EOK
      then (case rq of Acquire t \<Rightarrow> Some t | Release t \<Rightarrow> None) else holder k s))"
proof (cases rq)
  case (Acquire t)
  show ?thesis
  proof (cases "holder m s")
    case None
    with acquire_free [of m T s t] assms Acquire show ?thesis by fastforce
  next
    case (Some u)
    with acquire_held [of m T s t u] assms Acquire show ?thesis by fastforce
  qed
next
  case (Release t)
  show ?thesis
  proof (cases "holder m s = Some t")
    case True
    with release_own [of m T s t] assms Release show ?thesis by fastforce
  next
    case False
    with release_other [of m T s t] assms Release show ?thesis by fastforce
  qed
qed

lemma run_returns:
  "wf T s \<Longrightarrow> good_ops T ops \<Longrightarrow> \<exists>rs s'. run ops s = Ret rs s' \<and> wf T s' \<and> length rs = length ops"
proof (induction ops arbitrary: s)
  case Nil
  then show ?case by simp
next
  case (Cons p ops)
  obtain m rq where p: "p = (m, rq)" by (cases p)
  with Cons.prems have "lock m" "requester rq \<in> T" by auto
  from step_ex [OF this(1) Cons.prems(1) this(2)] obtain s' r where
    "lock_step acquire release m rq s = Ret r s'" "wf T s'" by blast
  with Cons.IH [of s'] Cons.prems p show ?case by fastforce
qed

text \<open>A lock that is held is only given away by its holder.\<close>

lemma still_held:
  "wf T s \<Longrightarrow> good_ops T ops \<Longrightarrow> lock m \<Longrightarrow> holder m s = Some t \<Longrightarrow> run ops s = Ret rs s' \<Longrightarrow>
   j < length ops \<Longrightarrow> ops ! j = (m, Acquire u) \<Longrightarrow> rs ! j = EOK \<Longrightarrow>
   \<exists>k < j. ops ! k = (m, Release t) \<and> rs ! k = EOK"
proof (induction ops arbitrary: s rs j)
  case Nil
  then show ?case by simp
next
  case (Cons p ops)
  obtain m' rq where p: "p = (m', rq)" by (cases p)
  with Cons.prems have "lock m'" "requester rq \<in> T" by auto
  from step_ex [OF this(1) Cons.prems(1) this(2)] obtain s1 r where
    r: "lock_step acquire release m' rq s = Ret r s1" and
    w: "wf T s1" and
    eok: "r = EOK \<longleftrightarrow> (case rq of Acquire t \<Rightarrow> holder m' s = None | Release t \<Rightarrow> holder m' s = Some t)" and
    h: "\<forall>k. lock k \<longrightarrow> holder k s1 = (if k = m' \<and> r = EOK
      then (case rq of Acquire t \<Rightarrow> Some t | Release t \<Rightarrow> None) else holder k s)"
    by blast
  from Cons.prems p r obtain rs' where rs: "rs = r # rs'" and run: "run ops s1 = Ret rs' s'"
    by (auto simp: andthen_Ret_iff)
  show ?case
  proof (cases "rq = Release t \<and> m' = m")
    case True
    with eok Cons.prems(4) have "r = EOK" by simp
    moreover have "j \<noteq> 0" using Cons.prems(7) p True by (cases j) auto
    ultimately show ?thesis using True p rs by (intro exI [of _ 0]) auto
  next
    case False
    with eok h Cons.prems(3,4) have held: "holder m s1 = Some t"
      by (cases rq) (auto split: if_splits)
    show ?thesis
    proof (cases j)
      case 0
      with Cons.prems(4,7,8) p rs eok show ?thesis by simp
    next
      case (Suc j')
      with Cons.IH [OF w _ Cons.prems(3) held run, of j'] Cons.prems p rs
      obtain k where "k < j'" "ops ! k = (m, Release t)" "rs' ! k = EOK" by auto
      with Suc rs show ?thesis by (intro exI [of _ "Suc k"]) auto
    qed
  qed
qed

lemma mutual_exclusion:
  "wf T s \<Longrightarrow> good_ops T ops \<Longrightarrow> run ops s = Ret rs s' \<Longrightarrow> i < j \<Longrightarrow> j < length ops \<Longrightarrow>
   ops ! i = (m, Acquire t) \<Longrightarrow> rs ! i = EOK \<Longrightarrow> ops ! j = (m, Acquire u) \<Longrightarrow> rs ! j = EOK \<Longrightarrow>
   \<exists>k. i < k \<and> k < j \<and> ops ! k = (m, Release t) \<and> rs ! k = EOK"
proof (induction ops arbitrary: s rs i j)
  case Nil
  then show ?case by simp
next
  case (Cons p ops)
  obtain m' rq where p: "p = (m', rq)" by (cases p)
  with Cons.prems have "lock m'" "requester rq \<in> T" by auto
  from step_ex [OF this(1) Cons.prems(1) this(2)] obtain s1 r where
    r: "lock_step acquire release m' rq s = Ret r s1" and
    w: "wf T s1" and
    h: "\<forall>k. lock k \<longrightarrow> holder k s1 = (if k = m' \<and> r = EOK
      then (case rq of Acquire t \<Rightarrow> Some t | Release t \<Rightarrow> None) else holder k s)"
    by blast
  from Cons.prems p r obtain rs' where rs: "rs = r # rs'" and run: "run ops s1 = Ret rs' s'"
    by (auto simp: andthen_Ret_iff)
  obtain j' where j: "j = Suc j'" using Cons.prems(4) by (cases j) auto
  show ?case
  proof (cases i)
    case 0
    with Cons.prems p rs h have lk: "lock m" and held: "holder m s1 = Some t" by auto
    from still_held [OF w _ lk held run, of j' u] Cons.prems j rs
    obtain k where "k < j'" "ops ! k = (m, Release t)" "rs' ! k = EOK" by auto
    with 0 j rs show ?thesis by (intro exI [of _ "Suc k"]) auto
  next
    case (Suc i')
    with Cons.IH [OF w _ run, of i' j'] Cons.prems j rs
    obtain k where "i' < k" "k < j'" "ops ! k = (m, Release t)" "rs' ! k = EOK" by auto
    with Suc j rs show ?thesis by (intro exI [of _ "Suc k"]) auto
  qed
qed

end

section \<open>The service meets the contract\<close>

text \<open>A request of the task with process id \<open>p\<close>: the service runs with that task current.\<close>

definition mutex_request :: "u16 \<Rightarrow> u16 \<Rightarrow> u16 \<Rightarrow> 'd kstate \<Rightarrow> (int, 'd kstate) outcome" where
  "mutex_request op m p s = muxx_svc_mutex m op (s\<lparr>curtcb := muxx_findtcb p s\<rparr>)"

definition mutex_holder :: "u16 \<Rightarrow> 'd kstate \<Rightarrow> u16 option" where
  "mutex_holder m s =
     (let b = mutexes s ! unat m in if b = 0 then None else Some (ucast b))"

definition is_mutex :: "u16 \<Rightarrow> bool" where
  "is_mutex m \<longleftrightarrow> unat m < MUT_MUTEXES"

definition mutex_clients :: "u16 set \<Rightarrow> 'd kstate \<Rightarrow> bool" where
  "mutex_clients ps s \<longleftrightarrow>
     length (mutexes s) = MUT_MUTEXES \<and> length (tct s) = MAX_TASKS \<and>
     (\<forall>p \<in> ps. 0 < p \<and> p < 256 \<and> muxx_findtcb p s \<noteq> None)"

lemma byte_pid:
  assumes "(p :: u16) < 256"
  shows "ucast (ucast p :: u8) = p" and "(ucast p :: u8) = 0 \<longleftrightarrow> p = 0"
proof -
  have "uint p < 256" using assms by (simp add: word_less_def)
  then have *: "uint (ucast p :: u8) = uint p" by (simp add: unsigned_ucast_eq unsigned_take_bit_eq take_bit_int_eq_self)
  then show "ucast (ucast p :: u8) = p"
    by (simp add: word_uint_eq_iff unsigned_ucast_eq unsigned_take_bit_eq take_bit_int_eq_self)
  from * show "(ucast p :: u8) = 0 \<longleftrightarrow> p = 0"
    by (simp add: word_uint_eq_iff)
qed

lemma mutex_client_slot:
  assumes "mutex_clients ps s" and "p \<in> ps"
  obtains c where "muxx_findtcb p s = Some c" and "c < length (tct s)" and "pid (tct s ! c) = p"
    and "0 < p" and "p < 256"
  using assms findtcb_sound [of p s] by (force simp: mutex_clients_def)

lemmas mutex_simps = muxx_svc_mutex_def mutex_at_def set_mutex_def setpl_defs mutex_request_def

text \<open>The three outcomes of \<open>MUT_ALLOC\<close> and \<open>MUT_DEALLOC\<close>.\<close>

definition mutexes_to :: "u16 \<Rightarrow> u8 \<Rightarrow> 'd kstate \<Rightarrow> 'd kstate \<Rightarrow> bool" where
  "mutexes_to m b s s' \<longleftrightarrow> mutexes s' = (mutexes s)[unat m := b] \<and> tct s' = tct s"

lemma mutexes_to_clients:
  "mutexes_to m b s s' \<Longrightarrow> mutex_clients ps s \<Longrightarrow> mutex_clients ps s'"
  by (auto simp: mutexes_to_def mutex_clients_def muxx_findtcb_def)

lemma mutexes_to_holder:
  "mutexes_to m b s s' \<Longrightarrow> mutex_clients ps s \<Longrightarrow> is_mutex k \<Longrightarrow>
   mutex_holder k s' =
     (if k = m then (if b = 0 then None else Some (ucast b)) else mutex_holder k s)"
  by (cases "k = m")
    (auto simp: mutexes_to_def mutex_holder_def is_mutex_def mutex_clients_def Let_def word_unat_eq_iff)

lemma mutex_alloc_free:
  assumes "is_mutex m" and "mutex_clients ps s" and "p \<in> ps" and "mutex_holder m s = None"
  shows "\<exists>s'. mutex_request MUT_ALLOC m p s = Ret EOK s' \<and> mutexes_to m (ucast p) s s'"
proof -
  obtain c where "muxx_findtcb p s = Some c" "c < length (tct s)" "pid (tct s ! c) = p"
    using mutex_client_slot [OF assms(2,3)] by blast
  moreover have "unat m < length (mutexes s)" "\<not> unat m > MUT_MUTEXES"
    using assms(1,2) by (auto simp: is_mutex_def mutex_clients_def)
  ultimately show ?thesis
    using assms(4)
    by (auto simp: mutex_simps mutex_holder_def mutexes_to_def Let_def split: if_splits)
qed

lemma mutex_alloc_held:
  assumes "is_mutex m" and "mutex_clients ps s" and "p \<in> ps" and "mutex_holder m s = Some q"
  shows "\<exists>s'. mutex_request MUT_ALLOC m p s = Ret ELOCKED s' \<and>
    mutexes_to m (mutexes s ! unat m) s s'"
proof -
  obtain c where "muxx_findtcb p s = Some c" "c < length (tct s)" "pid (tct s ! c) = p"
    using mutex_client_slot [OF assms(2,3)] by blast
  moreover have "unat m < length (mutexes s)" "\<not> unat m > MUT_MUTEXES"
    using assms(1,2) by (auto simp: is_mutex_def mutex_clients_def)
  ultimately show ?thesis
    using assms(4)
    by (auto simp: mutex_simps mutex_holder_def mutexes_to_def Let_def split: if_splits)
qed

lemma mutex_dealloc_own:
  assumes "is_mutex m" and "mutex_clients ps s" and "p \<in> ps" and "mutex_holder m s = Some p"
  shows "\<exists>s'. mutex_request MUT_DEALLOC m p s = Ret EOK s' \<and> mutexes_to m 0 s s'"
proof -
  obtain c where "muxx_findtcb p s = Some c" "c < length (tct s)" "pid (tct s ! c) = p" "0 < p"
    using mutex_client_slot [OF assms(2,3)] by blast
  moreover have "unat m < length (mutexes s)" "\<not> unat m > MUT_MUTEXES"
    using assms(1,2) by (auto simp: is_mutex_def mutex_clients_def)
  ultimately show ?thesis
    using assms(4)
    by (auto simp: mutex_simps mutex_holder_def mutexes_to_def Let_def split: if_splits)
qed

lemma mutex_dealloc_other:
  assumes "is_mutex m" and "mutex_clients ps s" and "p \<in> ps" and "mutex_holder m s \<noteq> Some p"
  shows "\<exists>s'. mutex_request MUT_DEALLOC m p s = Ret ELOCKED s' \<and>
    mutexes_to m (mutexes s ! unat m) s s'"
proof -
  obtain c where "muxx_findtcb p s = Some c" "c < length (tct s)" "pid (tct s ! c) = p" "0 < p"
    using mutex_client_slot [OF assms(2,3)] by blast
  moreover have "unat m < length (mutexes s)" "\<not> unat m > MUT_MUTEXES"
    using assms(1,2) by (auto simp: is_mutex_def mutex_clients_def)
  ultimately show ?thesis
    using assms(4)
    by (auto simp: mutex_simps mutex_holder_def mutexes_to_def Let_def split: if_splits)
qed

lemma mutexes_same_holder:
  "mutexes_to m (mutexes s ! unat m) s s' \<Longrightarrow> mutex_clients ps s \<Longrightarrow> is_mutex k \<Longrightarrow>
   mutex_holder k s' = mutex_holder k s"
  using mutexes_to_holder [of m "mutexes s ! unat m" s s' ps k]
  by (simp add: mutex_holder_def Let_def)

interpretation mutex_lock: lock_service
    "mutex_request MUT_ALLOC" "mutex_request MUT_DEALLOC" mutex_holder is_mutex mutex_clients
proof (unfold_locales, goal_cases)
  case (1 m ps s p)
  then have "0 < p" "p < 256" by (auto simp: mutex_clients_def)
  with 1 mutex_alloc_free [of m ps s p] byte_pid [of p]
  show ?case by (auto dest: mutexes_to_clients simp: mutexes_to_holder)
next
  case (2 m ps s p q)
  with mutex_alloc_held [of m ps s p q]
  show ?case by (auto dest: mutexes_to_clients mutexes_same_holder)
next
  case (3 m ps s p)
  with mutex_dealloc_own [of m ps s p]
  show ?case by (auto dest: mutexes_to_clients simp: mutexes_to_holder)
next
  case (4 m ps s p)
  with mutex_dealloc_other [of m ps s p]
  show ?case by (auto dest: mutexes_to_clients mutexes_same_holder)
qed

text \<open>Every task of a table filled from boot has a process id that fits in a mutex.\<close>

lemma tasks_inv_small_pid:
  assumes "tasks_inv k s" and "i < k"
  shows "0 < pid (tct s ! i)" and "pid (tct s ! i) < 256"
proof -
  from assms have g: "pid_given s (pid (tct s ! i))" by (simp add: tasks_inv_def)
  from assms(1) have "unat (topspid s) \<le> 16" "unat (topupid s) \<le> 79" by (auto simp: tasks_inv_def)
  with g show "0 < pid (tct s ! i)" "pid (tct s ! i) < 256"
    by (auto simp: pid_given_def word_le_nat_alt word_less_nat_alt)
qed

lemma tasks_inv_clients:
  assumes "tasks_inv k s" and "length (mutexes s) = MUT_MUTEXES"
  shows "mutex_clients {pid (tct s ! i) | i. i < k} s"
  using assms tasks_inv_small_pid [OF assms(1)] findtcb_unique [OF assms(1)]
  by (auto simp: mutex_clients_def tasks_inv_def)

section \<open>A kernel routine that takes a mutex and gives it back\<close>

definition current_pid :: "'d kstate \<Rightarrow> u16" where
  "current_pid s = (case curtcb s of None \<Rightarrow> 0 | Some c \<Rightarrow> pid (tct s ! c))"

text \<open>The mutex is free and the current task can take it.\<close>

definition mutex_ready :: "u16 \<Rightarrow> 'd kstate \<Rightarrow> bool" where
  "mutex_ready m s \<longleftrightarrow>
     unat m < MUT_MUTEXES \<and> length (mutexes s) = MUT_MUTEXES \<and> mutexes s ! unat m = 0 \<and>
     ipl s AND 7 = ipl s \<and> (\<exists>c. curtcb s = Some c \<and> c < length (tct s)) \<and>
     0 < current_pid s \<and> current_pid s < 256"

lemma set_mutex_fields [simp]:
  "tct (set_mutex m b s) = tct s" "curtcb (set_mutex m b s) = curtcb s" "ipl (set_mutex m b s) = ipl s"
  "drvt (set_mutex m b s) = drvt s" "chnt (set_mutex m b s) = chnt s" "tucbs (set_mutex m b s) = tucbs s"
  "dev (set_mutex m b s) = dev s" "current_pid (set_mutex m b s) = current_pid s"
  by (simp_all add: set_mutex_def current_pid_def split: option.split)

lemma mutex_take:
  assumes "mutex_ready m s"
  shows "muxx_svc_mutex m MUT_ALLOC s = Ret EOK (set_mutex m (ucast (current_pid s)) s)"
  using assms
  by (auto simp: mutex_ready_def muxx_svc_mutex_def mutex_at_def setpl_defs set_mutex_def current_pid_def)

lemma mutex_give:
  assumes "unat m < MUT_MUTEXES" and "length (mutexes s) = MUT_MUTEXES"
    and "mutexes s ! unat m = ucast (current_pid s)" and "current_pid s < 256"
    and "curtcb s = Some c" and "c < length (tct s)" and "ipl s AND 7 = ipl s"
  shows "muxx_svc_mutex m MUT_DEALLOC s = Ret EOK (set_mutex m 0 s)"
  using assms byte_pid(1) [OF assms(4)]
  by (auto simp: muxx_svc_mutex_def mutex_at_def setpl_defs set_mutex_def current_pid_def)

text \<open>The critical section \<open>f\<close> in between leaves the mutex, the task and the priority alone.\<close>

lemma mutex_section:
  assumes "mutex_ready m s" and "mutexes s' = (mutexes s)[unat m := ucast (current_pid s)]"
    and "tct s' = tct s" and "curtcb s' = curtcb s" and "ipl s' = ipl s"
  shows "muxx_svc_mutex m MUT_DEALLOC s' = Ret EOK (s'\<lparr>mutexes := mutexes s\<rparr>)"
proof -
  from assms(1) obtain c where c: "curtcb s = Some c" "c < length (tct s)" by (auto simp: mutex_ready_def)
  have "(mutexes s)[unat m := 0] = mutexes s"
    using assms(1) by (metis mutex_ready_def list_update_id)
  moreover have "current_pid s' = current_pid s" using assms by (simp add: current_pid_def split: option.split)
  ultimately show ?thesis
    using mutex_give [of m s' c] assms c by (simp add: mutex_ready_def set_mutex_def)
qed

text \<open>A mutex that somebody else holds.\<close>

lemma mutex_locked:
  assumes "unat m < length (mutexes s)" and "unat m < MUT_MUTEXES" and "mutexes s ! unat m \<noteq> 0"
  shows "muxx_svc_mutex m MUT_ALLOC s = Ret ELOCKED (s\<lparr>ipl := 7\<rparr>)"
  using assms by (simp add: muxx_svc_mutex_def mutex_at_def setpl_defs)

end
