(* ===== verification/Muxx_Drivers.thy ===== *)
theory Muxx_Drivers
  imports Muxx_Mutex Lib_Ctype
begin

text \<open>
  Device drivers: \<open>kernel/muxx_drvinit.c\<close>, \<open>kernel/muxx_drvctl.c\<close>, \<open>kernel/muxx_drvctl_a.s\<close> and the
  registration service of \<open>kernel/muxx_systrap_svc.c\<close>. A driver is registered with its descriptor in
  the first free slot of the driver table, started and stopped through its callbacks, looked up by
  its name or by the device name of its descriptor, and allocated to one task at a time.

  The callbacks are code of the drivers (assembly language, \<open>drivers/*.s\<close>): a parameter \<open>cb\<close> that
  takes the callback address, the I/O packet and the state of the devices.
\<close>

type_synonym 'd callback = "u16 \<Rightarrow> iopkt \<Rightarrow> 'd \<Rightarrow> int \<times> iopkt \<times> 'd"

section \<open>The driver table\<close>

definition upd_drvcb :: "nat \<Rightarrow> (drvcb \<Rightarrow> drvcb) \<Rightarrow> 'd kstate \<Rightarrow> 'd kstate" where
  "upd_drvcb i f s =
     s\<lparr>drvt := (drvt s)\<lparr>drvcbs := (drvcbs (drvt s))[i := f (drvcbs (drvt s) ! i)]\<rparr>\<rparr>"

definition muxx_drvinit :: "'d kstate \<Rightarrow> 'd kstate" where
  "muxx_drvinit s =
     fold (\<lambda>i. upd_drvcb i (\<lambda>d. d\<lparr>drvname := ''        '', desc := None, df_free := True,
             df_loaded := False, df_active := False, df_stopped := False, taskid := 0,
             drv_status := 0\<rparr>))
       [0..<MAX_DRV] (s\<lparr>drvt := (drvt s)\<lparr>eyecat := ''DRVCBT--''\<rparr>\<rparr>)"

text \<open>\<open>memcmp(a, b, n) == 0\<close> on names.\<close>

definition memeq :: "nat \<Rightarrow> string \<Rightarrow> string \<Rightarrow> bool" where
  "memeq n a b \<longleftrightarrow> take n a = take n b"

definition muxx_find_driver :: "string \<Rightarrow> 'd kstate \<Rightarrow> ptr" where
  "muxx_find_driver devnam s =
     for_until 0 MAX_DRV (\<lambda>driver. driver \<noteq> None)
       (\<lambda>i driver. if \<not> df_free (drvcbs (drvt s) ! i) \<and> memeq 8 devnam (drvname (drvcbs (drvt s) ! i))
                  then Some i else driver) None"

section \<open>Registration\<close>

definition install_isr :: "drvisr \<Rightarrow> (u16 \<Rightarrow> u16) \<Rightarrow> u16 \<Rightarrow> u16" where
  "install_isr r v =
     v(isr_vector r := isr_handler r, isr_vector r + 2 := push_bit 5 (isr_ilevel r))"

definition find_free_drvcb :: "drvcb list \<Rightarrow> ptr" where
  "find_free_drvcb ds =
     for_until 0 MAX_DRV (\<lambda>r. r \<noteq> None) (\<lambda>i r. if df_free (ds ! i) then Some i else r) None"

definition muxx_svc_drvreg ::
  "string \<Rightarrow> drvdesc \<Rightarrow> u16 \<Rightarrow> 'd kstate \<Rightarrow> (int, 'd kstate) outcome" where
  "muxx_svc_drvreg name descriptor handler s =
     (if \<not> memeq 8 (eyecat (drvt s)) ''DRVCBT--'' then Stop (Panic ''Invalid DRVCBT eyecatcher'') s
      else at_ptr (tct s) (curtcb s) s (\<lambda>c.
        if \<not> operprv (tct s ! c) then Ret ENOPRIV s
        else case find_free_drvcb (drvcbs (drvt s)) of
               None \<Rightarrow> Ret ETCTFULL s
             | Some i \<Rightarrow>
                 (let s1 = upd_drvcb i (\<lambda>d. d\<lparr>drvname := take 8 name, desc := Some descriptor,
                        df_free := False, df_loaded := True, df_stopped := True,
                        taskid := handler\<rparr>) s;
                      n = unat (numisr descriptor);
                      s2 = s1\<lparr>vecs := fold install_isr (take n (isrtable descriptor)) (vecs s1)\<rparr>
                  in if n \<le> length (isrtable descriptor) then Ret EOK s2
                     else Stop (Fault BufferOverrun) s2)))"

section \<open>Calling a driver\<close>

definition muxx_drv_exec ::
  "'d callback \<Rightarrow> ptr \<Rightarrow> iopkt \<Rightarrow> 'd kstate \<Rightarrow> (int \<times> iopkt, 'd kstate) outcome" where
  "muxx_drv_exec cb driver pkt s =
     at_ptr (drvcbs (drvt s)) driver s (\<lambda>i.
       case desc (drvcbs (drvt s) ! i) of
         None \<Rightarrow> Stop (Fault NullDeref) s
       | Some dd \<Rightarrow>
           if unat (iop_function pkt) < length (callbacks dd) then
             (let (rc, pkt', d') = cb (callbacks dd ! unat (iop_function pkt)) pkt (dev s)
              in Ret (rc, pkt') (s\<lparr>dev := d'\<rparr>))
           else Stop (Fault BufferOverrun) s)"

definition zero_iopkt :: iopkt where
  "zero_iopkt = \<lparr>iop_function = 0, iop_error = 0, iop_param = replicate 4 0, iop_size = 0, ioarea = []\<rparr>"

definition muxx_drv_startstop ::
  "'d callback \<Rightarrow> u16 \<Rightarrow> string \<Rightarrow> 'd kstate \<Rightarrow> (int, 'd kstate) outcome" where
  "muxx_drv_startstop cb op drvnam s =
     at_ptr (tct s) (curtcb s) s (\<lambda>c.
       if \<not> operprv (tct s ! c) then Ret ENOPRIV s
       else case muxx_find_driver drvnam s of
              None \<Rightarrow> Ret ENOTFOUND s
            | Some i \<Rightarrow>
                andthen (muxx_drv_exec cb (Some i) (zero_iopkt\<lparr>iop_function := op, iop_size := 0\<rparr>) s)
                  (\<lambda>(rc, pkt) s.
                     if rc = EOK then
                       Ret rc (upd_drvcb i (\<lambda>d. d\<lparr>df_active := (op = DRV_START),
                                  df_stopped := (op \<noteq> DRV_START)\<rparr>) s)
                     else Ret rc s))"

definition muxx_svc_drvstart ::
  "'d callback \<Rightarrow> string \<Rightarrow> 'd kstate \<Rightarrow> (int, 'd kstate) outcome" where
  "muxx_svc_drvstart cb drvnam = muxx_drv_startstop cb DRV_START drvnam"

definition muxx_svc_drvstop ::
  "'d callback \<Rightarrow> string \<Rightarrow> 'd kstate \<Rightarrow> (int, 'd kstate) outcome" where
  "muxx_svc_drvstop cb drvnam = muxx_drv_startstop cb DRV_STOP drvnam"

section \<open>Locating a device\<close>

text \<open>
  The blank trimming loop, which starts on the terminating NUL of the work copy; its result is the
  copy and the final index (-1 when every character was blank).
\<close>

fun trim_blanks :: "nat \<Rightarrow> string \<Rightarrow> string \<times> int" where
  "trim_blanks i w =
     (if i < length w \<and> w ! i = CHR '' '' then
        (case i of 0 \<Rightarrow> (w[0 := CHR 0x00], - 1) | Suc j \<Rightarrow> trim_blanks j (w[i := CHR 0x00]))
      else (w, int i))"

record locate_state =
  ls_len :: int
  ls_driver :: ptr
  ls_unit :: u8
  ls_ctl :: u8
  ls_found :: bool

text \<open>\<open>memcmp\<close> with an \<open>int\<close> length, which is converted to an unsigned \<open>size_t\<close>.\<close>

definition memeq_int :: "int \<Rightarrow> string \<Rightarrow> string \<Rightarrow> bool" where
  "memeq_int l a b = memeq (nat (l mod 65536)) a b"

definition with_char ::
  "string \<Rightarrow> int \<Rightarrow> locate_state \<Rightarrow> (char \<Rightarrow> (unit, locate_state) outcome) \<Rightarrow>
   (unit, locate_state) outcome" where
  "with_char w i st k =
     (if 0 \<le> i \<and> nat i < length w then k (w ! nat i) else Stop (Fault BufferOverrun) st)"

definition locate_body ::
  "drvcb list \<Rightarrow> string \<Rightarrow> string \<Rightarrow> nat \<Rightarrow> locate_state \<Rightarrow> (unit, locate_state) outcome" where
  "locate_body ds devname wdev i st =
     (if df_free (ds ! i) then Ret () st
      else
        let st = st\<lparr>ls_driver := Some i\<rparr>
        in case desc (ds ! i) of
             None \<Rightarrow> Stop (Fault NullDeref) st
           | Some dd \<Rightarrow>
               if memeq_int (ls_len st) devname (dd_devname dd) then
                 Ret () (st\<lparr>ls_ctl := 0, ls_unit := 0, ls_found := True\<rparr>)
               else
                 with_char wdev (ls_len st) st (\<lambda>u.
                   if isdigit (of_char u) then
                     let st = st\<lparr>ls_unit := of_nat (of_char u), ls_len := ls_len st - 1\<rparr>
                     in if memeq_int (ls_len st) devname (dd_devname dd) then
                          Ret () (st\<lparr>ls_ctl := 0, ls_found := True\<rparr>)
                        else
                          with_char wdev (ls_len st) st (\<lambda>c.
                            if isalpha (of_char c) then
                              let st = st\<lparr>ls_ctl := of_nat (of_char c)\<rparr>
                              in if memeq_int (ls_len st) devname (dd_devname dd)
                                 then Ret () (st\<lparr>ls_found := True\<rparr>) else Ret () st
                            else Ret () st)
                   else Ret () st))"

text \<open>The search loop over the driver table; a fault ends it.\<close>

definition locate_loop ::
  "drvcb list \<Rightarrow> string \<Rightarrow> string \<Rightarrow> locate_state \<Rightarrow> (unit, locate_state) outcome" where
  "locate_loop ds devname wdev st =
     for_until 0 MAX_DRV (\<lambda>r. case r of Ret _ st \<Rightarrow> ls_found st | Stop _ _ \<Rightarrow> True)
       (\<lambda>i r. andthen r (\<lambda>_. locate_body ds devname wdev i)) (Ret () st)"

definition cstrlen :: "string \<Rightarrow> nat" where
  "cstrlen w = length (takeWhile (\<lambda>c. c \<noteq> CHR 0x00) w)"

definition muxx_locate_pdev ::
  "string \<Rightarrow> iote \<Rightarrow> 'd kstate \<Rightarrow> (int \<times> iote, 'd kstate) outcome" where
  "muxx_locate_pdev devname io s =
     (let wdev0 = take 8 devname @ [CHR 0x00];
          (wdev, l) = trim_blanks (cstrlen wdev0) wdev0;
          st0 = \<lparr>ls_len = l, ls_driver = None, ls_unit = 0, ls_ctl = 0, ls_found = False\<rparr>
      in case locate_loop (drvcbs (drvt s)) devname wdev st0 of
           Stop e _ \<Rightarrow> Stop e s
         | Ret _ st \<Rightarrow>
             if ls_found st then
               Ret (EOK, io\<lparr>io_driver := ls_driver st, io_controller := ls_ctl st,
                       io_unit := ls_unit st\<rparr>) s
             else Ret (ENOTFOUND, io) s)"

definition muxx_locate_dev ::
  "string \<Rightarrow> iote \<Rightarrow> 'd kstate \<Rightarrow> (int \<times> iote, 'd kstate) outcome" where
  "muxx_locate_dev devname io = muxx_locate_pdev devname io"

section \<open>Allocation\<close>

definition muxx_svc_alloc :: "string \<Rightarrow> u16 \<Rightarrow> 'd kstate \<Rightarrow> (int, 'd kstate) outcome" where
  "muxx_svc_alloc devnam op s =
     (case muxx_find_driver devnam s of
        None \<Rightarrow> Ret ENOTFOUND s
      | Some i \<Rightarrow>
          andthen (muxx_svc_mutex MUT_DRV MUT_ALLOC s) (\<lambda>rc s.
            if rc = EOK then
              at_ptr (tct s) (curtcb s) s (\<lambda>c.
                let d = drvcbs (drvt s) ! i;
                    (rc, s) =
                      (if op = DRV_ALLOC then
                         if \<not> df_alloc d then
                           (EOK, upd_drvcb i (\<lambda>d. d\<lparr>ownerid := curtcb s, df_alloc := True\<rparr>) s)
                         else (ENOAVAIL, s)
                       else if df_alloc d then
                         (if ownerid d \<noteq> curtcb s \<and> operprv (tct s ! c) then ENOPRIV else EOK,
                          upd_drvcb i (\<lambda>d. d\<lparr>ownerid := None, df_alloc := False\<rparr>) s)
                       else (ENOTALLOC, s))
                in andthen (muxx_svc_mutex MUT_DRV MUT_DEALLOC s) (\<lambda>_ s. Ret rc s))
            else Ret rc s))"

section \<open>The driver table, searched and filled\<close>

definition drv_inv :: "'d kstate \<Rightarrow> bool" where
  "drv_inv s \<longleftrightarrow>
     length (drvcbs (drvt s)) = MAX_DRV \<and> take 8 (eyecat (drvt s)) = ''DRVCBT--'' \<and>
     (\<forall>i < MAX_DRV. \<not> df_free (drvcbs (drvt s) ! i) \<longrightarrow> desc (drvcbs (drvt s) ! i) \<noteq> None)"

definition drv_used :: "drvcb list \<Rightarrow> nat \<Rightarrow> bool" where
  "drv_used ds i \<longleftrightarrow> \<not> df_free (ds ! i)"

lemma find_free_drvcb_find: "find_free_drvcb ds = find (\<lambda>i. \<not> drv_used ds i) [0..<MAX_DRV]"
  unfolding find_free_drvcb_def drv_used_def by (subst for_until_find) simp_all

interpretation drv_slots: slot_table find_free_drvcb drv_used 0 MAX_DRV
  by (rule find_slot_table) (rule find_free_drvcb_find)

lemma find_driver_find:
  "muxx_find_driver devnam s =
     find (\<lambda>i. drv_used (drvcbs (drvt s)) i \<and> memeq 8 devnam (drvname (drvcbs (drvt s) ! i))) [0..<MAX_DRV]"
  unfolding muxx_find_driver_def drv_used_def
  by (subst for_until_find [where P = "\<lambda>i. \<not> df_free (drvcbs (drvt s) ! i) \<and>
        memeq 8 devnam (drvname (drvcbs (drvt s) ! i))"]) simp_all

interpretation drv_names: slot_table "muxx_find_driver devnam"
    "\<lambda>s i. \<not> (drv_used (drvcbs (drvt s)) i \<and> memeq 8 devnam (drvname (drvcbs (drvt s) ! i)))"
    0 MAX_DRV for devnam
  by (rule find_slot_table) (simp only: find_driver_find not_not)

lemma fold_upd_drvcb:
  "distinct is \<Longrightarrow> \<forall>i \<in> set is. i < length (drvcbs (drvt s)) \<Longrightarrow>
   drvt (fold (\<lambda>i. upd_drvcb i f) is s) =
     (drvt s)\<lparr>drvcbs := map (\<lambda>i. if i \<in> set is then f (drvcbs (drvt s) ! i) else drvcbs (drvt s) ! i)
       [0..<length (drvcbs (drvt s))]\<rparr>"
proof (induction "is" arbitrary: s)
  case Nil
  then show ?case by (simp add: map_nth)
next
  case (Cons i "is")
  then show ?case
    by (auto simp: upd_drvcb_def nth_list_update intro!: arg_cong [of _ _ "\<lambda>ds. (drvt s)\<lparr>drvcbs := ds\<rparr>"])
qed

lemma drvinit_table:
  assumes "length (drvcbs (drvt s)) = MAX_DRV"
  shows "length (drvcbs (drvt (muxx_drvinit s))) = MAX_DRV"
    and "eyecat (drvt (muxx_drvinit s)) = ''DRVCBT--''"
    and "i < MAX_DRV \<Longrightarrow> df_free (drvcbs (drvt (muxx_drvinit s)) ! i)"
    and "i < MAX_DRV \<Longrightarrow> df_alloc (drvcbs (drvt (muxx_drvinit s)) ! i) = df_alloc (drvcbs (drvt s) ! i)"
  using assms unfolding muxx_drvinit_def
  by (subst fold_upd_drvcb; simp)+

lemma drvinit_inv: "length (drvcbs (drvt s)) = MAX_DRV \<Longrightarrow> drv_inv (muxx_drvinit s)"
  using drvinit_table [of s] by (simp add: drv_inv_def)

lemma upd_drvcb_fields [simp]:
  "tct (upd_drvcb i f s) = tct s" "curtcb (upd_drvcb i f s) = curtcb s" "ipl (upd_drvcb i f s) = ipl s"
  "mutexes (upd_drvcb i f s) = mutexes s" "chnt (upd_drvcb i f s) = chnt s"
  "tucbs (upd_drvcb i f s) = tucbs s" "dev (upd_drvcb i f s) = dev s" "vecs (upd_drvcb i f s) = vecs s"
  "drvcbs (drvt (upd_drvcb i f s)) = (drvcbs (drvt s))[i := f (drvcbs (drvt s) ! i)]"
  "eyecat (drvt (upd_drvcb i f s)) = eyecat (drvt s)"
  "current_pid (upd_drvcb i f s) = current_pid s"
  by (simp_all add: upd_drvcb_def current_pid_def split: option.split)

text \<open>Registration takes the first free slot, and only a privileged task may.\<close>

definition registered :: "string \<Rightarrow> drvdesc \<Rightarrow> u16 \<Rightarrow> drvcb \<Rightarrow> drvcb" where
  "registered name descriptor handler d =
     d\<lparr>drvname := take 8 name, desc := Some descriptor, df_free := False, df_loaded := True,
       df_stopped := True, taskid := handler\<rparr>"

lemma drvreg_denied:
  assumes "drv_inv s" and "curtcb s = Some c" and "c < length (tct s)" and "\<not> operprv (tct s ! c)"
  shows "muxx_svc_drvreg name descriptor handler s = Ret ENOPRIV s"
  using assms by (simp add: muxx_svc_drvreg_def drv_inv_def memeq_def)

lemma drvreg_full:
  assumes "drv_inv s" and "curtcb s = Some c" and "c < length (tct s)" and "operprv (tct s ! c)"
    and "find_free_drvcb (drvcbs (drvt s)) = None"
  shows "muxx_svc_drvreg name descriptor handler s = Ret ETCTFULL s"
  using assms by (simp add: muxx_svc_drvreg_def drv_inv_def memeq_def)

lemma drvreg_ok:
  assumes inv: "drv_inv s" and "curtcb s = Some c" and "c < length (tct s)" and "operprv (tct s ! c)"
    and i: "find_free_drvcb (drvcbs (drvt s)) = Some i"
    and n: "unat (numisr descriptor) \<le> length (isrtable descriptor)"
  shows "muxx_svc_drvreg name descriptor handler s =
    Ret EOK ((upd_drvcb i (registered name descriptor handler) s)
      \<lparr>vecs := fold install_isr (take (unat (numisr descriptor)) (isrtable descriptor)) (vecs s)\<rparr>)"
  using assms by (simp add: muxx_svc_drvreg_def drv_inv_def memeq_def registered_def [abs_def])

lemma registered_inv:
  assumes "drv_inv s" and "i < MAX_DRV"
  shows "drv_inv (upd_drvcb i (registered name descriptor handler) s)"
  using assms by (auto simp: drv_inv_def nth_list_update registered_def)

lemma drv_inv_vecs [simp]: "drv_inv (s\<lparr>vecs := v\<rparr>) = drv_inv s"
  by (simp add: drv_inv_def)

text \<open>A registered driver is found again under its name, unless an earlier one has the same name.\<close>

lemma registered_found:
  assumes inv: "drv_inv s" and i: "find_free_drvcb (drvcbs (drvt s)) = Some i"
    and new: "muxx_find_driver name s = None"
  shows "muxx_find_driver name (upd_drvcb i (registered name descriptor handler) s) = Some i"
proof (rule drv_names.finds_first)
  let ?s = "upd_drvcb i (registered name descriptor handler) s"
  from drv_slots.search_some [OF i] have i8: "i < MAX_DRV" by simp
  then show "0 \<le> i" "i < MAX_DRV" by simp_all
  show "\<not> \<not> (drv_used (drvcbs (drvt ?s)) i \<and> memeq 8 name (drvname (drvcbs (drvt ?s) ! i)))"
    using inv i8 by (simp add: drv_inv_def drv_used_def registered_def memeq_def)
  show "\<not> (drv_used (drvcbs (drvt ?s)) j \<and> memeq 8 name (drvname (drvcbs (drvt ?s) ! j)))"
    if "0 \<le> j" "j < i" for j
    using drv_names.search_none [OF new that(1)] that i8 by (simp add: drv_used_def)
qed

section \<open>Locating a device: what the search really does\<close>

definition work_name :: "string \<Rightarrow> string" where
  "work_name devname = take 8 devname @ [CHR 0x00]"

lemma cstrlen_nul: "CHR 0x00 \<in> set w \<Longrightarrow> cstrlen w < length w \<and> w ! cstrlen w = CHR 0x00"
  unfolding cstrlen_def by (induction w) auto

lemma cstrlen_work: "cstrlen (work_name devname) < length (work_name devname)"
    "work_name devname ! cstrlen (work_name devname) = CHR 0x00" "cstrlen (work_name devname) \<le> 8"
  using cstrlen_nul [of "work_name devname"] by (auto simp: work_name_def)

lemma trim_blanks_nul: "w ! i = CHR 0x00 \<Longrightarrow> trim_blanks i w = (w, int i)"
  by (subst trim_blanks.simps) simp

definition dev_matches :: "drvcb list \<Rightarrow> string \<Rightarrow> nat \<Rightarrow> bool" where
  "dev_matches ds devname i \<longleftrightarrow> drv_used ds i \<and>
     (case desc (ds ! i) of None \<Rightarrow> False
      | Some dd \<Rightarrow> memeq (cstrlen (work_name devname)) devname (dd_devname dd))"

lemma locate_body_simple:
  assumes "ls_len st = int (cstrlen (work_name devname))" and "ls_unit st = 0" and "ls_ctl st = 0"
    and "drv_used ds i \<Longrightarrow> desc (ds ! i) \<noteq> None"
  shows "locate_body ds devname (work_name devname) i st =
    Ret () (if dev_matches ds devname i then st\<lparr>ls_driver := Some i, ls_found := True\<rparr>
            else if drv_used ds i then st\<lparr>ls_driver := Some i\<rparr> else st)"
proof (cases "drv_used ds i")
  case False
  then show ?thesis by (simp add: locate_body_def dev_matches_def drv_used_def)
next
  case True
  with assms(4) obtain dd where dd: "desc (ds ! i) = Some dd" by auto
  let ?n = "cstrlen (work_name devname)"
  have mod: "nat (int ?n mod 65536) = ?n" using cstrlen_work(3) [of devname] by simp
  have digit: "\<not> isdigit (of_char (CHR 0x00))" by (simp add: isdigit_iff)
  have [simp]: "st\<lparr>ls_driver := Some i, ls_ctl := 0, ls_unit := 0, ls_found := True\<rparr> =
      st\<lparr>ls_driver := Some i, ls_found := True\<rparr>"
    using assms(2,3) by (cases st) simp
  show ?thesis
    using True dd assms(1) cstrlen_work [of devname] digit mod
    by (simp add: locate_body_def dev_matches_def drv_used_def memeq_int_def with_char_def Let_def)
qed

lemma locate_loop_from:
  assumes "i \<le> MAX_DRV" and "\<forall>j < MAX_DRV. drv_used ds j \<longrightarrow> desc (ds ! j) \<noteq> None"
    and "ls_len st = int (cstrlen (work_name devname))" and "ls_unit st = 0" and "ls_ctl st = 0"
    and "\<not> ls_found st"
  shows "\<exists>d. for_until i MAX_DRV (\<lambda>r. case r of Ret _ st \<Rightarrow> ls_found st | Stop _ _ \<Rightarrow> True)
      (\<lambda>i r. andthen r (\<lambda>_. locate_body ds devname (work_name devname) i)) (Ret () st) =
    Ret () (case find (dev_matches ds devname) [i..<MAX_DRV] of
              None \<Rightarrow> st\<lparr>ls_driver := d\<rparr>
            | Some j \<Rightarrow> st\<lparr>ls_driver := Some j, ls_found := True\<rparr>)"
  using assms
proof (induction "MAX_DRV - i" arbitrary: i st)
  case 0
  then show ?case by (intro exI [of _ "ls_driver st"]) simp
next
  case (Suc k)
  then have i: "i < MAX_DRV" and k: "k = MAX_DRV - Suc i" and si: "Suc i \<le> MAX_DRV" by auto
  from Suc.prems i have desc: "drv_used ds i \<Longrightarrow> desc (ds ! i) \<noteq> None" by auto
  note body = locate_body_simple [OF Suc.prems(3-5) desc]
  note up = upt_conv_Cons [OF i]
  show ?case
  proof (cases "dev_matches ds devname i")
    case True
    with Suc.prems(6) show ?thesis
      by (subst for_until_step) (simp_all add: i body up)
  next
    case False
    let ?st = "if drv_used ds i then st\<lparr>ls_driver := Some i\<rparr> else st"
    have "ls_len ?st = int (cstrlen (work_name devname))" "ls_unit ?st = 0" "ls_ctl ?st = 0" "\<not> ls_found ?st"
      using Suc.prems by auto
    from Suc.hyps(1) [OF k si Suc.prems(2) this] False Suc.prems(6) show ?thesis
      by (subst for_until_step; simp add: i body up split: option.splits)
        (auto split: if_splits)
  qed
qed

lemma locate_pdev_spec:
  assumes inv: "drv_inv s"
  shows "muxx_locate_pdev devname io s =
    (case find (dev_matches (drvcbs (drvt s)) devname) [0..<MAX_DRV] of
       None \<Rightarrow> Ret (ENOTFOUND, io) s
     | Some i \<Rightarrow> Ret (EOK, io\<lparr>io_driver := Some i, io_controller := 0, io_unit := 0\<rparr>) s)"
proof -
  let ?ds = "drvcbs (drvt s)" and ?w = "work_name devname"
  let ?st = "\<lparr>ls_len = int (cstrlen ?w), ls_driver = None, ls_unit = 0, ls_ctl = 0, ls_found = False\<rparr>"
  have d: "\<forall>j < MAX_DRV. drv_used ?ds j \<longrightarrow> desc (?ds ! j) \<noteq> None"
    using inv by (simp add: drv_inv_def drv_used_def)
  from locate_loop_from [of 0, OF _ d, of ?st devname] obtain p where
    loop: "locate_loop ?ds devname ?w ?st =
      Ret () (case find (dev_matches ?ds devname) [0..<MAX_DRV] of
                None \<Rightarrow> ?st\<lparr>ls_driver := p\<rparr>
              | Some j \<Rightarrow> ?st\<lparr>ls_driver := Some j, ls_found := True\<rparr>)"
    by (auto simp: locate_loop_def simp del: upt_Suc)
  have trim: "trim_blanks (cstrlen ?w) ?w = (?w, int (cstrlen ?w))"
    by (rule trim_blanks_nul) (rule cstrlen_work(2))
  show ?thesis
    unfolding muxx_locate_pdev_def work_name_def [symmetric] Let_def trim prod.case loop
    by (auto split: option.splits)
qed

section \<open>Allocation\<close>

definition claim_result :: "u16 \<Rightarrow> nat \<Rightarrow> 'd kstate \<Rightarrow> int \<times> 'd kstate" where
  "claim_result op i s =
     (if op = DRV_ALLOC then
        if df_alloc (drvcbs (drvt s) ! i) then (ENOAVAIL, s)
        else (EOK, upd_drvcb i (\<lambda>d. d\<lparr>ownerid := curtcb s, df_alloc := True\<rparr>) s)
      else if df_alloc (drvcbs (drvt s) ! i) then
        (if ownerid (drvcbs (drvt s) ! i) \<noteq> curtcb s \<and> operprv (tct s ! the (curtcb s))
         then ENOPRIV else EOK,
         upd_drvcb i (\<lambda>d. d\<lparr>ownerid := None, df_alloc := False\<rparr>) s)
      else (ENOTALLOC, s))"

lemma upd_drvcb_mutexes: "upd_drvcb i f (s\<lparr>mutexes := v\<rparr>) = (upd_drvcb i f s)\<lparr>mutexes := v\<rparr>"
  by (simp add: upd_drvcb_def)

lemma alloc_spec:
  assumes rdy: "mutex_ready MUT_DRV s" and i: "muxx_find_driver devnam s = Some i"
  shows "muxx_svc_alloc devnam op s = (case claim_result op i s of (rc, s') \<Rightarrow> Ret rc s')"
proof -
  from rdy obtain c where c: "curtcb s = Some c" "c < length (tct s)"
    by (auto simp: mutex_ready_def)
  let ?b = "ucast (current_pid s) :: u8"
  let ?s1 = "set_mutex MUT_DRV ?b s"
  obtain rc s2 where r: "claim_result op i s = (rc, s2)" by (cases "claim_result op i s")
  let ?s3 = "s2\<lparr>mutexes := (mutexes s)[unat MUT_DRV := ?b]\<rparr>"
  have s2: "mutexes s2 = mutexes s" "tct s2 = tct s" "curtcb s2 = curtcb s" "ipl s2 = ipl s"
    using r by (auto simp: claim_result_def split: if_splits)
  have "muxx_svc_mutex MUT_DRV MUT_DEALLOC ?s3 = Ret EOK (?s3\<lparr>mutexes := mutexes s\<rparr>)"
    using mutex_section [OF rdy, of ?s3] s2 by simp
  moreover have "?s3\<lparr>mutexes := mutexes s\<rparr> = s2" using s2 by simp
  ultimately have give: "muxx_svc_mutex MUT_DRV MUT_DEALLOC ?s3 = Ret EOK s2" by simp
  have "claim_result op i ?s1 = (rc, ?s3)"
    using r by (auto simp: claim_result_def upd_drvcb_mutexes set_mutex_def split: if_splits)
  with give c mutex_take [OF rdy] i r show ?thesis
    by (auto simp: muxx_svc_alloc_def claim_result_def Let_def split: if_splits)
qed

lemma alloc_busy:
  assumes "muxx_find_driver devnam s = Some i" and "mutexes s ! 5 \<noteq> 0" and "length (mutexes s) = MUT_MUTEXES"
  shows "muxx_svc_alloc devnam op s = Ret ELOCKED (s\<lparr>ipl := 7\<rparr>)"
  using assms mutex_locked [of MUT_DRV s] by (simp add: muxx_svc_alloc_def)

section \<open>Start and stop\<close>

lemma drv_exec_call:
  assumes "i < length (drvcbs (drvt s))" and "desc (drvcbs (drvt s) ! i) = Some dd"
    and "unat (iop_function pkt) < length (callbacks dd)"
    and "cb (callbacks dd ! unat (iop_function pkt)) pkt (dev s) = (rc, pkt', d')"
  shows "muxx_drv_exec cb (Some i) pkt s = Ret (rc, pkt') (s\<lparr>dev := d'\<rparr>)"
  using assms by (simp add: muxx_drv_exec_def)

lemma startstop_spec:
  assumes c: "curtcb s = Some c" "c < length (tct s)" "operprv (tct s ! c)"
    and i: "muxx_find_driver drvnam s = Some i" and inv: "drv_inv s"
    and dd: "desc (drvcbs (drvt s) ! i) = Some dd" "length (callbacks dd) = 10"
    and op: "op = DRV_START \<or> op = DRV_STOP"
    and cb: "cb (callbacks dd ! unat op) (zero_iopkt\<lparr>iop_function := op\<rparr>) (dev s) = (rc, pkt', d')"
  shows "muxx_drv_startstop cb op drvnam s =
    Ret rc (if rc = EOK then upd_drvcb i (\<lambda>d. d\<lparr>df_active := (op = DRV_START),
              df_stopped := (op \<noteq> DRV_START)\<rparr>) (s\<lparr>dev := d'\<rparr>)
            else s\<lparr>dev := d'\<rparr>)"
proof -
  have "i < length (drvcbs (drvt s))"
    using drv_names.search_some [OF i] inv by (simp add: drv_inv_def)
  moreover have "zero_iopkt\<lparr>iop_function := op, iop_size := 0\<rparr> = zero_iopkt\<lparr>iop_function := op\<rparr>"
    by (simp add: zero_iopkt_def)
  moreover have "unat op < 10" using op by auto
  ultimately have "muxx_drv_exec cb (Some i) (zero_iopkt\<lparr>iop_function := op, iop_size := 0\<rparr>) s =
      Ret (rc, pkt') (s\<lparr>dev := d'\<rparr>)"
    using drv_exec_call [of i s dd "zero_iopkt\<lparr>iop_function := op\<rparr>" cb rc pkt' d'] dd cb by simp
  with c i show ?thesis by (simp add: muxx_drv_startstop_def)
qed

end
