(* ===== verification/Muxx_Channels.thy ===== *)
theory Muxx_Channels
  imports Muxx_Drivers
begin

text \<open>
  Channels: \<open>kernel/muxx_channels.c\<close>. A channel is an entry of the I/O table that names a driver; an
  entry is free when its driver is \<open>NULL\<close>. Opening takes a free entry, locates the device, allocates
  it unless it is shareable, and marks the entry open; closing undoes this. Both run under
  the mutex \<open>MUT_CHAN\<close>.
\<close>

section \<open>The channel table\<close>

definition upd_iote :: "nat \<Rightarrow> (iote \<Rightarrow> iote) \<Rightarrow> 'd kstate \<Rightarrow> 'd kstate" where
  "upd_iote i f s = s\<lparr>chnt := (chnt s)\<lparr>iotes := (iotes (chnt s))[i := f (iotes (chnt s) ! i)]\<rparr>\<rparr>"

definition muxx_iottinit :: "'d kstate \<Rightarrow> 'd kstate" where
  "muxx_iottinit s =
     fold (\<lambda>i. upd_iote i (\<lambda>_. zero_iote)) [0..<IOT_SENTRIES]
       (s\<lparr>chnt := (chnt s)\<lparr>ioteye := ''IOTT----''\<rparr>\<rparr>)"

definition find_iote_slot :: "iote list \<Rightarrow> ptr" where
  "find_iote_slot ios =
     for_until 0 IOT_SENTRIES (\<lambda>idx. idx \<noteq> None)
       (\<lambda>i idx. if io_driver (ios ! i) = None then Some i else idx) None"

definition muxx_find_free_iote :: "'d kstate \<Rightarrow> int" where
  "muxx_find_free_iote s =
     (case find_iote_slot (iotes (chnt s)) of None \<Rightarrow> ENOSYSRES | Some i \<Rightarrow> int i)"

definition muxx_allocate_iobuffer :: "u16 \<Rightarrow> 'd kstate \<Rightarrow> u16 \<times> 'd kstate" where
  "muxx_allocate_iobuffer bufsiz s = (0, set_errno ENOIMPL s)"

definition muxx_deallocate_iobuffer :: "u16 \<Rightarrow> 'd kstate \<Rightarrow> int \<times> 'd kstate" where
  "muxx_deallocate_iobuffer pbuf s = (ENOIMPL, set_errno ENOIMPL s)"

section \<open>Open\<close>

definition open_claim :: "nat \<Rightarrow> drvcb \<Rightarrow> drvdesc \<Rightarrow> 'd kstate \<Rightarrow> (int, 'd kstate) outcome" where
  "open_claim i d dd s =
     (if \<not> da_shareable dd then
        if \<not> df_alloc d then
          andthen (muxx_svc_alloc (drvname d) DRV_ALLOC s) (\<lambda>rc s.
            if rc = EOK then Ret rc (upd_iote i (\<lambda>io. io\<lparr>io_dealloc := True\<rparr>) s)
            else Ret rc (upd_iote i (\<lambda>io. io\<lparr>io_error := rc\<rparr>) s))
        else if ownerid d \<noteq> curtcb s then
          Ret ENOAVAIL (upd_iote i (\<lambda>io. io\<lparr>io_error := ENOAVAIL\<rparr>) s)
        else Ret EOK s
      else Ret EOK s)"

definition open_finish :: "nat \<Rightarrow> drvdesc \<Rightarrow> int \<Rightarrow> 'd kstate \<Rightarrow> (int, 'd kstate) outcome" where
  "open_finish i dd rc s =
     (if io_error (iotes (chnt s) ! i) = EOK then
        if bitfield (da_buffered dd) = 1 then
          (let (buf, s) = muxx_allocate_iobuffer (defbufsiz dd) s;
               s = upd_iote i (\<lambda>io. io\<lparr>io_buffaddr := buf\<rparr>) s
           in if buf = 0 then Ret (get_errno s) s
              else Ret rc (upd_iote i (\<lambda>io. io\<lparr>io_open := True\<rparr>) s))
        else Ret rc (upd_iote i (\<lambda>io. io\<lparr>io_open := True\<rparr>) s)
      else Ret rc s)"

definition clear_status :: "iote \<Rightarrow> iote" where
  "clear_status io = io\<lparr>io_open := False, io_eof := False, io_ioerror := False, io_dealloc := False,
     io_attributes := False, io_buffered := False, io_error := EOK, io_position := 0\<rparr>"

definition open_driver :: "nat \<Rightarrow> 'd kstate \<Rightarrow> (int, 'd kstate) outcome" where
  "open_driver i s =
     at_ptr (drvcbs (drvt s)) (io_driver (iotes (chnt s) ! i)) s (\<lambda>k.
       let d = drvcbs (drvt s) ! k
       in if df_active d then
            (let s = upd_iote i clear_status s
             in case desc d of
                  None \<Rightarrow> Stop (Fault NullDeref) s
                | Some dd \<Rightarrow> andthen (open_claim i d dd s) (\<lambda>rc s. open_finish i dd rc s))
          else Ret EOFFLINE s)"

definition muxx_svc_open :: "string \<Rightarrow> u16 \<Rightarrow> 'd kstate \<Rightarrow> (ptr, 'd kstate) outcome" where
  "muxx_svc_open device flags s =
     andthen (muxx_svc_mutex MUT_CHAN MUT_ALLOC s) (\<lambda>rc s.
     andthen
       (if rc = EOK then
          (let iotidx = muxx_find_free_iote s
           in if iotidx \<ge> 0 then
                (let i = nat iotidx
                 in andthen (muxx_locate_dev device (iotes (chnt s) ! i) s) (\<lambda>(rc, io) s.
                      let s = upd_iote i (\<lambda>_. io) s
                      in andthen (if rc = EOK then open_driver i s else Ret rc s) (\<lambda>rc s.
                         Ret (rc, Some i) s)))
              else Ret (iotidx, None) s)
        else Ret (rc, None) s) (\<lambda>(rc, io) s.
     andthen (muxx_svc_mutex MUT_CHAN MUT_DEALLOC s) (\<lambda>rc1 s.
       if rc1 \<noteq> EOK then Stop (Panic ''muxx_svc_open: dealloc mutex'') s
       else if rc = EOK then Ret io s
       else Ret None (set_errno rc s))))"

section \<open>Close\<close>

definition close_open :: "nat \<Rightarrow> 'd kstate \<Rightarrow> (int, 'd kstate) outcome" where
  "close_open i s =
     andthen
       (if io_dealloc (iotes (chnt s) ! i) then
          at_ptr (drvcbs (drvt s)) (io_driver (iotes (chnt s) ! i)) s (\<lambda>k.
            andthen (muxx_svc_alloc (drvname (drvcbs (drvt s) ! k)) DRV_DEALLOC s) (\<lambda>rc s.
              if rc \<noteq> EOK then Stop (Panic ''muxx_svc_close'') s else Ret rc s))
        else Ret EOK s) (\<lambda>rc s.
     let s = upd_iote i (\<lambda>io. io\<lparr>io_open := False, io_driver := None, io_controller := 0,
               io_unit := 0\<rparr>) s
     in if io_buffaddr (iotes (chnt s) ! i) \<noteq> 0 then
          (let (rc, s) = muxx_deallocate_iobuffer (io_buffaddr (iotes (chnt s) ! i)) s
           in if rc \<noteq> EOK then Ret EOK s else Ret rc s)
        else Ret rc s)"

definition muxx_svc_close :: "ptr \<Rightarrow> 'd kstate \<Rightarrow> (int, 'd kstate) outcome" where
  "muxx_svc_close io s =
     andthen (muxx_svc_mutex MUT_CHAN MUT_ALLOC s) (\<lambda>rc s.
     andthen
       (if rc = EOK then
          at_ptr (iotes (chnt s)) io s (\<lambda>i.
            if io_open (iotes (chnt s) ! i) then close_open i s else Ret ENOTOPEN s)
        else Ret rc s) (\<lambda>rc s.
     andthen (muxx_svc_mutex MUT_CHAN MUT_DEALLOC s) (\<lambda>rc1 s.
       if rc1 \<noteq> EOK then Stop (Panic ''muxx_svc_close: dealloc mutex'') s
       else Ret rc (set_errno rc s))))"

section \<open>The table\<close>

definition iote_used :: "iote list \<Rightarrow> nat \<Rightarrow> bool" where
  "iote_used ios i \<longleftrightarrow> io_driver (ios ! i) \<noteq> None"

lemma find_iote_slot_find: "find_iote_slot ios = find (\<lambda>i. \<not> iote_used ios i) [0..<IOT_SENTRIES]"
  unfolding find_iote_slot_def iote_used_def by (subst for_until_find) simp_all

interpretation chan_slots: slot_table find_iote_slot iote_used 0 IOT_SENTRIES
  by (rule find_slot_table) (rule find_iote_slot_find)

lemma upd_iote_fields [simp]:
  "tct (upd_iote i f s) = tct s" "curtcb (upd_iote i f s) = curtcb s" "ipl (upd_iote i f s) = ipl s"
  "mutexes (upd_iote i f s) = mutexes s" "drvt (upd_iote i f s) = drvt s"
  "tucbs (upd_iote i f s) = tucbs s" "dev (upd_iote i f s) = dev s"
  "iotes (chnt (upd_iote i f s)) = (iotes (chnt s))[i := f (iotes (chnt s) ! i)]"
  "current_pid (upd_iote i f s) = current_pid s"
  by (simp_all add: upd_iote_def current_pid_def split: option.split)

lemma set_errno_fields [simp]:
  "tct (set_errno e s) = tct s" "curtcb (set_errno e s) = curtcb s" "ipl (set_errno e s) = ipl s"
  "mutexes (set_errno e s) = mutexes s" "drvt (set_errno e s) = drvt s"
  "chnt (set_errno e s) = chnt s" "current_pid (set_errno e s) = current_pid s"
  by (simp_all add: set_errno_def current_pid_def split: option.splits)

text \<open>Setting up the table frees every entry.\<close>

lemma iottinit_table:
  assumes "length (iotes (chnt s)) = IOT_SENTRIES"
  shows "iotes (chnt (muxx_iottinit s)) = replicate IOT_SENTRIES zero_iote"
proof -
  have *: "distinct is \<Longrightarrow> \<forall>i \<in> set is. i < length (iotes (chnt s)) \<Longrightarrow>
      iotes (chnt (fold (\<lambda>i. upd_iote i (\<lambda>_. z)) is s)) =
        map (\<lambda>i. if i \<in> set is then z else iotes (chnt s) ! i) [0..<length (iotes (chnt s))]"
    for "is" z and s :: "'a kstate"
  proof (induction "is" arbitrary: s)
    case Nil
    then show ?case by (simp add: map_nth)
  next
    case (Cons i "is")
    then show ?case by (auto simp: nth_list_update)
  qed
  show ?thesis
    using assms unfolding muxx_iottinit_def
    by (subst *) (auto simp: list_eq_iff_nth_eq simp del: upt_Suc)
qed

section \<open>Opening a channel, case by case\<close>

definition chan_ready :: "'d kstate \<Rightarrow> bool" where
  "chan_ready s \<longleftrightarrow>
     mutex_ready MUT_CHAN s \<and> mutex_ready MUT_DRV s \<and> drv_inv s \<and>
     length (iotes (chnt s)) = IOT_SENTRIES"

definition located :: "nat \<Rightarrow> iote \<Rightarrow> iote" where
  "located k io = io\<lparr>io_driver := Some k, io_controller := 0, io_unit := 0\<rparr>"

definition opened :: "nat \<Rightarrow> bool \<Rightarrow> iote \<Rightarrow> iote" where
  "opened k dealloc io = (clear_status (located k io))\<lparr>io_dealloc := dealloc, io_open := True\<rparr>"

definition find_device :: "string \<Rightarrow> 'd kstate \<Rightarrow> ptr" where
  "find_device device s = find (dev_matches (drvcbs (drvt s)) device) [0..<MAX_DRV]"

definition locked_state :: "'d kstate \<Rightarrow> 'd kstate" where
  "locked_state s = s\<lparr>mutexes := (mutexes s)[unat MUT_CHAN := ucast (current_pid s)]\<rparr>"

lemma upd_iote_mutexes: "upd_iote i f (s\<lparr>mutexes := v\<rparr>) = (upd_iote i f s)\<lparr>mutexes := v\<rparr>"
  by (simp add: upd_iote_def)

lemma mutexes_self [simp]: "mutexes s = v \<Longrightarrow> s\<lparr>mutexes := v\<rparr> = s"
  by simp

lemma set_errno_mutexes: "set_errno e (s\<lparr>mutexes := v\<rparr>) = (set_errno e s)\<lparr>mutexes := v\<rparr>"
  by (simp add: set_errno_def split: option.splits)

lemma locked_state_fields [simp]:
  "tct (locked_state s) = tct s" "curtcb (locked_state s) = curtcb s" "ipl (locked_state s) = ipl s"
  "drvt (locked_state s) = drvt s" "chnt (locked_state s) = chnt s"
  "current_pid (locked_state s) = current_pid s"
  "mutexes (locked_state s) = (mutexes s)[unat MUT_CHAN := ucast (current_pid s)]"
  by (simp_all add: locked_state_def current_pid_def split: option.split)

lemma find_driver_cong: "drvt s' = drvt s \<Longrightarrow> muxx_find_driver n s' = muxx_find_driver n s"
  by (simp add: muxx_find_driver_def)

lemma drv_inv_cong: "drvt s' = drvt s \<Longrightarrow> drv_inv s' = drv_inv s"
  by (simp add: drv_inv_def)

lemma chan_ready_drv: "chan_ready s \<Longrightarrow> mutex_ready MUT_DRV (locked_state s)"
  by (auto simp: chan_ready_def mutex_ready_def)

lemma find_device_bound: "find_device device s = Some k \<Longrightarrow> drv_inv s \<Longrightarrow>
    k < MAX_DRV \<and> k < length (drvcbs (drvt s)) \<and> (\<exists>dd. desc (drvcbs (drvt s) ! k) = Some dd)"
  using find_upt_Some [of "dev_matches (drvcbs (drvt s)) device" 0 MAX_DRV k]
  by (auto simp: find_device_def drv_inv_def dev_matches_def split: option.splits)

text \<open>What runs between taking and giving back \<open>MUT_CHAN\<close>, for a located device.\<close>

lemma open_bracket:
  assumes rdy: "chan_ready s" and i: "find_iote_slot (iotes (chnt s)) = Some i"
    and k: "find_device device s = Some k"
    and drv: "open_driver i (upd_iote i (located k) (locked_state s)) = Ret rc s2"
    and keep: "mutexes s2 = mutexes (locked_state s)" "tct s2 = tct s" "curtcb s2 = curtcb s"
      "ipl s2 = ipl s"
  shows "muxx_svc_open device flags s =
    (if rc = EOK then Ret (Some i) (s2\<lparr>mutexes := mutexes s\<rparr>)
     else Ret None (set_errno rc (s2\<lparr>mutexes := mutexes s\<rparr>)))"
proof -
  from rdy have m: "mutex_ready MUT_CHAN s" and inv: "drv_inv (locked_state s)"
    by (simp_all add: chan_ready_def drv_inv_cong [of "locked_state s" s])
  have take: "muxx_svc_mutex MUT_CHAN MUT_ALLOC s = Ret EOK (locked_state s)"
    using mutex_take [OF m] by (simp add: set_mutex_def locked_state_def)
  have free: "muxx_find_free_iote (locked_state s) = int i" using i by (simp add: muxx_find_free_iote_def)
  have loc: "muxx_locate_dev device (iotes (chnt s) ! i) (locked_state s) =
      Ret (EOK, located k (iotes (chnt s) ! i)) (locked_state s)"
    using locate_pdev_spec [OF inv] k
    by (simp add: muxx_locate_dev_def find_device_def located_def)
  have upd: "upd_iote i (\<lambda>_. located k (iotes (chnt s) ! i)) (locked_state s) =
      upd_iote i (located k) (locked_state s)" by (simp add: upd_iote_def)
  have give: "muxx_svc_mutex MUT_CHAN MUT_DEALLOC s2 = Ret EOK (s2\<lparr>mutexes := mutexes s\<rparr>)"
    using mutex_section [OF m, of s2] keep by simp
  show ?thesis
    using take free loc upd drv give by (simp add: muxx_svc_open_def Let_def)
qed

lemma open_slot: "chan_ready s \<Longrightarrow> find_iote_slot (iotes (chnt s)) = Some i \<Longrightarrow>
    i < length (iotes (chnt s))"
  using chan_slots.search_some [of "iotes (chnt s)" i] by (simp add: chan_ready_def)

lemma buffered_not_1: "bitfield b \<noteq> 1"
  by (simp add: bitfield_def)

lemma upd_iote_compose:
  "i < length (iotes (chnt s)) \<Longrightarrow> upd_iote i g (upd_iote i f s) = upd_iote i (\<lambda>io. g (f io)) s"
  by (simp add: upd_iote_def)

lemma upd_iote_drvcb: "upd_iote i f (upd_drvcb k g s) = upd_drvcb k g (upd_iote i f s)"
  by (simp add: upd_iote_def upd_drvcb_def)

definition own :: "ptr \<Rightarrow> drvcb \<Rightarrow> drvcb" where
  "own p d = d\<lparr>ownerid := p, df_alloc := True\<rparr>"

definition disown :: "drvcb \<Rightarrow> drvcb" where
  "disown d = d\<lparr>ownerid := None, df_alloc := False\<rparr>"

text \<open>An unshared device nobody has: the channel is opened and the device belongs to the task.\<close>

lemma open_unshared:
  assumes rdy: "chan_ready s" and i: "find_iote_slot (iotes (chnt s)) = Some i"
    and k: "find_device device s = Some k" and d: "drvcbs (drvt s) ! k = d"
    and act: "df_active d" and dd: "desc d = Some dd" "\<not> da_shareable dd" and fr: "\<not> df_alloc d"
    and name: "muxx_find_driver (drvname d) s = Some k"
  shows "muxx_svc_open device flags s =
    Ret (Some i) (upd_drvcb k (own (curtcb s)) (upd_iote i (opened k True) s))"
proof -
  have k8: "k < length (drvcbs (drvt s))" using find_device_bound [OF k] rdy by (simp add: chan_ready_def)
  note il = open_slot [OF rdy i]
  let ?s1 = "upd_iote i (located k) (locked_state s)"
  let ?s2 = "upd_iote i clear_status ?s1"
  let ?s3 = "upd_drvcb k (own (curtcb s)) ?s2"
  have "mutex_ready MUT_DRV ?s2"
    using chan_ready_drv [OF rdy] by (simp add: mutex_ready_def)
  from alloc_spec [OF this, of "drvname d" k DRV_ALLOC] name fr d
  have al: "muxx_svc_alloc (drvname d) DRV_ALLOC ?s2 = Ret EOK ?s3"
    by (simp add: find_driver_cong [of ?s2 s] claim_result_def own_def [abs_def])
  have "open_driver i ?s1 = Ret EOK (upd_iote i (\<lambda>io. io\<lparr>io_open := True\<rparr>)
      (upd_iote i (\<lambda>io. io\<lparr>io_dealloc := True\<rparr>) ?s3))"
    using il k8 d act dd fr al
    by (simp add: open_driver_def open_claim_def open_finish_def buffered_not_1 located_def clear_status_def)
  from open_bracket [OF rdy i k this, of flags] il
  show ?thesis
    by (simp add: upd_iote_drvcb upd_iote_compose locked_state_def upd_iote_mutexes upd_drvcb_mutexes
        opened_def [abs_def])
qed

lemma opened_no_dealloc: "opened k False = (\<lambda>io. (clear_status (located k io))\<lparr>io_open := True\<rparr>)"
proof
  fix io
  show "opened k False io = (clear_status (located k io))\<lparr>io_open := True\<rparr>"
    by (cases io) (simp add: opened_def clear_status_def located_def)
qed

text \<open>A shareable device, or one the task already owns, is opened without a new allocation.\<close>

lemma open_no_claim:
  assumes rdy: "chan_ready s" and i: "find_iote_slot (iotes (chnt s)) = Some i"
    and k: "find_device device s = Some k" and d: "drvcbs (drvt s) ! k = d"
    and act: "df_active d" and dd: "desc d = Some dd"
    and sh: "da_shareable dd \<or> df_alloc d \<and> ownerid d = curtcb s"
  shows "muxx_svc_open device flags s = Ret (Some i) (upd_iote i (opened k False) s)"
proof -
  have k8: "k < length (drvcbs (drvt s))" using find_device_bound [OF k] rdy by (simp add: chan_ready_def)
  note il = open_slot [OF rdy i]
  let ?s1 = "upd_iote i (located k) (locked_state s)"
  have "open_driver i ?s1 = Ret EOK (upd_iote i (\<lambda>io. io\<lparr>io_open := True\<rparr>) (upd_iote i clear_status ?s1))"
    using il k8 d act dd sh
    by (auto simp: open_driver_def open_claim_def open_finish_def buffered_not_1 located_def clear_status_def Let_def)
  from open_bracket [OF rdy i k this, of flags] il
  show ?thesis
    by (simp add: upd_iote_compose locked_state_def upd_iote_mutexes opened_no_dealloc)
qed

text \<open>
  Failures. An inactive driver and a device of another task leave the entry taken, since its
  driver pointer was already set.
\<close>

lemma open_offline:
  assumes rdy: "chan_ready s" and i: "find_iote_slot (iotes (chnt s)) = Some i"
    and k: "find_device device s = Some k" and act: "\<not> df_active (drvcbs (drvt s) ! k)"
  shows "muxx_svc_open device flags s = Ret None (set_errno EOFFLINE (upd_iote i (located k) s))"
proof -
  have k8: "k < length (drvcbs (drvt s))" using find_device_bound [OF k] rdy by (simp add: chan_ready_def)
  note il = open_slot [OF rdy i]
  let ?s1 = "upd_iote i (located k) (locked_state s)"
  have "open_driver i ?s1 = Ret EOFFLINE ?s1"
    using il k8 act by (simp add: open_driver_def located_def)
  from open_bracket [OF rdy i k this, of flags]
  show ?thesis by (simp add: locked_state_def upd_iote_mutexes)
qed

lemma open_owned:
  assumes rdy: "chan_ready s" and i: "find_iote_slot (iotes (chnt s)) = Some i"
    and k: "find_device device s = Some k" and d: "drvcbs (drvt s) ! k = d"
    and act: "df_active d" and dd: "desc d = Some dd" "\<not> da_shareable dd"
    and own: "df_alloc d" "ownerid d \<noteq> curtcb s"
  shows "muxx_svc_open device flags s = Ret None (set_errno ENOAVAIL
    (upd_iote i (\<lambda>io. (clear_status (located k io))\<lparr>io_error := ENOAVAIL\<rparr>) s))"
proof -
  have k8: "k < length (drvcbs (drvt s))" using find_device_bound [OF k] rdy by (simp add: chan_ready_def)
  note il = open_slot [OF rdy i]
  let ?s1 = "upd_iote i (located k) (locked_state s)"
  have "open_driver i ?s1 = Ret ENOAVAIL (upd_iote i (\<lambda>io. io\<lparr>io_error := ENOAVAIL\<rparr>) (upd_iote i clear_status ?s1))"
    using il k8 d act dd own
    by (simp add: open_driver_def open_claim_def open_finish_def located_def clear_status_def)
  from open_bracket [OF rdy i k this, of flags] il
  show ?thesis by (simp add: upd_iote_compose locked_state_def upd_iote_mutexes)
qed

lemma open_failed_early:
  assumes rdy: "chan_ready s"
    and inner: "(find_iote_slot (iotes (chnt s)) = None \<and> rc = ENOSYSRES) \<or>
      (\<exists>i. find_iote_slot (iotes (chnt s)) = Some i \<and> find_device device s = None \<and> rc = ENOTFOUND)"
  shows "muxx_svc_open device flags s = Ret None (set_errno rc s)"
proof -
  from rdy have m: "mutex_ready MUT_CHAN s" and inv: "drv_inv (locked_state s)"
    by (simp_all add: chan_ready_def drv_inv_cong [of "locked_state s" s])
  have take: "muxx_svc_mutex MUT_CHAN MUT_ALLOC s = Ret EOK (locked_state s)"
    using mutex_take [OF m] by (simp add: set_mutex_def locked_state_def)
  have give: "muxx_svc_mutex MUT_CHAN MUT_DEALLOC (locked_state s) = Ret EOK s"
    using mutex_section [OF m, of "locked_state s"] by (simp add: locked_state_def)
  have same: "upd_iote i (\<lambda>_. iotes (chnt s) ! i) (locked_state s) = locked_state s" for i
    by (simp add: upd_iote_def locked_state_def)
  from inner show ?thesis
  proof
    assume "find_iote_slot (iotes (chnt s)) = None \<and> rc = ENOSYSRES"
    with take give show ?thesis
      by (simp add: muxx_svc_open_def muxx_find_free_iote_def Let_def)
  next
    assume "\<exists>i. find_iote_slot (iotes (chnt s)) = Some i \<and> find_device device s = None \<and> rc = ENOTFOUND"
    then obtain i where i: "find_iote_slot (iotes (chnt s)) = Some i" "find_device device s = None"
      "rc = ENOTFOUND" by blast
    have "muxx_locate_dev device (iotes (chnt s) ! i) (locked_state s) =
        Ret (ENOTFOUND, iotes (chnt s) ! i) (locked_state s)"
      using locate_pdev_spec [OF inv] i(2) by (simp add: muxx_locate_dev_def find_device_def)
    with take give same i show ?thesis
      by (simp add: muxx_svc_open_def muxx_find_free_iote_def Let_def)
  qed
qed

text \<open>While another task holds \<open>MUT_CHAN\<close>, both services bring the system down.\<close>

lemma chan_contended:
  assumes c: "curtcb s = Some c" "c < length (tct s)" and m: "length (mutexes s) = MUT_MUTEXES"
    and held: "mutexes s ! 6 \<noteq> 0" "ucast (mutexes s ! 6) \<noteq> pid (tct s ! c)"
  shows "muxx_svc_open device flags s = Stop (Panic ''muxx_svc_open: dealloc mutex'') (s\<lparr>ipl := 7\<rparr>)"
    and "muxx_svc_close io s = Stop (Panic ''muxx_svc_close: dealloc mutex'') (s\<lparr>ipl := 7\<rparr>)"
proof -
  have a: "muxx_svc_mutex MUT_CHAN MUT_ALLOC s = Ret ELOCKED (s\<lparr>ipl := 7\<rparr>)"
    using mutex_locked [of MUT_CHAN s] m held by simp
  have b: "muxx_svc_mutex MUT_CHAN MUT_DEALLOC (s\<lparr>ipl := 7\<rparr>) = Ret ELOCKED (s\<lparr>ipl := 7\<rparr>)"
    using c m held by (simp add: muxx_svc_mutex_def mutex_at_def setpl_defs)
  from a b show "muxx_svc_open device flags s =
      Stop (Panic ''muxx_svc_open: dealloc mutex'') (s\<lparr>ipl := 7\<rparr>)"
    by (simp add: muxx_svc_open_def)
  from a b show "muxx_svc_close io s = Stop (Panic ''muxx_svc_close: dealloc mutex'') (s\<lparr>ipl := 7\<rparr>)"
    by (simp add: muxx_svc_close_def)
qed

section \<open>Closing\<close>

definition closed :: "iote \<Rightarrow> iote" where
  "closed io = io\<lparr>io_open := False, io_driver := None, io_controller := 0, io_unit := 0\<rparr>"

lemma close_bracket:
  assumes rdy: "chan_ready s" and i: "i < length (iotes (chnt s))" and op: "io_open (iotes (chnt s) ! i)"
    and body: "close_open i (locked_state s) = Ret rc s2"
    and keep: "mutexes s2 = mutexes (locked_state s)" "tct s2 = tct s" "curtcb s2 = curtcb s"
      "ipl s2 = ipl s"
  shows "muxx_svc_close (Some i) s = Ret rc (set_errno rc (s2\<lparr>mutexes := mutexes s\<rparr>))"
proof -
  from rdy have m: "mutex_ready MUT_CHAN s" by (simp add: chan_ready_def)
  have "muxx_svc_mutex MUT_CHAN MUT_ALLOC s = Ret EOK (locked_state s)"
    using mutex_take [OF m] by (simp add: set_mutex_def locked_state_def)
  moreover have "muxx_svc_mutex MUT_CHAN MUT_DEALLOC s2 = Ret EOK (s2\<lparr>mutexes := mutexes s\<rparr>)"
    using mutex_section [OF m, of s2] keep by simp
  ultimately show ?thesis using i op body by (simp add: muxx_svc_close_def)
qed

lemma close_plain:
  assumes rdy: "chan_ready s" and i: "i < length (iotes (chnt s))" and op: "io_open (iotes (chnt s) ! i)"
    and nd: "\<not> io_dealloc (iotes (chnt s) ! i)" and nb: "io_buffaddr (iotes (chnt s) ! i) = 0"
  shows "muxx_svc_close (Some i) s = Ret EOK (set_errno EOK (upd_iote i closed s))"
proof -
  let ?s = "locked_state s"
  have "close_open i ?s = Ret EOK (upd_iote i closed ?s)"
    using i nd nb by (simp add: close_open_def closed_def [abs_def])
  from close_bracket [OF rdy i op this] show ?thesis
    by (simp add: locked_state_def upd_iote_mutexes)
qed

lemma close_dealloc:
  assumes rdy: "chan_ready s" and i: "i < length (iotes (chnt s))" and io: "iotes (chnt s) ! i = io"
    and op: "io_open io" "io_dealloc io" "io_driver io = Some k" "io_buffaddr io = 0"
    and d: "k < MAX_DRV" "drvcbs (drvt s) ! k = d" "df_alloc d" "ownerid d = curtcb s"
    and name: "muxx_find_driver (drvname d) s = Some k"
  shows "muxx_svc_close (Some i) s = Ret EOK (set_errno EOK (upd_drvcb k disown (upd_iote i closed s)))"
proof -
  let ?s = "locked_state s"
  have k8: "k < length (drvcbs (drvt s))" using rdy d(1) by (simp add: chan_ready_def drv_inv_def)
  from alloc_spec [OF chan_ready_drv [OF rdy], of "drvname d" k DRV_DEALLOC] name d
  have al: "muxx_svc_alloc (drvname d) DRV_DEALLOC ?s = Ret EOK (upd_drvcb k disown ?s)"
    by (simp add: find_driver_cong [of ?s s] claim_result_def disown_def [abs_def])
  have "close_open i ?s = Ret EOK (upd_iote i closed (upd_drvcb k disown ?s))"
    using i io op d k8 al
    by (simp add: close_open_def closed_def [abs_def] upd_drvcb_def)
  moreover have "muxx_svc_close (Some i) s = Ret EOK
      (set_errno EOK ((upd_iote i closed (upd_drvcb k disown ?s))\<lparr>mutexes := mutexes s\<rparr>))"
    using close_bracket [OF rdy i _ calculation] io op by simp
  ultimately show ?thesis
    by (simp add: locked_state_def upd_iote_mutexes upd_drvcb_mutexes upd_iote_drvcb)
qed

lemma close_not_open:
  assumes rdy: "chan_ready s" and i: "i < length (iotes (chnt s))" and op: "\<not> io_open (iotes (chnt s) ! i)"
  shows "muxx_svc_close (Some i) s = Ret ENOTOPEN (set_errno ENOTOPEN s)"
proof -
  from rdy have m: "mutex_ready MUT_CHAN s" by (simp add: chan_ready_def)
  have "muxx_svc_mutex MUT_CHAN MUT_ALLOC s = Ret EOK (locked_state s)"
    using mutex_take [OF m] by (simp add: set_mutex_def locked_state_def)
  moreover have "muxx_svc_mutex MUT_CHAN MUT_DEALLOC (locked_state s) = Ret EOK s"
    using mutex_section [OF m, of "locked_state s"] by (simp add: locked_state_def)
  ultimately show ?thesis using i op by (simp add: muxx_svc_close_def)
qed

section \<open>Every failed open of an inactive device costs an entry\<close>

lemma chan_ready_errno [simp]: "chan_ready (set_errno e s) = chan_ready s"
  by (simp add: chan_ready_def mutex_ready_def drv_inv_def)

lemma chan_ready_upd_iote [simp]: "chan_ready (upd_iote i f s) = chan_ready s"
  by (simp add: chan_ready_def mutex_ready_def drv_inv_def)

lemma find_device_cong [simp]:
  "find_device device (set_errno e s) = find_device device s"
  "find_device device (upd_iote i f s) = find_device device s"
  by (simp_all add: find_device_def)

lemma offline_leaks:
  assumes rdy: "chan_ready s" and k: "find_device device s = Some k"
    and act: "\<not> df_active (drvcbs (drvt s) ! k)"
    and used: "\<And>i. i < IOT_SENTRIES \<Longrightarrow> iote_used (iotes (chnt s)) i \<longleftrightarrow> i < m"
    and n: "m + n \<le> IOT_SENTRIES"
  shows "\<exists>s'. repeat_n n (muxx_svc_open device flags) s = Ret (replicate n None) s' \<and>
    chan_ready s' \<and> find_device device s' = Some k \<and> drvt s' = drvt s \<and>
    (\<forall>i < IOT_SENTRIES. iote_used (iotes (chnt s')) i \<longleftrightarrow> i < m + n)"
  using assms
proof (induction n arbitrary: s m)
  case 0
  then show ?case by simp
next
  case (Suc n)
  then have slot: "find_iote_slot (iotes (chnt s)) = Some m"
    using chan_slots.prefix_fill [of "iotes (chnt s)" m] by auto
  let ?s = "set_errno EOFFLINE (upd_iote m (located k) s)"
  have len: "length (iotes (chnt s)) = IOT_SENTRIES" using Suc.prems(1) by (simp add: chan_ready_def)
  have used: "iote_used (iotes (chnt ?s)) i \<longleftrightarrow> i < Suc m" if "i < IOT_SENTRIES" for i
    using that Suc.prems(4) [OF that] Suc.prems(5) len
    by (cases "i = m") (auto simp: iote_used_def located_def)
  from Suc.IH [OF _ _ _ used] Suc.prems obtain s' where
    "repeat_n n (muxx_svc_open device flags) ?s = Ret (replicate n None) s'" "chan_ready s'"
    "find_device device s' = Some k" "drvt s' = drvt s"
    "\<forall>i < IOT_SENTRIES. iote_used (iotes (chnt s')) i \<longleftrightarrow> i < Suc m + n"
    by auto
  with open_offline [OF Suc.prems(1) slot Suc.prems(2,3), of flags] show ?case by simp
qed

section \<open>Open and close together\<close>

lemma find_driver_same:
  assumes "\<And>j. j < MAX_DRV \<Longrightarrow> drv_used (drvcbs (drvt s')) j = drv_used (drvcbs (drvt s)) j \<and>
      drvname (drvcbs (drvt s') ! j) = drvname (drvcbs (drvt s) ! j)"
  shows "muxx_find_driver n s' = muxx_find_driver n s"
  unfolding find_driver_find by (rule find_cong) (use assms in auto)

lemma chan_ready_upd_drvcb:
  assumes "chan_ready s" and "k < MAX_DRV" and "\<And>d. df_free (f d) = df_free d \<and> desc (f d) = desc d"
  shows "chan_ready (upd_drvcb k f s)"
  using assms by (auto simp: chan_ready_def mutex_ready_def drv_inv_def nth_list_update)

lemma open_then_close:
  assumes rdy: "chan_ready s" and i: "find_iote_slot (iotes (chnt s)) = Some i"
    and k: "find_device device s = Some k" and act: "df_active (drvcbs (drvt s) ! k)"
    and dd: "desc (drvcbs (drvt s) ! k) = Some dd" "\<not> da_shareable dd"
    and fr: "\<not> df_alloc (drvcbs (drvt s) ! k)"
    and name: "muxx_find_driver (drvname (drvcbs (drvt s) ! k)) s = Some k"
    and nb: "io_buffaddr (iotes (chnt s) ! i) = 0"
  shows "\<exists>s1 s2. muxx_svc_open device flags s = Ret (Some i) s1 \<and>
    io_open (iotes (chnt s1) ! i) \<and> io_driver (iotes (chnt s1) ! i) = Some k \<and>
    df_alloc (drvcbs (drvt s1) ! k) \<and> ownerid (drvcbs (drvt s1) ! k) = curtcb s \<and>
    muxx_svc_close (Some i) s1 = Ret EOK s2 \<and> \<not> df_alloc (drvcbs (drvt s2) ! k) \<and>
    io_driver (iotes (chnt s2) ! i) = None \<and> chan_ready s2 \<and> mutexes s2 = mutexes s"
proof -
  let ?s1 = "upd_drvcb k (own (curtcb s)) (upd_iote i (opened k True) s)"
  let ?s2 = "set_errno EOK (upd_drvcb k disown (upd_iote i closed ?s1))"
  have kb: "k < MAX_DRV" "k < length (drvcbs (drvt s))" using find_device_bound [OF k] rdy by (auto simp: chan_ready_def)
  have il: "i < length (iotes (chnt s))" using open_slot [OF rdy i] .
  have op: "muxx_svc_open device flags s = Ret (Some i) ?s1"
    by (rule open_unshared [OF rdy i k refl act dd fr name])
  have rdy1: "chan_ready ?s1"
    by (rule chan_ready_upd_drvcb) (simp_all add: rdy own_def kb)
  have io: "iotes (chnt ?s1) ! i = opened k True (iotes (chnt s) ! i)" using il by (simp add: upd_drvcb_def upd_iote_def)
  have "muxx_find_driver (drvname (drvcbs (drvt s) ! k)) ?s1 = muxx_find_driver (drvname (drvcbs (drvt s) ! k)) s"
    by (rule find_driver_same) (auto simp: drv_used_def own_def nth_list_update kb)
  then have "muxx_find_driver (drvname (drvcbs (drvt ?s1) ! k)) ?s1 = Some k"
    using name kb by (simp add: own_def)
  then have cl: "muxx_svc_close (Some i) ?s1 = Ret EOK ?s2"
    using il kb nb
    by (intro close_dealloc [OF rdy1 _ io _ _ _ _ kb(1) refl])
      (simp_all add: own_def opened_def clear_status_def located_def)
  have "chan_ready (upd_drvcb k disown (upd_iote i closed ?s1))"
    by (rule chan_ready_upd_drvcb) (simp_all add: rdy1 disown_def kb)
  then have "chan_ready ?s2" by simp
  moreover have "\<not> df_alloc (drvcbs (drvt ?s2) ! k)" "io_driver (iotes (chnt ?s2) ! i) = None"
    "mutexes ?s2 = mutexes s"
    using kb il by (simp_all add: disown_def closed_def)
  moreover have "io_open (iotes (chnt ?s1) ! i)" "io_driver (iotes (chnt ?s1) ! i) = Some k"
    "df_alloc (drvcbs (drvt ?s1) ! k)" "ownerid (drvcbs (drvt ?s1) ! k) = curtcb s"
    using kb unfolding io by (simp_all add: opened_def located_def clear_status_def own_def)
  ultimately show ?thesis using op cl by blast
qed

end
