(* ===== verification/Muxx_IO.thy ===== *)
theory Muxx_IO
  imports Muxx_Channels
begin

text \<open>
  Reading and writing: \<open>kernel/muxx_readwrite_svc.c\<close>. Both services call the driver once per byte
  with an I/O packet of size 1 and stop at the first negative return code. The buffer is task
  memory: a function from the offset in the buffer to the byte there.

  \<open>byte_writer\<close> and \<open>byte_reader\<close> are the contracts the services rely on; \<open>Muxx_Devices\<close> shows that
  the drivers of the repository meet them.
\<close>

section \<open>The services\<close>

definition io_packet :: "u16 \<Rightarrow> iote \<Rightarrow> iopkt" where
  "io_packet function channel =
     \<lparr>iop_function = function, iop_error = EOK,
      iop_param = [ucast (io_controller channel), ucast (io_unit channel), 0, 0],
      iop_size = 1, ioarea = [0]\<rparr>"

fun write_loop ::
  "'d callback \<Rightarrow> ptr \<Rightarrow> u8 list \<Rightarrow> int \<Rightarrow> int \<Rightarrow> iopkt \<Rightarrow> 'd kstate \<Rightarrow> (int \<times> int, 'd kstate) outcome" where
  "write_loop cb pdrv [] rc numchars pkt s = Ret (rc, numchars) s"
| "write_loop cb pdrv (b # bs) rc numchars pkt s =
     (if rc \<ge> 0 then
        andthen (muxx_drv_exec cb pdrv (pkt\<lparr>ioarea := (ioarea pkt)[0 := b]\<rparr>) s) (\<lambda>(rc, pkt) s.
          write_loop cb pdrv bs rc (if rc > 0 then numchars + rc else numchars) pkt s)
      else Ret (rc, numchars) s)"

definition with_driver ::
  "nat \<Rightarrow> 'd kstate \<Rightarrow> (drvdesc \<Rightarrow> ('a, 'd kstate) outcome) \<Rightarrow> ('a, 'd kstate) outcome" where
  "with_driver i s k =
     at_ptr (drvcbs (drvt s)) (io_driver (iotes (chnt s) ! i)) s (\<lambda>d.
       case desc (drvcbs (drvt s) ! d) of None \<Rightarrow> Stop (Fault NullDeref) s | Some dd \<Rightarrow> k dd)"

definition muxx_svc_write ::
  "'d callback \<Rightarrow> ptr \<Rightarrow> int \<Rightarrow> (nat \<Rightarrow> u8) \<Rightarrow> 'd kstate \<Rightarrow> (int, 'd kstate) outcome" where
  "muxx_svc_write cb channel len buffer s =
     at_ptr (iotes (chnt s)) channel s (\<lambda>i.
       let io = iotes (chnt s) ! i
       in andthen
            (if \<not> io_open io then Ret (ENOTOPEN, 0) s
             else with_driver i s (\<lambda>dd.
               if da_buffered dd then Ret (ENOIMPL, 0) s
               else write_loop cb (io_driver io) (map buffer [0..<nat len]) EOK 0
                      (io_packet DRV_WRITE io) s))
            (\<lambda>(rc, numchars) s.
               if rc < 0 then
                 Ret numchars (upd_iote i (\<lambda>io. io\<lparr>io_ioerror := True\<rparr>) (set_errno rc s))
               else
                 Ret numchars (upd_iote i (\<lambda>io. io\<lparr>io_ioerror := False\<rparr>) (set_errno EOK s))))"

text \<open>The offsets still to be read drive the loop.\<close>

fun read_loop ::
  "'d callback \<Rightarrow> ptr \<Rightarrow> nat list \<Rightarrow> int \<Rightarrow> int \<Rightarrow> (nat \<Rightarrow> u8) \<Rightarrow> iopkt \<Rightarrow> 'd kstate \<Rightarrow>
   (int \<times> int \<times> (nat \<Rightarrow> u8), 'd kstate) outcome" where
  "read_loop cb pdrv [] rc numchars buffer pkt s = Ret (rc, numchars, buffer) s"
| "read_loop cb pdrv (i # is) rc numchars buffer pkt s =
     (if rc \<ge> 0 then
        andthen (muxx_drv_exec cb pdrv pkt s) (\<lambda>(rc, pkt) s.
          if rc > 0 then read_loop cb pdrv is rc (numchars + rc) (buffer(i := ioarea pkt ! 0)) pkt s
          else read_loop cb pdrv is rc numchars buffer pkt s)
      else Ret (rc, numchars, buffer) s)"

definition muxx_svc_read ::
  "'d callback \<Rightarrow> ptr \<Rightarrow> int \<Rightarrow> (nat \<Rightarrow> u8) \<Rightarrow> 'd kstate \<Rightarrow> (int \<times> (nat \<Rightarrow> u8), 'd kstate) outcome" where
  "muxx_svc_read cb channel len buffer s =
     at_ptr (iotes (chnt s)) channel s (\<lambda>i.
       let io = iotes (chnt s) ! i
       in andthen
            (if \<not> io_open io then Ret (ENOTOPEN, 0, buffer) s
             else with_driver i s (\<lambda>dd.
               if da_buffered dd then Ret (ENOIMPL, 0, buffer) s
               else read_loop cb (io_driver io) [0..<nat len] 0 0 buffer (io_packet DRV_READ io) s))
            (\<lambda>(rc, numchars, buffer) s.
               if rc < 0 then
                 Ret (numchars, buffer) (set_errno rc
                   (if rc = EEOF then upd_iote i (\<lambda>io. io\<lparr>io_eof := True, io_ioerror := False\<rparr>) s
                    else upd_iote i (\<lambda>io. io\<lparr>io_ioerror := True\<rparr>) s))
               else
                 Ret (numchars, buffer)
                   (upd_iote i (\<lambda>io. io\<lparr>io_ioerror := False, io_eof := False\<rparr>) (set_errno EOK s))))"

section \<open>Contracts of the drivers\<close>

definition byte_packet :: "u16 \<Rightarrow> iopkt \<Rightarrow> bool" where
  "byte_packet f pkt \<longleftrightarrow> iop_function pkt = f \<and> iop_size pkt = 1 \<and> length (ioarea pkt) = 1"

lemma io_packet_byte [simp]: "byte_packet f (io_packet f io)"
  by (simp add: byte_packet_def io_packet_def)

text \<open>A driver that accepts a byte and appends it to what the device has put out.\<close>

locale byte_writer =
  fixes cb :: "'d callback" and entry :: u16 and ready :: "'d \<Rightarrow> bool" and put_out :: "'d \<Rightarrow> u8 list"
  assumes write_byte: "ready d \<Longrightarrow> byte_packet DRV_WRITE pkt \<Longrightarrow>
      \<exists>pkt' d'. cb entry pkt d = (1, pkt', d') \<and> byte_packet DRV_WRITE pkt' \<and> ready d' \<and>
        put_out d' = put_out d @ [ioarea pkt ! 0]"
begin

lemma write_loop_all:
  assumes "ready (dev s)" and "byte_packet DRV_WRITE pkt" and "rc \<ge> 0"
    and "k < length (drvcbs (drvt s))" and "desc (drvcbs (drvt s) ! k) = Some dd"
    and "length (callbacks dd) = 10" and "callbacks dd ! 5 = entry"
  shows "\<exists>d' rc'. write_loop cb (Some k) bs rc n pkt s = Ret (rc', n + int (length bs)) (s\<lparr>dev := d'\<rparr>) \<and>
    rc' \<ge> 0 \<and> ready d' \<and> put_out d' = put_out (dev s) @ bs"
  using assms
proof (induction bs arbitrary: rc n pkt s)
  case Nil
  then show ?case by (auto intro!: exI [of _ "dev s"])
next
  case (Cons b bs)
  let ?pkt = "pkt\<lparr>ioarea := (ioarea pkt)[0 := b]\<rparr>"
  have pk: "byte_packet DRV_WRITE ?pkt" "ioarea ?pkt ! 0 = b"
    using Cons.prems(2) by (auto simp: byte_packet_def)
  from write_byte [OF Cons.prems(1) pk(1)] pk(2) obtain pkt' d' where
    c: "cb entry ?pkt (dev s) = (1, pkt', d')" "byte_packet DRV_WRITE pkt'" "ready d'"
      "put_out d' = put_out (dev s) @ [b]" by auto
  have fn: "iop_function ?pkt = 5" using Cons.prems(2) by (simp add: byte_packet_def)
  have "muxx_drv_exec cb (Some k) ?pkt s = Ret (1, pkt') (s\<lparr>dev := d'\<rparr>)"
    using drv_exec_call [of k s dd ?pkt cb 1 pkt' d'] Cons.prems c(1) fn by simp
  moreover from Cons.IH [of "s\<lparr>dev := d'\<rparr>" pkt' 1 "n + 1"] c Cons.prems obtain d2 rc2 where
    "write_loop cb (Some k) bs 1 (n + 1) pkt' (s\<lparr>dev := d'\<rparr>) =
       Ret (rc2, n + 1 + int (length bs)) (s\<lparr>dev := d2\<rparr>)"
    "rc2 \<ge> 0" "ready d2" "put_out d2 = put_out d' @ bs" by auto
  ultimately show ?case using c(4) Cons.prems(3) by (auto simp: algebra_simps intro!: exI [of _ d2])
qed

lemma svc_write_all:
  assumes i: "i < length (iotes (chnt s))" "iotes (chnt s) ! i = io" and io: "io_open io" "io_driver io = Some k"
    and k: "k < length (drvcbs (drvt s))" "desc (drvcbs (drvt s) ! k) = Some dd"
    and dd: "\<not> da_buffered dd" "length (callbacks dd) = 10" "callbacks dd ! 5 = entry"
    and rdy: "ready (dev s)"
  shows "\<exists>d'. muxx_svc_write cb (Some i) (int n) buffer s =
      Ret (int n) (upd_iote i (\<lambda>io. io\<lparr>io_ioerror := False\<rparr>) (set_errno EOK (s\<lparr>dev := d'\<rparr>))) \<and>
    ready d' \<and> put_out d' = put_out (dev s) @ map buffer [0..<n]"
proof -
  from write_loop_all [where pkt = "io_packet DRV_WRITE io" and rc = EOK and n = 0 and
      bs = "map buffer [0..<n]", OF rdy io_packet_byte _ k dd(2,3)]
  obtain d' rc' where
    "write_loop cb (Some k) (map buffer [0..<n]) EOK 0 (io_packet DRV_WRITE io) s =
       Ret (rc', int n) (s\<lparr>dev := d'\<rparr>)" "rc' \<ge> 0" "ready d'"
    "put_out d' = put_out (dev s) @ map buffer [0..<n]" by auto
  moreover from this(1) have "muxx_svc_write cb (Some i) (int n) buffer s =
      Ret (int n) (upd_iote i (\<lambda>io. io\<lparr>io_ioerror := False\<rparr>) (set_errno EOK (s\<lparr>dev := d'\<rparr>)))"
    using i io k dd \<open>rc' \<ge> 0\<close> by (simp add: muxx_svc_write_def with_driver_def)
  ultimately show ?thesis by blast
qed

end

text \<open>
  A driver that delivers the bytes of an input one at a time, and at its end reports \<open>EEOF\<close> and
  leaves the device at its end.
\<close>

locale byte_reader =
  fixes cb :: "'d callback" and entry :: u16 and input :: "'d \<Rightarrow> u8 list option"
  assumes read_byte: "input d = Some (b # bs) \<Longrightarrow> byte_packet DRV_READ pkt \<Longrightarrow>
      \<exists>pkt' d'. cb entry pkt d = (1, pkt', d') \<and> byte_packet DRV_READ pkt' \<and>
        ioarea pkt' ! 0 = b \<and> input d' = Some bs"
    and read_end: "input d = Some [] \<Longrightarrow> byte_packet DRV_READ pkt \<Longrightarrow>
      \<exists>pkt' d'. cb entry pkt d = (EEOF, pkt', d')"
begin

lemma exec_read:
  assumes "k < length (drvcbs (drvt s))" and "desc (drvcbs (drvt s) ! k) = Some dd"
    and "length (callbacks dd) = 10" and "callbacks dd ! 4 = entry" and "byte_packet DRV_READ pkt"
  shows "muxx_drv_exec cb (Some k) pkt s =
    (case cb entry pkt (dev s) of (rc, pkt', d') \<Rightarrow> Ret (rc, pkt') (s\<lparr>dev := d'\<rparr>))"
  using assms drv_exec_call [of k s dd pkt cb] by (auto simp: byte_packet_def split: prod.splits)

text \<open>Enough input: every offset gets its byte.\<close>

lemma read_loop_full:
  assumes "input (dev s) = Some (bs @ rest)" and "byte_packet DRV_READ pkt" and "rc \<ge> 0"
    and k: "k < length (drvcbs (drvt s))" "desc (drvcbs (drvt s) ! k) = Some dd"
      "length (callbacks dd) = 10" "callbacks dd ! 4 = entry"
  shows "\<exists>d' rc' pkt'. read_loop cb (Some k) ([m..<m + length bs] @ later) rc n buf pkt s =
      read_loop cb (Some k) later rc' (n + int (length bs))
        (\<lambda>j. if m \<le> j \<and> j < m + length bs then bs ! (j - m) else buf j) pkt' (s\<lparr>dev := d'\<rparr>) \<and>
    rc' \<ge> 0 \<and> byte_packet DRV_READ pkt' \<and> input d' = Some rest"
  using assms
proof (induction bs arbitrary: m rc n buf pkt s)
  case Nil
  have "(\<lambda>j. if m \<le> j \<and> j < m + length [] then [] ! (j - m) else buf j) = buf" by (rule ext) auto
  with Nil show ?case by (intro exI [of _ "dev s"] exI [of _ rc] exI [of _ pkt]) simp
next
  case (Cons b bs)
  from read_byte [OF _ Cons.prems(2), of "dev s" b "bs @ rest"] Cons.prems(1) obtain pkt1 d1 where
    c: "cb entry pkt (dev s) = (1, pkt1, d1)" "byte_packet DRV_READ pkt1" "ioarea pkt1 ! 0 = b"
      "input d1 = Some (bs @ rest)" by auto
  have ex: "muxx_drv_exec cb (Some k) pkt s = Ret (1, pkt1) (s\<lparr>dev := d1\<rparr>)"
    using exec_read [OF Cons.prems(4-7,2)] c(1) by simp
  let ?s = "s\<lparr>dev := d1\<rparr>"
  have pre: "input (dev ?s) = Some (bs @ rest)" "(1 :: int) \<ge> 0" "k < length (drvcbs (drvt ?s))"
      "desc (drvcbs (drvt ?s) ! k) = Some dd"
    using c Cons.prems by simp_all
  from Cons.IH [OF pre(1) c(2) pre(2-4) Cons.prems(6,7), of "Suc m" "n + 1" "buf(m := b)"]
  have "\<exists>d2 rc2 pkt2. read_loop cb (Some k) ([Suc m..<Suc m + length bs] @ later) 1 (n + 1) (buf(m := b)) pkt1 ?s =
      read_loop cb (Some k) later rc2 (n + 1 + int (length bs))
        (\<lambda>j. if Suc m \<le> j \<and> j < Suc m + length bs then bs ! (j - Suc m) else (buf(m := b)) j)
        pkt2 (s\<lparr>dev := d2\<rparr>) \<and>
      rc2 \<ge> 0 \<and> byte_packet DRV_READ pkt2 \<and> input d2 = Some rest"
    by (simp del: upt_Suc fun_upd_apply)
  then obtain d2 rc2 pkt2 where
    l: "read_loop cb (Some k) ([Suc m..<Suc m + length bs] @ later) 1 (n + 1) (buf(m := b)) pkt1 ?s =
      read_loop cb (Some k) later rc2 (n + 1 + int (length bs))
        (\<lambda>j. if Suc m \<le> j \<and> j < Suc m + length bs then bs ! (j - Suc m) else (buf(m := b)) j)
        pkt2 (s\<lparr>dev := d2\<rparr>)"
      "rc2 \<ge> 0" "byte_packet DRV_READ pkt2" "input d2 = Some rest" by blast
  have up: "[m..<m + length (b # bs)] = m # [Suc m..<Suc m + length bs]"
    by (simp add: upt_conv_Cons del: upt_Suc)
  have fn: "(\<lambda>j. if Suc m \<le> j \<and> j < Suc m + length bs then bs ! (j - Suc m) else (buf(m := b)) j) =
      (\<lambda>j. if m \<le> j \<and> j < m + length (b # bs) then (b # bs) ! (j - m) else buf j)"
    by (rule ext) (auto simp: nth_Cons')
  have "read_loop cb (Some k) ((m # [Suc m..<Suc m + length bs]) @ later) rc n buf pkt s =
      read_loop cb (Some k) ([Suc m..<Suc m + length bs] @ later) 1 (n + 1) (buf(m := b)) pkt1 ?s"
    using Cons.prems(3) ex c(3) by (simp del: upt_Suc fun_upd_apply)
  moreover have "n + 1 + int (length bs) = n + int (length (b # bs))" by simp
  ultimately have "read_loop cb (Some k) ([m..<m + length (b # bs)] @ later) rc n buf pkt s =
      read_loop cb (Some k) later rc2 (n + int (length (b # bs)))
        (\<lambda>j. if m \<le> j \<and> j < m + length (b # bs) then (b # bs) ! (j - m) else buf j)
        pkt2 (s\<lparr>dev := d2\<rparr>)"
    using l(1) by (simp only: up fn)
  with l(2-4) show ?case by blast
qed

text \<open>Too little input: the loop ends with \<open>EEOF\<close> after the last byte.\<close>

lemma read_loop_eof:
  assumes inp: "input (dev s) = Some bs" and pkt: "byte_packet DRV_READ pkt" and len: "length bs < n"
    and k: "k < length (drvcbs (drvt s))" "desc (drvcbs (drvt s) ! k) = Some dd"
      "length (callbacks dd) = 10" "callbacks dd ! 4 = entry"
  shows "\<exists>d'. read_loop cb (Some k) [0..<n] 0 0 buf pkt s =
      Ret (EEOF, int (length bs), \<lambda>j. if j < length bs then bs ! j else buf j) (s\<lparr>dev := d'\<rparr>)"
proof -
  have split: "[0..<n] = [0..<0 + length bs] @ length bs # [Suc (length bs)..<n]"
    using len upt_add_eq_append [of 0 "length bs" "n - length bs"] by (simp add: upt_conv_Cons del: upt_Suc)
  have "input (dev s) = Some (bs @ [])" using inp by simp
  from read_loop_full [where rc = 0 and m = 0 and n = 0 and buf = buf and
      later = "length bs # [Suc (length bs)..<n]", OF this pkt _ k]
  have "\<exists>d1 rc1 pkt1. read_loop cb (Some k) [0..<n] 0 0 buf pkt s =
      read_loop cb (Some k) (length bs # [Suc (length bs)..<n]) rc1 (int (length bs))
        (\<lambda>j. if j < length bs then bs ! j else buf j) pkt1 (s\<lparr>dev := d1\<rparr>) \<and>
      rc1 \<ge> 0 \<and> byte_packet DRV_READ pkt1 \<and> input d1 = Some []"
    unfolding split by (simp only: le0 simp_thms diff_zero add_0)
  then obtain d1 rc1 pkt1 where
    l: "read_loop cb (Some k) [0..<n] 0 0 buf pkt s =
      read_loop cb (Some k) (length bs # [Suc (length bs)..<n]) rc1 (int (length bs))
        (\<lambda>j. if j < length bs then bs ! j else buf j) pkt1 (s\<lparr>dev := d1\<rparr>)"
      "rc1 \<ge> 0" "byte_packet DRV_READ pkt1" "input d1 = Some []" by blast
  from read_end [OF l(4,3)] obtain pkt2 d2 where "cb entry pkt1 d1 = (EEOF, pkt2, d2)" by auto
  with exec_read [of k "s\<lparr>dev := d1\<rparr>" dd pkt1] k l(3)
  have "muxx_drv_exec cb (Some k) pkt1 (s\<lparr>dev := d1\<rparr>) = Ret (EEOF, pkt2) (s\<lparr>dev := d2\<rparr>)" by simp
  with l show ?thesis
    by (cases "[Suc (length bs)..<n]") (auto simp del: upt_Suc)
qed

lemma svc_read_all:
  assumes i: "i < length (iotes (chnt s))" "iotes (chnt s) ! i = io" and io: "io_open io" "io_driver io = Some k"
    and k: "k < length (drvcbs (drvt s))" "desc (drvcbs (drvt s) ! k) = Some dd"
    and dd: "\<not> da_buffered dd" "length (callbacks dd) = 10" "callbacks dd ! 4 = entry"
    and inp: "input (dev s) = Some (bs @ rest)"
  shows "\<exists>d'. muxx_svc_read cb (Some i) (int (length bs)) buffer s =
      Ret (int (length bs), \<lambda>j. if j < length bs then bs ! j else buffer j)
        (upd_iote i (\<lambda>io. io\<lparr>io_ioerror := False, io_eof := False\<rparr>) (set_errno EOK (s\<lparr>dev := d'\<rparr>))) \<and>
    input d' = Some rest"
proof -
  from read_loop_full [where rc = 0 and m = 0 and n = 0 and buf = buffer and later = "[]",
      OF inp io_packet_byte _ k dd(2,3), of io]
  have "\<exists>d' rc' pkt'. read_loop cb (Some k) [0..<length bs] 0 0 buffer (io_packet DRV_READ io) s =
      read_loop cb (Some k) [] rc' (int (length bs)) (\<lambda>j. if j < length bs then bs ! j else buffer j)
        pkt' (s\<lparr>dev := d'\<rparr>) \<and> rc' \<ge> 0 \<and> byte_packet DRV_READ pkt' \<and> input d' = Some rest"
    by (simp only: le0 simp_thms diff_zero add_0 append_Nil2)
  then obtain d' rc' where
    l: "read_loop cb (Some k) [0..<length bs] 0 0 buffer (io_packet DRV_READ io) s =
      Ret (rc', int (length bs), \<lambda>j. if j < length bs then bs ! j else buffer j) (s\<lparr>dev := d'\<rparr>)"
    "rc' \<ge> 0" "input d' = Some rest" by (simp only: read_loop.simps) blast
  then have "muxx_svc_read cb (Some i) (int (length bs)) buffer s =
      Ret (int (length bs), \<lambda>j. if j < length bs then bs ! j else buffer j)
        (upd_iote i (\<lambda>io. io\<lparr>io_ioerror := False, io_eof := False\<rparr>) (set_errno EOK (s\<lparr>dev := d'\<rparr>)))"
    using i io k dd by (simp add: muxx_svc_read_def with_driver_def)
  with l(3) show ?thesis by blast
qed

lemma svc_read_eof:
  assumes i: "i < length (iotes (chnt s))" "iotes (chnt s) ! i = io" and io: "io_open io" "io_driver io = Some k"
    and k: "k < length (drvcbs (drvt s))" "desc (drvcbs (drvt s) ! k) = Some dd"
    and dd: "\<not> da_buffered dd" "length (callbacks dd) = 10" "callbacks dd ! 4 = entry"
    and inp: "input (dev s) = Some bs" "length bs < n"
  shows "\<exists>d'. muxx_svc_read cb (Some i) (int n) buffer s =
      Ret (int (length bs), \<lambda>j. if j < length bs then bs ! j else buffer j)
        (set_errno EEOF (upd_iote i (\<lambda>io. io\<lparr>io_eof := True, io_ioerror := False\<rparr>) (s\<lparr>dev := d'\<rparr>)))"
proof -
  from read_loop_eof [OF inp(1) io_packet_byte inp(2) k dd(2,3), of buffer io]
  obtain d' where
    "read_loop cb (Some k) [0..<n] 0 0 buffer (io_packet DRV_READ io) s =
      Ret (EEOF, int (length bs), \<lambda>j. if j < length bs then bs ! j else buffer j) (s\<lparr>dev := d'\<rparr>)"
    by blast
  then have "muxx_svc_read cb (Some i) (int n) buffer s =
      Ret (int (length bs), \<lambda>j. if j < length bs then bs ! j else buffer j)
        (set_errno EEOF (upd_iote i (\<lambda>io. io\<lparr>io_eof := True, io_ioerror := False\<rparr>) (s\<lparr>dev := d'\<rparr>)))"
    using i io k dd by (simp add: muxx_svc_read_def with_driver_def)
  then show ?thesis by blast
qed

end

text \<open>A channel that is not open, in both directions.\<close>

lemma io_not_open:
  assumes "i < length (iotes (chnt s))" and "\<not> io_open (iotes (chnt s) ! i)"
  shows "muxx_svc_write cb (Some i) n buffer s =
      Ret 0 (upd_iote i (\<lambda>io. io\<lparr>io_ioerror := True\<rparr>) (set_errno ENOTOPEN s))"
    and "muxx_svc_read cb (Some i) n buffer s =
      Ret (0, buffer) (set_errno ENOTOPEN (upd_iote i (\<lambda>io. io\<lparr>io_ioerror := True\<rparr>) s))"
  using assms by (simp_all add: muxx_svc_write_def muxx_svc_read_def)

end
