(* ===== verification/Muxx_Devices.thy ===== *)
theory Muxx_Devices
  imports Muxx_IO
begin

text \<open>
  The two drivers the repository has, both in assembly language: the paper tape reader and punch
  (\<open>drivers/ptpdrv.s\<close>) and the line printer (\<open>drivers/lptdrv.s\<close>). Their callbacks are modelled to
  give the parameter \<open>cb\<close> of the kernel model concrete instances, on which the contracts of
  \<open>Muxx_IO\<close> are interpreted.

  The hardware behind the registers is reduced to what the drivers see of it once a busy-wait loop
  has ended: the bytes left on the tape, the bytes punched and printed, and the error bits. A reader
  at the end of its tape raises its error bit, which stays set. The linker places the callbacks: the
  addresses here are arbitrary distinct numbers.
\<close>

section \<open>The devices and the callbacks\<close>

record devices =
  tape_in :: "u8 list"
  reader_error :: bool
  tape_out :: "u8 list"
  punch_error :: bool
  printed :: "u8 list"
  printer_error :: bool

definition fail_pkt :: "int \<Rightarrow> iopkt \<Rightarrow> devices \<Rightarrow> int \<times> iopkt \<times> devices" where
  "fail_pkt rc pkt d = (rc, pkt\<lparr>iop_error := rc\<rparr>, d)"

definition ptpread :: "iopkt \<Rightarrow> devices \<Rightarrow> int \<times> iopkt \<times> devices" where
  "ptpread pkt d =
     (if iop_size pkt \<noteq> 1 then fail_pkt EINVVAL pkt d
      else if reader_error d then fail_pkt ERRDEV pkt d
      else case tape_in d of
             [] \<Rightarrow> fail_pkt EEOF pkt (d\<lparr>reader_error := True\<rparr>)
           | b # bs \<Rightarrow> (1, pkt\<lparr>ioarea := (ioarea pkt)[0 := b]\<rparr>, d\<lparr>tape_in := bs\<rparr>))"

definition ptpwrite :: "iopkt \<Rightarrow> devices \<Rightarrow> int \<times> iopkt \<times> devices" where
  "ptpwrite pkt d =
     (if iop_size pkt \<noteq> 1 then fail_pkt EINVVAL pkt d
      else if punch_error d then fail_pkt ERRDEV pkt d
      else (1, pkt, d\<lparr>tape_out := tape_out d @ [ioarea pkt ! 0]\<rparr>))"

text \<open>
  \<open>lptread\<close> does not load the address of the packet before it stores the error code: the code goes to
  whatever R1 points to, and the packet stays as it is. (The stray word is not modelled.)
\<close>

definition lptread :: "iopkt \<Rightarrow> devices \<Rightarrow> int \<times> iopkt \<times> devices" where
  "lptread pkt d = (ENOTSUP, pkt, d)"

definition lptwrite :: "iopkt \<Rightarrow> devices \<Rightarrow> int \<times> iopkt \<times> devices" where
  "lptwrite pkt d =
     (if iop_size pkt \<noteq> 1 then fail_pkt EINVVAL pkt d
      else if printer_error d then fail_pkt ERRDEV pkt d
      else (1, pkt, d\<lparr>printed := printed d @ [ioarea pkt ! 0]\<rparr>))"

text \<open>The callback tables: the first address of each driver, then one entry per function.\<close>

abbreviation (input) PTP_BASE :: u16 where "PTP_BASE \<equiv> 0x100"
abbreviation (input) LPT_BASE :: u16 where "LPT_BASE \<equiv> 0x200"

definition muxx_devices :: "devices callback" where
  "muxx_devices a pkt d =
     (if a = PTP_BASE + 4 then ptpread pkt d
      else if a = PTP_BASE + 5 then ptpwrite pkt d
      else if a = LPT_BASE + 4 then lptread pkt d
      else if a = LPT_BASE + 5 then lptwrite pkt d
      else if a \<in> {PTP_BASE, PTP_BASE + 2, PTP_BASE + 3, PTP_BASE + 9,
                    LPT_BASE, LPT_BASE + 2, LPT_BASE + 3, LPT_BASE + 9} then (EOK, pkt, d)
      else (ENOIMPL, pkt, d))"

definition driver_table :: "u16 \<Rightarrow> u16 list" where
  "driver_table base = map (\<lambda>k. base + of_nat k) [0..<10]"

definition ptpdesct :: drvdesc where
  "ptpdesct = \<lparr>callbacks = driver_table PTP_BASE, da_shareable = False, da_record = False,
     da_files = False, da_buffered = False, dd_devname = ''PT      '', defbufsiz = 1, numisr = 2,
     isrtable = [\<lparr>isr_handler = PTP_BASE + 10, isr_vector = 0x38, isr_ilevel = 4\<rparr>,
                 \<lparr>isr_handler = PTP_BASE + 10, isr_vector = 0x3C, isr_ilevel = 4\<rparr>,
                 \<lparr>isr_handler = 0, isr_vector = 0, isr_ilevel = 0\<rparr>,
                 \<lparr>isr_handler = 0, isr_vector = 0, isr_ilevel = 0\<rparr>]\<rparr>"

definition lptdesct :: drvdesc where
  "lptdesct = \<lparr>callbacks = driver_table LPT_BASE, da_shareable = False, da_record = False,
     da_files = False, da_buffered = False, dd_devname = ''LP      '', defbufsiz = 1, numisr = 1,
     isrtable = [\<lparr>isr_handler = LPT_BASE + 10, isr_vector = 0x80, isr_ilevel = 4\<rparr>,
                 \<lparr>isr_handler = 0, isr_vector = 0, isr_ilevel = 0\<rparr>,
                 \<lparr>isr_handler = 0, isr_vector = 0, isr_ilevel = 0\<rparr>,
                 \<lparr>isr_handler = 0, isr_vector = 0, isr_ilevel = 0\<rparr>]\<rparr>"

section \<open>The drivers meet the contracts\<close>

lemma driver_table_nth: "k < 10 \<Longrightarrow> driver_table base ! k = base + of_nat k"
  by (simp add: driver_table_def)

lemma driver_table_length [simp]: "length (driver_table base) = 10"
  by (simp add: driver_table_def)

definition reader_input :: "devices \<Rightarrow> u8 list option" where
  "reader_input d = (if reader_error d then None else Some (tape_in d))"

interpretation punch: byte_writer muxx_devices "PTP_BASE + 5" "\<lambda>d. \<not> punch_error d" tape_out
  by unfold_locales (auto simp: muxx_devices_def ptpwrite_def byte_packet_def)

interpretation printer: byte_writer muxx_devices "LPT_BASE + 5" "\<lambda>d. \<not> printer_error d" printed
  by unfold_locales (auto simp: muxx_devices_def lptwrite_def byte_packet_def)

interpretation tape: byte_reader muxx_devices "PTP_BASE + 4" reader_input
proof (unfold_locales, goal_cases)
  case (1 d b bs pkt)
  let ?pkt = "pkt\<lparr>ioarea := (ioarea pkt)[0 := b]\<rparr>" and ?d = "d\<lparr>tape_in := bs\<rparr>"
  from 1 have "muxx_devices (PTP_BASE + 4) pkt d = (1, ?pkt, ?d)" "reader_input ?d = Some bs"
    "byte_packet DRV_READ ?pkt" "ioarea ?pkt ! 0 = b"
    by (auto simp: muxx_devices_def ptpread_def byte_packet_def reader_input_def split: if_splits)
  then show ?case by blast
next
  case (2 d pkt)
  then show ?case
    by (auto simp: muxx_devices_def ptpread_def byte_packet_def reader_input_def fail_pkt_def split: if_splits)
qed

end
