(* ===== verification/Lib_Sys.thy ===== *)
theory Lib_Sys
  imports Muxx_Devices
begin

text \<open>
  The C part of the system call library, \<open>lib/sys/*.c\<close> and \<open>lib/gen/sleep.c\<close>, and the shell that
  loads a program into a new task (\<open>shell/rshell.c\<close>). A task's channels are numbered by the
  \<open>tu_iote\<close> table in its user control block; the wrappers call the kernel's services directly.

  The calls that wait repeat a system call and give up the processor in between. What a task sees
  of that is a function \<open>yield\<close> from the state in which it gives up the processor to the state in
  which it gets it back; the loops are partial functions, \<open>None\<close> when they never end.
\<close>

section \<open>Channel numbers\<close>

definition upd_fd :: "nat \<Rightarrow> nat \<Rightarrow> ptr \<Rightarrow> 'd kstate \<Rightarrow> 'd kstate" where
  "upd_fd c fd io s =
     s\<lparr>tucbs := (tucbs s)[c := (tucbs s ! c)\<lparr>tu_iote := (tu_iote (tucbs s ! c))[fd := io]\<rparr>]\<rparr>"

definition find_fd :: "ptr list \<Rightarrow> nat option" where
  "find_fd ios = for_until 0 IOT_TENTRIES (\<lambda>fd. fd \<noteq> None)
     (\<lambda>i fd. if ios ! i = None then Some i else fd) None"

definition lib_open :: "string \<Rightarrow> u16 \<Rightarrow> 'd kstate \<Rightarrow> (int, 'd kstate) outcome" where
  "lib_open filename mode s =
     at_ptr (tucbs s) (curtcb s) s (\<lambda>c.
       let s = set_errno EOK s
       in case find_fd (tu_iote (tucbs s ! c)) of
            None \<Rightarrow> Ret ENOSYSRES (set_errno ENOSYSRES s)
          | Some fd \<Rightarrow>
              andthen (muxx_svc_open filename mode s) (\<lambda>io s.
                if io = None then Ret (get_errno s) s else Ret (int fd) (upd_fd c fd io s)))"

text \<open>The entry \<open>iote[fd]\<close> of the current task.\<close>

definition fd_at :: "int \<Rightarrow> 'd kstate \<Rightarrow> (nat \<Rightarrow> ptr \<Rightarrow> ('a, 'd kstate) outcome) \<Rightarrow> ('a, 'd kstate) outcome" where
  "fd_at fd s k =
     at_ptr (tucbs s) (curtcb s) s (\<lambda>c.
       if 0 \<le> fd \<and> nat fd < length (tu_iote (tucbs s ! c)) then k c (tu_iote (tucbs s ! c) ! nat fd)
       else Stop (Fault BufferOverrun) s)"

definition lib_close :: "int \<Rightarrow> 'd kstate \<Rightarrow> (int, 'd kstate) outcome" where
  "lib_close fd s =
     (if fd < 0 \<or> fd > int IOT_TENTRIES then Ret EINVVAL (set_errno EINVVAL s)
      else fd_at fd s (\<lambda>c io.
        if io = None then Ret ENOTOPEN (set_errno ENOTOPEN s)
        else andthen (muxx_svc_close io s) (\<lambda>rc s.
          if rc = EOK then Ret rc (upd_fd c (nat fd) None s) else Ret rc (set_errno rc s))))"

definition lib_write ::
  "'d callback \<Rightarrow> int \<Rightarrow> u16 \<Rightarrow> (nat \<Rightarrow> u8) \<Rightarrow> 'd kstate \<Rightarrow> (int, 'd kstate) outcome" where
  "lib_write cb fd len buffer s = fd_at fd s (\<lambda>c io. muxx_svc_write cb io (sint len) buffer s)"

definition lib_read ::
  "'d callback \<Rightarrow> int \<Rightarrow> u16 \<Rightarrow> (nat \<Rightarrow> u8) \<Rightarrow> 'd kstate \<Rightarrow> (int \<times> (nat \<Rightarrow> u8), 'd kstate) outcome" where
  "lib_read cb fd len buffer s = fd_at fd s (\<lambda>c io. muxx_svc_read cb io (sint len) buffer s)"

definition getpid :: "'d kstate \<Rightarrow> (int, 'd kstate) outcome" where
  "getpid s =
     andthen (muxx_svc_gettpi 0 s) (\<lambda>(rc, thisTask).
       Ret (case thisTask of Some t \<Rightarrow> if rc = 0 then sint (pid t) else rc | None \<Rightarrow> rc))"

section \<open>Calls that wait\<close>

partial_function (option) retry_call ::
  "(int \<Rightarrow> bool) \<Rightarrow> ('s \<Rightarrow> int \<times> 's) \<Rightarrow> ('s \<Rightarrow> 's) \<Rightarrow> 's \<Rightarrow> (int \<times> 's) option" where
  "retry_call again call yield s =
     (if again (fst (call s)) then retry_call again call yield (yield (snd (call s)))
      else Some (call s))"

definition allocw ::
  "(string \<Rightarrow> u16 \<Rightarrow> 's \<Rightarrow> int \<times> 's) \<Rightarrow> ('s \<Rightarrow> 's) \<Rightarrow> string \<Rightarrow> u16 \<Rightarrow> 's \<Rightarrow> (int \<times> 's) option" where
  "allocw alloc yield devnam mode =
     retry_call (\<lambda>rc. rc = ENOAVAIL \<or> rc = ELOCKED) (alloc devnam mode) yield"

definition mutexw ::
  "(u16 \<Rightarrow> u16 \<Rightarrow> 's \<Rightarrow> int \<times> 's) \<Rightarrow> ('s \<Rightarrow> 's) \<Rightarrow> u16 \<Rightarrow> u16 \<Rightarrow> 's \<Rightarrow> (int \<times> 's) option" where
  "mutexw mutex yield m mode = retry_call (\<lambda>rc. rc = ELOCKED) (mutex m mode) yield"

abbreviation (input) CLK_FREQ :: u16 where "CLK_FREQ \<equiv> 60"

text \<open>
  The number of ticks is computed in \<open>int\<close> and then extended to a longword; the ticks that have
  passed are a difference of longwords.
\<close>

partial_function (option) sleep_loop ::
  "('s \<Rightarrow> u32) \<Rightarrow> ('s \<Rightarrow> 's) \<Rightarrow> u32 \<Rightarrow> u32 \<Rightarrow> 's \<Rightarrow> 's option" where
  "sleep_loop now yield sticks ticks s =
     (if now s - ticks < sticks then sleep_loop now yield sticks ticks (yield s) else Some s)"

definition sleep :: "('s \<Rightarrow> u32) \<Rightarrow> ('s \<Rightarrow> 's) \<Rightarrow> u16 \<Rightarrow> 's \<Rightarrow> 's option" where
  "sleep now yield seconds s =
     (if seconds = 0 then Some s else sleep_loop now yield (scast (seconds * CLK_FREQ)) (now s) s)"

section \<open>Loading a program\<close>

text \<open>
  The header of an executable, \<open>struct exec\<close> of \<open>h/exec.h\<close>: eight words, the low byte first. The
  caller's memory is a function from addresses to bytes; a read into it changes the bytes of the
  buffer only.
\<close>

record exec =
  a_magic :: u16
  a_text :: u16
  a_data :: u16
  a_bss :: u16
  a_syms :: u16
  a_entry :: u16
  a_unused :: u16
  a_flag :: u16

abbreviation (input) A_MAGIC1 :: u16 where "A_MAGIC1 \<equiv> 0x0107"
abbreviation (input) A_MAGIC2 :: u16 where "A_MAGIC2 \<equiv> 0x0108"
abbreviation (input) EXEC_SIZE :: u16 where "EXEC_SIZE \<equiv> 16"
abbreviation (input) PAGE_SIZE :: u16 where "PAGE_SIZE \<equiv> 0x2000"

definition word_at :: "(nat \<Rightarrow> u8) \<Rightarrow> nat \<Rightarrow> u16" where
  "word_at b k = word_cat (b (2 * k + 1)) (b (2 * k))"

definition exec_of :: "(nat \<Rightarrow> u8) \<Rightarrow> exec" where
  "exec_of b = \<lparr>a_magic = word_at b 0, a_text = word_at b 1, a_data = word_at b 2, a_bss = word_at b 3,
     a_syms = word_at b 4, a_entry = word_at b 5, a_unused = word_at b 6, a_flag = word_at b 7\<rparr>"

type_synonym memory = "u16 \<Rightarrow> u8"

definition buffer_at :: "memory \<Rightarrow> u16 \<Rightarrow> nat \<Rightarrow> u8" where
  "buffer_at m dest k = m (dest + of_nat k)"

definition store_buffer :: "memory \<Rightarrow> u16 \<Rightarrow> u16 \<Rightarrow> (nat \<Rightarrow> u8) \<Rightarrow> memory" where
  "store_buffer m dest len b a = (if unat (a - dest) < unat len then b (unat (a - dest)) else m a)"

text \<open>\<open>n = read(fd, len, dest)\<close>: the number of bytes as a \<open>WORD\<close>, and the memory afterwards.\<close>

definition read_mem ::
  "'d callback \<Rightarrow> int \<Rightarrow> u16 \<Rightarrow> u16 \<Rightarrow> memory \<Rightarrow> 'd kstate \<Rightarrow> (u16 \<times> memory, 'd kstate) outcome" where
  "read_mem cb fd len dest m s =
     andthen (lib_read cb fd len (buffer_at m dest) s) (\<lambda>(n, b).
       Ret (word_of_int n, store_buffer m dest len b))"

definition task_space :: "u16 \<Rightarrow> u16" where
  "task_space type =
     (if type AND TSZ_BIG \<noteq> 0 then 3 * PAGE_SIZE
      else if type AND TSZ_MED \<noteq> 0 then 2 * PAGE_SIZE else PAGE_SIZE)"

text \<open>
  The current task's TUCB, with its channels and its \<open>errno\<close>, is memory of the task, which the model
  keeps apart: where the code writes into the memory, the model goes on only if the TUCB is not hit.
\<close>

definition hits_tucb :: "u16 \<Rightarrow> u16 \<Rightarrow> u16 \<Rightarrow> bool" where
  "hits_tucb tucb dest len \<longleftrightarrow> unat (tucb - dest) < unat len \<or> unat (dest - tucb) < 20 \<and> len \<noteq> 0"

definition spare_tucb :: "u16 \<Rightarrow> u16 \<Rightarrow> u16 \<Rightarrow> ('s \<Rightarrow> ('a, 's) outcome) \<Rightarrow> 's \<Rightarrow> ('a, 's) outcome" where
  "spare_tucb tucb dest len f s = (if hits_tucb tucb dest len then Stop (Fault BufferOverrun) s else f s)"

text \<open>
  Text, data and the cleared area behind them. The result is the return code and the memory; the
  tests compare words.
\<close>

definition load_image ::
  "'d callback \<Rightarrow> int \<Rightarrow> exec \<Rightarrow> u16 \<Rightarrow> u16 \<Rightarrow> memory \<Rightarrow> 'd kstate \<Rightarrow> (int \<times> memory, 'd kstate) outcome" where
  "load_image cb fd ex space tucb m s =
     (if a_text ex + a_data ex + a_bss ex > space then Ret (ENOMEM, m) (set_errno ENOMEM s)
      else
        andthen (spare_tucb tucb TASK_BASE (a_text ex) (read_mem cb fd (a_text ex) TASK_BASE m) s) (\<lambda>(n, m) s.
          if n < a_text ex then Ret (get_errno s, m) s
          else
            let dest = TASK_BASE + a_text ex
            in andthen (spare_tucb tucb dest (a_data ex) (read_mem cb fd (a_data ex) dest m) s) (\<lambda>(n, m) s.
              if n < a_data ex then Ret (get_errno s, m) s
              else
                let dest = dest + a_data ex
                in spare_tucb tucb dest (a_bss ex) (Ret (EOK, store_buffer m dest (a_bss ex) (\<lambda>_. 0))) s)))"

text \<open>
  What the header says is only used when all of it has been read; the entry point is stored for
  the caller as soon as the magic number is right.
\<close>

definition load_program ::
  "'d callback \<Rightarrow> int \<Rightarrow> u16 \<Rightarrow> memory \<Rightarrow> 'd kstate \<Rightarrow> (int \<times> u16 \<times> u16 \<times> memory, 'd kstate) outcome" where
  "load_program cb fd entry m s =
     andthen (lib_read cb fd EXEC_SIZE (\<lambda>_. 0) s) (\<lambda>(n, b) s.
       let ex = exec_of b
       in if (word_of_int n :: u16) \<noteq> EXEC_SIZE then Ret (get_errno s, 0, entry, m) s
          else if a_magic ex \<noteq> A_MAGIC1 \<and> a_magic ex \<noteq> A_MAGIC2 then Ret (EINVLOAD, 0, entry, m) s
          else andthen (muxx_svc_gettpi 0 s) (\<lambda>(_, tcb) s.
            case tcb of
              None \<Rightarrow> Stop (Fault BadArgument) s
            | Some t \<Rightarrow>
                andthen (load_image cb fd ex (task_space (taskType t)) (taskTUCB t) m s) (\<lambda>(rc, m).
                  Ret (rc, a_text ex + a_data ex + a_bss ex, a_entry ex, m))))"

definition load ::
  "'d callback \<Rightarrow> string \<Rightarrow> u16 \<Rightarrow> memory \<Rightarrow> 'd kstate \<Rightarrow> (int \<times> u16 \<times> memory, 'd kstate) outcome" where
  "load cb device entry m s =
     andthen (lib_open device 0 s) (\<lambda>fd s.
       if fd < 0 then Ret (fd, entry, m) s
       else andthen (load_program cb fd entry m s) (\<lambda>(rc, imgsize, entry, m) s.
              andthen (lib_close fd s) (\<lambda>_.
                Ret (if rc = EOK then sint imgsize else 0, entry, m))))"

section \<open>The loading shell\<close>

text \<open>
  The shell retries while the device is not available; \<open>pause\<close> is one second of sleep. What it
  prints is left out. Its result is the address it jumps to, or the return code it reports.
\<close>

datatype shell_end = Jump u16 | LoadFailed int

fun rshell_loop ::
  "nat \<Rightarrow> 'd callback \<Rightarrow> ('d kstate \<Rightarrow> 'd kstate) \<Rightarrow> string \<Rightarrow> u16 \<Rightarrow> memory \<Rightarrow> 'd kstate \<Rightarrow>
   (int \<times> u16 \<times> memory, 'd kstate) outcome" where
  "rshell_loop 0 cb pause parm entry m s = Stop Diverges s"
| "rshell_loop (Suc fuel) cb pause parm entry m s =
     andthen (load cb parm entry m s) (\<lambda>(rc, entry, m) s.
       if rc = ENOAVAIL \<or> rc = ENOSYSRES then rshell_loop fuel cb pause parm entry m (pause s)
       else Ret (rc, entry, m) s)"

definition rshell ::
  "nat \<Rightarrow> 'd callback \<Rightarrow> ('d kstate \<Rightarrow> 'd kstate) \<Rightarrow> string \<Rightarrow> memory \<Rightarrow> 'd kstate \<Rightarrow>
   (shell_end \<times> memory, 'd kstate) outcome" where
  "rshell fuel cb pause parm m s =
     andthen (rshell_loop fuel cb pause parm 0 m s) (\<lambda>(rc, entry, m).
       Ret (if rc \<ge> 0 then Jump entry else LoadFailed rc, m))"

section \<open>Waiting\<close>

text \<open>The state in which the call is repeated for the \<open>n\<close>-th time.\<close>

fun rounds :: "('s \<Rightarrow> int \<times> 's) \<Rightarrow> ('s \<Rightarrow> 's) \<Rightarrow> nat \<Rightarrow> 's \<Rightarrow> 's" where
  "rounds call yield 0 s = s"
| "rounds call yield (Suc n) s = rounds call yield n (yield (snd (call s)))"

lemma retry_call_returns:
  "\<not> again (fst (call (rounds call yield n s))) \<Longrightarrow>
   (\<And>k. k < n \<Longrightarrow> again (fst (call (rounds call yield k s)))) \<Longrightarrow>
   retry_call again call yield s = Some (call (rounds call yield n s))"
proof (induction n arbitrary: s)
  case 0
  then show ?case by (simp add: retry_call.simps [of again call yield s])
next
  case (Suc n)
  from Suc.prems(2) [of 0] have "again (fst (call s))" by simp
  moreover have "retry_call again call yield (yield (snd (call s))) =
      Some (call (rounds call yield n (yield (snd (call s)))))"
    using Suc.prems Suc.prems(2) [of "Suc _"] by (intro Suc.IH) auto
  ultimately show ?case by (simp add: retry_call.simps [of again call yield s])
qed

lemma retry_call_result: "retry_call again call yield s = Some r \<Longrightarrow> \<not> again (fst r)"
proof (rule retry_call.raw_induct [where P = "\<lambda>again call yield s r. \<not> again (fst r)"], goal_cases)
  case (1 f again call yield s r)
  show ?case
  proof (cases "again (fst (call s))")
    case True
    with 1(3) have "f again call yield (yield (snd (call s))) = Some r" by simp
    from 1(2) [OF this] show ?thesis .
  next
    case False
    with 1(3) show ?thesis by auto
  qed
qed

text \<open>Sleeping ends when every turn of the others takes some ticks, but not too many at once.\<close>

lemma sleep_loop_returns:
  assumes step: "\<And>s. ok s \<Longrightarrow> ok (yield s) \<and> 0 < now (yield s) - now s \<and> now (yield s) - now s \<le> 2 ^ 31"
    and "ok s" and "sticks \<le> 2 ^ 31"
  shows "\<exists>s'. sleep_loop now yield sticks ticks s = Some s' \<and> ok s' \<and> sticks \<le> now s' - ticks"
  using \<open>ok s\<close>
proof (induction "unat sticks - unat (now s - ticks)" arbitrary: s rule: less_induct)
  case less
  show ?case
  proof (cases "now s - ticks < sticks")
    case False
    then show ?thesis using less.prems by (simp add: sleep_loop.simps [of now yield sticks ticks s])
  next
    case True
    let ?d = "now (yield s) - now s"
    have d: "ok (yield s)" "0 < ?d" "?d \<le> 2 ^ 31" using step [OF less.prems] by auto
    have "unat (now s - ticks) < 2 ^ 31" "unat ?d \<le> 2 ^ 31" "0 < unat ?d"
      using True \<open>sticks \<le> 2 ^ 31\<close> d by (simp_all add: word_less_nat_alt word_le_nat_alt unat_gt_0)
    then have "unat (now s - ticks) + unat ?d < 2 ^ LENGTH(32)" by simp
    then have "unat ((now s - ticks) + ?d) = unat (now s - ticks) + unat ?d"
      by (simp only: unat_word_ariths(1) mod_less)
    moreover have "(now s - ticks) + ?d = now (yield s) - ticks" by simp
    ultimately have "unat (now (yield s) - ticks) = unat (now s - ticks) + unat ?d" by metis
    then have "unat sticks - unat (now (yield s) - ticks) < unat sticks - unat (now s - ticks)"
      using True \<open>0 < unat ?d\<close> by (simp add: word_less_nat_alt)
    from less.hyps [OF this d(1)] True show ?thesis
      by (simp add: sleep_loop.simps [of now yield sticks ticks s])
  qed
qed

section \<open>The table of channel numbers\<close>

lemma find_fd_find: "find_fd ios = find (\<lambda>i. \<not> ios ! i \<noteq> None) [0..<IOT_TENTRIES]"
  using for_until_find [of 0 IOT_TENTRIES "\<lambda>i. ios ! i = None"] by (simp add: find_fd_def)

interpretation fds: slot_table find_fd "\<lambda>ios i. ios ! i \<noteq> None" 0 IOT_TENTRIES
  by (rule find_slot_table) (rule find_fd_find)

lemma upd_fd_fields [simp]:
  "tct (upd_fd c fd io s) = tct s" "curtcb (upd_fd c fd io s) = curtcb s"
  "ipl (upd_fd c fd io s) = ipl s" "mutexes (upd_fd c fd io s) = mutexes s"
  "drvt (upd_fd c fd io s) = drvt s" "chnt (upd_fd c fd io s) = chnt s"
  "dev (upd_fd c fd io s) = dev s" "length (tucbs (upd_fd c fd io s)) = length (tucbs s)"
  by (simp_all add: upd_fd_def)

lemma tucbs_fields [simp]:
  "current_pid (s\<lparr>tucbs := v\<rparr>) = current_pid s" "current_pid (s\<lparr>dev := d\<rparr>) = current_pid s"
  by (simp_all add: current_pid_def split: option.split)

lemma chan_ready_tucbs [simp]: "chan_ready (s\<lparr>tucbs := v\<rparr>) = chan_ready s"
  by (simp add: chan_ready_def mutex_ready_def drv_inv_cong [of "s\<lparr>tucbs := v\<rparr>" s])

lemma chan_ready_dev [simp]: "chan_ready (s\<lparr>dev := d\<rparr>) = chan_ready s"
  by (simp add: chan_ready_def mutex_ready_def drv_inv_cong [of "s\<lparr>dev := d\<rparr>" s])

lemma chan_ready_upd_fd [simp]: "chan_ready (upd_fd c fd io s) = chan_ready s"
  by (simp add: upd_fd_def)

lemma set_errno_tucbs: "curtcb s = Some c \<Longrightarrow> c < length (tucbs s) \<Longrightarrow>
    c < length (tucbs (set_errno e s)) \<and> tu_iote (tucbs (set_errno e s) ! c) = tu_iote (tucbs s ! c)"
  by (simp add: set_errno_def)

lemma dev_set_errno [simp]: "dev (set_errno e s) = dev s"
  by (simp add: set_errno_def split: option.split)

lemma find_driver_fields [simp]:
  "muxx_find_driver n (set_errno e s) = muxx_find_driver n s"
  "muxx_find_driver n (upd_iote j f s) = muxx_find_driver n s"
  "muxx_find_driver n (upd_fd c fd io s) = muxx_find_driver n s"
  "muxx_find_driver n (s\<lparr>dev := d\<rparr>) = muxx_find_driver n s"
  "muxx_find_driver n (s\<lparr>tucbs := v\<rparr>) = muxx_find_driver n s"
  by (rule find_driver_cong; simp)+

lemma drvs_length: "chan_ready s \<Longrightarrow> length (drvcbs (drvt s)) = MAX_DRV"
  by (simp add: chan_ready_def drv_inv_def)

lemma sint_small: "n < 2 ^ 15 \<Longrightarrow> sint (of_nat n :: u16) = int n"
  by (simp add: signed_of_nat signed_take_bit_int_eq_self)

section \<open>A device used through the library\<close>

text \<open>
  The calling task \<open>c\<close> can open the unshared device \<open>device\<close>, which is driver \<open>k\<close> with the
  description \<open>dd\<close>: it will get channel number \<open>fd\<close>, through entry \<open>i\<close> of the channel table.
\<close>

definition dev_idle :: "string \<Rightarrow> drvdesc \<Rightarrow> nat \<Rightarrow> nat \<Rightarrow> nat \<Rightarrow> nat \<Rightarrow> 'd kstate \<Rightarrow> bool" where
  "dev_idle device dd c fd i k s \<longleftrightarrow>
     curtcb s = Some c \<and> c < length (tucbs s) \<and> length (tu_iote (tucbs s ! c)) = IOT_TENTRIES \<and>
     find_fd (tu_iote (tucbs s ! c)) = Some fd \<and> chan_ready s \<and>
     find_iote_slot (iotes (chnt s)) = Some i \<and> io_buffaddr (iotes (chnt s) ! i) = 0 \<and>
     find_device device s = Some k \<and> df_active (drvcbs (drvt s) ! k) \<and>
     desc (drvcbs (drvt s) ! k) = Some dd \<and> \<not> da_shareable dd \<and> \<not> df_alloc (drvcbs (drvt s) ! k) \<and>
     muxx_find_driver (drvname (drvcbs (drvt s) ! k)) s = Some k"

text \<open>The same device opened.\<close>

definition dev_open :: "string \<Rightarrow> drvdesc \<Rightarrow> nat \<Rightarrow> nat \<Rightarrow> nat \<Rightarrow> nat \<Rightarrow> 'd kstate \<Rightarrow> bool" where
  "dev_open device dd c fd i k s \<longleftrightarrow>
     curtcb s = Some c \<and> c < length (tucbs s) \<and> length (tu_iote (tucbs s ! c)) = IOT_TENTRIES \<and>
     fd < IOT_TENTRIES \<and> tu_iote (tucbs s ! c) ! fd = Some i \<and>
     (\<forall>j < fd. tu_iote (tucbs s ! c) ! j \<noteq> None) \<and> chan_ready s \<and>
     i < IOT_SENTRIES \<and> (\<forall>j < i. iote_used (iotes (chnt s)) j) \<and> io_open (iotes (chnt s) ! i) \<and>
     io_dealloc (iotes (chnt s) ! i) \<and> io_driver (iotes (chnt s) ! i) = Some k \<and>
     io_buffaddr (iotes (chnt s) ! i) = 0 \<and> find_device device s = Some k \<and>
     df_active (drvcbs (drvt s) ! k) \<and> desc (drvcbs (drvt s) ! k) = Some dd \<and> \<not> da_shareable dd \<and>
     df_alloc (drvcbs (drvt s) ! k) \<and> ownerid (drvcbs (drvt s) ! k) = Some c \<and>
     muxx_find_driver (drvname (drvcbs (drvt s) ! k)) s = Some k"

lemma find_device_owner:
  assumes "k < length (drvcbs (drvt s))"
    and "df_free (f (drvcbs (drvt s) ! k)) = df_free (drvcbs (drvt s) ! k)"
    and "desc (f (drvcbs (drvt s) ! k)) = desc (drvcbs (drvt s) ! k)"
    and "drvname (f (drvcbs (drvt s) ! k)) = drvname (drvcbs (drvt s) ! k)"
  shows "find_device device (upd_drvcb k f s) = find_device device s"
    and "muxx_find_driver n (upd_drvcb k f s) = muxx_find_driver n s"
proof -
  have "dev_matches ((drvcbs (drvt s))[k := f (drvcbs (drvt s) ! k)]) device j =
      dev_matches (drvcbs (drvt s)) device j" for j
    using assms by (cases "j = k") (simp_all add: dev_matches_def drv_used_def)
  then have "dev_matches ((drvcbs (drvt s))[k := f (drvcbs (drvt s) ! k)]) device =
      dev_matches (drvcbs (drvt s)) device" by (rule ext)
  then show "find_device device (upd_drvcb k f s) = find_device device s"
    by (simp add: find_device_def)
  have "drvname ((drvcbs (drvt s))[k := f (drvcbs (drvt s) ! k)] ! j) = drvname (drvcbs (drvt s) ! j)"
    "drv_used ((drvcbs (drvt s))[k := f (drvcbs (drvt s) ! k)]) j = drv_used (drvcbs (drvt s)) j" for j
    using assms by (cases "j = k"; simp add: drv_used_def)+
  then show "muxx_find_driver n (upd_drvcb k f s) = muxx_find_driver n s"
    by (simp add: find_driver_find)
qed

lemma find_device_fields [simp]:
  "find_device device (upd_fd c fd io s) = find_device device s"
  "find_device device (s\<lparr>dev := d\<rparr>) = find_device device s"
  "find_device device (s\<lparr>tucbs := v\<rparr>) = find_device device s"
  by (simp_all add: find_device_def)

lemma dev_opens:
  assumes idle: "dev_idle device dd c fd i k s"
  shows "\<exists>s'. lib_open device 0 s = Ret (int fd) s' \<and> dev_open device dd c fd i k s' \<and>
    dev s' = dev s \<and> tct s' = tct s"
proof -
  let ?e = "set_errno EOK s"
  let ?s1 = "upd_drvcb k (own (Some c)) (upd_iote i (opened k True) ?e)"
  have c: "curtcb s = Some c" "c < length (tucbs s)" "length (tu_iote (tucbs s ! c)) = 5"
    "find_fd (tu_iote (tucbs s ! c)) = Some fd" "chan_ready s" "find_iote_slot (iotes (chnt s)) = Some i"
    using idle by (auto simp: dev_idle_def)
  have i: "i < 16" "i < length (iotes (chnt s))"
    using chan_slots.search_some [OF c(6)] open_slot [OF c(5,6)] by simp_all
  have k: "k < MAX_DRV" "k < length (drvcbs (drvt s))" "find_device device s = Some k"
    using idle find_device_bound [of device s k] by (auto simp: dev_idle_def chan_ready_def)
  have op: "muxx_svc_open device 0 ?e = Ret (Some i) ?s1"
    using open_unshared [of ?e i device k _ dd 0] idle by (auto simp: dev_idle_def)
  have tu: "c < length (tucbs ?s1)" "tu_iote (tucbs ?s1 ! c) = tu_iote (tucbs s ! c)"
    using set_errno_tucbs [OF c(1,2)] by simp_all
  have "lib_open device 0 s = Ret (int fd) (upd_fd c fd (Some i) ?s1)"
    using c op set_errno_tucbs [OF c(1,2)] by (simp add: lib_open_def Let_def)
  moreover have "chan_ready ?s1" using c(5) k by (intro chan_ready_upd_drvcb) (simp_all add: own_def)
  moreover have "find_device device ?s1 = Some k"
    "muxx_find_driver (drvname (drvcbs (drvt s) ! k)) ?s1 = Some k"
    using idle k by (auto simp: find_device_owner own_def dev_idle_def)
  moreover have "iote_used ((iotes (chnt s))[i := x]) j = iote_used (iotes (chnt s)) j" if "j < i" for j x
    using that by (simp add: iote_used_def)
  moreover have "\<forall>j < i. iote_used (iotes (chnt s)) j" "fd < 5" "\<forall>j < fd. tu_iote (tucbs s ! c) ! j \<noteq> None"
    using chan_slots.search_some [OF c(6)] fds.search_some [OF c(4)] by auto
  ultimately show ?thesis
    using idle c k i tu
    by (intro exI [of _ "upd_fd c fd (Some i) ?s1"])
      (auto simp: dev_open_def dev_idle_def upd_fd_def own_def opened_def clear_status_def located_def)
qed

lemma dev_closes:
  assumes op: "dev_open device dd c fd i k s"
  shows "\<exists>s'. lib_close (int fd) s = Ret EOK s' \<and> dev_idle device dd c fd i k s' \<and>
    dev s' = dev s \<and> tct s' = tct s"
proof -
  let ?s1 = "upd_drvcb k disown (upd_iote i closed s)"
  let ?s2 = "upd_fd c fd None (set_errno EOK ?s1)"
  have c: "curtcb s = Some c" "c < length (tucbs s)" "fd < 5" "length (tu_iote (tucbs s ! c)) = 5"
    "tu_iote (tucbs s ! c) ! fd = Some i" "chan_ready s"
    using op by (auto simp: dev_open_def)
  have i: "i < 16" "i < length (iotes (chnt s))" "length (iotes (chnt s)) = 16"
    using op by (auto simp: dev_open_def chan_ready_def)
  have k: "k < MAX_DRV" "k < length (drvcbs (drvt s))" "find_device device s = Some k"
    using op find_device_bound [of device s k] by (auto simp: dev_open_def chan_ready_def)
  have "muxx_svc_close (Some i) s = Ret EOK (set_errno EOK ?s1)"
    using op k(1) by (intro close_dealloc [OF c(6) i(2) refl]) (auto simp: dev_open_def)
  then have "lib_close (int fd) s = Ret EOK ?s2" using c by (simp add: lib_close_def fd_at_def)
  moreover have "chan_ready ?s1" using c(6) k by (intro chan_ready_upd_drvcb) (simp_all add: disown_def)
  moreover have "find_device device ?s1 = Some k"
    "muxx_find_driver (drvname (drvcbs (drvt s) ! k)) ?s1 = Some k"
    using op k by (auto simp: find_device_owner disown_def dev_open_def)
  moreover have "find_iote_slot ((iotes (chnt s))[i := closed (iotes (chnt s) ! i)]) = Some i"
    using op i by (intro chan_slots.finds_first) (auto simp: iote_used_def closed_def dev_open_def)
  moreover have "find_fd ((tu_iote (tucbs s ! c))[fd := None]) = Some fd"
    using op c by (intro fds.finds_first) (auto simp: dev_open_def)
  moreover have "c < length (tucbs (set_errno EOK ?s1)) \<and>
      tu_iote (tucbs (set_errno EOK ?s1) ! c) = tu_iote (tucbs s ! c)"
    using set_errno_tucbs [of ?s1 c EOK] c by simp
  ultimately show ?thesis
    using op c k i
    by (intro exI [of _ ?s2])
      (auto simp: dev_open_def dev_idle_def upd_fd_def disown_def closed_def)
qed

section \<open>A program on paper tape\<close>

text \<open>
  The calling task \<open>c\<close> has the paper tape reader open as channel number \<open>fd\<close>, through entry \<open>i\<close> of
  the channel table and driver \<open>k\<close>; \<open>bs\<close> is what is left on the tape.
\<close>

definition tape_channel ::
  "nat \<Rightarrow> nat \<Rightarrow> nat \<Rightarrow> nat \<Rightarrow> u8 list \<Rightarrow> devices kstate \<Rightarrow> bool" where
  "tape_channel c fd i k bs s \<longleftrightarrow>
     curtcb s = Some c \<and> c < length (tucbs s) \<and> length (tu_iote (tucbs s ! c)) = IOT_TENTRIES \<and>
     fd < IOT_TENTRIES \<and> tu_iote (tucbs s ! c) ! fd = Some i \<and> chan_ready s \<and> i < length (iotes (chnt s)) \<and>
     io_open (iotes (chnt s) ! i) \<and> io_dealloc (iotes (chnt s) ! i) \<and>
     io_driver (iotes (chnt s) ! i) = Some k \<and> io_buffaddr (iotes (chnt s) ! i) = 0 \<and>
     k < MAX_DRV \<and> desc (drvcbs (drvt s) ! k) = Some ptpdesct \<and>
     df_alloc (drvcbs (drvt s) ! k) \<and> ownerid (drvcbs (drvt s) ! k) = Some c \<and>
     muxx_find_driver (drvname (drvcbs (drvt s) ! k)) s = Some k \<and>
     tape_in (dev s) = bs \<and> \<not> reader_error (dev s)"

lemma tape_channel_read:
  assumes ch: "tape_channel c fd i k (bs @ rest) s" and len: "len = of_nat (length bs)" "length bs < 2 ^ 15"
  shows "\<exists>s'. lib_read muxx_devices (int fd) len buf s =
      Ret (int (length bs), \<lambda>j. if j < length bs then bs ! j else buf j) s' \<and>
    tape_channel c fd i k rest s' \<and> tct s' = tct s"
proof -
  have dd: "\<not> da_buffered ptpdesct" "length (callbacks ptpdesct) = 10" "callbacks ptpdesct ! 4 = PTP_BASE + 4"
    by (simp_all add: ptpdesct_def driver_table_nth)
  have sl: "sint len = int (length bs)"
    using len by (simp add: sint_small)
  have "k < length (drvcbs (drvt s))" using ch drvs_length [of s] by (simp add: tape_channel_def)
  then obtain d' where rd: "muxx_svc_read muxx_devices (Some i) (int (length bs)) buf s =
      Ret (int (length bs), \<lambda>j. if j < length bs then bs ! j else buf j)
        (upd_iote i (\<lambda>io. io\<lparr>io_ioerror := False, io_eof := False\<rparr>) (set_errno EOK (s\<lparr>dev := d'\<rparr>)))"
    "reader_input d' = Some rest"
    using tape.svc_read_all [of i s _ k ptpdesct bs rest buf] ch dd
    by (auto simp: tape_channel_def reader_input_def)
  show ?thesis
    using ch rd sl set_errno_tucbs [of "s\<lparr>dev := d'\<rparr>" c EOK]
    by (auto simp: lib_read_def fd_at_def tape_channel_def reader_input_def split: if_splits)
qed


text \<open>Opening the reader from the library and closing it again.\<close>

lemma tape_channel_open:
  assumes c: "curtcb s = Some c" "c < length (tucbs s)" "length (tu_iote (tucbs s ! c)) = IOT_TENTRIES"
    and fd: "find_fd (tu_iote (tucbs s ! c)) = Some fd"
    and rdy: "chan_ready s" and i: "find_iote_slot (iotes (chnt s)) = Some i"
    and k: "find_device device s = Some k" and d: "drvcbs (drvt s) ! k = d"
    and act: "df_active d" "desc d = Some ptpdesct" "\<not> df_alloc d" "muxx_find_driver (drvname d) s = Some k"
    and nb: "io_buffaddr (iotes (chnt s) ! i) = 0" and tp: "tape_in (dev s) = bs" "\<not> reader_error (dev s)"
  shows "\<exists>s'. lib_open device 0 s = Ret (int fd) s' \<and> tape_channel c fd i k bs s' \<and> tct s' = tct s"
proof -
  have "dev_idle device ptpdesct c fd i k s"
    using assms by (simp add: dev_idle_def ptpdesct_def)
  from dev_opens [OF this] obtain s' where "lib_open device 0 s = Ret (int fd) s'"
    "dev_open device ptpdesct c fd i k s'" "dev s' = dev s" "tct s' = tct s" by blast
  then show ?thesis
    using tp find_device_bound [OF k] rdy
    by (intro exI [of _ s']) (auto simp: tape_channel_def dev_open_def chan_ready_def)
qed

lemma tape_channel_close:
  assumes ch: "tape_channel c fd i k bs s"
  shows "\<exists>s'. lib_close (int fd) s = Ret EOK s' \<and> tu_iote (tucbs s' ! c) = (tu_iote (tucbs s ! c))[fd := None] \<and>
    io_driver (iotes (chnt s') ! i) = None \<and> \<not> df_alloc (drvcbs (drvt s') ! k) \<and>
    tape_in (dev s') = bs \<and> chan_ready s'"
proof -
  let ?s1 = "upd_drvcb k disown (upd_iote i closed s)"
  have rdy: "chan_ready s" and i: "i < length (iotes (chnt s))" and k: "k < MAX_DRV" "k < length (drvcbs (drvt s))"
    using ch drvs_length [of s] by (auto simp: tape_channel_def)
  have c: "curtcb s = Some c" "c < length (tucbs s)" "fd < 5" "length (tu_iote (tucbs s ! c)) = 5"
    "tu_iote (tucbs s ! c) ! fd = Some i"
    using ch by (auto simp: tape_channel_def)
  have cl: "muxx_svc_close (Some i) s = Ret EOK (set_errno EOK ?s1)"
    using ch by (intro close_dealloc [OF rdy i refl]) (auto simp: tape_channel_def)
  have "chan_ready ?s1" using rdy k by (intro chan_ready_upd_drvcb) (simp_all add: disown_def)
  then have "chan_ready (upd_fd c fd None (set_errno EOK ?s1))" by simp
  moreover have "lib_close (int fd) s = Ret EOK (upd_fd c fd None (set_errno EOK ?s1))"
    using c cl by (simp add: lib_close_def fd_at_def)
  ultimately show ?thesis
    using ch i k c set_errno_tucbs [of ?s1 c EOK]
    by (intro exI [of _ "upd_fd c fd None (set_errno EOK ?s1)"])
      (auto simp: tape_channel_def closed_def disown_def upd_fd_def)
qed

subsection \<open>Header and segments\<close>

definition word_bytes :: "u16 \<Rightarrow> u8 list" where
  "word_bytes w = [ucast w, ucast (drop_bit 8 w)]"

definition header_bytes :: "exec \<Rightarrow> u8 list" where
  "header_bytes ex = concat (map word_bytes [a_magic ex, a_text ex, a_data ex, a_bss ex, a_syms ex,
     a_entry ex, a_unused ex, a_flag ex])"

lemma word_of_bytes: "word_cat (ucast (drop_bit 8 w) :: u8) (ucast w :: u8) = (w :: u16)"
  by (rule bit_word_eqI) (auto simp: bit_word_cat_iff bit_simps)

lemma header_length: "length (header_bytes ex) = 16"
  by (simp add: header_bytes_def word_bytes_def)

lemma exec_of_header: "exec_of (\<lambda>j. if j < 16 then header_bytes ex ! j else f j) = ex"
  by (simp add: exec_of_def word_at_def header_bytes_def word_bytes_def word_of_bytes)

text \<open>Where an address lies with respect to a segment that does not wrap around.\<close>

lemma in_segment:
  fixes t a :: u16
  assumes "unat t + n \<le> 2 ^ 16"
  shows "unat (a - t) < n \<longleftrightarrow> unat t \<le> unat a \<and> unat a < unat t + n"
    and "unat t \<le> unat a \<Longrightarrow> unat (a - t) = unat a - unat t"
proof -
  have d: "unat (a - t) = (if unat t \<le> unat a then unat a - unat t else unat a + 2 ^ 16 - unat t)"
    using unat_sub_if' [of a t] by simp
  show "unat (a - t) < n \<longleftrightarrow> unat t \<le> unat a \<and> unat a < unat t + n"
    using d assms by auto
  show "unat t \<le> unat a \<Longrightarrow> unat (a - t) = unat a - unat t" using d by simp
qed

text \<open>The memory after loading, by the offset from \<open>TASK_BASE\<close>.\<close>

definition image_memory :: "memory \<Rightarrow> u8 list \<Rightarrow> u8 list \<Rightarrow> nat \<Rightarrow> memory" where
  "image_memory m txt dat bss a =
     (let k = unat (a - TASK_BASE)
      in if k < length txt then txt ! k
         else if k < length txt + length dat then dat ! (k - length txt)
         else if k < length txt + length dat + bss then 0 else m a)"

lemma read_mem_tape:
  assumes "tape_channel c fd i k (bs @ rest) s" and "len = of_nat (length bs)" "length bs < 2 ^ 15"
  shows "\<exists>s'. read_mem muxx_devices (int fd) len dest m s =
      Ret (len, \<lambda>a. if unat (a - dest) < length bs then bs ! unat (a - dest) else m a) s' \<and>
    tape_channel c fd i k rest s' \<and> tct s' = tct s"
proof -
  obtain s' where rd: "lib_read muxx_devices (int fd) len (buffer_at m dest) s =
      Ret (int (length bs), \<lambda>j. if j < length bs then bs ! j else buffer_at m dest j) s'"
    and ch: "tape_channel c fd i k rest s'" "tct s' = tct s"
    using tape_channel_read [OF assms] by blast
  have "unat len = length bs" using assms(2,3) by (simp add: unat_of_nat)
  then have "store_buffer m dest len (\<lambda>j. if j < length bs then bs ! j else buffer_at m dest j) =
      (\<lambda>a. if unat (a - dest) < length bs then bs ! unat (a - dest) else m a)"
    by (intro ext) (simp add: store_buffer_def)
  then show ?thesis using rd ch assms(2) by (simp add: read_mem_def)
qed

text \<open>An image of \<open>n\<close> bytes from \<open>TASK_BASE\<close> on that ends before the TUCB or begins behind it.\<close>

definition tucb_spared :: "u16 \<Rightarrow> nat \<Rightarrow> bool" where
  "tucb_spared tucb n \<longleftrightarrow> unat (TASK_BASE :: u16) + n \<le> unat tucb \<or> unat tucb + 20 \<le> unat (TASK_BASE :: u16)"

lemma tucb_sparedD:
  assumes "tucb_spared tucb n" and "unat x + unat len \<le> n" and "n \<le> 0x6000"
  shows "spare_tucb tucb (TASK_BASE + x) len f = f"
proof -
  let ?d = "TASK_BASE + x"
  have d: "unat ?d = 0x6000 + unat x" using assms(2,3) by (simp add: unat_word_ariths)
  have "unat ?d + unat len \<le> 2 ^ 16" using d assms(2,3) by simp
  from in_segment(1) [OF this, of tucb]
  have "unat (tucb - ?d) < unat len \<longleftrightarrow> unat ?d \<le> unat tucb \<and> unat tucb < unat ?d + unat len" .
  moreover have "unat (?d - tucb) = (if unat tucb \<le> unat ?d then unat ?d - unat tucb else unat ?d + 2 ^ 16 - unat tucb)"
    using unat_sub_if' [of ?d tucb] by simp
  moreover have "unat tucb < 2 ^ 16" using unsigned_less [of tucb, where 'a = nat] by simp
  moreover have "len \<noteq> 0 \<longleftrightarrow> 0 < unat len" by (simp add: unat_gt_0)
  ultimately have "\<not> hits_tucb tucb ?d len"
    using assms d by (auto simp: tucb_spared_def hits_tucb_def split: if_splits)
  then show ?thesis by (intro ext) (simp add: spare_tucb_def)
qed

lemma load_image_tape:
  assumes ch: "tape_channel c fd i k (txt @ dat @ rest) s"
    and ex: "a_text ex = of_nat (length txt)" "a_data ex = of_nat (length dat)"
    and fits: "length txt + length dat + unat (a_bss ex) \<le> unat space" "space \<le> 0x6000"
    and spared: "tucb_spared tucb (length txt + length dat + unat (a_bss ex))"
  shows "\<exists>s'. load_image muxx_devices (int fd) ex space tucb m s =
      Ret (EOK, image_memory m txt dat (unat (a_bss ex))) s' \<and>
    tape_channel c fd i k rest s' \<and> tct s' = tct s"
proof -
  have sp: "unat space \<le> 0x6000" using fits(2) by (simp add: word_le_nat_alt)
  let ?m1 = "\<lambda>a. if unat (a - TASK_BASE) < length txt then txt ! unat (a - TASK_BASE) else m a"
  let ?d = "TASK_BASE + a_text ex"
  let ?m2 = "\<lambda>a. if unat (a - ?d) < length dat then dat ! unat (a - ?d) else ?m1 a"
  have u: "unat (a_text ex) = length txt" "unat (a_data ex) = length dat"
    using ex fits sp by (simp_all add: unat_of_nat)
  obtain s1 where r1: "read_mem muxx_devices (int fd) (a_text ex) TASK_BASE m s = Ret (a_text ex, ?m1) s1"
    and c1: "tape_channel c fd i k (dat @ rest) s1" "tct s1 = tct s"
    using read_mem_tape [OF ch ex(1), of TASK_BASE m] fits sp by auto
  obtain s2 where r2: "read_mem muxx_devices (int fd) (a_data ex) ?d ?m1 s1 = Ret (a_data ex, ?m2) s2"
    and c2: "tape_channel c fd i k rest s2" "tct s2 = tct s"
    using read_mem_tape [OF c1(1) ex(2), of ?d ?m1] c1 fits sp by auto
  have total: "unat (a_text ex + a_data ex) = length txt + length dat"
    "unat (a_text ex + a_data ex + a_bss ex) = length txt + length dat + unat (a_bss ex)"
    using u fits sp by (simp_all add: unat_word_ariths)
  then have "\<not> a_text ex + a_data ex + a_bss ex > space"
    using fits by (simp add: word_less_nat_alt)
  moreover have "store_buffer ?m2 (TASK_BASE + a_text ex + a_data ex) (a_bss ex) (\<lambda>_. 0) =
      image_memory m txt dat (unat (a_bss ex))"
  proof
    fix a
    let ?o = "a - TASK_BASE"
    have o: "a - ?d = ?o - a_text ex"
      "a - (TASK_BASE + a_text ex + a_data ex) = ?o - (a_text ex + a_data ex)"
      by (simp_all add: algebra_simps)
    have "unat ?o < length txt + length dat + unat (a_bss ex) \<longleftrightarrow>
        unat ?o < length txt + length dat \<or> unat (?o - (a_text ex + a_data ex)) < unat (a_bss ex)"
      using in_segment(1) [of "a_text ex + a_data ex" "unat (a_bss ex)" ?o] total fits sp by auto
    moreover have "unat (?o - (a_text ex + a_data ex)) < unat (a_bss ex) \<Longrightarrow> \<not> unat ?o < length txt + length dat"
      using in_segment(1) [of "a_text ex + a_data ex" "unat (a_bss ex)" ?o] total fits sp by auto
    moreover have "unat (?o - a_text ex) < length dat \<longleftrightarrow>
        \<not> unat ?o < length txt \<and> unat ?o < length txt + length dat"
      using in_segment(1) [of "a_text ex" "length dat" ?o] u fits sp by auto
    moreover have "\<not> unat ?o < length txt \<Longrightarrow> unat (?o - a_text ex) = unat ?o - length txt"
      using in_segment(2) [of "a_text ex" "length dat" ?o] u fits sp by auto
    ultimately show "store_buffer ?m2 (TASK_BASE + a_text ex + a_data ex) (a_bss ex) (\<lambda>_. 0) a =
        image_memory m txt dat (unat (a_bss ex)) a"
      unfolding store_buffer_def image_memory_def o Let_def by auto
  qed
  moreover note sparedD = tucb_sparedD [OF spared _ order_trans [OF fits(1) sp]]
  have "spare_tucb tucb TASK_BASE (a_text ex) f = f" for f :: "devices kstate \<Rightarrow> (u16 \<times> memory, devices kstate) outcome"
    using sparedD [of 0 "a_text ex" f] u by simp
  moreover have "spare_tucb tucb ?d (a_data ex) f = f" for f :: "devices kstate \<Rightarrow> (u16 \<times> memory, devices kstate) outcome"
    using sparedD [of "a_text ex" "a_data ex" f] u by simp
  moreover have "spare_tucb tucb (?d + a_data ex) (a_bss ex) f = f" for f :: "devices kstate \<Rightarrow> (int \<times> memory, devices kstate) outcome"
    using sparedD [of "a_text ex + a_data ex" "a_bss ex" f] total by (simp add: add.assoc)
  ultimately show ?thesis using r1 r2 c2 by (simp add: load_image_def Let_def)
qed

lemma task_space_small: "task_space type \<le> 0x6000"
  by (simp add: task_space_def)

lemma task_space_word: "unat (task_space type) \<le> 0x6000"
  using task_space_small [of type] by (simp add: word_le_nat_alt)

lemma gettpi_own:
  assumes "curtcb s = Some c" and "c < length (tct s)"
  shows "muxx_svc_gettpi 0 s = Ret (EOK, Some (tct s ! c)) s"
  using assms by (simp add: muxx_svc_gettpi_def)

lemma load_program_tape:
  assumes ch: "tape_channel c fd i k (header_bytes ex @ txt @ dat @ rest) s"
    and magic: "a_magic ex = A_MAGIC1 \<or> a_magic ex = A_MAGIC2"
    and ex: "a_text ex = of_nat (length txt)" "a_data ex = of_nat (length dat)"
    and fits: "length txt + length dat + unat (a_bss ex) \<le> unat (task_space (taskType (tct s ! c)))"
    and spared: "tucb_spared (taskTUCB (tct s ! c)) (length txt + length dat + unat (a_bss ex))"
  shows "\<exists>s'. load_program muxx_devices (int fd) entry m s =
      Ret (EOK, a_text ex + a_data ex + a_bss ex, a_entry ex, image_memory m txt dat (unat (a_bss ex))) s' \<and>
    tape_channel c fd i k rest s'"
proof -
  obtain s1 where rd: "lib_read muxx_devices (int fd) EXEC_SIZE (\<lambda>_. 0) s =
      Ret (16, \<lambda>j. if j < 16 then header_bytes ex ! j else 0) s1"
    and ch1: "tape_channel c fd i k (txt @ dat @ rest) s1" and t1: "tct s1 = tct s"
    using tape_channel_read [OF ch, of EXEC_SIZE "\<lambda>_. 0"] by (auto simp: header_length)
  have c: "curtcb s1 = Some c" "c < length (tct s1)"
    using ch1 by (auto simp: tape_channel_def chan_ready_def mutex_ready_def)
  obtain s2 where li: "load_image muxx_devices (int fd) ex (task_space (taskType (tct s1 ! c))) (taskTUCB (tct s1 ! c)) m s1 =
      Ret (EOK, image_memory m txt dat (unat (a_bss ex))) s2" "tape_channel c fd i k rest s2"
    using load_image_tape [OF ch1 ex _ task_space_small] fits spared t1 by metis
  show ?thesis
    using rd li magic gettpi_own [OF c] by (auto simp: load_program_def exec_of_header Let_def)
qed

lemma load_tape:
  assumes c: "curtcb s = Some c" "c < length (tucbs s)" "length (tu_iote (tucbs s ! c)) = IOT_TENTRIES"
    and fd: "find_fd (tu_iote (tucbs s ! c)) = Some fd"
    and rdy: "chan_ready s" and i: "find_iote_slot (iotes (chnt s)) = Some i"
    and k: "find_device device s = Some k" and d: "drvcbs (drvt s) ! k = d"
    and act: "df_active d" "desc d = Some ptpdesct" "\<not> df_alloc d" "muxx_find_driver (drvname d) s = Some k"
    and nb: "io_buffaddr (iotes (chnt s) ! i) = 0"
    and tp: "tape_in (dev s) = header_bytes ex @ txt @ dat @ rest" "\<not> reader_error (dev s)"
    and magic: "a_magic ex = A_MAGIC1 \<or> a_magic ex = A_MAGIC2"
    and ex: "a_text ex = of_nat (length txt)" "a_data ex = of_nat (length dat)"
    and fits: "length txt + length dat + unat (a_bss ex) \<le> unat (task_space (taskType (tct s ! c)))"
    and spared: "tucb_spared (taskTUCB (tct s ! c)) (length txt + length dat + unat (a_bss ex))"
  shows "\<exists>s'. load muxx_devices device entry m s =
      Ret (int (length txt + length dat + unat (a_bss ex)), a_entry ex,
        image_memory m txt dat (unat (a_bss ex))) s' \<and>
    tape_in (dev s') = rest \<and> \<not> df_alloc (drvcbs (drvt s') ! k) \<and>
    io_driver (iotes (chnt s') ! i) = None \<and> tu_iote (tucbs s' ! c) ! fd = None \<and> chan_ready s'"
proof -
  obtain s1 where o: "lib_open device 0 s = Ret (int fd) s1"
    and c1: "tape_channel c fd i k (header_bytes ex @ txt @ dat @ rest) s1" "tct s1 = tct s"
    using tape_channel_open [OF c fd rdy i k d act nb tp] by blast
  obtain s2 where p: "load_program muxx_devices (int fd) entry m s1 =
      Ret (EOK, a_text ex + a_data ex + a_bss ex, a_entry ex, image_memory m txt dat (unat (a_bss ex))) s2"
    and c2: "tape_channel c fd i k rest s2"
    using load_program_tape [OF c1(1) magic ex] fits spared c1(2) by auto
  obtain s3 where cl: "lib_close (int fd) s2 = Ret EOK s3"
    and c3: "tu_iote (tucbs s3 ! c) = (tu_iote (tucbs s2 ! c))[fd := None]"
      "io_driver (iotes (chnt s3) ! i) = None" "\<not> df_alloc (drvcbs (drvt s3) ! k)"
      "tape_in (dev s3) = rest" "chan_ready s3"
    using tape_channel_close [OF c2] by blast
  have "fd < length (tu_iote (tucbs s2 ! c))" using c2 by (simp add: tape_channel_def)
  then have "tu_iote (tucbs s3 ! c) ! fd = None" using c3(1) by simp
  moreover have "a_text ex + a_data ex + a_bss ex = of_nat (length txt + length dat + unat (a_bss ex))"
    using ex by simp
  then have "sint (a_text ex + a_data ex + a_bss ex) = int (length txt + length dat + unat (a_bss ex))"
    using fits task_space_word [of "taskType (tct s ! c)"]
      sint_small [of "length txt + length dat + unat (a_bss ex)"] by simp
  ultimately show ?thesis using o p cl c3 by (simp add: load_def)
qed

text \<open>A tape that does not start with an executable: the shell is told that all is well.\<close>

lemma load_bad_magic:
  assumes c: "curtcb s = Some c" "c < length (tucbs s)" "length (tu_iote (tucbs s ! c)) = IOT_TENTRIES"
    and fd: "find_fd (tu_iote (tucbs s ! c)) = Some fd"
    and rdy: "chan_ready s" and i: "find_iote_slot (iotes (chnt s)) = Some i"
    and k: "find_device device s = Some k" and d: "drvcbs (drvt s) ! k = d"
    and act: "df_active d" "desc d = Some ptpdesct" "\<not> df_alloc d" "muxx_find_driver (drvname d) s = Some k"
    and nb: "io_buffaddr (iotes (chnt s) ! i) = 0"
    and tp: "tape_in (dev s) = header_bytes ex @ rest" "\<not> reader_error (dev s)"
    and magic: "a_magic ex \<noteq> A_MAGIC1" "a_magic ex \<noteq> A_MAGIC2"
  shows "\<exists>s'. load muxx_devices device entry m s = Ret (0, entry, m) s'"
proof -
  obtain s1 where o: "lib_open device 0 s = Ret (int fd) s1"
    and c1: "tape_channel c fd i k (header_bytes ex @ rest) s1"
    using tape_channel_open [OF c fd rdy i k d act nb tp] by blast
  obtain s2 where rd: "lib_read muxx_devices (int fd) EXEC_SIZE (\<lambda>_. 0) s1 =
      Ret (16, \<lambda>j. if j < 16 then header_bytes ex ! j else 0) s2"
    and c2: "tape_channel c fd i k rest s2"
    using tape_channel_read [OF c1, of EXEC_SIZE "\<lambda>_. 0"] by (auto simp: header_length)
  have p: "load_program muxx_devices (int fd) entry m s1 = Ret (EINVLOAD, 0, entry, m) s2"
    using rd magic by (simp add: load_program_def exec_of_header Let_def)
  obtain s3 where "lib_close (int fd) s2 = Ret EOK s3" using tape_channel_close [OF c2] by blast
  then show ?thesis using o p by (simp add: load_def)
qed

end
