(* ===== verification/Muxx_Memory.thy ===== *)
theory Muxx_Memory
  imports Muxx_MMU
begin

text \<open>
  The physical memory manager of \<open>kernel/muxx_memsvc.c\<close>. Memory is counted in blocks of 64 bytes;
  each memory management control block (MMCB) describes one chunk, and the chunks are chained by
  \<open>nextBlock\<close>. \<open>muxx_mem_init\<close> builds six chunks, \<open>muxx_mem_getblock\<close> cuts a chunk off the first
  free one that is large enough, and \<open>muxx_setup_taskmem\<close> builds the address space of a new task.
\<close>

section \<open>The operations\<close>

definition upd_mcb :: "nat \<Rightarrow> (mmcb \<Rightarrow> mmcb) \<Rightarrow> mmcb list \<Rightarrow> mmcb list" where
  "upd_mcb i f cs = cs[i := f (cs ! i)]"

text \<open>
  The scan of the chain, entered with a chunk that exists (the loop is a \<open>do ... while\<close>): the
  first chunk that no task owns and that is large enough, \<open>None\<close> at the end of the chain. The
  outer \<open>None\<close> is a scan that never ends.
\<close>

partial_function (option) mem_scan :: "mmcb list \<Rightarrow> u16 \<Rightarrow> nat \<Rightarrow> (fault + ptr) option" where
  "mem_scan cs n cur =
     (if ownerPID (cs ! cur) = 0 \<and> n \<le> blockSize (cs ! cur) then Some (Inr (Some cur))
      else case nextBlock (cs ! cur) of
        None \<Rightarrow> Some (Inr None)
      | Some nx \<Rightarrow> if nx < length cs then mem_scan cs n nx else Some (Inl WildPointer))"

definition findFreeMMCB :: "mmcbt \<Rightarrow> nat" where
  "findFreeMMCB t =
     for_until 0 (unat (numEntries t)) (\<lambda>found. found \<noteq> 0)
       (\<lambda>i found. if ownerPID (mmcbs t ! i) = - 1 then i else found) 0"

definition split_block ::
  "nat \<Rightarrow> nat \<Rightarrow> u16 \<Rightarrow> u16 \<Rightarrow> u16 \<Rightarrow> u16 \<Rightarrow> mmcb list \<Rightarrow> mmcb list" where
  "split_block cur new n owner page flags cs =
     (let cs = upd_mcb cur (\<lambda>c. c\<lparr>blockSize := blockSize c - n\<rparr>) cs;
          cs = upd_mcb new (\<lambda>c. c\<lparr>blockSize := n\<rparr>) cs;
          cs = upd_mcb new (\<lambda>c. c\<lparr>blockAddr := blockAddr (cs ! cur)\<rparr>) cs;
          cs = upd_mcb cur (\<lambda>c. c\<lparr>blockAddr := blockAddr c + n\<rparr>) cs;
          cs = upd_mcb new (\<lambda>c. c\<lparr>ownerPID := owner, ownerPAR := page, prevBlock := Some cur\<rparr>) cs;
          cs = (case nextBlock (cs ! cur) of
                  None \<Rightarrow> cs
                | Some nx \<Rightarrow> upd_mcb nx (\<lambda>c. c\<lparr>prevBlock := Some new\<rparr>) cs);
          cs = upd_mcb cur (\<lambda>c. c\<lparr>nextBlock := Some new\<rparr>) cs;
          cs = upd_mcb new (\<lambda>c. c\<lparr>nextBlock := nextBlock (cs ! cur)\<rparr>) cs
      in upd_mcb new (\<lambda>c. c\<lparr>mmcbFlags := flags\<rparr>) cs)"

definition muxx_mem_getblock ::
  "tcb \<Rightarrow> u16 \<Rightarrow> u16 \<Rightarrow> u16 \<Rightarrow> mmcbt \<Rightarrow> (ptr, mmcbt) outcome" where
  "muxx_mem_getblock owner numBlocks flags page t =
     (if numBlocks > 128 then Ret None t
      else case mem_scan (mmcbs t) numBlocks 0 of
        None \<Rightarrow> Stop Diverges t
      | Some (Inl f) \<Rightarrow> Stop (Fault f) t
      | Some (Inr None) \<Rightarrow> Ret None t
      | Some (Inr (Some cur)) \<Rightarrow>
          let numMMCB = findFreeMMCB t
          in if numMMCB = 0 then Stop (Panic ''PANIC2'') t
             else Ret (Some numMMCB)
               (t\<lparr>mmcbs := split_block cur numMMCB numBlocks (pid owner) page flags (mmcbs t)\<rparr>))"

definition mem_chunk :: "u16 \<Rightarrow> u16 \<Rightarrow> u16 \<Rightarrow> u16 \<Rightarrow> ptr \<Rightarrow> ptr \<Rightarrow> u16 \<Rightarrow> mmcb" where
  "mem_chunk addr sz owner par prev nxt fl = zero_mmcb\<lparr>blockAddr := addr, blockSize := sz,
     ownerPID := owner, ownerPAR := par, prevBlock := prev, nextBlock := nxt, mmcbFlags := fl\<rparr>"

text \<open>
  The flag words are the flags the code sets one by one: shared, fixed, privileged is \<open>0x07\<close>, stack
  is \<open>0x10\<close>, shared, fixed, iopage is \<open>0x0B\<close>.
\<close>

definition muxx_mem_init :: "mmcbt \<Rightarrow> mmcbt" where
  "muxx_mem_init t =
     (let cs = replicate MEM_NMCBS (zero_mmcb\<lparr>ownerPID := - 1\<rparr>);
          cs = cs[0 := mem_chunk 0 0x80 1 0 None (Some 1) 0x07];
          cs = cs[1 := mem_chunk 0x80 0x80 1 1 (Some 0) (Some 2) 0x07];
          cs = cs[2 := mem_chunk 0x100 0x80 1 2 (Some 1) (Some 3) 0x07];
          cs = cs[3 := mem_chunk 0x180 0x40 1 6 (Some 2) (Some 4) 0x10];
          cs = cs[4 := mem_chunk 0x1C0 0xE40 0 0 (Some 3) (Some 5) 0];
          cs = cs[5 := mem_chunk 0xF80 0x80 1 7 (Some 4) None 0x0B]
      in t\<lparr>mcbeye := ''MMCBT---'', numEntries := of_nat MEM_NMCBS, mmcbs := cs\<rparr>)"

subsection \<open>The address space of a new task\<close>

definition set_upage :: "nat \<Rightarrow> u16 \<Rightarrow> u16 \<Rightarrow> tcb \<Rightarrow> tcb" where
  "set_upage p ar dr t = t\<lparr>mmuState := (mmuState t)
     \<lparr>upar := (upar (mmuState t))[p := ar], updr := (updr (mmuState t))[p := dr]\<rparr>\<rparr>"

definition set_kpage :: "nat \<Rightarrow> u16 \<Rightarrow> u16 \<Rightarrow> tcb \<Rightarrow> tcb" where
  "set_kpage p ar dr t = t\<lparr>mmuState := (mmuState t)
     \<lparr>kpar := (kpar (mmuState t))[p := ar], kpdr := (kpdr (mmuState t))[p := dr]\<rparr>\<rparr>"

definition set_page :: "nat \<Rightarrow> u16 \<Rightarrow> u16 \<Rightarrow> tcb \<Rightarrow> tcb" where
  "set_page p ar dr t = set_kpage p ar dr (set_upage p ar dr t)"

text \<open>Freeing a block is not implemented: the function body is empty.\<close>

definition muxx_mem_freeblock :: "u16 \<Rightarrow> u16 \<Rightarrow> mmcbt \<Rightarrow> mmcbt" where
  "muxx_mem_freeblock firstBlock blocks t = t"

text \<open>Take a block for the task and enter it in the task's page registers, or \<open>ENOMEM\<close>.\<close>

definition with_block ::
  "u16 \<Rightarrow> u16 \<Rightarrow> u16 \<Rightarrow> (mmcb \<Rightarrow> tcb \<Rightarrow> tcb) \<Rightarrow> tcb \<times> mmcbt \<Rightarrow> (int, tcb \<times> mmcbt) outcome" where
  "with_block n flags page enter = (\<lambda>(task, t).
     case muxx_mem_getblock task n flags page t of
       Stop e t' \<Rightarrow> Stop e (task, t')
     | Ret None t' \<Rightarrow> Ret ENOMEM (task, t')
     | Ret (Some b) t' \<Rightarrow> Ret EOK (enter (mmcbs t' ! b) task, t'))"

text \<open>Go on only after \<open>EOK\<close>; any other code is returned to the caller at once.\<close>

definition if_ok :: "(int, 's) outcome \<Rightarrow> ('s \<Rightarrow> (int, 's) outcome) \<Rightarrow> (int, 's) outcome" where
  "if_ok m k = andthen m (\<lambda>rc s. if rc = EOK then k s else Ret rc s)"

definition check_tasktype :: "u16 \<Rightarrow> bool" where
  "check_tasktype ty =
     (let ttype = ty AND 0x07; tsize = ty AND 0x38; ssize = ty AND 0x1C0
      in ssize = TSZ_SMALLS \<and>
         (ttype = SYS_TASK \<or> ttype = USR_TASK \<or> ttype = DRV_TASK \<and> tsize \<noteq> TSZ_BIG))"

definition setup_common :: "tcb \<Rightarrow> tcb" where
  "setup_common task =
     (let wpdr = (if operprv task then PDR_ACC_RW OR PDR_SIZ_8K else PDR_ACC_RO OR PDR_SIZ_8K);
          krw = PDR_ACC_RW OR PDR_SIZ_8K
      in set_kpage 2 0x100 krw (set_upage 2 0x100 wpdr
           (set_kpage 1 0x80 krw (set_upage 1 0x80 wpdr
             (set_kpage 0 0 krw (set_upage 0 0 wpdr task))))))"

definition setup_private :: "nat \<Rightarrow> tcb \<times> mmcbt \<Rightarrow> (int, tcb \<times> mmcbt) outcome" where
  "setup_private p = with_block 0x80 0 (of_nat p)
     (\<lambda>b. set_page p (blockAddr b) (PDR_ACC_RW OR PDR_SIZ_8K))"

definition setup_stack :: "tcb \<times> mmcbt \<Rightarrow> (int, tcb \<times> mmcbt) outcome" where
  "setup_stack = with_block 0x40 MMCB_FLG_STK 6
     (\<lambda>b. set_page 6 (blockAddr b - 0x40) (PDR_ACC_RW OR PDR_SIZ_4K OR PDR_DIR_DN))"

definition setup_iospace :: "tcb \<Rightarrow> tcb" where
  "setup_iospace task =
     (let task = set_kpage 7 0xF80 (PDR_ACC_RW OR PDR_SIZ_8K) task
      in if ioprv task \<or> operprv task then set_upage 7 0xF80 (PDR_ACC_RW OR PDR_SIZ_8K) task
         else if auditprv task then set_upage 7 0xF80 (PDR_ACC_RO OR PDR_SIZ_8K) task
         else set_upage 7 0 (PDR_ACC_NA OR PDR_SIZ_0K) task)"

definition setup_drvbuf :: "tcb \<times> mmcbt \<Rightarrow> (int, tcb \<times> mmcbt) outcome" where
  "setup_drvbuf = with_block (DRV_BUFSIZ div 64) MMCB_FLG_BUF 5
     (\<lambda>b. set_page 4 (blockAddr b) (PDR_ACC_RW OR PDR_SIZ_1K))"

text \<open>\<open>sizeof(struct TUCB_S)\<close> is 20 bytes, rounded up to a multiple of 64.\<close>

definition tucbsize :: u16 where
  "tucbsize = ((20 - 1) div 64 + 1) * 64"

definition muxx_setup_taskmem :: "tcb \<times> mmcbt \<Rightarrow> (int, tcb \<times> mmcbt) outcome" where
  "muxx_setup_taskmem = (\<lambda>(task, t).
     let ttype = taskType task AND 0x07;
         tsize = taskType task AND 0x38;
         endalloc = (if tsize = TSZ_BIG then 8192 * 6 else if tsize = TSZ_MED then 8192 * 5
                     else 8192 * 4)
     in if \<not> check_tasktype (taskType task) then Ret EINVVAL (task, t)
        else if_ok (setup_private 3 (setup_common task, t)) (\<lambda>st.
             if_ok (if tsize = TSZ_MED \<or> tsize = TSZ_BIG then setup_private 4 st else Ret EOK st) (\<lambda>st.
             if_ok (if tsize = TSZ_BIG then setup_private 5 st else Ret EOK st) (\<lambda>st.
             if_ok (setup_stack (apfst (\<lambda>task. task\<lparr>taskTUCB := endalloc - tucbsize\<rparr>) st)) (\<lambda>st.
             let st = apfst setup_iospace st
             in if ttype = DRV_TASK then setup_drvbuf st else Ret EOK st)))))"

section \<open>The invariant of the chunk table\<close>

text \<open>
  After initialisation, chunks 0 to 3 are the start-up memory, chunk 4 is all the free memory and
  chunk 5 the I/O page. Allocation always cuts from the bottom of chunk 4, so the memory below
  chunk 4 is exactly the memory in use.
\<close>

definition used_mcbs :: "mmcb list \<Rightarrow> nat set" where
  "used_mcbs cs = {i. i < MEM_NMCBS \<and> i \<noteq> 4 \<and> i \<noteq> 5 \<and> ownerPID (cs ! i) \<noteq> - 1}"

definition block_end :: "mmcb \<Rightarrow> nat" where
  "block_end c = unat (blockAddr c) + unat (blockSize c)"

definition disjoint_blocks :: "mmcb \<Rightarrow> mmcb \<Rightarrow> bool" where
  "disjoint_blocks a b \<longleftrightarrow>
     block_end a \<le> unat (blockAddr b) \<or> block_end b \<le> unat (blockAddr a)"

definition free_base :: "mmcbt \<Rightarrow> nat" where
  "free_base t = unat (blockAddr (mmcbs t ! 4))"

definition free_room :: "mmcbt \<Rightarrow> nat" where
  "free_room t = unat (blockSize (mmcbs t ! 4))"

definition free_mcbs :: "mmcbt \<Rightarrow> nat" where
  "free_mcbs t = card {i. i < MEM_NMCBS \<and> ownerPID (mmcbs t ! i) = - 1}"

text \<open>The chain: 0 to 4 in order, then chunk 5 or, after an allocation, the newest chunk.\<close>

definition mem_chain :: "mmcb list \<Rightarrow> bool" where
  "mem_chain cs \<longleftrightarrow>
     (\<forall>i < 4. ownerPID (cs ! i) = 1 \<and> nextBlock (cs ! i) = Some (Suc i)) \<and>
     ownerPID (cs ! 4) = 0 \<and> ownerPID (cs ! 5) = 1 \<and> nextBlock (cs ! 5) = None \<and>
     (nextBlock (cs ! 4) = Some 5 \<or>
      (\<exists>k. 5 < k \<and> k < MEM_NMCBS \<and> nextBlock (cs ! 4) = Some k \<and>
           ownerPID (cs ! k) \<noteq> 0 \<and> ownerPID (cs ! k) \<noteq> - 1 \<and> nextBlock (cs ! k) = Some k))"

definition mem_inv :: "mmcbt \<Rightarrow> bool" where
  "mem_inv t \<longleftrightarrow>
     length (mmcbs t) = MEM_NMCBS \<and> numEntries t = of_nat MEM_NMCBS \<and> mem_chain (mmcbs t) \<and>
     free_base t + free_room t = 4096 \<and>
     (\<forall>i \<in> used_mcbs (mmcbs t). ownerPID (mmcbs t ! i) \<noteq> 0 \<and> block_end (mmcbs t ! i) \<le> free_base t) \<and>
     (\<forall>i \<in> used_mcbs (mmcbs t). \<forall>j \<in> used_mcbs (mmcbs t). i \<noteq> j \<longrightarrow>
        disjoint_blocks (mmcbs t ! i) (mmcbs t ! j))"

lemma mem_init_nth:
  "i < 128 \<Longrightarrow> mmcbs (muxx_mem_init t) ! i =
     (if i = 0 then mem_chunk 0 0x80 1 0 None (Some 1) 0x07
      else if i = 1 then mem_chunk 0x80 0x80 1 1 (Some 0) (Some 2) 0x07
      else if i = 2 then mem_chunk 0x100 0x80 1 2 (Some 1) (Some 3) 0x07
      else if i = 3 then mem_chunk 0x180 0x40 1 6 (Some 2) (Some 4) 0x10
      else if i = 4 then mem_chunk 0x1C0 0xE40 0 0 (Some 3) (Some 5) 0
      else if i = 5 then mem_chunk 0xF80 0x80 1 7 (Some 4) None 0x0B
      else zero_mmcb\<lparr>ownerPID := - 1\<rparr>)"
  by (auto simp: muxx_mem_init_def Let_def nth_list_update)

lemma mem_init_length [simp]: "length (mmcbs (muxx_mem_init t)) = 128"
  by (simp add: muxx_mem_init_def Let_def)

lemma used_mcbs_init: "used_mcbs (mmcbs (muxx_mem_init t)) = {0, 1, 2, 3}"
  by (auto simp: used_mcbs_def mem_init_nth mem_chunk_def split: if_splits)

lemma less_4_cases: "i < (4::nat) \<longleftrightarrow> i = 0 \<or> i = 1 \<or> i = 2 \<or> i = 3"
  by auto

lemma mem_init_inv: "mem_inv (muxx_mem_init t)"
proof -
  let ?t = "muxx_mem_init t"
  have "mem_chain (mmcbs ?t)"
    by (auto simp: mem_chain_def less_4_cases mem_init_nth mem_chunk_def)
  moreover have "numEntries ?t = of_nat 128" by (simp add: muxx_mem_init_def Let_def)
  ultimately show ?thesis
    by (auto simp: mem_inv_def used_mcbs_init mem_init_nth mem_chunk_def free_base_def free_room_def
        block_end_def disjoint_blocks_def)
qed

lemma mem_init_free:
  "free_base (muxx_mem_init t) = 448" "free_room (muxx_mem_init t) = 3648"
  "free_mcbs (muxx_mem_init t) = 122"
proof -
  have "{i. i < MEM_NMCBS \<and> ownerPID (mmcbs (muxx_mem_init t) ! i) = - 1} = {6..<128}"
    by (auto simp: mem_init_nth mem_chunk_def split: if_splits)
  then show "free_mcbs (muxx_mem_init t) = 122" by (simp add: free_mcbs_def)
qed (simp_all add: free_base_def free_room_def mem_init_nth mem_chunk_def)

section \<open>Scanning the chain\<close>

lemma mem_scan_hit:
  "ownerPID (cs ! cur) = 0 \<Longrightarrow> n \<le> blockSize (cs ! cur) \<Longrightarrow>
   mem_scan cs n cur = Some (Inr (Some cur))"
  by (subst mem_scan.simps) simp

lemma mem_scan_next:
  "\<not> (ownerPID (cs ! cur) = 0 \<and> n \<le> blockSize (cs ! cur)) \<Longrightarrow> nextBlock (cs ! cur) = Some nx \<Longrightarrow>
   nx < length cs \<Longrightarrow> mem_scan cs n cur = mem_scan cs n nx"
  by (subst mem_scan.simps) auto

lemma mem_scan_end:
  "\<not> (ownerPID (cs ! cur) = 0 \<and> n \<le> blockSize (cs ! cur)) \<Longrightarrow> nextBlock (cs ! cur) = None \<Longrightarrow>
   mem_scan cs n cur = Some (Inr None)"
  by (subst mem_scan.simps) auto

text \<open>A chunk in use that is its own successor is never left.\<close>

lemma mem_scan_self_loop:
  assumes "ownerPID (cs ! k) \<noteq> 0" and "nextBlock (cs ! k) = Some k" and "k < length cs"
  shows "mem_scan cs n k = None"
proof (rule ccontr)
  assume "mem_scan cs n k \<noteq> None"
  then obtain r where r: "mem_scan cs n k = Some r" by auto
  have "cs' = cs \<longrightarrow> c = k \<longrightarrow> False" if "mem_scan cs' n' c = Some r'" for cs' n' c r'
  proof (rule mem_scan.raw_induct [where P = "\<lambda>cs' n' c r'. cs' = cs \<longrightarrow> c = k \<longrightarrow> False", OF _ that])
    fix f cs' n' c r'
    assume IH: "\<And>cs' n' c r'. f cs' n' c = Some r' \<Longrightarrow> cs' = cs \<longrightarrow> c = k \<longrightarrow> False"
      and eq: "(if ownerPID (cs' ! c) = 0 \<and> n' \<le> blockSize (cs' ! c) then Some (Inr (Some c))
        else case nextBlock (cs' ! c) of None \<Rightarrow> Some (Inr None)
        | Some nx \<Rightarrow> if nx < length cs' then f cs' n' nx else Some (Inl WildPointer)) = Some r'"
    show "cs' = cs \<longrightarrow> c = k \<longrightarrow> False"
    proof (intro impI)
      assume "cs' = cs" "c = k"
      with eq assms have "f cs n' k = Some r'" by simp
      with IH show False by blast
    qed
  qed
  with r show False by blast
qed

lemma mem_scan_to_4:
  assumes "mem_chain cs" and "length cs = 128"
  shows "mem_scan cs n 0 = mem_scan cs n 4"
proof -
  have step: "mem_scan cs n i = mem_scan cs n (Suc i)" if "i < 4" for i
    using assms that by (intro mem_scan_next) (auto simp: mem_chain_def)
  from step [of 0] step [of 1] step [of 2] step [of 3] show ?thesis
    by (simp add: eval_nat_numeral)
qed

lemma mem_scan_room:
  assumes "mem_inv t" and "unat n \<le> free_room t"
  shows "mem_scan (mmcbs t) n 0 = Some (Inr (Some 4))"
  using assms mem_scan_to_4 [of "mmcbs t" n] mem_scan_hit [of "mmcbs t" 4 n]
  by (simp add: mem_inv_def mem_chain_def free_room_def word_le_nat_alt)

section \<open>Allocation\<close>

lemma findFreeMMCB_find:
  assumes "mem_inv t"
  shows "findFreeMMCB t =
    (case find (\<lambda>i. ownerPID (mmcbs t ! i) = - 1) [1..<128] of None \<Rightarrow> 0 | Some j \<Rightarrow> j)"
  using assms for_until_find_from_0 [of 128 "\<lambda>i. ownerPID (mmcbs t ! i) = - 1"]
  by (simp add: findFreeMMCB_def mem_inv_def)

lemma mem_chain_owner: "mem_chain cs \<Longrightarrow> i < 6 \<Longrightarrow> ownerPID (cs ! i) \<noteq> - 1"
proof -
  assume chain: "mem_chain cs" and "i < 6"
  then have "i < 4 \<or> i = 4 \<or> i = 5" by arith
  with chain show ?thesis by (elim disjE) (simp_all add: mem_chain_def)
qed

lemma findFreeMMCB_spec:
  assumes "mem_inv t" and "0 < free_mcbs t"
  shows "5 < findFreeMMCB t" and "findFreeMMCB t < 128"
    and "ownerPID (mmcbs t ! findFreeMMCB t) = - 1"
proof -
  from assms(1) have chain: "mem_chain (mmcbs t)" by (simp add: mem_inv_def)
  from assms(2) obtain i where i: "i < 128" "ownerPID (mmcbs t ! i) = - 1"
    by (auto simp: free_mcbs_def card_gt_0_iff)
  with mem_chain_owner [OF chain, of 0] have "i \<noteq> 0" by (intro notI) simp
  with i have "find (\<lambda>i. ownerPID (mmcbs t ! i) = - 1) [1..<128] \<noteq> None"
    by (auto simp: find_None_iff)
  then obtain j where j: "find (\<lambda>i. ownerPID (mmcbs t ! i) = - 1) [1..<128] = Some j" by auto
  from find_upt_Some [OF this] have J: "1 \<le> j" "j < 128" "ownerPID (mmcbs t ! j) = - 1" by auto
  with mem_chain_owner [OF chain, of j] have "5 < j" by (cases "j < 6") auto
  with J j findFreeMMCB_find [OF assms(1)]
  show "5 < findFreeMMCB t" "findFreeMMCB t < 128" "ownerPID (mmcbs t ! findFreeMMCB t) = - 1"
    by auto
qed

lemma findFreeMMCB_none: "mem_inv t \<Longrightarrow> free_mcbs t = 0 \<Longrightarrow> findFreeMMCB t = 0"
  using findFreeMMCB_find [of t]
  by (auto simp: free_mcbs_def find_None_iff split: option.splits dest!: find_upt_Some)

lemma length_split_block [simp]: "length (split_block cur new n w p fl cs) = length cs"
  by (auto simp: split_block_def upd_mcb_def Let_def split: option.splits)

lemma nth_split_block:
  assumes "length cs = 128" and "5 < new" and "new < 128" and "i < 128"
    and "nextBlock (cs ! 4) = Some nx" and "nx < 128" and "nx \<noteq> 4" and "nx \<noteq> new"
  shows "split_block 4 new n w p fl cs ! i =
    (if i = 4 then (cs ! 4)\<lparr>blockSize := blockSize (cs ! 4) - n,
                            blockAddr := blockAddr (cs ! 4) + n, nextBlock := Some new\<rparr>
     else if i = new then (cs ! new)\<lparr>blockSize := n, blockAddr := blockAddr (cs ! 4), ownerPID := w,
                            ownerPAR := p, prevBlock := Some 4, nextBlock := Some new, mmcbFlags := fl\<rparr>
     else if i = nx then (cs ! nx)\<lparr>prevBlock := Some new\<rparr>
     else cs ! i)"
  using assms by (simp add: split_block_def upd_mcb_def Let_def nth_list_update)

lemma mem_chain_next4:
  assumes "mem_chain cs"
  obtains nx where "nextBlock (cs ! 4) = Some nx" "nx < 128" "nx \<noteq> 4" "4 < nx"
    "ownerPID (cs ! nx) \<noteq> - 1"
  using assms by (auto simp: mem_chain_def)

text \<open>The bump allocator the code amounts to, with everything a caller may rely on.\<close>

definition alloc_result ::
  "tcb \<Rightarrow> u16 \<Rightarrow> u16 \<Rightarrow> u16 \<Rightarrow> mmcbt \<Rightarrow> nat \<Rightarrow> mmcbt \<Rightarrow> bool" where
  "alloc_result w n fl p t b t' \<longleftrightarrow>
     5 < b \<and> b < MEM_NMCBS \<and> b \<notin> used_mcbs (mmcbs t) \<and>
     used_mcbs (mmcbs t') = insert b (used_mcbs (mmcbs t)) \<and>
     blockAddr (mmcbs t' ! b) = of_nat (free_base t) \<and> blockSize (mmcbs t' ! b) = n \<and>
     ownerPID (mmcbs t' ! b) = pid w \<and> ownerPAR (mmcbs t' ! b) = p \<and>
     mmcbFlags (mmcbs t' ! b) = fl \<and>
     (\<forall>i \<in> used_mcbs (mmcbs t). blockAddr (mmcbs t' ! i) = blockAddr (mmcbs t ! i) \<and>
        blockSize (mmcbs t' ! i) = blockSize (mmcbs t ! i) \<and>
        ownerPID (mmcbs t' ! i) = ownerPID (mmcbs t ! i))"

definition good_owner :: "tcb \<Rightarrow> bool" where
  "good_owner w \<longleftrightarrow> pid w \<noteq> 0 \<and> pid w \<noteq> - 1"

text \<open>A cut of \<open>n\<close> blocks off the free chunk, described by the entry \<open>new\<close>.\<close>

definition cut :: "mmcbt \<Rightarrow> tcb \<Rightarrow> u16 \<Rightarrow> u16 \<Rightarrow> u16 \<Rightarrow> nat \<Rightarrow> mmcbt \<Rightarrow> bool" where
  "cut t w n fl p new t' \<longleftrightarrow>
     mem_inv t \<and> good_owner w \<and> unat n \<le> free_room t \<and>
     5 < new \<and> new < MEM_NMCBS \<and> ownerPID (mmcbs t ! new) = - 1 \<and>
     t' = t\<lparr>mmcbs := split_block 4 new n (pid w) p fl (mmcbs t)\<rparr>"

lemma cut_nth:
  assumes "cut t w n fl p new t'"
  shows "mmcbs t' ! 4 = (mmcbs t ! 4)\<lparr>blockSize := blockSize (mmcbs t ! 4) - n,
      blockAddr := blockAddr (mmcbs t ! 4) + n, nextBlock := Some new\<rparr>"
    and "mmcbs t' ! new = (mmcbs t ! new)\<lparr>blockSize := n, blockAddr := blockAddr (mmcbs t ! 4),
      ownerPID := pid w, ownerPAR := p, prevBlock := Some 4, nextBlock := Some new, mmcbFlags := fl\<rparr>"
    and "i < 128 \<Longrightarrow> i \<noteq> 4 \<Longrightarrow> i \<noteq> new \<Longrightarrow>
      mmcbs t' ! i = (mmcbs t ! i)\<lparr>prevBlock := prevBlock (mmcbs t' ! i)\<rparr>"
proof -
  from assms have len: "length (mmcbs t) = 128" and new: "5 < new" "new < 128"
    and chain: "mem_chain (mmcbs t)" and own: "ownerPID (mmcbs t ! new) = - 1"
    and t': "mmcbs t' = split_block 4 new n (pid w) p fl (mmcbs t)"
    by (simp_all add: cut_def mem_inv_def)
  from mem_chain_next4 [OF chain] obtain nx where
    nx: "nextBlock (mmcbs t ! 4) = Some nx" "nx < 128" "nx \<noteq> 4" "ownerPID (mmcbs t ! nx) \<noteq> - 1" .
  with own have "nx \<noteq> new" by auto
  note nth = nth_split_block [OF len new _ nx(1-3) this, of _ n "pid w" p fl, folded t']
  show "mmcbs t' ! 4 = (mmcbs t ! 4)\<lparr>blockSize := blockSize (mmcbs t ! 4) - n,
      blockAddr := blockAddr (mmcbs t ! 4) + n, nextBlock := Some new\<rparr>"
    using nth [of 4] by simp
  show "mmcbs t' ! new = (mmcbs t ! new)\<lparr>blockSize := n, blockAddr := blockAddr (mmcbs t ! 4),
      ownerPID := pid w, ownerPAR := p, prevBlock := Some 4, nextBlock := Some new, mmcbFlags := fl\<rparr>"
    using nth [of new] new by simp
  show "i < 128 \<Longrightarrow> i \<noteq> 4 \<Longrightarrow> i \<noteq> new \<Longrightarrow>
      mmcbs t' ! i = (mmcbs t ! i)\<lparr>prevBlock := prevBlock (mmcbs t' ! i)\<rparr>"
    using nth [of i] by simp
qed

text \<open>Every entry but the free one and the new one keeps all a chunk is about.\<close>

lemma cut_keeps:
  assumes "cut t w n fl p new t'" and "i < 128" and "i \<noteq> 4" and "i \<noteq> new"
  shows "ownerPID (mmcbs t' ! i) = ownerPID (mmcbs t ! i)"
    and "nextBlock (mmcbs t' ! i) = nextBlock (mmcbs t ! i)"
    and "blockAddr (mmcbs t' ! i) = blockAddr (mmcbs t ! i)"
    and "blockSize (mmcbs t' ! i) = blockSize (mmcbs t ! i)"
  by (subst cut_nth(3) [OF assms], simp)+

lemma cut_owner:
  assumes "cut t w n fl p new t'" and "i < 128"
  shows "ownerPID (mmcbs t' ! i) = (if i = new then pid w else ownerPID (mmcbs t ! i))"
  using cut_nth(1,2) [OF assms(1)] cut_keeps(1) [OF assms] assms(1)
  by (cases "i = 4"; cases "i = new") (simp_all add: cut_def)

lemma cut_room:
  assumes "cut t w n fl p new t'"
  shows "free_base t' = free_base t + unat n" and "free_room t' = free_room t - unat n"
proof -
  from assms have sum: "free_base t + free_room t = 4096" and room: "unat n \<le> free_room t"
    by (auto simp: cut_def mem_inv_def)
  then have "unat (blockAddr (mmcbs t ! 4) + n) = unat (blockAddr (mmcbs t ! 4)) + unat n"
    by (subst unat_plus_if') (auto simp: free_base_def free_room_def)
  then show "free_base t' = free_base t + unat n" by (simp add: free_base_def cut_nth(1) [OF assms])
  from room show "free_room t' = free_room t - unat n"
    by (simp add: free_room_def cut_nth(1) [OF assms] unat_sub word_le_nat_alt)
qed

lemma cut_alloc_result:
  assumes "cut t w n fl p new t'"
  shows "alloc_result w n fl p t new t'"
proof -
  from assms have new: "5 < new" "new < 128" "ownerPID (mmcbs t ! new) = - 1" "good_owner w"
    by (simp_all add: cut_def)
  then have used: "used_mcbs (mmcbs t') = insert new (used_mcbs (mmcbs t))"
    by (auto simp: used_mcbs_def cut_owner [OF assms] good_owner_def split: if_splits)
  have notin: "new \<notin> used_mcbs (mmcbs t)" using new by (simp add: used_mcbs_def)
  have "blockAddr (mmcbs t' ! i) = blockAddr (mmcbs t ! i) \<and>
      blockSize (mmcbs t' ! i) = blockSize (mmcbs t ! i) \<and>
      ownerPID (mmcbs t' ! i) = ownerPID (mmcbs t ! i)" if "i \<in> used_mcbs (mmcbs t)" for i
  proof -
    from that notin have "i < 128" "i \<noteq> 4" "i \<noteq> new" by (auto simp: used_mcbs_def)
    from cut_keeps [OF assms this] show ?thesis by blast
  qed
  with used notin new show ?thesis
    by (simp add: alloc_result_def cut_nth(2) [OF assms] free_base_def)
qed

lemma cut_free_mcbs:
  assumes "cut t w n fl p new t'"
  shows "free_mcbs t' = free_mcbs t - 1"
proof -
  from assms have new: "new < 128" "ownerPID (mmcbs t ! new) = - 1" "good_owner w"
    by (simp_all add: cut_def)
  then have "{i. i < MEM_NMCBS \<and> ownerPID (mmcbs t' ! i) = - 1} =
      {i. i < MEM_NMCBS \<and> ownerPID (mmcbs t ! i) = - 1} - {new}"
    by (auto simp: good_owner_def cut_owner [OF assms] split: if_splits)
  then show ?thesis using new by (simp add: free_mcbs_def)
qed

lemma cut_chain:
  assumes "cut t w n fl p new t'"
  shows "mem_chain (mmcbs t')"
proof -
  from assms have chain: "mem_chain (mmcbs t)" and new: "5 < new" "new < 128" "good_owner w"
    by (simp_all add: cut_def mem_inv_def)
  have "ownerPID (mmcbs t' ! i) = 1 \<and> nextBlock (mmcbs t' ! i) = Some (Suc i)" if "i < 4" for i
    using that chain new cut_keeps(1,2) [OF assms, of i] by (simp add: mem_chain_def)
  moreover have "ownerPID (mmcbs t' ! 5) = 1" "nextBlock (mmcbs t' ! 5) = None"
    using chain new cut_keeps(1,2) [OF assms, of 5] by (simp_all add: mem_chain_def)
  moreover have "ownerPID (mmcbs t' ! 4) = 0" "nextBlock (mmcbs t' ! 4) = Some new"
    using chain by (simp_all add: cut_nth(1) [OF assms] mem_chain_def)
  moreover have "ownerPID (mmcbs t' ! new) \<noteq> 0" "ownerPID (mmcbs t' ! new) \<noteq> - 1"
      "nextBlock (mmcbs t' ! new) = Some new"
    using new by (simp_all add: cut_nth(2) [OF assms] good_owner_def)
  ultimately show ?thesis using new by (auto simp: mem_chain_def)
qed

lemma cut_inv:
  assumes "cut t w n fl p new t'"
  shows "mem_inv t'"
proof -
  from cut_alloc_result [OF assms] have
    used': "used_mcbs (mmcbs t') = insert new (used_mcbs (mmcbs t))"
    and same: "\<And>i. i \<in> used_mcbs (mmcbs t) \<Longrightarrow> blockAddr (mmcbs t' ! i) = blockAddr (mmcbs t ! i) \<and>
      blockSize (mmcbs t' ! i) = blockSize (mmcbs t ! i) \<and> ownerPID (mmcbs t' ! i) = ownerPID (mmcbs t ! i)"
    and new: "blockAddr (mmcbs t' ! new) = of_nat (free_base t)" "blockSize (mmcbs t' ! new) = n"
      "ownerPID (mmcbs t' ! new) = pid w"
    by (auto simp: alloc_result_def)
  from assms have inv: "mem_inv t" and w: "good_owner w" by (simp_all add: cut_def)
  from inv have old: "i \<in> used_mcbs (mmcbs t) \<Longrightarrow>
      ownerPID (mmcbs t ! i) \<noteq> 0 \<and> block_end (mmcbs t ! i) \<le> free_base t"
    and dis: "i \<in> used_mcbs (mmcbs t) \<Longrightarrow> j \<in> used_mcbs (mmcbs t) \<Longrightarrow> i \<noteq> j \<Longrightarrow>
      disjoint_blocks (mmcbs t ! i) (mmcbs t ! j)" for i j
    by (auto simp: mem_inv_def)
  have ends: "block_end (mmcbs t' ! i) = block_end (mmcbs t ! i)"
    "blockAddr (mmcbs t' ! i) = blockAddr (mmcbs t ! i)" if "i \<in> used_mcbs (mmcbs t)" for i
    using same [OF that] by (simp_all add: block_end_def)
  have base: "unat (of_nat (free_base t) :: u16) = free_base t" by (simp add: free_base_def)
  have new_end: "block_end (mmcbs t' ! new) = free_base t + unat n"
    "unat (blockAddr (mmcbs t' ! new)) = free_base t"
    by (simp_all add: block_end_def new base)
  have "ownerPID (mmcbs t' ! i) \<noteq> 0 \<and> block_end (mmcbs t' ! i) \<le> free_base t'"
    if "i \<in> used_mcbs (mmcbs t')" for i
    using that old [of i] same [of i] ends [of i] new w new_end cut_room [OF assms]
    by (auto simp: used' good_owner_def)
  moreover have "disjoint_blocks (mmcbs t' ! i) (mmcbs t' ! j)"
    if "i \<in> used_mcbs (mmcbs t')" "j \<in> used_mcbs (mmcbs t')" "i \<noteq> j" for i j
    using that old [of i] old [of j] dis [of i j] ends [of i] ends [of j] new_end
    by (auto simp: used' disjoint_blocks_def)
  moreover have "free_base t' + free_room t' = 4096" "length (mmcbs t') = 128" "numEntries t' = 128"
    using cut_room [OF assms] assms by (auto simp: cut_def mem_inv_def)
  ultimately show ?thesis using cut_chain [OF assms] by (auto simp: mem_inv_def)
qed

text \<open>Something was cut off the free chunk: its successor is then a chunk of a task.\<close>

definition mem_used :: "mmcbt \<Rightarrow> bool" where
  "mem_used t \<longleftrightarrow> nextBlock (mmcbs t ! 4) \<noteq> Some 5"

lemma cut_used: "cut t w n fl p new t' \<Longrightarrow> mem_used t'"
  using cut_nth(1) [of t w n fl p new t'] by (auto simp: mem_used_def cut_def)

section \<open>The contract of the allocator\<close>

text \<open>
  What \<open>muxx_setup_taskmem\<close> relies on: while there is room and a free entry, a request is served
  with the memory at the bottom of the free region.
\<close>

locale bump_allocator =
  fixes alloc :: "'o \<Rightarrow> u16 \<Rightarrow> u16 \<Rightarrow> u16 \<Rightarrow> 'm \<Rightarrow> (ptr, 'm) outcome"
    and inv :: "'m \<Rightarrow> bool"
    and owner_ok :: "'o \<Rightarrow> bool"
    and base :: "'m \<Rightarrow> nat"
    and room :: "'m \<Rightarrow> nat"
    and entries :: "'m \<Rightarrow> nat"
    and addr :: "'m \<Rightarrow> nat \<Rightarrow> u16"
    and touched :: "'m \<Rightarrow> bool"
  assumes alloc_spec:
    "inv m \<Longrightarrow> owner_ok w \<Longrightarrow> n \<le> 128 \<Longrightarrow> unat n \<le> room m \<Longrightarrow> 0 < entries m \<Longrightarrow>
     \<exists>b m'. alloc w n fl p m = Ret (Some b) m' \<and> inv m' \<and> base m' = base m + unat n \<and>
       room m' = room m - unat n \<and> entries m' = entries m - 1 \<and> addr m' b = of_nat (base m) \<and> touched m'"
begin

lemma alloc_pages:
  assumes "inv m" and "owner_ok w" and "n \<le> 128" and "k * unat n \<le> room m" and "k \<le> entries m"
  shows "\<exists>bs m'. repeat_n k (alloc w n fl p) m = Ret bs m' \<and> inv m' \<and>
    base m' = base m + k * unat n \<and> room m' = room m - k * unat n \<and> entries m' = entries m - k"
  using assms
proof (induction k arbitrary: m)
  case 0
  then show ?case by simp
next
  case (Suc k)
  then obtain b m1 where m1: "alloc w n fl p m = Ret (Some b) m1" "inv m1"
      "base m1 = base m + unat n" "room m1 = room m - unat n" "entries m1 = entries m - 1"
    using alloc_spec [of m w n fl p] by auto
  have "unat n + k * unat n \<le> room m" using Suc.prems(4) by simp
  then have "k * unat n \<le> room m1" using m1(4) by linarith
  moreover have "k \<le> entries m1" using Suc.prems(5) m1(5) by linarith
  ultimately obtain bs m' where "repeat_n k (alloc w n fl p) m1 = Ret bs m'"
      "inv m'" "base m' = base m1 + k * unat n" "room m' = room m1 - k * unat n"
      "entries m' = entries m1 - k"
    using Suc.IH [OF m1(2) Suc.prems(2,3)] by blast
  with m1 show ?case by auto
qed

end

lemma getblock_cut:
  assumes "mem_inv t" and "good_owner w" and "n \<le> 128" and "unat n \<le> free_room t"
    and "0 < free_mcbs t"
  obtains b t' where "muxx_mem_getblock w n fl p t = Ret (Some b) t'" "cut t w n fl p b t'"
proof -
  note new = findFreeMMCB_spec [OF assms(1,5)]
  from assms new mem_scan_room [OF assms(1,4)] show thesis
    by (intro that [of "findFreeMMCB t"]) (auto simp: muxx_mem_getblock_def cut_def Let_def)
qed

interpretation bump: bump_allocator muxx_mem_getblock mem_inv good_owner free_base free_room
    free_mcbs "\<lambda>t b. blockAddr (mmcbs t ! b)" mem_used
proof (unfold_locales, goal_cases)
  case (1 m w n fl p)
  then obtain b t' where *: "muxx_mem_getblock w n fl p m = Ret (Some b) t'" "cut m w n fl p b t'"
    by (rule getblock_cut)
  with cut_inv [OF *(2)] cut_room [OF *(2)] cut_free_mcbs [OF *(2)] cut_alloc_result [OF *(2)]
    cut_used [OF *(2)]
  show ?case by (auto simp: alloc_result_def)
qed

subsection \<open>Several blocks in a row\<close>

text \<open>
  The chunks of the table that keep address, size and owner when a block is taken: all that are in
  use, and the I/O page.
\<close>

definition same_chunk :: "mmcb \<Rightarrow> mmcb \<Rightarrow> bool" where
  "same_chunk a b \<longleftrightarrow> blockAddr a = blockAddr b \<and> blockSize a = blockSize b \<and> ownerPID a = ownerPID b"

lemma cut_same_chunk:
  assumes c: "cut t w n fl p b t'" and i: "i \<in> used_mcbs (mmcbs t) \<or> i = 5"
  shows "same_chunk (mmcbs t' ! i) (mmcbs t ! i)"
proof -
  have "i < 128" "i \<noteq> 4" "i \<noteq> b"
    using i c by (auto simp: used_mcbs_def cut_def)
  then show ?thesis using cut_keeps [OF c] by (simp add: same_chunk_def)
qed

definition run_of_blocks :: "mmcbt \<Rightarrow> tcb \<Rightarrow> u16 \<Rightarrow> nat list \<Rightarrow> mmcbt \<Rightarrow> bool" where
  "run_of_blocks t w n bs t' \<longleftrightarrow>
     mem_inv t' \<and> distinct bs \<and> set bs \<inter> used_mcbs (mmcbs t) = {} \<and>
     used_mcbs (mmcbs t') = set bs \<union> used_mcbs (mmcbs t) \<and>
     free_base t' = free_base t + length bs * unat n \<and>
     (\<forall>i < length bs. blockAddr (mmcbs t' ! (bs ! i)) = of_nat (free_base t + i * unat n) \<and>
        blockSize (mmcbs t' ! (bs ! i)) = n \<and> ownerPID (mmcbs t' ! (bs ! i)) = pid w) \<and>
     (\<forall>i. i \<in> used_mcbs (mmcbs t) \<or> i = 5 \<longrightarrow> same_chunk (mmcbs t' ! i) (mmcbs t ! i))"

lemma getblock_run:
  assumes "mem_inv t" and "good_owner w" and "n \<le> 128" and "k * unat n \<le> free_room t"
    and "k \<le> free_mcbs t"
  shows "\<exists>bs t'. repeat_n k (muxx_mem_getblock w n fl p) t = Ret (map Some bs) t' \<and> length bs = k \<and>
    run_of_blocks t w n bs t'"
  using assms
proof (induction k arbitrary: t)
  case 0
  then show ?case by (simp add: run_of_blocks_def same_chunk_def)
next
  case (Suc k)
  have room: "unat n + k * unat n \<le> free_room t" "unat n \<le> free_room t" "0 < free_mcbs t"
    using Suc.prems(4,5) by simp_all
  from getblock_cut [OF Suc.prems(1-3) room(2,3)] obtain b t1 where
    g: "muxx_mem_getblock w n fl p t = Ret (Some b) t1" and c: "cut t w n fl p b t1" by blast
  note r = cut_room [OF c] cut_free_mcbs [OF c] cut_alloc_result [OF c] cut_inv [OF c]
  have "k * unat n \<le> free_room t1" "k \<le> free_mcbs t1"
    using r(2,3) room(1) Suc.prems(5) by simp_all
  from Suc.IH [OF r(5) Suc.prems(2,3) this] obtain bs t' where
    h: "repeat_n k (muxx_mem_getblock w n fl p) t1 = Ret (map Some bs) t'" "length bs = k"
      "run_of_blocks t1 w n bs t'" by blast
  have b: "b \<notin> used_mcbs (mmcbs t)" "used_mcbs (mmcbs t1) = insert b (used_mcbs (mmcbs t))"
    "blockAddr (mmcbs t1 ! b) = of_nat (free_base t)" "blockSize (mmcbs t1 ! b) = n"
    "ownerPID (mmcbs t1 ! b) = pid w"
    using r(4) by (simp_all add: alloc_result_def)
  have "blockAddr (mmcbs t' ! ((b # bs) ! i)) = of_nat (free_base t + i * unat n) \<and>
      blockSize (mmcbs t' ! ((b # bs) ! i)) = n \<and> ownerPID (mmcbs t' ! ((b # bs) ! i)) = pid w"
    if "i < length (b # bs)" for i
    using that h(3) b r(1) by (cases i) (auto simp: run_of_blocks_def same_chunk_def add.assoc)
  moreover have "same_chunk (mmcbs t' ! i) (mmcbs t ! i)" if "i \<in> used_mcbs (mmcbs t) \<or> i = 5" for i
    using that h(3) cut_same_chunk [OF c that] b(2) by (auto simp: run_of_blocks_def same_chunk_def)
  moreover have "free_base t' = free_base t + length (b # bs) * unat n"
    using h(3) r(1) by (simp add: run_of_blocks_def)
  ultimately have "run_of_blocks t w n (b # bs) t'"
    using h(3) b(1,2) unfolding run_of_blocks_def by auto
  moreover have "repeat_n (Suc k) (muxx_mem_getblock w n fl p) t = Ret (map Some (b # bs)) t'"
    using g h(1) by simp
  moreover have "length (b # bs) = Suc k" using h(2) by simp
  ultimately show ?case by blast
qed

section \<open>When memory or entries run out\<close>

lemma getblock_too_big: "n > 128 \<Longrightarrow> muxx_mem_getblock w n fl p t = Ret None t"
  by (simp add: muxx_mem_getblock_def)

lemma getblock_no_entry:
  assumes "mem_inv t" and "n \<le> 128" and "unat n \<le> free_room t" and "free_mcbs t = 0"
  shows "muxx_mem_getblock w n fl p t = Stop (Panic ''PANIC2'') t"
  using assms mem_scan_room [OF assms(1,3)] findFreeMMCB_none [OF assms(1,4)]
  by (simp add: muxx_mem_getblock_def not_less)

lemma getblock_exhausted_fresh:
  assumes "mem_inv t" and "n \<le> 128" and "free_room t < unat n" and "\<not> mem_used t"
  shows "muxx_mem_getblock w n fl p t = Ret None t"
proof -
  from assms(1) have chain: "mem_chain (mmcbs t)" and len: "length (mmcbs t) = 128"
    by (simp_all add: mem_inv_def)
  from assms have "\<not> n \<le> blockSize (mmcbs t ! 4)" by (simp add: free_room_def word_le_nat_alt)
  with assms chain len have "mem_scan (mmcbs t) n 4 = mem_scan (mmcbs t) n 5"
    by (intro mem_scan_next) (auto simp: mem_used_def)
  also have "\<dots> = Some (Inr None)"
    using chain by (intro mem_scan_end) (auto simp: mem_chain_def)
  finally show ?thesis
    using assms(2) mem_scan_to_4 [OF chain len] by (simp add: muxx_mem_getblock_def not_less)
qed

lemma getblock_exhausted_used:
  assumes "mem_inv t" and "n \<le> 128" and "free_room t < unat n" and "mem_used t"
  shows "muxx_mem_getblock w n fl p t = Stop Diverges t"
proof -
  from assms(1) have chain: "mem_chain (mmcbs t)" and len: "length (mmcbs t) = 128"
    by (simp_all add: mem_inv_def)
  from chain assms(4) obtain k where k: "5 < k" "k < 128" "nextBlock (mmcbs t ! 4) = Some k"
      "ownerPID (mmcbs t ! k) \<noteq> 0" "nextBlock (mmcbs t ! k) = Some k"
    by (auto simp: mem_chain_def mem_used_def)
  from assms have "\<not> n \<le> blockSize (mmcbs t ! 4)" by (simp add: free_room_def word_le_nat_alt)
  with k len have "mem_scan (mmcbs t) n 4 = mem_scan (mmcbs t) n k"
    by (intro mem_scan_next) auto
  also have "\<dots> = None" using k len by (intro mem_scan_self_loop) auto
  finally show ?thesis
    using assms(2) mem_scan_to_4 [OF chain len] by (simp add: muxx_mem_getblock_def not_less)
qed

section \<open>The address space of a task\<close>

text \<open>How many 8 KB pages, blocks and table entries a task of a given type takes.\<close>

definition private_pages :: "u16 \<Rightarrow> nat" where
  "private_pages ty =
     (if ty AND 0x38 = TSZ_BIG then 3 else if ty AND 0x38 = TSZ_MED then 2 else 1)"

definition task_blocks :: "u16 \<Rightarrow> nat" where
  "task_blocks ty = 128 * private_pages ty + 64 + (if ty AND 0x07 = DRV_TASK then 32 else 0)"

definition task_entries :: "u16 \<Rightarrow> nat" where
  "task_entries ty = private_pages ty + 1 + (if ty AND 0x07 = DRV_TASK then 1 else 0)"

lemma set_page_fields [simp]:
  "pid (set_page p ar dr t) = pid t" "taskType (set_page p ar dr t) = taskType t"
  "prvword (set_page p ar dr t) = prvword t"
  "pid (set_upage p ar dr t) = pid t" "taskType (set_upage p ar dr t) = taskType t"
  "prvword (set_upage p ar dr t) = prvword t"
  "pid (set_kpage p ar dr t) = pid t" "taskType (set_kpage p ar dr t) = taskType t"
  "prvword (set_kpage p ar dr t) = prvword t"
  by (simp_all add: set_page_def set_kpage_def set_upage_def)

lemma setup_fields [simp]:
  "pid (setup_common t) = pid t" "taskType (setup_common t) = taskType t"
  "prvword (setup_common t) = prvword t" "pid (setup_iospace t) = pid t"
  "taskType (setup_iospace t) = taskType t" "prvword (setup_iospace t) = prvword t"
  by (simp_all add: setup_common_def setup_iospace_def Let_def)

lemma good_owner_cong: "pid t' = pid t \<Longrightarrow> good_owner t' = good_owner t"
  by (simp add: good_owner_def)

text \<open>
  A step that ends with \<open>EOK\<close> and the given TCB, having taken so many blocks and entries.
\<close>

definition allocs :: "mmcbt \<Rightarrow> nat \<Rightarrow> nat \<Rightarrow> (int, tcb \<times> mmcbt) outcome \<Rightarrow> tcb \<Rightarrow> bool" where
  "allocs t k e m task' \<longleftrightarrow>
     (\<exists>t'. m = Ret EOK (task', t') \<and> mem_inv t' \<and> free_base t' = free_base t + k \<and>
       free_room t' = free_room t - k \<and> free_mcbs t' = free_mcbs t - e \<and>
       (mem_used t \<or> 0 < e \<longrightarrow> mem_used t'))"

lemma allocs_skip: "mem_inv t \<Longrightarrow> allocs t 0 0 (Ret EOK (task, t)) task"
  by (simp add: allocs_def)

lemma allocs_seq:
  assumes "allocs t k1 e1 m task1"
    and "\<And>t1. mem_inv t1 \<Longrightarrow> free_base t1 = free_base t + k1 \<Longrightarrow> free_room t1 = free_room t - k1 \<Longrightarrow>
      free_mcbs t1 = free_mcbs t - e1 \<Longrightarrow> allocs t1 k2 e2 (f (task1, t1)) task2"
  shows "allocs t (k1 + k2) (e1 + e2) (if_ok m f) task2"
  using assms by (fastforce simp: allocs_def if_ok_def)

lemma with_block_allocs:
  assumes "mem_inv t" and "good_owner task" and "n \<le> 128" and "unat n \<le> free_room t"
    and "0 < free_mcbs t"
  shows "allocs t (unat n) 1 (with_block n fl p (\<lambda>b. g (blockAddr b)) (task, t))
    (g (of_nat (free_base t)) task)"
  using bump.alloc_spec [OF assms, of fl p] by (auto simp: allocs_def with_block_def)

lemma setup_private_allocs:
  assumes "mem_inv t" and "good_owner task" and "128 \<le> free_room t" and "0 < free_mcbs t"
  shows "allocs t 128 1 (setup_private p (task, t))
    (set_page p (of_nat (free_base t)) (PDR_ACC_RW OR PDR_SIZ_8K) task)"
  using with_block_allocs [of t task "0x80" 0 "of_nat p"
      "\<lambda>a. set_page p a (PDR_ACC_RW OR PDR_SIZ_8K)"] assms
  by (simp add: setup_private_def)

lemma setup_stack_allocs:
  assumes "mem_inv t" and "good_owner task" and "64 \<le> free_room t" and "0 < free_mcbs t"
  shows "allocs t 64 1 (setup_stack (task, t))
    (set_page 6 (of_nat (free_base t) - 0x40) (PDR_ACC_RW OR PDR_SIZ_4K OR PDR_DIR_DN) task)"
  using with_block_allocs [of t task "0x40" MMCB_FLG_STK 6
      "\<lambda>a. set_page 6 (a - 0x40) (PDR_ACC_RW OR PDR_SIZ_4K OR PDR_DIR_DN)"] assms
  by (simp add: setup_stack_def)

lemma setup_drvbuf_allocs:
  assumes "mem_inv t" and "good_owner task" and "32 \<le> free_room t" and "0 < free_mcbs t"
  shows "allocs t 32 1 (setup_drvbuf (task, t))
    (set_page 4 (of_nat (free_base t)) (PDR_ACC_RW OR PDR_SIZ_1K) task)"
  using with_block_allocs [of t task "DRV_BUFSIZ div 64" MMCB_FLG_BUF 5
      "\<lambda>a. set_page 4 a (PDR_ACC_RW OR PDR_SIZ_1K)"] assms
  by (simp add: setup_drvbuf_def)

lemma allocs_seq':
  assumes "allocs t k1 e1 m task1" and "k = k1 + k2" and "e = e1 + e2"
    and "\<And>t1. mem_inv t1 \<Longrightarrow> free_base t1 = free_base t + k1 \<Longrightarrow> free_room t1 = free_room t - k1 \<Longrightarrow>
      free_mcbs t1 = free_mcbs t - e1 \<Longrightarrow> allocs t1 k2 e2 (f (task1, t1)) task2"
  shows "allocs t k e (if_ok m f) task2"
  unfolding assms(2,3) using assms(1,4) by (rule allocs_seq)

text \<open>The steps after the private pages: TUCB address, stack, I/O page, driver buffer.\<close>

definition setup_rest :: "u16 \<Rightarrow> bool \<Rightarrow> tcb \<times> mmcbt \<Rightarrow> (int, tcb \<times> mmcbt) outcome" where
  "setup_rest tu drv st =
     if_ok (setup_stack (apfst (\<lambda>task. task\<lparr>taskTUCB := tu\<rparr>) st)) (\<lambda>st.
       let st = apfst setup_iospace st in if drv then setup_drvbuf st else Ret EOK st)"

definition rest_image :: "u16 \<Rightarrow> bool \<Rightarrow> nat \<Rightarrow> tcb \<Rightarrow> tcb" where
  "rest_image tu drv b task =
     (let t3 = set_page 6 (of_nat b - 0x40) (PDR_ACC_RW OR PDR_SIZ_4K OR PDR_DIR_DN)
                 (task\<lparr>taskTUCB := tu\<rparr>);
          t4 = setup_iospace t3
      in if drv then set_page 4 (of_nat (b + 64)) (PDR_ACC_RW OR PDR_SIZ_1K) t4 else t4)"

lemma setup_rest_allocs:
  assumes "mem_inv t" and "good_owner task" and "64 + (if drv then 32 else 0) \<le> free_room t"
    and "1 + (if drv then 1 else 0) \<le> free_mcbs t"
  shows "allocs t (64 + (if drv then 32 else 0)) (1 + (if drv then 1 else 0))
    (setup_rest tu drv (task, t)) (rest_image tu drv (free_base t) task)"
proof -
  let ?t1 = "set_page 6 (of_nat (free_base t) - 0x40) (PDR_ACC_RW OR PDR_SIZ_4K OR PDR_DIR_DN)
    (task\<lparr>taskTUCB := tu\<rparr>)"
  have good: "good_owner (task\<lparr>taskTUCB := tu\<rparr>)" using assms(2) by (simp add: good_owner_def)
  with assms have s: "allocs t 64 1 (setup_stack (task\<lparr>taskTUCB := tu\<rparr>, t)) ?t1"
    by (intro setup_stack_allocs) auto
  show ?thesis
  proof (cases drv)
    case True
    have "allocs t1 32 1 (setup_drvbuf (setup_iospace ?t1, t1))
        (set_page 4 (of_nat (free_base t + 64)) (PDR_ACC_RW OR PDR_SIZ_1K) (setup_iospace ?t1))"
      if "mem_inv t1" "free_base t1 = free_base t + 64" "free_room t1 = free_room t - 64"
        "free_mcbs t1 = free_mcbs t - 1" for t1
      using setup_drvbuf_allocs [of t1 "setup_iospace ?t1"] that assms True
      by (simp add: good_owner_def)
    then show ?thesis unfolding setup_rest_def rest_image_def
      by (intro allocs_seq' [where ?k1.0 = 64 and ?e1.0 = 1 and ?k2.0 = 32 and ?e2.0 = 1])
        (use True s in \<open>simp_all add: Let_def\<close>)
  next
    case False
    then show ?thesis unfolding setup_rest_def rest_image_def
      by (intro allocs_seq' [where ?k1.0 = 64 and ?e1.0 = 1 and ?k2.0 = 0 and ?e2.0 = 0])
        (use s in \<open>auto simp: Let_def intro: allocs_skip\<close>)
  qed
qed

text \<open>The private pages, one after the other.\<close>

fun setup_pages :: "nat list \<Rightarrow> (tcb \<times> mmcbt \<Rightarrow> (int, tcb \<times> mmcbt) outcome) \<Rightarrow>
    tcb \<times> mmcbt \<Rightarrow> (int, tcb \<times> mmcbt) outcome" where
  "setup_pages [] k st = k st"
| "setup_pages (p # ps) k st = if_ok (setup_private p st) (setup_pages ps k)"

fun pages_image :: "nat list \<Rightarrow> nat \<Rightarrow> tcb \<Rightarrow> tcb" where
  "pages_image [] b task = task"
| "pages_image (p # ps) b task =
     pages_image ps (b + 128) (set_page p (of_nat b) (PDR_ACC_RW OR PDR_SIZ_8K) task)"

lemma setup_pages_allocs:
  assumes "mem_inv t" and "good_owner task" and "128 * length ps + kr \<le> free_room t"
    and "length ps + er \<le> free_mcbs t"
    and "\<And>t1 task1. mem_inv t1 \<Longrightarrow> good_owner task1 \<Longrightarrow> free_base t1 = free_base t + 128 * length ps \<Longrightarrow>
      kr \<le> free_room t1 \<Longrightarrow> er \<le> free_mcbs t1 \<Longrightarrow>
      allocs t1 kr er (k (task1, t1)) (fin (free_base t1) task1)"
  shows "allocs t (128 * length ps + kr) (length ps + er) (setup_pages ps k (task, t))
    (fin (free_base t + 128 * length ps) (pages_image ps (free_base t) task))"
  using assms
proof (induction ps arbitrary: t task)
  case Nil
  then show ?case by simp
next
  case (Cons p ps)
  let ?task = "set_page p (of_nat (free_base t)) (PDR_ACC_RW OR PDR_SIZ_8K) task"
  have first: "allocs t 128 1 (setup_private p (task, t)) ?task"
    using Cons.prems(1-4) by (intro setup_private_allocs) auto
  have "allocs t1 (128 * length ps + kr) (length ps + er) (setup_pages ps k (?task, t1))
      (fin (free_base t1 + 128 * length ps) (pages_image ps (free_base t1) ?task))"
    if "mem_inv t1" "free_base t1 = free_base t + 128" "free_room t1 = free_room t - 128"
      "free_mcbs t1 = free_mcbs t - 1" for t1
  proof (rule Cons.IH)
    show "good_owner ?task" using Cons.prems(2) by (simp add: good_owner_def)
    show "128 * length ps + kr \<le> free_room t1" "length ps + er \<le> free_mcbs t1"
      using that Cons.prems(3,4) by auto
    show "allocs t2 kr er (k (task1, t2)) (fin (free_base t2) task1)"
      if "mem_inv t2" "good_owner task1" "free_base t2 = free_base t1 + 128 * length ps"
        "kr \<le> free_room t2" "er \<le> free_mcbs t2" for t2 task1
      using that \<open>free_base t1 = free_base t + 128\<close> by (intro Cons.prems(5)) auto
  qed fact
  then show ?case
    using allocs_seq' [OF first, of _ "128 * length ps + kr" _ "length ps + er" "setup_pages ps k"]
    by (simp add: algebra_simps)
qed

text \<open>The layout the routine produces when the free memory starts at block \<open>b\<close>.\<close>

definition task_image :: "tcb \<Rightarrow> nat \<Rightarrow> tcb" where
  "task_image task b =
     (let n = private_pages (taskType task)
      in rest_image (of_nat (8192 * (3 + n)) - tucbsize) (taskType task AND 0x07 = DRV_TASK)
           (b + 128 * n) (pages_image [3..<3 + n] b (setup_common task)))"

lemma if_ok_EOK [simp]: "if_ok (Ret EOK st) k = k st"
  by (simp add: if_ok_def)

lemma if_ok_assoc: "if_ok (if_ok m f) g = if_ok m (\<lambda>st. if_ok (f st) g)"
  by (cases m) (auto simp: if_ok_def)

lemma setup_pages_Nil_fun [simp]: "setup_pages [] k = k"
  by (rule ext) simp

lemma setup_pages_Cons_fun:
  "setup_pages (p # ps) k = (\<lambda>st. if_ok (setup_private p st) (setup_pages ps k))"
  by (rule ext) simp

lemma upt_from_3: "[3..<4] = [3::nat]" "[3..<5] = [3::nat, 4]" "[3..<6] = [3::nat, 4, 5]"
  by (simp_all add: upt_conv_Cons)

lemma setup_taskmem_pages:
  assumes "check_tasktype (taskType task)"
  shows "muxx_setup_taskmem (task, t) =
    setup_pages [3..<3 + private_pages (taskType task)]
      (setup_rest (of_nat (8192 * (3 + private_pages (taskType task))) - tucbsize)
        (taskType task AND 0x07 = DRV_TASK)) (setup_common task, t)"
proof -
  consider (big) "taskType task AND 0x38 = TSZ_BIG" | (med) "taskType task AND 0x38 = TSZ_MED"
    | (small) "taskType task AND 0x38 \<noteq> TSZ_BIG" "taskType task AND 0x38 \<noteq> TSZ_MED"
    by blast
  then show ?thesis
  proof cases
    case big
    with assms show ?thesis
      by (simp add: muxx_setup_taskmem_def private_pages_def upt_from_3
        setup_pages_Cons_fun setup_rest_def [abs_def])
  next
    case med
    with assms show ?thesis
      by (simp add: muxx_setup_taskmem_def private_pages_def upt_from_3
        setup_pages_Cons_fun setup_rest_def [abs_def])
  next
    case small
    with assms show ?thesis
      by (simp add: muxx_setup_taskmem_def private_pages_def upt_from_3
        setup_pages_Cons_fun setup_rest_def [abs_def])
  qed
qed

lemma setup_taskmem_allocs:
  assumes "mem_inv t" and "good_owner task" and "check_tasktype (taskType task)"
    and "task_blocks (taskType task) \<le> free_room t" and "task_entries (taskType task) \<le> free_mcbs t"
  shows "allocs t (task_blocks (taskType task)) (task_entries (taskType task))
    (muxx_setup_taskmem (task, t)) (task_image task (free_base t))"
proof -
  let ?n = "private_pages (taskType task)" and ?drv = "taskType task AND 0x07 = DRV_TASK"
  let ?tu = "of_nat (8192 * (3 + ?n)) - tucbsize :: u16"
  let ?kr = "64 + (if ?drv then 32 else 0) :: nat" and ?er = "1 + (if ?drv then 1 else 0) :: nat"
  have "allocs t (128 * length [3..<3 + ?n] + ?kr) (length [3..<3 + ?n] + ?er)
      (setup_pages [3..<3 + ?n] (setup_rest ?tu ?drv) (setup_common task, t))
      (rest_image ?tu ?drv (free_base t + 128 * length [3..<3 + ?n])
        (pages_image [3..<3 + ?n] (free_base t) (setup_common task)))"
  proof (rule setup_pages_allocs [where fin = "rest_image ?tu ?drv"])
    show "good_owner (setup_common task)" using assms(2) by (simp add: good_owner_def)
    show "128 * length [3..<3 + ?n] + ?kr \<le> free_room t" "length [3..<3 + ?n] + ?er \<le> free_mcbs t"
      using assms(4,5) by (simp_all add: task_blocks_def task_entries_def)
    show "allocs t1 ?kr ?er (setup_rest ?tu ?drv (task1, t1)) (rest_image ?tu ?drv (free_base t1) task1)"
      if "mem_inv t1" "good_owner task1" "?kr \<le> free_room t1" "?er \<le> free_mcbs t1" for t1 task1
      using that by (intro setup_rest_allocs)
  qed fact
  then show ?thesis
    by (simp add: setup_taskmem_pages [OF assms(3)] task_blocks_def task_entries_def
        task_image_def Let_def add.assoc)
qed

subsection \<open>Not enough memory\<close>

text \<open>
  A request that does not fit the free chunk, made after at least one earlier allocation, is never
  answered.
\<close>

definition diverges :: "('a, 's) outcome \<Rightarrow> bool" where
  "diverges m \<longleftrightarrow> (\<exists>s. m = Stop Diverges s)"

lemma with_block_starved:
  assumes "mem_inv t" and "mem_used t" and "n \<le> 128" and "free_room t < unat n"
  shows "diverges (with_block n fl p f (task, t))"
  using getblock_exhausted_used [OF assms(1,3,4,2)] by (simp add: with_block_def diverges_def)

lemma diverges_first: "diverges m \<Longrightarrow> diverges (if_ok m k)"
  by (auto simp: diverges_def if_ok_def)

lemma diverges_later:
  assumes "allocs t k e m task1"
    and "\<And>t1. mem_inv t1 \<Longrightarrow> mem_used t1 \<or> \<not> (mem_used t \<or> 0 < e) \<Longrightarrow>
      free_room t1 = free_room t - k \<Longrightarrow> free_mcbs t1 = free_mcbs t - e \<Longrightarrow> diverges (f (task1, t1))"
  shows "diverges (if_ok m f)"
  using assms by (fastforce simp: allocs_def if_ok_def)

lemma setup_rest_starved:
  assumes "mem_inv t" and "mem_used t" and "good_owner task" and "1 \<le> free_mcbs t"
    and "free_room t < 64 + (if drv then 32 else 0)"
  shows "diverges (setup_rest tu drv (task, t))"
proof (cases "free_room t < 64")
  case True
  with assms have "diverges (setup_stack (task\<lparr>taskTUCB := tu\<rparr>, t))"
    unfolding setup_stack_def by (intro with_block_starved) auto
  then show ?thesis unfolding setup_rest_def by (intro diverges_first) simp
next
  case False
  let ?task = "task\<lparr>taskTUCB := tu\<rparr>"
  from assms have "good_owner ?task" by (simp add: good_owner_def)
  with False assms have s: "allocs t 64 1 (setup_stack (?task, t))
      (set_page 6 (of_nat (free_base t) - 0x40) (PDR_ACC_RW OR PDR_SIZ_4K OR PDR_DIR_DN) ?task)"
    by (intro setup_stack_allocs) auto
  from False assms(5) have drv: "drv" and room: "free_room t < 96" by (auto split: if_splits)
  have "diverges (setup_drvbuf (task', t1))" if "mem_inv t1" "mem_used t1" "free_room t1 < 32"
    for task' t1
    using that unfolding setup_drvbuf_def by (intro with_block_starved) auto
  with s room drv show ?thesis
    unfolding setup_rest_def by (auto simp: Let_def intro!: diverges_later [of t 64 1])
qed

lemma setup_pages_starved:
  assumes "mem_inv t" and "mem_used t" and "good_owner task" and "length ps + er \<le> free_mcbs t"
    and "free_room t < 128 * length ps + kr"
    and "\<And>t1 task1. mem_inv t1 \<Longrightarrow> mem_used t1 \<Longrightarrow> good_owner task1 \<Longrightarrow> er \<le> free_mcbs t1 \<Longrightarrow>
      free_room t1 < kr \<Longrightarrow> diverges (k (task1, t1))"
  shows "diverges (setup_pages ps k (task, t))"
  using assms
proof (induction ps arbitrary: t task)
  case Nil
  then show ?case by simp
next
  case (Cons p ps)
  show ?case
  proof (cases "free_room t < 128")
    case True
    with Cons.prems(1,2) have "diverges (setup_private p (task, t))"
      unfolding setup_private_def by (intro with_block_starved) auto
    then show ?thesis by (simp add: diverges_first)
  next
    case False
    let ?task = "set_page p (of_nat (free_base t)) (PDR_ACC_RW OR PDR_SIZ_8K) task"
    have "allocs t 128 1 (setup_private p (task, t)) ?task"
      using Cons.prems(1,3,4) False by (intro setup_private_allocs) auto
    moreover have "diverges (setup_pages ps k (?task, t1))"
      if "mem_inv t1" "mem_used t1" "free_room t1 = free_room t - 128"
        "free_mcbs t1 = free_mcbs t - 1" for t1
      using that Cons.prems False
      by (intro Cons.IH) (auto simp: good_owner_def)
    ultimately show ?thesis
      using Cons.prems(2) by (auto intro!: diverges_later [of t 128 1])
  qed
qed

lemma setup_taskmem_starved:
  assumes "mem_inv t" and "mem_used t" and "good_owner task" and "check_tasktype (taskType task)"
    and "task_entries (taskType task) \<le> free_mcbs t"
    and "free_room t < task_blocks (taskType task)"
  shows "diverges (muxx_setup_taskmem (task, t))"
  unfolding setup_taskmem_pages [OF assms(4)]
proof (rule setup_pages_starved [where er = 1])
  let ?drv = "taskType task AND 0x07 = DRV_TASK"
  show "good_owner (setup_common task)" using assms(3) by (simp add: good_owner_def)
  show "length [3..<3 + private_pages (taskType task)] + 1 \<le> free_mcbs t"
    using assms(5) by (simp add: task_entries_def)
  show "free_room t < 128 * length [3..<3 + private_pages (taskType task)] +
      (64 + (if ?drv then 32 else 0))"
    using assms(6) by (simp add: task_blocks_def)
  show "diverges (setup_rest (of_nat (8192 * (3 + private_pages (taskType task))) - tucbsize) ?drv
      (task1, t1))"
    if "mem_inv t1" "mem_used t1" "good_owner task1" "1 \<le> free_mcbs t1"
      "free_room t1 < 64 + (if ?drv then 32 else 0)" for t1 task1
    using that by (rule setup_rest_starved)
qed fact+

section \<open>What a new task can reach\<close>

text \<open>The page registers of the layout, page by page.\<close>

definition image_upar :: "tcb \<Rightarrow> nat \<Rightarrow> u16 list" where
  "image_upar task b =
     (let n = private_pages (taskType task); drv = (taskType task AND 0x07 = DRV_TASK)
      in [0, 0x80, 0x100, of_nat b,
          if drv then of_nat (b + 128 * n + 64) else if 2 \<le> n then of_nat (b + 128) else 0,
          if 3 \<le> n then of_nat (b + 256) else 0,
          of_nat (b + 128 * n) - 0x40,
          if ioprv task \<or> operprv task \<or> auditprv task then 0xF80 else 0])"

definition image_updr :: "tcb \<Rightarrow> u16 list" where
  "image_updr task =
     (let n = private_pages (taskType task); drv = (taskType task AND 0x07 = DRV_TASK);
          common = (if operprv task then 0x7F06 else 0x7F02)
      in [common, common, common, 0x7F06,
          if drv then 0x1006 else if 2 \<le> n then 0x7F06 else 0,
          if 3 \<le> n then 0x7F06 else 0,
          0x400E,
          if ioprv task \<or> operprv task then 0x7F06 else if auditprv task then 0x7F02 else 0])"

lemma private_pages_cases:
  obtains (small) "private_pages ty = 1" | (med) "private_pages ty = 2" | (big) "private_pages ty = 3"
proof -
  have "private_pages ty = 1 \<or> private_pages ty = 2 \<or> private_pages ty = 3"
    by (simp add: private_pages_def)
  then show thesis using small med big by blast
qed

lemma set_page_regs [simp]:
  "upar (mmuState (set_page p ar dr t)) = (upar (mmuState t))[p := ar]"
  "updr (mmuState (set_page p ar dr t)) = (updr (mmuState t))[p := dr]"
  by (simp_all add: set_page_def set_upage_def set_kpage_def)

lemma setup_common_regs:
  "upar (mmuState (setup_common t)) = (upar (mmuState t))[0 := 0, 1 := 0x80, 2 := 0x100]"
  "updr (mmuState (setup_common t)) =
     (let w = if operprv t then 0x7F06 else 0x7F02 in (updr (mmuState t))[0 := w, 1 := w, 2 := w])"
  by (simp_all add: setup_common_def set_upage_def set_kpage_def operprv_def)

lemma setup_iospace_regs:
  "upar (mmuState (setup_iospace t)) =
     (upar (mmuState t))[7 := if ioprv t \<or> operprv t \<or> auditprv t then 0xF80 else 0]"
  "updr (mmuState (setup_iospace t)) =
     (updr (mmuState t))[7 := if ioprv t \<or> operprv t then 0x7F06 else if auditprv t then 0x7F02 else 0]"
  by (simp_all add: setup_iospace_def set_upage_def set_kpage_def operprv_def ioprv_def auditprv_def
      Let_def)

lemma pages_image_prvword [simp]: "prvword (pages_image ps b t) = prvword t"
  by (induction ps b t rule: pages_image.induct) simp_all

lemma zero_regs:
  "upar zero_mmustate = [0, 0, 0, 0, 0, 0, 0, 0]" "updr zero_mmustate = [0, 0, 0, 0, 0, 0, 0, 0]"
  by (simp_all add: zero_mmustate_def numeral_eq_Suc)

lemma update_numeral:
  "(x # xs)[numeral k := y] = x # xs[pred_numeral k := y]" "(x # xs)[Suc n := y] = x # xs[n := y]"
  "(x # xs)[0 := y] = y # xs"
  by (simp_all add: numeral_eq_Suc)

lemmas image_simps = task_image_def rest_image_def image_upar_def image_updr_def upt_from_3
  setup_common_regs setup_iospace_regs zero_regs update_numeral operprv_def ioprv_def auditprv_def

lemma task_image_regs:
  assumes "mmuState task = zero_mmustate"
  shows "upar (mmuState (task_image task b)) = image_upar task b"
    and "updr (mmuState (task_image task b)) = image_updr task"
  by (cases "taskType task" rule: private_pages_cases; simp add: assms image_simps Let_def)+

text \<open>
  The blocks a task without privileges can write lie in the chunks taken for it; what it can read
  besides is the kernel's three common pages.
\<close>

lemma block_in_page_bound: "block_in_page pdr k \<Longrightarrow> k < 128"
proof -
  have "unat (drop_bit 8 pdr AND 0x7F) \<le> unat (0x7F :: u16)"
    by (rule word_le_nat_alt [THEN iffD1]) (rule word_and_le1)
  moreover assume "block_in_page pdr k"
  ultimately show ?thesis by (auto simp: block_in_page_def page_plf_def split: if_splits)
qed

lemma plf_values:
  "page_readable 0x7F06" "page_readable 0x7F02" "page_readable 0x400E" "page_readable 0x1006"
  "\<not> page_readable 0" "\<not> page_writable 0" "\<not> page_writable 0x7F02"
  "\<not> page_down 0x7F06" "\<not> page_down 0x1006" "page_down 0x400E" "\<not> page_down 0x7F02"
  "page_plf 0x7F06 = 127" "page_plf 0x7F02 = 127" "page_plf 0x400E = 64" "page_plf 0x1006 = 16"
  by (simp_all add: pdr_defs)

lemma up_page_within:
  assumes "unat par = a" and "\<not> page_down pdr" and "b \<le> a" and "a + page_plf pdr < c"
  shows "page_blocks par pdr \<subseteq> {b ..< c}"
  using page_blocks_up [OF assms(2), of par] assms by fastforce

lemma down_page_within:
  assumes "unat par = a" and "page_down pdr" and "b \<le> a + page_plf pdr" and "a + 128 \<le> c"
  shows "page_blocks par pdr \<subseteq> {b ..< c}"
  using page_blocks_down [OF assms(2), of par] assms by fastforce

lemma image_writable_private:
  assumes "\<not> operprv task" and "\<not> ioprv task" and "\<not> auditprv task"
    and "448 \<le> b" and "b + task_blocks (taskType task) \<le> 4096" and "p < 8"
    and "page_writable (image_updr task ! p)"
  shows "page_blocks (image_upar task b ! p) (image_updr task ! p)
    \<subseteq> {b ..< b + task_blocks (taskType task)}"
proof -
  let ?n = "private_pages (taskType task)" and ?drv = "taskType task AND 0x07 = DRV_TASK"
  have n: "1 \<le> ?n" "?n \<le> 3" by (cases "taskType task" rule: private_pages_cases; simp)+
  have val: "unat (of_nat k :: u16) = k" if "k \<le> 4096" for k
    using that by (simp add: unat_of_nat)
  have stack: "unat (of_nat (b + 128 * ?n) - 0x40 :: u16) = b + 128 * ?n - 64"
  proof -
    have "(of_nat (b + 128 * ?n) - 0x40 :: u16) = of_nat (b + 128 * ?n - 64)"
      using assms(4) by (simp add: of_nat_diff)
    then show ?thesis using assms(5) val [of "b + 128 * ?n - 64"] by (simp add: task_blocks_def)
  qed
  from assms(6) consider "p < 3" | "p = 3" | "p = 4" | "p = 5" | "p = 6" | "p = 7" by linarith
  then show ?thesis
  proof cases
    case 1
    then have "p = 0 \<or> p = 1 \<or> p = 2" by auto
    with assms(1-3,7) show ?thesis by (auto simp: image_updr_def plf_values Let_def)
  next
    case 2
    show ?thesis
      by (rule up_page_within [where a = b])
        (use 2 n assms(5) val [of b] in
          \<open>simp_all add: image_updr_def image_upar_def Let_def plf_values task_blocks_def\<close>)
  next
    case 3
    show ?thesis
      by (rule up_page_within [where a = "if ?drv then b + 128 * ?n + 64 else b + 128"])
        (use 3 n assms(5,7) val [of "b + 128 * ?n + 64"] val [of "b + 128"] in
          \<open>auto simp: image_updr_def image_upar_def Let_def plf_values task_blocks_def
             split: if_splits\<close>)
  next
    case 4
    show ?thesis
      by (rule up_page_within [where a = "b + 256"])
        (use 4 n assms(5,7) val [of "b + 256"] in
          \<open>auto simp: image_updr_def image_upar_def Let_def plf_values task_blocks_def
             split: if_splits\<close>)
  next
    case 5
    show ?thesis
      by (rule down_page_within [where a = "b + 128 * ?n - 64"])
        (use 5 n assms(4,5) stack in
          \<open>simp_all add: image_updr_def image_upar_def Let_def plf_values task_blocks_def\<close>)
  next
    case 6
    with assms(1-3,7) show ?thesis by (simp add: image_updr_def plf_values Let_def)
  qed
qed

end
