(* ===== verification/Muxx_Xcopy.thy ===== *)
theory Muxx_Xcopy
  imports Muxx_MMU Muxx_Tasks
begin

text \<open>
  Copying between address spaces and changing page protection: \<open>kernel/muxx_xcopy_svc.c\<close> and
  \<open>kernel/muxx_protmem_svc.c\<close>. The copy maps the page of the source at kernel page 4 and the page of
  the destination at kernel page 5 and moves byte by byte through these windows.

  The kernel's own loads and stores go through the kernel page registers; the physical memory ends
  at the I/O page, whose addresses are no memory here.
\<close>

section \<open>Kernel memory accesses\<close>

abbreviation (input) IO_PAGE :: nat where "IO_PAGE \<equiv> 0x3E000"

definition kernel_addr :: "(u16 \<Rightarrow> bool) \<Rightarrow> mmustate \<Rightarrow> u16 \<Rightarrow> fault + nat" where
  "kernel_addr allowed m va =
     (case mmu_translate allowed (kpar m) (kpdr m) va of
        None \<Rightarrow> Inl MMUAbort
      | Some pa \<Rightarrow> if pa < IO_PAGE then Inr pa else Inl BusError)"

text \<open>\<open>*dst = *src\<close> for bytes at two virtual addresses.\<close>

definition copy_byte :: "u16 \<Rightarrow> u16 \<Rightarrow> 'd kstate \<Rightarrow> (unit, 'd kstate) outcome" where
  "copy_byte dst src s =
     (case kernel_addr page_readable (mmu s) src of
        Inl f \<Rightarrow> Stop (Fault f) s
      | Inr a \<Rightarrow>
          (case kernel_addr page_writable (mmu s) dst of
             Inl f \<Rightarrow> Stop (Fault f) s
           | Inr b \<Rightarrow> Ret () (s\<lparr>phys := (phys s)(b := phys s a)\<rparr>)))"

fun kernel_memcpy :: "nat \<Rightarrow> u16 \<Rightarrow> u16 \<Rightarrow> 'd kstate \<Rightarrow> (unit, 'd kstate) outcome" where
  "kernel_memcpy 0 dst src s = Ret () s"
| "kernel_memcpy (Suc n) dst src s =
     andthen (copy_byte dst src s) (\<lambda>_. kernel_memcpy n (dst + 1) (src + 1))"

section \<open>The copy service\<close>

text \<open>
  The local variables of the copy loop. \<open>par4\<close> and \<open>par5\<close> are pointers into the memory management
  registers: here how far, in words, they have moved away from the registers of pages 4 and 5.
\<close>

record xvars =
  soffset :: u16
  doffset :: u16
  sbyte :: u16
  dbyte :: u16
  par4_moved :: nat
  par5_moved :: nat

definition xcopy_cross :: "xvars \<Rightarrow> xvars" where
  "xcopy_cross x =
     (let x = (if soffset x \<ge> 8192 then
                 x\<lparr>par4_moved := par4_moved x + 0x80, soffset := soffset x - 8192,
                   sbyte := 5 * 8192 + (soffset x - 8192)\<rparr>
               else x)
      in if doffset x \<ge> 8192 then
           x\<lparr>par5_moved := par5_moved x + 0x80, doffset := doffset x - 8192,
             dbyte := 6 * 8192 + (doffset x - 8192)\<rparr>
         else x)"

fun xcopy_loop :: "nat \<Rightarrow> xvars \<Rightarrow> 'd kstate \<Rightarrow> (xvars, 'd kstate) outcome" where
  "xcopy_loop 0 x s = Ret x s"
| "xcopy_loop (Suc n) x s =
     (let x = xcopy_cross x
      in andthen (copy_byte (dbyte x) (sbyte x) s) (\<lambda>_.
           xcopy_loop n (x\<lparr>sbyte := sbyte x + 1, dbyte := dbyte x + 1,
                           soffset := soffset x + 1, doffset := doffset x + 1\<rparr>)))"

text \<open>\<open>*par = v\<close>: a pointer that has left the register names no register at all.\<close>

definition set_kwindow :: "nat \<Rightarrow> u16 \<Rightarrow> u16 \<Rightarrow> mmustate \<Rightarrow> mmustate" where
  "set_kwindow page par pdr m = m\<lparr>kpar := (kpar m)[page := par], kpdr := (kpdr m)[page := pdr]\<rparr>"

definition page_of :: "u16 \<Rightarrow> nat" where
  "page_of a = unat (drop_bit 13 (a AND 0xE000))"

definition xcopy_windows :: "nat \<Rightarrow> nat \<Rightarrow> u16 \<Rightarrow> u16 \<Rightarrow> 'd kstate \<Rightarrow> 'd kstate" where
  "xcopy_windows src dst srcaddr dstaddr s =
     s\<lparr>mmu := set_kwindow 5 (upar (mmuState (tct s ! dst)) ! page_of dstaddr) 0x7F06
        (set_kwindow 4 (upar (mmuState (tct s ! src)) ! page_of srcaddr) 0x7F06 (mmu s))\<rparr>"

definition xcopy_start :: "u16 \<Rightarrow> u16 \<Rightarrow> xvars" where
  "xcopy_start srcaddr dstaddr =
     \<lparr>soffset = srcaddr AND 0x1FFF, doffset = dstaddr AND 0x1FFF,
      sbyte = 4 * 8192 + (srcaddr AND 0x1FFF), dbyte = 5 * 8192 + (dstaddr AND 0x1FFF),
      par4_moved = 0, par5_moved = 0\<rparr>"

definition xcopy_move ::
  "nat \<Rightarrow> nat \<Rightarrow> u16 \<Rightarrow> u16 \<Rightarrow> u16 \<Rightarrow> 'd kstate \<Rightarrow> (unit, 'd kstate) outcome" where
  "xcopy_move dst src dstaddr srcaddr n s =
     (let old = mmu s
      in andthen (xcopy_loop (unat n) (xcopy_start srcaddr dstaddr)
                    (xcopy_windows src dst srcaddr dstaddr s)) (\<lambda>x s.
           if par4_moved x \<noteq> 0 then Stop (Fault BusError) s
           else if par5_moved x \<noteq> 0 then
             Stop (Fault BusError) (s\<lparr>mmu := (mmu s)\<lparr>kpar := (kpar (mmu s))[4 := kpar old ! 4]\<rparr>\<rparr>)
           else
             Ret () (s\<lparr>mmu := set_kwindow 5 (kpar old ! 5) (kpdr old ! 5)
                                (set_kwindow 4 (kpar old ! 4) (kpdr old ! 4) (mmu s))\<rparr>)))"

text \<open>Process id 0 stands for the current task.\<close>

definition task_ref :: "u16 \<Rightarrow> 'd kstate \<Rightarrow> ptr" where
  "task_ref p s = (if p = 0 then curtcb s else muxx_findtcb p s)"

definition muxx_svc_xcopy ::
  "u16 \<Rightarrow> u16 \<Rightarrow> u16 \<Rightarrow> u16 \<Rightarrow> u16 \<Rightarrow> 'd kstate \<Rightarrow> (int, 'd kstate) outcome" where
  "muxx_svc_xcopy dstpid dstaddr srcpid srcaddr n s =
     (if n = 0 then Ret EOK s
      else andthen (if dstpid = 0 \<and> srcpid = 0 then kernel_memcpy (unat n) dstaddr srcaddr s else Ret () s) (\<lambda>_ s.
        let (oldpsw, s) = setpl7 s;
            srctcb = task_ref srcpid s;
            dsttcb = task_ref dstpid s
        in at_ptr (tct s) srctcb s (\<lambda>src. at_ptr (tct s) (curtcb s) s (\<lambda>c.
             let cur = tct s ! c
             in if uic (tct s ! src) = uic cur \<or> operprv cur \<or> auditprv cur then
                  at_ptr (tct s) dsttcb s (\<lambda>dst.
                    if uic (tct s ! dst) = uic cur \<or> operprv cur then
                      andthen (xcopy_move dst src dstaddr srcaddr n s) (\<lambda>_ s.
                        Ret EOK (setpl oldpsw s))
                    else Ret ENOPRIV (setpl oldpsw s))
                else Ret ENOPRIV (setpl oldpsw s)))))"

section \<open>Page protection\<close>

definition set_prot :: "nat \<Rightarrow> u16 \<Rightarrow> tcb \<Rightarrow> tcb" where
  "set_prot page prot t =
     (let m = mmuState t; v = (updr m ! page AND 0xFFF8) OR prot
      in t\<lparr>mmuState := m\<lparr>updr := (updr m)[page := v], kpdr := (kpdr m)[page := v]\<rparr>\<rparr>)"

definition muxx_svc_protmem :: "u16 \<Rightarrow> u16 \<Rightarrow> u16 \<Rightarrow> 'd kstate \<Rightarrow> (int, 'd kstate) outcome" where
  "muxx_svc_protmem p page prot s =
     (if prot \<noteq> PDR_ACC_RW \<and> prot \<noteq> PDR_ACC_RO \<and> prot \<noteq> PDR_ACC_NA then Ret EINVVAL s
      else at_ptr (tct s) (curtcb s) s (\<lambda>c.
        if (p \<noteq> pid (tct s ! c) \<and> p \<noteq> 0) \<and> \<not> operprv (tct s ! c) then Ret ENOPRIV s
        else if page > 7 then Ret EINVVAL s
        else if page \<le> 2 \<and> \<not> operprv (tct s ! c) then Ret ENOPRIV s
        else case task_ref p s of
               None \<Rightarrow> Ret ENOTFOUND s
             | Some t \<Rightarrow>
                 let i = unat page;
                     s = upd_tcb t (set_prot i prot) s;
                     v = updr (mmuState (tct s ! t)) ! i
                 in Ret EOK (s\<lparr>mmu := (mmu s)\<lparr>updr := (updr (mmu s))[i := v],
                                              kpdr := (kpdr (mmu s))[i := v]\<rparr>\<rparr>)))"

section \<open>Copies that stay within one page on both sides\<close>

text \<open>The byte by byte copy on physical memory.\<close>

fun fwd_copy :: "nat \<Rightarrow> nat \<Rightarrow> nat \<Rightarrow> (nat \<Rightarrow> u8) \<Rightarrow> nat \<Rightarrow> u8" where
  "fwd_copy 0 b a m = m"
| "fwd_copy (Suc n) b a m = fwd_copy n (b + 1) (a + 1) (m(b := m a))"

lemma fwd_copy_apply:
  "b \<le> a \<or> a + n \<le> b \<Longrightarrow>
   fwd_copy n b a m = (\<lambda>x. if b \<le> x \<and> x < b + n then m (a + (x - b)) else m x)"
proof (induction n arbitrary: a b m)
  case 0
  then show ?case by (auto simp: fun_eq_iff)
next
  case (Suc n)
  then have "b + 1 \<le> a + 1 \<or> a + 1 + n \<le> b + 1" by auto
  note ih = Suc.IH [OF this, of "m(b := m a)"]
  show ?case
  proof (rule ext)
    fix x
    show "fwd_copy (Suc n) b a m x = (if b \<le> x \<and> x < b + Suc n then m (a + (x - b)) else m x)"
    proof (cases "b < x")
      case True
      then obtain d where "x = b + Suc d" using less_imp_Suc_add by fastforce
      then show ?thesis unfolding fwd_copy.simps ih using Suc.prems by auto
    next
      case False
      then show ?thesis unfolding fwd_copy.simps ih using Suc.prems by auto
    qed
  qed
qed

lemma window_addr:
  assumes m: "kpar m ! k = par" "kpdr m ! k = 0x7F06" and par: "unat par + 128 \<le> 3968"
    and va: "unat va = k * 8192 + off" "off < 8192" and allowed: "allowed 0x7F06"
  shows "kernel_addr allowed m va = Inr (unat par * 64 + off)"
proof -
  have "unat va div 8192 = k" "unat va mod 8192 = off" using va by auto
  moreover have "block_in_page 0x7F06 (off div 64)"
    using va(2) by (simp add: block_in_page_def page_down_def page_plf_def less_mult_imp_div_less)
  moreover have "unat par * 64 + off < 0x3E000" using par va(2) by simp
  ultimately show ?thesis
    using m allowed by (simp add: kernel_addr_def mmu_translate_def Let_def)
qed

lemma window_access: "page_readable 0x7F06" "page_writable 0x7F06"
  by (simp_all add: page_readable_def page_writable_def page_acf_def)

text \<open>The loop variables while no page is left: the pointers follow the offsets.\<close>

definition in_window :: "xvars \<Rightarrow> nat \<Rightarrow> nat \<Rightarrow> bool" where
  "in_window x sof dof \<longleftrightarrow>
     unat (soffset x) = sof \<and> unat (doffset x) = dof \<and> unat (sbyte x) = 4 * 8192 + sof \<and>
     unat (dbyte x) = 5 * 8192 + dof \<and> par4_moved x = 0 \<and> par5_moved x = 0"

definition windows_set :: "mmustate \<Rightarrow> u16 \<Rightarrow> u16 \<Rightarrow> bool" where
  "windows_set m spar dpar \<longleftrightarrow>
     kpar m ! 4 = spar \<and> kpdr m ! 4 = 0x7F06 \<and> kpar m ! 5 = dpar \<and> kpdr m ! 5 = 0x7F06 \<and>
     unat spar + 128 \<le> 3968 \<and> unat dpar + 128 \<le> 3968"

lemma xcopy_loop_window:
  "in_window x sof dof \<Longrightarrow> sof + n \<le> 8192 \<Longrightarrow> dof + n \<le> 8192 \<Longrightarrow> windows_set (mmu s) spar dpar \<Longrightarrow>
   \<exists>x'. xcopy_loop n x s =
       Ret x' (s\<lparr>phys := fwd_copy n (unat dpar * 64 + dof) (unat spar * 64 + sof) (phys s)\<rparr>) \<and>
     par4_moved x' = 0 \<and> par5_moved x' = 0"
proof (induction n arbitrary: x sof dof s)
  case 0
  then show ?case by (auto simp: in_window_def)
next
  case (Suc n)
  let ?x = "x\<lparr>sbyte := sbyte x + 1, dbyte := dbyte x + 1, soffset := soffset x + 1, doffset := doffset x + 1\<rparr>"
  let ?a = "unat spar * 64 + sof" and ?b = "unat dpar * 64 + dof"
  from Suc.prems(1,2,3) have off: "sof < 8192" "dof < 8192"
    and nx: "xcopy_cross x = x"
    by (auto simp: in_window_def xcopy_cross_def word_le_nat_alt Let_def)
  have "kernel_addr page_readable (mmu s) (sbyte x) = Inr ?a"
    using Suc.prems(1,4) off window_access
    by (intro window_addr [of _ 4]) (auto simp: windows_set_def in_window_def)
  moreover have "kernel_addr page_writable (mmu s) (dbyte x) = Inr ?b"
    using Suc.prems(1,4) off window_access
    by (intro window_addr [of _ 5]) (auto simp: windows_set_def in_window_def)
  ultimately have cp: "copy_byte (dbyte x) (sbyte x) s = Ret () (s\<lparr>phys := (phys s)(?b := phys s ?a)\<rparr>)"
    by (simp add: copy_byte_def)
  have "in_window ?x (sof + 1) (dof + 1)"
    using Suc.prems(1) off by (auto simp: in_window_def unat_inc16)
  from Suc.IH [OF this, of "s\<lparr>phys := (phys s)(?b := phys s ?a)\<rparr>"] Suc.prems cp nx
  show ?case by (simp add: add.assoc del: fun_upd_apply)
qed

lemma low_bits: "unat (a AND 0x1FFF :: u16) < 8192"
proof -
  have "a AND 0x1FFF = take_bit 13 a" by (simp add: take_bit_eq_mask mask_numeral)
  then have "unat (a AND 0x1FFF) = take_bit 13 (unat a)" by (simp add: unsigned_take_bit_eq)
  then show ?thesis using take_bit_nat_less_exp [of 13 "unat a"] by simp
qed

lemma page_split: "unat (a :: u16) = page_of a * 8192 + unat (a AND 0x1FFF)"
proof -
  have "drop_bit 13 (a AND 0xE000) = drop_bit 13 a"
  proof (rule bit_word_eqI)
    fix n assume n: "n < LENGTH(16)"
    show "bit (drop_bit 13 (a AND 0xE000)) n = bit (drop_bit 13 a) n"
    proof (cases "n < 3")
      case True
      then have "n = 0 \<or> n = 1 \<or> n = 2" by auto
      then show ?thesis by (auto simp: bit_drop_bit_eq bit_and_iff)
    next
      case False
      then have "\<not> bit a (13 + n)" using bit_imp_le_length [of a "13 + n"] by auto
      then show ?thesis by (simp add: bit_drop_bit_eq bit_and_iff)
    qed
  qed
  moreover have "unat (drop_bit 13 a) = unat a div 8192" by (simp add: drop_bit_eq_div unat_div)
  moreover have "a AND 0x1FFF = take_bit 13 a" by (simp add: take_bit_eq_mask mask_numeral)
  then have "unat (a AND 0x1FFF) = unat a mod 8192" by (simp add: take_bit_eq_mod unat_mod)
  ultimately show ?thesis by (simp add: page_of_def)
qed

lemma xcopy_start_window:
  "in_window (xcopy_start srcaddr dstaddr) (unat (srcaddr AND 0x1FFF)) (unat (dstaddr AND 0x1FFF))"
  using low_bits [of srcaddr] low_bits [of dstaddr]
  by (simp add: in_window_def xcopy_start_def unat_word_ariths)

lemma kwindow_restore:
  "set_kwindow 5 (kpar m ! 5) (kpdr m ! 5) (set_kwindow 4 (kpar m ! 4) (kpdr m ! 4)
     (set_kwindow 5 p v (set_kwindow 4 q w m))) = m"
proof -
  have *: "xs[4 := a, 5 := b, 4 := xs ! 4, 5 := xs ! 5] = xs" for xs :: "u16 list" and a b
    by (cases "5 < length xs"; cases "4 < length xs")
      (auto simp: list_eq_iff_nth_eq nth_list_update list_update_beyond)
  show ?thesis by (simp add: set_kwindow_def *)
qed

lemma xcopy_move_window:
  assumes "tct s ! src = st" and "tct s ! dst = dt"
    and spar: "upar (mmuState st) ! page_of srcaddr = spar" "unat spar + 128 \<le> 3968"
    and dpar: "upar (mmuState dt) ! page_of dstaddr = dpar" "unat dpar + 128 \<le> 3968"
    and fits: "unat (srcaddr AND 0x1FFF) + unat n \<le> 8192" "unat (dstaddr AND 0x1FFF) + unat n \<le> 8192"
    and len: "length (kpar (mmu s)) = 8" "length (kpdr (mmu s)) = 8"
  shows "xcopy_move dst src dstaddr srcaddr n s =
    Ret () (s\<lparr>phys := fwd_copy (unat n) (unat dpar * 64 + unat (dstaddr AND 0x1FFF))
                         (unat spar * 64 + unat (srcaddr AND 0x1FFF)) (phys s)\<rparr>)"
proof -
  let ?s = "xcopy_windows src dst srcaddr dstaddr s"
  have mm: "mmu ?s = set_kwindow 5 dpar 0x7F06 (set_kwindow 4 spar 0x7F06 (mmu s))"
    and ph: "phys ?s = phys s"
    using assms by (simp_all add: xcopy_windows_def)
  have "windows_set (mmu ?s) spar dpar"
    using spar dpar len unfolding mm by (simp add: windows_set_def set_kwindow_def)
  from xcopy_loop_window [OF xcopy_start_window fits this] obtain x where
    x: "xcopy_loop (unat n) (xcopy_start srcaddr dstaddr) ?s =
      Ret x (?s\<lparr>phys := fwd_copy (unat n) (unat dpar * 64 + unat (dstaddr AND 0x1FFF))
        (unat spar * 64 + unat (srcaddr AND 0x1FFF)) (phys s)\<rparr>)"
      "par4_moved x = 0" "par5_moved x = 0"
    unfolding ph by blast
  show ?thesis
    unfolding xcopy_move_def Let_def x(1) andthen.simps
    using x(2,3) by (simp add: mm kwindow_restore) (simp add: xcopy_windows_def)
qed

section \<open>Copies that run over the end of a page\<close>

lemma xcopy_cross_moved:
  "par4_moved x \<le> par4_moved (xcopy_cross x)" "par5_moved x \<le> par5_moved (xcopy_cross x)"
  by (simp_all add: xcopy_cross_def Let_def)

lemma copy_byte_cases: "(\<exists>s'. copy_byte d a s = Ret () s') \<or> (\<exists>f. copy_byte d a s = Stop (Fault f) s)"
  by (auto simp: copy_byte_def split: sum.splits)

lemma xcopy_loop_cases:
  "(\<exists>x' s'. xcopy_loop n x s = Ret x' s' \<and> par4_moved x \<le> par4_moved x' \<and> par5_moved x \<le> par5_moved x') \<or>
   (\<exists>f s'. xcopy_loop n x s = Stop (Fault f) s')"
proof (induction n arbitrary: x s)
  case 0
  then show ?case by simp
next
  case (Suc n)
  let ?x = "xcopy_cross x"
  let ?y = "?x\<lparr>sbyte := sbyte ?x + 1, dbyte := dbyte ?x + 1, soffset := soffset ?x + 1, doffset := doffset ?x + 1\<rparr>"
  from copy_byte_cases [of "dbyte ?x" "sbyte ?x" s] show ?case
  proof
    assume "\<exists>s'. copy_byte (dbyte ?x) (sbyte ?x) s = Ret () s'"
    then obtain s1 where "copy_byte (dbyte ?x) (sbyte ?x) s = Ret () s1" ..
    then have "xcopy_loop (Suc n) x s = xcopy_loop n ?y s1" by (simp add: Let_def)
    with Suc.IH [of ?y s1] xcopy_cross_moved [of x] show ?thesis by (auto intro: le_trans)
  next
    assume "\<exists>f. copy_byte (dbyte ?x) (sbyte ?x) s = Stop (Fault f) s"
    then show ?thesis by (auto simp: Let_def)
  qed
qed

lemma xcopy_loop_crosses:
  assumes "0 < n" and "unat (soffset x) \<le> 8192" and "unat (doffset x) \<le> 8192"
    and "unat (soffset x) + n > 8192 \<or> unat (doffset x) + n > 8192"
  shows "(\<exists>x' s'. xcopy_loop n x s = Ret x' s' \<and> (par4_moved x' \<noteq> 0 \<or> par5_moved x' \<noteq> 0)) \<or>
   (\<exists>f s'. xcopy_loop n x s = Stop (Fault f) s')"
  using assms
proof (induction n arbitrary: x s)
  case 0
  then show ?case by simp
next
  case (Suc n)
  let ?x = "xcopy_cross x"
  let ?y = "?x\<lparr>sbyte := sbyte ?x + 1, dbyte := dbyte ?x + 1, soffset := soffset ?x + 1, doffset := doffset ?x + 1\<rparr>"
  show ?case
  proof (cases "copy_byte (dbyte ?x) (sbyte ?x) s")
    case (Stop e s1)
    with copy_byte_cases [of "dbyte ?x" "sbyte ?x" s] show ?thesis by (auto simp: Let_def)
  next
    case (Ret u s1)
    then have step: "xcopy_loop (Suc n) x s = xcopy_loop n ?y s1" by (simp add: Let_def)
    show ?thesis
    proof (cases "soffset x \<ge> 8192 \<or> doffset x \<ge> 8192")
      case True
      then have "par4_moved ?x \<noteq> 0 \<or> par5_moved ?x \<noteq> 0" by (auto simp: xcopy_cross_def Let_def)
      then show ?thesis using xcopy_loop_cases [of n ?y s1] step by auto
    next
      case False
      then have x: "?x = x" by (simp add: xcopy_cross_def Let_def)
      from False have lt: "unat (soffset x) < 8192" "unat (doffset x) < 8192"
        by (auto simp: word_le_nat_alt not_le)
      then have y: "unat (soffset ?y) = unat (soffset x) + 1" "unat (doffset ?y) = unat (doffset x) + 1"
        unfolding x by (auto simp: unat_inc16)
      have "0 < n" using lt Suc.prems(4) by (cases n) auto
      from Suc.IH [OF this, of ?y s1] y lt Suc.prems(4) step show ?thesis by auto
    qed
  qed
qed

lemma xcopy_move_crosses:
  assumes "n \<noteq> 0" and "unat (srcaddr AND 0x1FFF) + unat n > 8192 \<or> unat (dstaddr AND 0x1FFF) + unat n > 8192"
  shows "\<exists>f s'. xcopy_move dst src dstaddr srcaddr n s = Stop (Fault f) s'"
proof -
  let ?x = "xcopy_start srcaddr dstaddr" and ?s = "xcopy_windows src dst srcaddr dstaddr s"
  have "0 < unat n" using assms(1) by (simp add: unat_gt_0)
  moreover have "unat (soffset ?x) \<le> 8192" "unat (doffset ?x) \<le> 8192"
    "unat (soffset ?x) + unat n > 8192 \<or> unat (doffset ?x) + unat n > 8192"
    using assms(2) low_bits [of srcaddr] low_bits [of dstaddr] by (auto simp: xcopy_start_def)
  ultimately show ?thesis
    using xcopy_loop_crosses [of "unat n" ?x ?s] by (auto simp: xcopy_move_def Let_def)
qed

section \<open>The service\<close>

definition may_copy :: "'d kstate \<Rightarrow> nat \<Rightarrow> nat \<Rightarrow> nat \<Rightarrow> bool" where
  "may_copy s c src dst \<longleftrightarrow>
     (uic (tct s ! src) = uic (tct s ! c) \<or> operprv (tct s ! c) \<or> auditprv (tct s ! c)) \<and>
     (uic (tct s ! dst) = uic (tct s ! c) \<or> operprv (tct s ! c))"

lemma task_ref_ipl [simp]: "task_ref p (s\<lparr>ipl := l\<rparr>) = task_ref p s"
  by (simp add: task_ref_def muxx_findtcb_def)

lemma xcopy_decide:
  assumes "n \<noteq> 0" and "dstpid \<noteq> 0 \<or> srcpid \<noteq> 0"
    and "curtcb s = Some c" "c < length (tct s)"
    and "task_ref srcpid s = Some src" "src < length (tct s)"
    and "task_ref dstpid s = Some dst" "dst < length (tct s)"
  shows "muxx_svc_xcopy dstpid dstaddr srcpid srcaddr n s =
    (if may_copy s c src dst then
       andthen (xcopy_move dst src dstaddr srcaddr n (s\<lparr>ipl := 7\<rparr>)) (\<lambda>_ s'. Ret EOK (setpl (ipl s) s'))
     else Ret ENOPRIV (setpl (ipl s) (s\<lparr>ipl := 7\<rparr>)))"
proof -
  have "(if dstpid = 0 \<and> srcpid = 0 then kernel_memcpy (unat n) dstaddr srcaddr s else Ret () s) = Ret () s"
    using assms(2) by auto
  with assms(1,3-8) show ?thesis
    unfolding muxx_svc_xcopy_def setpl7_def Let_def prod.case
    by (simp add: may_copy_def)
qed

lemma xcopy_denied:
  assumes "n \<noteq> 0" and "dstpid \<noteq> 0 \<or> srcpid \<noteq> 0"
    and "curtcb s = Some c" "c < length (tct s)"
    and "task_ref srcpid s = Some src" "src < length (tct s)"
    and "task_ref dstpid s = Some dst" "dst < length (tct s)"
    and "\<not> may_copy s c src dst" and "ipl s AND 7 = ipl s"
  shows "muxx_svc_xcopy dstpid dstaddr srcpid srcaddr n s = Ret ENOPRIV s"
  using xcopy_decide [OF assms(1-8)] assms(9,10) by (simp add: setpl_def)

lemma xcopy_unknown_pid:
  assumes "n \<noteq> 0" and "srcpid \<noteq> 0" and "muxx_findtcb srcpid s = None"
  shows "\<exists>s'. muxx_svc_xcopy dstpid dstaddr srcpid srcaddr n s = Stop (Fault NullDeref) s'"
proof -
  have "task_ref srcpid (s\<lparr>ipl := 7\<rparr>) = None"
    using assms(2,3) by (simp add: task_ref_def muxx_findtcb_def)
  with assms(1,2) show ?thesis
    by (simp add: muxx_svc_xcopy_def setpl7_def Let_def del: task_ref_ipl)
qed

lemma xcopy_within:
  assumes n: "n \<noteq> 0" and pids: "dstpid \<noteq> 0 \<or> srcpid \<noteq> 0"
    and c: "curtcb s = Some c" "c < length (tct s)"
    and src: "task_ref srcpid s = Some src" "src < length (tct s)"
    and dst: "task_ref dstpid s = Some dst" "dst < length (tct s)"
    and may: "may_copy s c src dst" and ipl: "ipl s AND 7 = ipl s"
    and sb: "upar (mmuState (tct s ! src)) ! page_of srcaddr = spar" "unat spar + 128 \<le> 3968"
    and db: "upar (mmuState (tct s ! dst)) ! page_of dstaddr = dpar" "unat dpar + 128 \<le> 3968"
    and fits: "unat (srcaddr AND 0x1FFF) + unat n \<le> 8192" "unat (dstaddr AND 0x1FFF) + unat n \<le> 8192"
    and len: "length (kpar (mmu s)) = 8" "length (kpdr (mmu s)) = 8"
  shows "muxx_svc_xcopy dstpid dstaddr srcpid srcaddr n s =
    Ret EOK (s\<lparr>phys := fwd_copy (unat n) (unat dpar * 64 + unat (dstaddr AND 0x1FFF))
                         (unat spar * 64 + unat (srcaddr AND 0x1FFF)) (phys s)\<rparr>)"
proof -
  have "xcopy_move dst src dstaddr srcaddr n (s\<lparr>ipl := 7\<rparr>) =
    Ret () (s\<lparr>ipl := 7, phys := fwd_copy (unat n) (unat dpar * 64 + unat (dstaddr AND 0x1FFF))
                         (unat spar * 64 + unat (srcaddr AND 0x1FFF)) (phys s)\<rparr>)"
    using xcopy_move_window [where s = "s\<lparr>ipl := 7\<rparr>", OF refl refl _ sb(2) _ db(2) fits]
      sb(1) db(1) len by simp
  then show ?thesis
    using xcopy_decide [OF n pids c src dst] may ipl by (simp add: setpl_def)
qed

text \<open>
  The windows give access to a page whatever the descriptor of the task allows. So a task that names
  itself as the destination writes into the kernel, which every task has in its pages 0 to 2.
\<close>

lemma xcopy_reaches_kernel:
  assumes c: "curtcb s = Some c" "c < length (tct s)" "muxx_findtcb (pid (tct s ! c)) s = Some c"
    "pid (tct s ! c) \<noteq> 0" and ipl: "ipl s AND 7 = ipl s"
    and dst: "upar (mmuState (tct s ! c)) ! page_of dstaddr = 128 * of_nat (page_of dstaddr)" "dstaddr < 0x6000"
    and src: "unat (upar (mmuState (tct s ! c)) ! page_of srcaddr) + 128 \<le> 3968"
    and len: "length (kpar (mmu s)) = 8" "length (kpdr (mmu s)) = 8"
  shows "\<exists>s'. muxx_svc_xcopy (pid (tct s ! c)) dstaddr 0 srcaddr 1 s = Ret EOK s' \<and>
    phys s' (unat dstaddr) = phys s (unat (upar (mmuState (tct s ! c)) ! page_of srcaddr) * 64 + unat (srcaddr AND 0x1FFF))"
proof -
  have "unat dstaddr < 0x6000" using dst(2) by (simp add: word_less_nat_alt)
  have addr: "unat dstaddr = page_of dstaddr * 8192 + unat (dstaddr AND 0x1FFF)" by (rule page_split)
  with \<open>unat dstaddr < 0x6000\<close> have pg: "page_of dstaddr < 3" by simp
  then have d: "unat (128 * of_nat (page_of dstaddr) :: u16) = 128 * page_of dstaddr"
    by (simp add: unat_word_ariths unat_of_nat)
  have n: "unat (1 :: u16) = 1" by simp
  have offs: "unat (srcaddr AND 0x1FFF) + unat (1 :: u16) \<le> 8192" "unat (dstaddr AND 0x1FFF) + unat (1 :: u16) \<le> 8192"
    using low_bits [of srcaddr] low_bits [of dstaddr] by simp_all
  have "muxx_svc_xcopy (pid (tct s ! c)) dstaddr 0 srcaddr 1 s =
    Ret EOK (s\<lparr>phys := fwd_copy (unat (1 :: u16)) (unat (128 * of_nat (page_of dstaddr) :: u16) * 64 + unat (dstaddr AND 0x1FFF))
        (unat (upar (mmuState (tct s ! c)) ! page_of srcaddr) * 64 + unat (srcaddr AND 0x1FFF)) (phys s)\<rparr>)"
    by (rule xcopy_within [where c = c and src = c and dst = c])
      (use c ipl dst src len d pg offs in \<open>simp_all add: task_ref_def may_copy_def\<close>)
  then show ?thesis using d addr by simp
qed

lemma xcopy_crossing:
  assumes n: "n \<noteq> 0" and pids: "dstpid \<noteq> 0 \<or> srcpid \<noteq> 0"
    and c: "curtcb s = Some c" "c < length (tct s)"
    and src: "task_ref srcpid s = Some src" "src < length (tct s)"
    and dst: "task_ref dstpid s = Some dst" "dst < length (tct s)"
    and may: "may_copy s c src dst"
    and crosses: "unat (srcaddr AND 0x1FFF) + unat n > 8192 \<or> unat (dstaddr AND 0x1FFF) + unat n > 8192"
  shows "\<exists>f s'. muxx_svc_xcopy dstpid dstaddr srcpid srcaddr n s = Stop (Fault f) s'"
  using xcopy_decide [OF n pids c src dst] may
    xcopy_move_crosses [OF n crosses, of dst src "s\<lparr>ipl := 7\<rparr>"] by auto

section \<open>What the protection service changes\<close>

lemma protmem_spec:
  assumes c: "curtcb s = Some c" "c < length (tct s)"
    and prot: "prot = PDR_ACC_RW \<or> prot = PDR_ACC_RO \<or> prot = PDR_ACC_NA" and page: "page \<le> 7"
    and t: "task_ref p s = Some t" "t < length (tct s)" "updr (mmuState (tct s ! t)) = pdrs" "length pdrs = 8"
    and v: "v = (pdrs ! unat page AND 0xFFF8) OR prot"
  shows "muxx_svc_protmem p page prot s =
    (if operprv (tct s ! c) \<or> (p = 0 \<or> p = pid (tct s ! c)) \<and> page > 2 then
       Ret EOK ((upd_tcb t (set_prot (unat page) prot) s)
         \<lparr>mmu := (mmu s)\<lparr>updr := (updr (mmu s))[unat page := v], kpdr := (kpdr (mmu s))[unat page := v]\<rparr>\<rparr>)
     else Ret ENOPRIV s)"
proof -
  have pg: "\<not> page > 7" "unat page < 8" using page by (auto simp: word_le_nat_alt not_less)
  let ?s = "upd_tcb t (set_prot (unat page) prot) s"
  have "updr (mmuState (tct ?s ! t)) ! unat page = v" and "mmu ?s = mmu s"
    using t pg(2) v by (simp_all add: upd_tcb_def set_prot_def Let_def)
  then show ?thesis
    using c prot t(1,2) pg(1) by (auto simp: muxx_svc_protmem_def Let_def not_less not_le)
qed

text \<open>The access field of the new descriptor is the requested one, the rest is kept.\<close>

lemma prot_bits:
  fixes v prot :: u16
  assumes "prot = PDR_ACC_RW \<or> prot = PDR_ACC_RO \<or> prot = PDR_ACC_NA"
  shows "page_acf ((v AND 0xFFF8) OR prot) = prot"
    and "page_plf ((v AND 0xFFF8) OR prot) = page_plf v"
    and "page_down ((v AND 0xFFF8) OR prot) = page_down v"
  using assms
  by (auto simp: pdr_defs bit.conj_disj_distrib2 and.assoc bit_and_iff bit_or_iff)

end
