(* ===== verification/Muxx_Process.thy ===== *)
theory Muxx_Process
  imports Muxx_Memory Muxx_Sched Muxx_Xcopy
begin

text \<open>
  Process creation: \<open>kernel/muxx_creprc.c\<close>. A new task gets a slot, an address space and a place at
  the end of the ready queue. \<open>system_inv\<close> is the invariant of the whole kernel state across the
  task table, the memory table and the scheduler.
\<close>

section \<open>The services\<close>

text \<open>\<open>muxx_setup_taskmem(newTask)\<close> works on one TCB and the memory table.\<close>

definition setup_task :: "nat \<Rightarrow> 'd kstate \<Rightarrow> (int, 'd kstate) outcome" where
  "setup_task i s =
     (case muxx_setup_taskmem (tct s ! i, mcbt s) of
        Ret rc (t, m) \<Rightarrow> Ret rc (s\<lparr>tct := (tct s)[i := t], mcbt := m\<rparr>)
      | Stop e (t, m) \<Rightarrow> Stop e (s\<lparr>tct := (tct s)[i := t], mcbt := m\<rparr>))"

text \<open>The address of a table element at a signed index, which may lie before the table.\<close>

definition tct_at ::
  "int \<Rightarrow> 'd kstate \<Rightarrow> (nat \<Rightarrow> ('a, 'd kstate) outcome) \<Rightarrow> ('a, 'd kstate) outcome" where
  "tct_at i s k = (if i < 0 then Stop (Fault WildPointer) s else at_ptr (tct s) (Some (nat i)) s k)"

definition muxx_svc_creprc ::
  "string \<Rightarrow> u16 \<Rightarrow> u16 \<Rightarrow> u16 \<Rightarrow> 'd kstate \<Rightarrow> (int, 'd kstate) outcome" where
  "muxx_svc_creprc name type entry privs s =
     at_ptr (tct s) (curtcb s) s (\<lambda>c.
       andthen (muxx_taskinit type (pid (tct s ! c)) entry privs s) (\<lambda>pididx s.
       tct_at pididx s (\<lambda>i.
         andthen (setup_task i (upd_tcb i (\<lambda>t. t\<lparr>taskname := take 8 name\<rparr>) s)) (\<lambda>rc s.
           if rc \<noteq> EOK then Ret (- 1) s
           else andthen (on_readyq (muxx_qAddTask (Some i)) s) (\<lambda>_ s.
                  Ret (uint (pid (tct s ! i))) s)))))"

text \<open>
  \<open>shellproc\<close> is the link address of the remote shell; \<open>file\<close> the address of the file name in the
  caller's space and \<open>len\<close> its \<open>strlen\<close>.
\<close>

definition muxx_svc_loadprc ::
  "u16 \<Rightarrow> string \<Rightarrow> u16 \<Rightarrow> u16 \<Rightarrow> u16 \<Rightarrow> u16 \<Rightarrow> 'd kstate \<Rightarrow> (int, 'd kstate) outcome" where
  "muxx_svc_loadprc shellproc name type file len privs s =
     at_ptr (tct s) (curtcb s) s (\<lambda>c.
       andthen (muxx_taskinit type (pid (tct s ! c)) shellproc privs s) (\<lambda>pididx s.
       tct_at pididx s (\<lambda>i.
         andthen (setup_task i (upd_tcb i (\<lambda>t. t\<lparr>taskname := take 8 name\<rparr>) s)) (\<lambda>rc s.
           if rc \<noteq> EOK then Ret (- 1) s
           else andthen (muxx_svc_xcopy (pid (tct s ! i)) TASK_BASE (pid (tct s ! c)) file len s) (\<lambda>rc s.
                  if rc \<ge> 0 then
                    andthen (on_readyq (muxx_qAddTask (Some i)) s) (\<lambda>_ s.
                      Ret (uint (pid (tct s ! i))) s)
                  else Stop (Panic ''Abort creating task - LOADPRC'') s)))))"

section \<open>The invariant of the system\<close>

definition system_inv :: "nat \<Rightarrow> nat \<Rightarrow> nat list \<Rightarrow> nat list \<Rightarrow> 'd kstate \<Rightarrow> bool" where
  "system_inv k c rs ss s \<longleftrightarrow>
     tasks_inv k s \<and> mem_inv (mcbt s) \<and> sched_rep s c rs ss \<and> set (c # rs @ ss) \<subseteq> {..<k}"

text \<open>Changing the TCB of a task that is in no queue.\<close>

lemma ready_rep_outside:
  assumes "ready_rep s rs ss" and "i \<notin> set rs" and "i \<notin> set ss"
    and "tct s' = (tct s)[i := t]" and "readyq s' = readyq s" and "suspq s' = suspq s"
  shows "ready_rep s' rs ss"
proof -
  have same: "tct s' ! x = tct s ! x" if "x \<noteq> i" for x using that assms(4) by simp
  have "queue_of (tct s') q xs" if "queue_of (tct s) q xs" "i \<notin> set xs" for q xs
  proof (rule queue_of_cong [OF that(1)])
    show "nextInQueue (tct s' ! x) = nextInQueue (tct s ! x) \<and> prevInQueue (tct s' ! x) = prevInQueue (tct s ! x)"
      if "x \<in> set xs" for x
      using same [of x] that \<open>i \<notin> set xs\<close> by (cases "x = i") simp_all
  qed (simp add: assms(4))
  moreover have "tct s' ! x = tct s ! x" if "x \<in> set rs \<union> set ss" for x
    using same [of x] that assms(2,3) by (cases "x = i") auto
  ultimately show ?thesis using assms by (auto simp: ready_rep_def)
qed

lemma sched_rep_outside:
  assumes "sched_rep s c rs ss" and "i \<notin> set rs" and "i \<notin> set ss" and "i \<noteq> c"
    and "tct s' = (tct s)[i := t]" and "readyq s' = readyq s" and "suspq s' = suspq s"
    and "curtcb s' = curtcb s"
  shows "sched_rep s' c rs ss"
  using assms ready_rep_outside [of s rs ss i s' t] by (auto simp: sched_rep_def nth_list_update)

text \<open>Setting up the address space touches the MMU state and the TUCB address only.\<close>

definition no_mmu :: "tcb \<Rightarrow> tcb" where
  "no_mmu t = t\<lparr>mmuState := zero_mmustate, taskTUCB := 0\<rparr>"

lemma no_mmu_setters [simp]:
  "no_mmu (set_page p ar dr t) = no_mmu t" "no_mmu (set_upage p ar dr t) = no_mmu t"
  "no_mmu (set_kpage p ar dr t) = no_mmu t" "no_mmu (t\<lparr>taskTUCB := u\<rparr>) = no_mmu t"
  by (simp_all add: no_mmu_def set_page_def set_upage_def set_kpage_def)

lemma no_mmu_image [simp]: "no_mmu (task_image t b) = no_mmu t"
proof -
  have "no_mmu (pages_image ps b t) = no_mmu t" for ps b t
    by (induction ps b t rule: pages_image.induct) simp_all
  moreover have "no_mmu (setup_common t) = no_mmu t" "no_mmu (setup_iospace t) = no_mmu t" for t
    by (simp_all add: setup_common_def setup_iospace_def Let_def)
  ultimately show ?thesis by (simp add: task_image_def rest_image_def Let_def)
qed

lemma no_mmu_eq:
  assumes "no_mmu t' = no_mmu t"
  shows "pid t' = pid t" "status t' = status t" "cpuState t' = cpuState t" "uic t' = uic t"
    "taskType t' = taskType t" "prvword t' = prvword t" "taskname t' = taskname t" "ppid t' = ppid t"
  using arg_cong [OF assms, of pid] arg_cong [OF assms, of status] arg_cong [OF assms, of cpuState]
    arg_cong [OF assms, of uic] arg_cong [OF assms, of taskType] arg_cong [OF assms, of prvword]
    arg_cong [OF assms, of taskname] arg_cong [OF assms, of ppid]
  by (simp_all add: no_mmu_def)

lemmas task_image_fields [simp] = no_mmu_eq [OF no_mmu_image]

section \<open>Creating a process\<close>

text \<open>The TCB of the new task, and the state before it enters the ready queue.\<close>

definition born :: "string \<Rightarrow> u16 \<Rightarrow> u16 \<Rightarrow> u16 \<Rightarrow> u16 \<Rightarrow> u16 \<Rightarrow> nat \<Rightarrow> tcb \<Rightarrow> tcb" where
  "born name p type parent entry privs b t =
     task_image ((new_tcb p type parent entry privs t)\<lparr>taskname := take 8 name\<rparr>) b"

lemma new_tcb_fields [simp]:
  "pid (new_tcb p type parent entry privs t) = p" "taskType (new_tcb p type parent entry privs t) = type"
  "prvword (new_tcb p type parent entry privs t) = privs" "uic (new_tcb p type parent entry privs t) = 0"
  "status (new_tcb p type parent entry privs t) = TSK_INIT"
  "ppid (new_tcb p type parent entry privs t) = parent"
  "mmuState (new_tcb p type parent entry privs t) = zero_mmustate"
  by (simp_all add: new_tcb_def muxx_tcbinit_def Let_def)

lemma born_fields [simp]:
  "pid (born name p type parent entry privs b t) = p"
  "status (born name p type parent entry privs b t) = TSK_INIT"
  "taskType (born name p type parent entry privs b t) = type"
  "prvword (born name p type parent entry privs b t) = privs"
  "ppid (born name p type parent entry privs b t) = parent"
  "taskname (born name p type parent entry privs b t) = take 8 name"
  "uic (born name p type parent entry privs b t) = 0"
  by (simp_all add: born_def)

definition can_host :: "u16 \<Rightarrow> mmcbt \<Rightarrow> bool" where
  "can_host type m \<longleftrightarrow> check_tasktype type \<and>
     task_blocks type \<le> free_room m \<and> task_entries type \<le> free_mcbs m"

lemma given_good_owner:
  assumes "tasks_inv k s"
  shows "fresh_pid type s \<noteq> 0" and "fresh_pid type s \<noteq> - 1"
proof -
  show "fresh_pid type s \<noteq> 0" by (rule fresh_pid_props(1) [OF assms])
  note u = tasks_inv_unat [OF assms]
  have "unat (fresh_pid type s) < 81"
    using u by (cases "topupid s = 0") (auto simp: fresh_pid_def)
  moreover have "unat (- 1 :: u16) = 65535" by (simp add: unsigned_minus_1_eq_mask mask_eq_exp_minus_1)
  ultimately show "fresh_pid type s \<noteq> - 1" by auto
qed

lemma setup_task_ok:
  assumes inv: "mem_inv (mcbt s)" and host: "can_host (taskType t) (mcbt s)"
    and i: "i < length (tct s)" "tct s ! i = t" and own: "good_owner t"
  shows "\<exists>m'. setup_task i s = Ret EOK (s\<lparr>tct := (tct s)[i := task_image t (free_base (mcbt s))], mcbt := m'\<rparr>) \<and>
    mem_inv m' \<and> free_base m' = free_base (mcbt s) + task_blocks (taskType t) \<and>
    free_room m' = free_room (mcbt s) - task_blocks (taskType t) \<and>
    free_mcbs m' = free_mcbs (mcbt s) - task_entries (taskType t) \<and> mem_used m'"
proof -
  have e: "0 < task_entries (taskType t)" by (simp add: task_entries_def)
  from setup_taskmem_allocs [OF inv own, of] host e obtain m' where
    "muxx_setup_taskmem (t, mcbt s) = Ret EOK (task_image t (free_base (mcbt s)), m')" "mem_inv m'"
    "free_base m' = free_base (mcbt s) + task_blocks (taskType t)"
    "free_room m' = free_room (mcbt s) - task_blocks (taskType t)"
    "free_mcbs m' = free_mcbs (mcbt s) - task_entries (taskType t)" "mem_used m'"
    by (auto simp: can_host_def allocs_def)
  with i show ?thesis by (auto simp: setup_task_def)
qed

lemma tasks_inv_same_pids:
  assumes inv: "tasks_inv k s" and len: "length (tct s') = length (tct s)"
    and pids: "\<And>i. i < MAX_TASKS \<Longrightarrow> pid (tct s' ! i) = pid (tct s ! i)"
    and rest: "curtasks s' = curtasks s" "minspid s' = minspid s" "maxspid s' = maxspid s"
      "minupid s' = minupid s" "maxupid s' = maxupid s" "topspid s' = topspid s" "topupid s' = topupid s"
  shows "tasks_inv k s'"
proof -
  have "pid_given s' = pid_given s" using rest by (simp add: pid_given_def fun_eq_iff)
  moreover have "k \<le> MAX_TASKS" using inv by (simp add: tasks_inv_def)
  ultimately show ?thesis
    using inv len pids rest by (auto simp: tasks_inv_def slot_used_def)
qed

text \<open>The slot filled and named, before its memory is set up.\<close>

definition named :: "nat \<Rightarrow> string \<Rightarrow> u16 \<Rightarrow> u16 \<Rightarrow> u16 \<Rightarrow> u16 \<Rightarrow> 'd kstate \<Rightarrow> 'd kstate" where
  "named k name type parent entry privs s =
     upd_tcb k (\<lambda>t. t\<lparr>taskname := take 8 name\<rparr>) (created k type parent entry privs s)"

lemma named_fields:
  "tct (named k name type parent entry privs s) =
     (tct s)[k := (new_tcb (fresh_pid type s) type parent entry privs (tct s ! k))\<lparr>taskname := take 8 name\<rparr>]"
  "readyq (named k name type parent entry privs s) = readyq s"
  "suspq (named k name type parent entry privs s) = suspq s"
  "curtcb (named k name type parent entry privs s) = curtcb s"
  "mcbt (named k name type parent entry privs s) = mcbt s"
proof -
  show "tct (named k name type parent entry privs s) =
     (tct s)[k := (new_tcb (fresh_pid type s) type parent entry privs (tct s ! k))\<lparr>taskname := take 8 name\<rparr>]"
    by (cases "k < length (tct s)")
      (simp_all add: named_def upd_tcb_def created_tct list_update_beyond)
qed (simp_all add: named_def, simp_all add: upd_tcb_def)

lemma named_inv:
  assumes inv: "tasks_inv k s" and k: "k < MAX_TASKS"
  shows "tasks_inv (Suc k) (named k name type parent entry privs s)"
proof (rule tasks_inv_same_pids [OF created_inv [OF inv k]])
  let ?c = "created k type parent entry privs s"
  have "k < length (tct ?c)" using inv k by (simp add: created_tct tasks_inv_def)
  then show "pid (tct (named k name type parent entry privs s) ! i) = pid (tct ?c ! i)" for i
    by (cases "i = k") (simp_all add: named_def upd_tcb_def)
qed (simp_all add: named_def upd_tcb_def)

lemma creprc_enter:
  assumes inv: "system_inv k c rs ss s" and k: "k < MAX_TASKS"
  shows "muxx_svc_creprc name type entry privs s =
    andthen (setup_task k (named k name type (pid (tct s ! c)) entry privs s)) (\<lambda>rc s.
      if rc \<noteq> EOK then Ret (- 1) s
      else andthen (on_readyq (muxx_qAddTask (Some k)) s) (\<lambda>_ s. Ret (uint (pid (tct s ! k))) s))"
proof -
  from inv have c: "curtcb s = Some c" "c < length (tct s)" and ti: "tasks_inv k s" and
    len: "length (tct s) = MAX_TASKS"
    by (auto simp: system_inv_def sched_rep_def ready_rep_def)
  then have "k < length (tct (created k type (pid (tct s ! c)) entry privs s))"
    using k by (simp add: created_tct)
  with taskinit_next [OF ti k, of type "pid (tct s ! c)" entry privs] c show ?thesis
    by (simp add: muxx_svc_creprc_def tct_at_def named_def)
qed

text \<open>Creating a process leaves the devices, channels, mutexes and the processor alone.\<close>

definition same_frame :: "'d kstate \<Rightarrow> 'd kstate \<Rightarrow> bool" where
  "same_frame s s' \<longleftrightarrow>
     drvt s' = drvt s \<and> chnt s' = chnt s \<and> mutexes s' = mutexes s \<and> ipl s' = ipl s \<and>
     cpu s' = cpu s \<and> mmu s' = mmu s \<and> phys s' = phys s \<and> dev s' = dev s \<and> tucbs s' = tucbs s \<and>
     clkcountdown s' = clkcountdown s \<and> clkquantum s' = clkquantum s"

lemma same_frame_trans: "same_frame s t \<Longrightarrow> same_frame t u \<Longrightarrow> same_frame s u"
  by (simp add: same_frame_def)

text \<open>The new task before it enters the ready queue.\<close>

lemma new_task_set_up:
  fixes name :: string and type entry privs :: u16
  assumes inv: "system_inv k c rs ss s" and k: "k < MAX_TASKS" and host: "can_host type (mcbt s)"
  defines "b \<equiv> born name (fresh_pid type s) type (pid (tct s ! c)) entry privs (free_base (mcbt s)) (tct s ! k)"
  obtains s2 where
    "setup_task k (named k name type (pid (tct s ! c)) entry privs s) = Ret EOK s2"
    "tct s2 = (tct s)[k := b]" "curtcb s2 = curtcb s" "sched_rep s2 c rs ss" "tasks_inv (Suc k) s2"
    "mem_inv (mcbt s2)" "is_ready (tct s2 ! k)" "same_frame s s2"
    "free_base (mcbt s2) = free_base (mcbt s) + task_blocks type"
    "free_room (mcbt s2) = free_room (mcbt s) - task_blocks type"
    "free_mcbs (mcbt s2) = free_mcbs (mcbt s) - task_entries type" "mem_used (mcbt s2)"
proof -
  let ?parent = "pid (tct s ! c)"
  let ?t = "(new_tcb (fresh_pid type s) type ?parent entry privs (tct s ! k))\<lparr>taskname := take 8 name\<rparr>"
  let ?s1 = "named k name type ?parent entry privs s"
  from inv have ti: "tasks_inv k s" and mi: "mem_inv (mcbt s)" and sr: "sched_rep s c rs ss" and
    sub: "set (c # rs @ ss) \<subseteq> {..<k}" and len: "length (tct s) = MAX_TASKS"
    by (auto simp: system_inv_def sched_rep_def ready_rep_def)
  from sub have out: "k \<notin> set rs" "k \<notin> set ss" "k \<noteq> c" by auto
  have t1: "tct ?s1 ! k = ?t" "k < length (tct ?s1)" "mcbt ?s1 = mcbt s" "taskType ?t = type"
    using k len by (simp_all add: named_fields)
  have "good_owner ?t" using given_good_owner [OF ti, of type] by (simp add: good_owner_def)
  from setup_task_ok [of ?s1, OF _ _ t1(2,1) this] mi host t1 obtain m' where
    st: "setup_task k ?s1 = Ret EOK (?s1\<lparr>tct := (tct ?s1)[k := b], mcbt := m'\<rparr>)" "mem_inv m'"
      "free_base m' = free_base (mcbt s) + task_blocks type"
      "free_room m' = free_room (mcbt s) - task_blocks type"
      "free_mcbs m' = free_mcbs (mcbt s) - task_entries type" "mem_used m'"
    by (auto simp: born_def b_def)
  let ?s2 = "?s1\<lparr>tct := (tct ?s1)[k := b], mcbt := m'\<rparr>"
  have tct2: "tct ?s2 = (tct s)[k := b]" by (simp add: named_fields)
  have sr2: "sched_rep ?s2 c rs ss"
    by (rule sched_rep_outside [OF sr out tct2]) (simp_all add: named_fields)
  have ti2: "tasks_inv (Suc k) ?s2"
  proof (rule tasks_inv_same_pids [OF named_inv [OF ti k]])
    show "pid (tct ?s2 ! i) = pid (tct ?s1 ! i)" for i
      using len k by (cases "i = k") (simp_all add: named_fields b_def)
  qed simp_all
  have "is_ready (tct ?s2 ! k)" unfolding tct2 using k len by (simp add: is_ready_def b_def)
  moreover have "same_frame s ?s2"
    by (simp add: same_frame_def named_def created_def given_state_def upd_tcb_def)
  ultimately show thesis
    using st sr2 ti2 tct2 by (intro that [of ?s2]) (simp_all add: named_fields)
qed

lemma new_task_enters:
  assumes sr: "sched_rep s c rs ss" and ti: "tasks_inv (Suc k) s" and mi: "mem_inv (mcbt s)"
    and sub: "set (c # rs @ ss) \<subseteq> {..<k}" and k: "k < MAX_TASKS" and rdy: "is_ready (tct s ! k)"
  obtains s' where
    "on_readyq (muxx_qAddTask (Some k)) s = Ret () s'" "system_inv (Suc k) c (rs @ [k]) ss s'"
    "map unlinked (tct s') = map unlinked (tct s)" "mcbt s' = mcbt s" "same_frame s s'"
    "pid (tct s' ! k) = pid (tct s ! k)" "phys s' = phys s"
proof -
  from sub have out: "k \<notin> set rs" "k \<notin> set ss" "k \<noteq> c" by auto
  have len: "length (tct s) = MAX_TASKS" and "ready_rep s rs ss"
    using sr by (auto simp: sched_rep_def ready_rep_def)
  from enqueue_rep [OF this(2) k out(1,2) rdy] obtain q ts where
    en: "on_readyq (muxx_qAddTask (Some k)) s = Ret () (s\<lparr>readyq := q, tct := ts\<rparr>)" and
    rr: "ready_rep (s\<lparr>readyq := q, tct := ts\<rparr>) (rs @ [k]) ss" and
    ul: "map unlinked ts = map unlinked (tct s)" by blast
  note u = unlinked_same [OF ul]
  let ?s3 = "s\<lparr>readyq := q, tct := ts\<rparr>"
  have up: "pid (ts ! i) = pid (tct s ! i)" if "i < MAX_TASKS" for i
    using arg_cong [OF ul, of "\<lambda>xs. pid (xs ! i)"] that u(1) len by (simp add: unlinked_def)
  have "tasks_inv (Suc k) ?s3"
    by (rule tasks_inv_same_pids [OF ti]) (use up u(1) in simp_all)
  moreover have "sched_rep ?s3 c (rs @ [k]) ss"
    using rr sr out u(4) [of c] len by (auto simp: sched_rep_def)
  moreover have "set (c # (rs @ [k]) @ ss) \<subseteq> {..<Suc k}" using sub by auto
  ultimately have "system_inv (Suc k) c (rs @ [k]) ss ?s3" using mi by (simp add: system_inv_def)
  then show thesis
    using en ul up [OF k] by (intro that [of ?s3]) (simp_all add: same_frame_def)
qed

lemma creprc_ok:
  assumes inv: "system_inv k c rs ss s" and k: "k < MAX_TASKS" and host: "can_host type (mcbt s)"
  shows "\<exists>s'. muxx_svc_creprc name type entry privs s = Ret (uint (fresh_pid type s)) s' \<and>
    system_inv (Suc k) c (rs @ [k]) ss s' \<and>
    map unlinked (tct s') = map unlinked ((tct s)[k :=
      born name (fresh_pid type s) type (pid (tct s ! c)) entry privs (free_base (mcbt s)) (tct s ! k)]) \<and>
    free_base (mcbt s') = free_base (mcbt s) + task_blocks type \<and>
    free_room (mcbt s') = free_room (mcbt s) - task_blocks type \<and>
    free_mcbs (mcbt s') = free_mcbs (mcbt s) - task_entries type \<and> mem_used (mcbt s') \<and>
    same_frame s s'"
proof -
  obtain s2 where s2: "setup_task k (named k name type (pid (tct s ! c)) entry privs s) = Ret EOK s2"
    "tct s2 = (tct s)[k :=
      born name (fresh_pid type s) type (pid (tct s ! c)) entry privs (free_base (mcbt s)) (tct s ! k)]"
    "sched_rep s2 c rs ss" "tasks_inv (Suc k) s2" "mem_inv (mcbt s2)" "is_ready (tct s2 ! k)" "same_frame s s2"
    "free_base (mcbt s2) = free_base (mcbt s) + task_blocks type"
    "free_room (mcbt s2) = free_room (mcbt s) - task_blocks type"
    "free_mcbs (mcbt s2) = free_mcbs (mcbt s) - task_entries type" "mem_used (mcbt s2)"
    using new_task_set_up [OF assms, of name entry privs] by metis
  have sub: "set (c # rs @ ss) \<subseteq> {..<k}" and len: "k < length (tct s)"
    using inv k by (auto simp: system_inv_def sched_rep_def ready_rep_def)
  obtain s3 where s3: "on_readyq (muxx_qAddTask (Some k)) s2 = Ret () s3"
    "system_inv (Suc k) c (rs @ [k]) ss s3" "map unlinked (tct s3) = map unlinked (tct s2)"
    "mcbt s3 = mcbt s2" "same_frame s2 s3" "pid (tct s3 ! k) = pid (tct s2 ! k)"
    using new_task_enters [OF s2(3-5) sub k s2(6)] by metis
  have "muxx_svc_creprc name type entry privs s = Ret (uint (fresh_pid type s)) s3"
    using creprc_enter [OF inv k] s2(1,2) s3(1,6) len by simp
  then show ?thesis
    using s2 s3 same_frame_trans [OF s2(7) s3(5)] by auto
qed

section \<open>Creating a process that loads a program\<close>

lemma loadprc_enter:
  assumes inv: "system_inv k c rs ss s" and k: "k < MAX_TASKS"
  shows "muxx_svc_loadprc shellproc name type file len privs s =
    andthen (setup_task k (named k name type (pid (tct s ! c)) shellproc privs s)) (\<lambda>rc s.
      if rc \<noteq> EOK then Ret (- 1) s
      else andthen (muxx_svc_xcopy (pid (tct s ! k)) TASK_BASE (pid (tct s ! c)) file len s) (\<lambda>rc s.
        if rc \<ge> 0 then andthen (on_readyq (muxx_qAddTask (Some k)) s) (\<lambda>_ s. Ret (uint (pid (tct s ! k))) s)
        else Stop (Panic ''Abort creating task - LOADPRC'') s))"
proof -
  from inv have c: "curtcb s = Some c" "c < length (tct s)" and ti: "tasks_inv k s" and
    len: "length (tct s) = MAX_TASKS"
    by (auto simp: system_inv_def sched_rep_def ready_rep_def)
  then have "k < length (tct (created k type (pid (tct s ! c)) shellproc privs s))"
    using k by (simp add: created_tct)
  with taskinit_next [OF ti k, of type "pid (tct s ! c)" shellproc privs] c show ?thesis
    by (simp add: muxx_svc_loadprc_def tct_at_def named_def)
qed

text \<open>\<open>TASK_BASE\<close> is the start of page 3, which a new task has its first own blocks at.\<close>

lemma task_base_page: "page_of TASK_BASE = 3" "unat (TASK_BASE AND 0x1FFF :: u16) = 0"
  by (simp_all add: page_of_def)

lemma born_page_3: "upar (mmuState (born name p type parent entry privs b t)) ! 3 = of_nat b"
  by (simp add: born_def task_image_regs image_upar_def Let_def)

lemma born_entry: "cs_pc (cpuState (born name p type parent entry privs b t)) = entry"
  by (simp add: born_def new_tcb_def Let_def)

lemma unlinked_nth:
  assumes "map unlinked ts' = map unlinked ts" and "i < length ts"
  shows "cpuState (ts' ! i) = cpuState (ts ! i)" "mmuState (ts' ! i) = mmuState (ts ! i)"
    "taskname (ts' ! i) = taskname (ts ! i)"
proof -
  have len: "length ts' = length ts" using unlinked_same(1) [OF assms(1)] .
  then show "taskname (ts' ! i) = taskname (ts ! i)"
    using arg_cong [OF assms(1), of "\<lambda>xs. taskname (xs ! i)"] assms(2) by (simp add: unlinked_def)
qed (use unlinked_same [OF assms(1)] assms(2) in auto)

lemma sched_rep_phys: "sched_rep (s\<lparr>phys := m\<rparr>) c rs ss = sched_rep s c rs ss"
  by (simp add: sched_rep_def ready_rep_def)

lemma tasks_inv_phys: "tasks_inv k (s\<lparr>phys := m\<rparr>) = tasks_inv k s"
  by (simp add: tasks_inv_def pid_given_def)

text \<open>The bytes \<open>a ..< a + n\<close> of the memory copied to \<open>b\<close>.\<close>

definition phys_copied :: "nat \<Rightarrow> nat \<Rightarrow> nat \<Rightarrow> (nat \<Rightarrow> u8) \<Rightarrow> nat \<Rightarrow> u8" where
  "phys_copied n b a m = (\<lambda>x. if b \<le> x \<and> x < b + n then m (a + (x - b)) else m x)"

lemma loadprc_ok:
  assumes inv: "system_inv k c rs ss s" and k: "k < MAX_TASKS" and host: "can_host type (mcbt s)"
    and cur: "uic (tct s ! c) = 0 \<or> operprv (tct s ! c)" and ipl: "ipl s AND 7 = ipl s" and n: "len \<noteq> 0"
    and sb: "upar (mmuState (tct s ! c)) ! page_of file = spar" "unat spar + 128 \<le> 3968"
    and db: "free_base (mcbt s) + 128 \<le> 3968"
    and fits: "unat (file AND 0x1FFF) + unat len \<le> 8192"
    and regs: "length (kpar (mmu s)) = 8" "length (kpdr (mmu s)) = 8"
    and a: "a = unat spar * 64 + unat (file AND 0x1FFF)"
    and b: "b = free_base (mcbt s) * 64" and apart: "b \<le> a \<or> a + unat len \<le> b"
  shows "\<exists>s'. muxx_svc_loadprc shellproc name type file len privs s = Ret (uint (fresh_pid type s)) s' \<and>
    system_inv (Suc k) c (rs @ [k]) ss s' \<and> phys s' = phys_copied (unat len) b a (phys s) \<and>
    map unlinked (tct s') = map unlinked ((tct s)[k :=
      born name (fresh_pid type s) type (pid (tct s ! c)) shellproc privs (free_base (mcbt s)) (tct s ! k)]) \<and>
    free_base (mcbt s') = free_base (mcbt s) + task_blocks type \<and>
    free_room (mcbt s') = free_room (mcbt s) - task_blocks type \<and>
    free_mcbs (mcbt s') = free_mcbs (mcbt s) - task_entries type \<and>
    same_frame (s\<lparr>phys := phys s'\<rparr>) s'"
proof -
  let ?b = "born name (fresh_pid type s) type (pid (tct s ! c)) shellproc privs (free_base (mcbt s)) (tct s ! k)"
  obtain s2 where s2: "setup_task k (named k name type (pid (tct s ! c)) shellproc privs s) = Ret EOK s2"
    "tct s2 = (tct s)[k := ?b]" "curtcb s2 = curtcb s"
    "sched_rep s2 c rs ss" "tasks_inv (Suc k) s2" "mem_inv (mcbt s2)" "is_ready (tct s2 ! k)" "same_frame s s2"
    "free_base (mcbt s2) = free_base (mcbt s) + task_blocks type"
    "free_room (mcbt s2) = free_room (mcbt s) - task_blocks type"
    "free_mcbs (mcbt s2) = free_mcbs (mcbt s) - task_entries type"
    using new_task_set_up [OF inv k host, of name shellproc privs] by metis
  have sub: "set (c # rs @ ss) \<subseteq> {..<k}" and len: "k < length (tct s)" "c < length (tct s)" "c < k"
    and c: "curtcb s = Some c"
    using inv k by (auto simp: system_inv_def sched_rep_def ready_rep_def)
  have t: "tct s2 ! k = ?b" "tct s2 ! c = tct s ! c"
    using len s2(2) by simp_all
  have pids: "pid (tct s2 ! k) \<noteq> 0" "pid (tct s2 ! c) \<noteq> 0"
    using s2(5) len(3) k by (auto simp: tasks_inv_def slot_used_def)
  have refs: "task_ref (pid (tct s2 ! k)) s2 = Some k" "task_ref (pid (tct s2 ! c)) s2 = Some c"
    using findtcb_unique [OF s2(5), of k] findtcb_unique [OF s2(5), of c] pids len(3)
    by (simp_all add: task_ref_def)
  have frame: "mmu s2 = mmu s" "phys s2 = phys s" "ipl s2 = ipl s"
    using s2(8) by (simp_all add: same_frame_def)
  have dpar: "upar (mmuState (tct s2 ! k)) ! page_of TASK_BASE = of_nat (free_base (mcbt s))"
    by (simp add: t(1) task_base_page born_page_3)
  have base: "unat (of_nat (free_base (mcbt s)) :: u16) = free_base (mcbt s)"
    using db by (simp add: unat_of_nat)
  have "muxx_svc_xcopy (pid (tct s2 ! k)) TASK_BASE (pid (tct s2 ! c)) file len s2 =
      Ret EOK (s2\<lparr>phys := fwd_copy (unat len)
        (unat (of_nat (free_base (mcbt s)) :: u16) * 64 + unat (TASK_BASE AND 0x1FFF :: u16))
        (unat spar * 64 + unat (file AND 0x1FFF)) (phys s2)\<rparr>)"
  proof (rule xcopy_within [where c = c and src = c and dst = k])
    show "may_copy s2 c c k"
      using cur t by (simp add: may_copy_def)
    show "upar (mmuState (tct s2 ! c)) ! page_of file = spar"
      using sb(1) t(2) by simp
  qed (use n pids refs c len s2(2,3) ipl sb(2) dpar db base fits regs frame in \<open>simp_all add: task_base_page(2)\<close>)
  then have "muxx_svc_xcopy (pid (tct s2 ! k)) TASK_BASE (pid (tct s2 ! c)) file len s2 =
      Ret EOK (s2\<lparr>phys := fwd_copy (unat len) b a (phys s2)\<rparr>)"
    unfolding base task_base_page(2) a b by simp
  moreover have "fwd_copy (unat len) b a (phys s2) = phys_copied (unat len) b a (phys s)"
    using fwd_copy_apply [OF apart] frame by (simp add: phys_copied_def)
  ultimately have copied: "muxx_svc_xcopy (pid (tct s2 ! k)) TASK_BASE (pid (tct s2 ! c)) file len s2 =
      Ret EOK (s2\<lparr>phys := phys_copied (unat len) b a (phys s)\<rparr>)" by simp
  let ?s2 = "s2\<lparr>phys := phys_copied (unat len) b a (phys s)\<rparr>"
  obtain s3 where s3: "on_readyq (muxx_qAddTask (Some k)) ?s2 = Ret () s3"
    "system_inv (Suc k) c (rs @ [k]) ss s3" "map unlinked (tct s3) = map unlinked (tct ?s2)"
    "mcbt s3 = mcbt ?s2" "pid (tct s3 ! k) = pid (tct ?s2 ! k)" "phys s3 = phys ?s2"
    "same_frame ?s2 s3"
    using new_task_enters [of ?s2, OF _ _ _ sub k] s2(4-7) by (auto simp: sched_rep_phys tasks_inv_phys)
  have "muxx_svc_loadprc shellproc name type file len privs s = Ret (uint (fresh_pid type s)) s3"
    using loadprc_enter [OF inv k] s2(1) copied s3(1,5) t by simp
  moreover have "same_frame (s\<lparr>phys := phys s3\<rparr>) s3"
    using s2(8) s3(6,7) by (simp add: same_frame_def)
  ultimately show ?thesis
    using s2 s3 by auto
qed

text \<open>Failures: an unknown task type costs a slot; too little memory hangs the system.\<close>

lemma creprc_bad_type:
  assumes inv: "system_inv k c rs ss s" and k: "k < MAX_TASKS" and bad: "\<not> check_tasktype type"
  shows "\<exists>s'. muxx_svc_creprc name type entry privs s = Ret (- 1) s' \<and>
    system_inv (Suc k) c rs ss s' \<and> pid (tct s' ! k) = fresh_pid type s"
proof -
  let ?s1 = "named k name type (pid (tct s ! c)) entry privs s"
  from inv have ti: "tasks_inv k s" and mi: "mem_inv (mcbt s)" and sr: "sched_rep s c rs ss" and
    sub: "set (c # rs @ ss) \<subseteq> {..<k}" and len: "length (tct s) = MAX_TASKS"
    by (auto simp: system_inv_def sched_rep_def ready_rep_def)
  from sub have out: "k \<notin> set rs" "k \<notin> set ss" "k \<noteq> c" by auto
  have "taskType (tct ?s1 ! k) = type" using k len by (simp add: named_fields)
  then have "setup_task k ?s1 = Ret EINVVAL ?s1"
    using bad by (simp add: setup_task_def muxx_setup_taskmem_def Let_def)
  then have "muxx_svc_creprc name type entry privs s = Ret (- 1) ?s1"
    by (simp add: creprc_enter [OF inv k])
  moreover have "sched_rep ?s1 c rs ss"
    by (rule sched_rep_outside [OF sr out]) (simp_all add: named_fields)
  then have "system_inv (Suc k) c rs ss ?s1"
    using named_inv [OF ti k] mi sub by (auto simp: system_inv_def named_fields)
  moreover have "pid (tct ?s1 ! k) = fresh_pid type s" using k len by (simp add: named_fields)
  ultimately show ?thesis by blast
qed

lemma creprc_full:
  assumes inv: "system_inv MAX_TASKS c rs ss s"
  shows "\<exists>s'. muxx_svc_creprc name type entry privs s = Stop (Panic ''TCT full'') s'"
proof -
  from inv have c: "curtcb s = Some c" "c < length (tct s)" and ti: "tasks_inv MAX_TASKS s"
    by (auto simp: system_inv_def sched_rep_def ready_rep_def)
  from taskinit_full [OF ti] c show ?thesis by (simp add: muxx_svc_creprc_def)
qed

lemma creprc_starved:
  assumes inv: "system_inv k c rs ss s" and k: "k < MAX_TASKS" and used: "mem_used (mcbt s)"
    and ty: "check_tasktype type" and e: "task_entries type \<le> free_mcbs (mcbt s)"
    and room: "free_room (mcbt s) < task_blocks type"
  shows "\<exists>s'. muxx_svc_creprc name type entry privs s = Stop Diverges s'"
proof -
  let ?s1 = "named k name type (pid (tct s ! c)) entry privs s" and ?t = "tct (named k name type (pid (tct s ! c)) entry privs s) ! k"
  from inv have ti: "tasks_inv k s" and mi: "mem_inv (mcbt s)" and len: "length (tct s) = MAX_TASKS"
    by (auto simp: system_inv_def sched_rep_def ready_rep_def)
  have t: "taskType ?t = type" "good_owner ?t" "mcbt ?s1 = mcbt s"
    using k len given_good_owner [OF ti, of type] by (simp_all add: named_fields good_owner_def)
  from setup_taskmem_starved [OF mi used t(2)] t ty e room
  have "diverges (muxx_setup_taskmem (?t, mcbt s))" by simp
  then have "\<exists>s'. setup_task k ?s1 = Stop Diverges s'"
    using t(3) by (auto simp: diverges_def setup_task_def)
  then show ?thesis by (auto simp: creprc_enter [OF inv k])
qed

section \<open>Creating several processes\<close>

text \<open>Requests of the current task, one after the other: name, type, entry point, privileges.\<close>

type_synonym proc_spec = "string \<times> u16 \<times> u16 \<times> u16"

fun create_procs :: "proc_spec list \<Rightarrow> 'd kstate \<Rightarrow> (int list, 'd kstate) outcome" where
  "create_procs [] s = Ret [] s"
| "create_procs ((name, type, entry, privs) # ps) s =
     andthen (muxx_svc_creprc name type entry privs s) (\<lambda>r s.
       andthen (create_procs ps s) (\<lambda>rs. Ret (r # rs)))"

fun spec_type :: "proc_spec \<Rightarrow> u16" where
  "spec_type (name, type, entry, privs) = type"

fun unprivileged :: "proc_spec \<Rightarrow> bool" where
  "unprivileged (name, type, entry, privs) \<longleftrightarrow> privs AND 7 = 0"

text \<open>The physical blocks a task can write.\<close>

definition writable_blocks :: "tcb \<Rightarrow> nat set" where
  "writable_blocks t =
     (\<Union>p \<in> {p. p < 8 \<and> page_writable (updr (mmuState t) ! p)}.
        page_blocks (upar (mmuState t) ! p) (updr (mmuState t) ! p))"

definition specs_blocks :: "proc_spec list \<Rightarrow> nat" where
  "specs_blocks ps = sum_list (map (task_blocks \<circ> spec_type) ps)"

definition specs_entries :: "proc_spec list \<Rightarrow> nat" where
  "specs_entries ps = sum_list (map (task_entries \<circ> spec_type) ps)"

lemma specs_simps [simp]:
  "specs_blocks [] = 0" "specs_entries [] = 0"
  "specs_blocks (p # ps) = task_blocks (spec_type p) + specs_blocks ps"
  "specs_entries (p # ps) = task_entries (spec_type p) + specs_entries ps"
  by (simp_all add: specs_blocks_def specs_entries_def)

lemma privs_bits:
  assumes "(v :: u16) AND 7 = 0"
  shows "\<not> bit v 0" and "\<not> bit v 1" and "\<not> bit v 2"
proof -
  have "bit v n = bit (v AND 7) n" if "n \<in> {0, 1, 2}" for n
    using that by (auto simp: bit_simps)
  then show "\<not> bit v 0" "\<not> bit v 1" "\<not> bit v 2" using assms by simp_all
qed

lemma born_writable:
  assumes "privs AND 7 = 0" and "448 \<le> b" and "b + task_blocks type \<le> 4096"
  shows "writable_blocks (born name p type parent entry privs b t) \<subseteq> {b ..< b + task_blocks type}"
proof -
  let ?n = "(new_tcb p type parent entry privs t)\<lparr>taskname := take 8 name\<rparr>"
  have z: "mmuState ?n = zero_mmustate" "prvword ?n = privs" "taskType ?n = type" by simp_all
  note np = privs_bits [OF assms(1)]
  show ?thesis
    using image_writable_private [of ?n b] np assms(2,3) z
    unfolding writable_blocks_def born_def
    by (auto simp: task_image_regs [OF z(1)] operprv_def ioprv_def auditprv_def)
qed

lemma unlinked_mmu:
  "map unlinked ts' = map unlinked ts \<Longrightarrow> i < length ts \<Longrightarrow> mmuState (ts' ! i) = mmuState (ts ! i)"
  using unlinked_same(6) .

lemma writable_cong: "mmuState t' = mmuState t \<Longrightarrow> writable_blocks t' = writable_blocks t"
  by (simp add: writable_blocks_def)

lemma create_procs_spec:
  assumes "system_inv k c rs ss s" and "k + length ps \<le> MAX_TASKS" and "448 \<le> free_base (mcbt s)"
    and "\<forall>p \<in> set ps. check_tasktype (spec_type p)"
    and "specs_blocks ps \<le> free_room (mcbt s)" and "specs_entries ps \<le> free_mcbs (mcbt s)"
  shows "\<exists>pids s'. create_procs ps s = Ret pids s' \<and>
    system_inv (k + length ps) c (rs @ [k ..< k + length ps]) ss s' \<and> same_frame s s' \<and>
    free_room (mcbt s') = free_room (mcbt s) - specs_blocks ps \<and>
    free_mcbs (mcbt s') = free_mcbs (mcbt s) - specs_entries ps \<and>
    (mem_used (mcbt s) \<or> ps \<noteq> [] \<longrightarrow> mem_used (mcbt s')) \<and>
    (\<forall>i < k. mmuState (tct s' ! i) = mmuState (tct s ! i)) \<and>
    (\<forall>j < length ps. unprivileged (ps ! j) \<longrightarrow> writable_blocks (tct s' ! (k + j)) \<subseteq>
       {free_base (mcbt s) + specs_blocks (take j ps) ..< free_base (mcbt s) + specs_blocks (take (Suc j) ps)})"
  using assms
proof (induction ps arbitrary: k rs s)
  case Nil
  then show ?case by (simp add: same_frame_def)
next
  case (Cons p ps)
  obtain name type entry privs where p: "p = (name, type, entry, privs)" by (cases p)
  from Cons.prems p have k: "k < MAX_TASKS" and host: "can_host type (mcbt s)"
    by (simp_all add: can_host_def)
  let ?b = "free_base (mcbt s)"
  let ?born = "born name (fresh_pid type s) type (pid (tct s ! c)) entry privs ?b (tct s ! k)"
  from creprc_ok [OF Cons.prems(1) k host] obtain s1 where
    s1: "muxx_svc_creprc name type entry privs s = Ret (uint (fresh_pid type s)) s1"
      "system_inv (Suc k) c (rs @ [k]) ss s1"
      "map unlinked (tct s1) = map unlinked ((tct s)[k := ?born])"
      "free_base (mcbt s1) = ?b + task_blocks type"
      "free_room (mcbt s1) = free_room (mcbt s) - task_blocks type"
      "free_mcbs (mcbt s1) = free_mcbs (mcbt s) - task_entries type" "same_frame s s1"
      "mem_used (mcbt s1)"
    by blast
  have pre: "Suc k + length ps \<le> MAX_TASKS" "448 \<le> free_base (mcbt s1)"
    "\<forall>p \<in> set ps. check_tasktype (spec_type p)" "specs_blocks ps \<le> free_room (mcbt s1)"
    "specs_entries ps \<le> free_mcbs (mcbt s1)"
    using Cons.prems p s1(4-6) by simp_all
  from Cons.IH [OF s1(2) pre] obtain pids s' where
    s': "create_procs ps s1 = Ret pids s'"
      "system_inv (Suc k + length ps) c ((rs @ [k]) @ [Suc k ..< Suc k + length ps]) ss s'"
      "same_frame s1 s'"
      "free_room (mcbt s') = free_room (mcbt s1) - specs_blocks ps"
      "free_mcbs (mcbt s') = free_mcbs (mcbt s1) - specs_entries ps"
      "mem_used (mcbt s1) \<or> ps \<noteq> [] \<longrightarrow> mem_used (mcbt s')"
      "\<forall>i < Suc k. mmuState (tct s' ! i) = mmuState (tct s1 ! i)"
      "\<forall>j < length ps. unprivileged (ps ! j) \<longrightarrow> writable_blocks (tct s' ! (Suc k + j)) \<subseteq>
        {free_base (mcbt s1) + specs_blocks (take j ps) ..< free_base (mcbt s1) + specs_blocks (take (Suc j) ps)}"
    by blast
  have len: "length (tct s) = MAX_TASKS" and mi: "mem_inv (mcbt s)"
    using Cons.prems(1) by (auto simp: system_inv_def sched_rep_def ready_rep_def)
  have old: "mmuState (tct s1 ! i) = mmuState (((tct s)[k := ?born]) ! i)" if "i < MAX_TASKS" for i
    using unlinked_mmu [OF s1(3)] that len by simp
  have first: "writable_blocks (tct s' ! k) \<subseteq> {?b ..< ?b + task_blocks type}" if "unprivileged p"
  proof -
    have "?b + task_blocks type \<le> 4096" using mi host by (simp add: mem_inv_def can_host_def)
    then have "writable_blocks ?born \<subseteq> {?b ..< ?b + task_blocks type}"
      using that p Cons.prems(3) by (intro born_writable) simp_all
    moreover have "mmuState (tct s' ! k) = mmuState ?born" using s'(7) old [OF k] k len by simp
    ultimately show ?thesis using writable_cong by metis
  qed
  have up: "[k ..< k + length (p # ps)] = k # [Suc k ..< Suc k + length ps]"
    using upt_conv_Cons [of k "k + length (p # ps)"] by (simp del: upt_Suc)
  show ?case
  proof (intro exI conjI)
    show "create_procs (p # ps) s = Ret (uint (fresh_pid type s) # pids) s'"
      using s1(1) s'(1) p by simp
    show "system_inv (k + length (p # ps)) c (rs @ [k ..< k + length (p # ps)]) ss s'"
      using s'(2) unfolding up by (simp del: upt_Suc)
    show "same_frame s s'" using s1(7) s'(3) by (rule same_frame_trans)
    show "free_room (mcbt s') = free_room (mcbt s) - specs_blocks (p # ps)"
      using s'(4) s1(5) p by simp
    show "free_mcbs (mcbt s') = free_mcbs (mcbt s) - specs_entries (p # ps)"
      using s'(5) s1(6) p by simp
    show "mem_used (mcbt s) \<or> p # ps \<noteq> [] \<longrightarrow> mem_used (mcbt s')" using s'(6) s1(8) by simp
    show "\<forall>i < k. mmuState (tct s' ! i) = mmuState (tct s ! i)" using s'(7) old k by simp
    show "\<forall>j < length (p # ps). unprivileged ((p # ps) ! j) \<longrightarrow> writable_blocks (tct s' ! (k + j)) \<subseteq>
       {?b + specs_blocks (take j (p # ps)) ..< ?b + specs_blocks (take (Suc j) (p # ps))}"
    proof (intro allI impI)
      fix j assume j: "j < length (p # ps)" "unprivileged ((p # ps) ! j)"
      show "writable_blocks (tct s' ! (k + j)) \<subseteq>
        {?b + specs_blocks (take j (p # ps)) ..< ?b + specs_blocks (take (Suc j) (p # ps))}"
      proof (cases j)
        case 0
        then show ?thesis using first j p by simp
      next
        case (Suc i)
        then show ?thesis using s'(8) j s1(4) p by (simp add: add.assoc)
      qed
    qed
  qed
qed

text \<open>Two of the new tasks never write to the same block.\<close>

lemma specs_blocks_mono:
  assumes "i < j" and "j \<le> length ps"
  shows "specs_blocks (take (Suc i) ps) \<le> specs_blocks (take j ps)"
proof -
  have "take j ps = take (Suc i) ps @ take (j - Suc i) (drop (Suc i) ps)"
    using assms by (metis Suc_leI le_add_diff_inverse take_add)
  then show ?thesis by (simp add: specs_blocks_def)
qed

lemma create_procs_disjoint:
  assumes "system_inv k c rs ss s" and "k + length ps \<le> MAX_TASKS" and "448 \<le> free_base (mcbt s)"
    and "\<forall>p \<in> set ps. check_tasktype (spec_type p) \<and> unprivileged p"
    and "specs_blocks ps \<le> free_room (mcbt s)" and "specs_entries ps \<le> free_mcbs (mcbt s)"
    and ij: "i < j" "j < length ps"
  shows "\<exists>pids s'. create_procs ps s = Ret pids s' \<and>
    writable_blocks (tct s' ! (k + i)) \<inter> writable_blocks (tct s' ! (k + j)) = {}"
proof -
  from create_procs_spec [OF assms(1-3) _ assms(5,6)] assms(4) obtain pids s' where
    s': "create_procs ps s = Ret pids s'" and
    w: "\<forall>j < length ps. unprivileged (ps ! j) \<longrightarrow> writable_blocks (tct s' ! (k + j)) \<subseteq>
      {free_base (mcbt s) + specs_blocks (take j ps) ..< free_base (mcbt s) + specs_blocks (take (Suc j) ps)}"
    by blast
  have u: "unprivileged (ps ! i)" "unprivileged (ps ! j)" using assms(4) ij by simp_all
  have "specs_blocks (take (Suc i) ps) \<le> specs_blocks (take j ps)"
    using specs_blocks_mono [of i j ps] ij by simp
  moreover have "writable_blocks (tct s' ! (k + i)) \<subseteq>
      {free_base (mcbt s) + specs_blocks (take i ps) ..< free_base (mcbt s) + specs_blocks (take (Suc i) ps)}"
    "writable_blocks (tct s' ! (k + j)) \<subseteq>
      {free_base (mcbt s) + specs_blocks (take j ps) ..< free_base (mcbt s) + specs_blocks (take (Suc j) ps)}"
    using w u ij by simp_all
  ultimately have "writable_blocks (tct s' ! (k + i)) \<inter> writable_blocks (tct s' ! (k + j)) = {}"
    by (fastforce simp: subset_iff)
  then show ?thesis using s' by blast
qed

text \<open>Requests with an unknown task type use up the slots of the table.\<close>

lemma creprc_bad_types:
  assumes "system_inv k c rs ss s" and "k + n \<le> MAX_TASKS" and "\<not> check_tasktype type"
  shows "\<exists>s'. repeat_n n (muxx_svc_creprc name type entry privs) s = Ret (replicate n (- 1)) s' \<and>
    system_inv (k + n) c rs ss s'"
  using assms
proof (induction n arbitrary: k s)
  case 0
  then show ?case by auto
next
  case (Suc n)
  then obtain s1 where s1: "muxx_svc_creprc name type entry privs s = Ret (- 1) s1"
      "system_inv (Suc k) c rs ss s1"
    using creprc_bad_type [OF Suc.prems(1) _ Suc.prems(3)] by fastforce
  from Suc.IH [OF s1(2) _ Suc.prems(3)] Suc.prems(2) obtain s' where
    "repeat_n n (muxx_svc_creprc name type entry privs) s1 = Ret (replicate n (- 1)) s'"
    "system_inv (Suc k + n) c rs ss s'" by auto
  with s1(1) show ?case by auto
qed

end
