(* ===== verification/Muxx_Syscall.thy ===== *)
theory Muxx_Syscall
  imports Muxx_Process Muxx_IO
begin

text \<open>
  The system call dispatcher of \<open>kernel/muxx_systrap_svc.c\<close>. A trap number selects an entry of
  \<open>trap_table\<close>; the service gets six parameter words. Words that are addresses in the caller's space
  are interpreted by a \<open>user_view\<close>: what the kernel finds there. The console output routine is
  assembly code (\<open>kernel/muxx_kconio.s\<close>) that works on the console registers: a parameter.
\<close>

section \<open>The table\<close>

datatype service =
    Svc_muxxhlt | Svc_creprc | Svc_loadprc | Svc_suspend | Svc_open | Svc_close | Svc_read
  | Svc_write | Svc_mutex | Svc_yield | Svc_gettpi | Svc_exit | Svc_abort | Svc_alloc
  | Svc_drvreg | Svc_drvstart | Svc_drvstop | Svc_conputc | Svc_xcopy | Svc_protmem | Svc_unimpl

definition trap_table :: "(service \<times> nat) list" where
  "trap_table =
    [(Svc_muxxhlt, 0), (Svc_creprc, 4), (Svc_unimpl, 0), (Svc_unimpl, 0), (Svc_loadprc, 4),
     (Svc_unimpl, 0), (Svc_unimpl, 0), (Svc_unimpl, 0), (Svc_suspend, 1), (Svc_unimpl, 0),
     (Svc_open, 2), (Svc_close, 1), (Svc_unimpl, 0), (Svc_read, 3), (Svc_write, 3),
     (Svc_unimpl, 0), (Svc_unimpl, 0), (Svc_unimpl, 0), (Svc_unimpl, 0), (Svc_unimpl, 0),
     (Svc_unimpl, 0), (Svc_unimpl, 0), (Svc_unimpl, 0), (Svc_unimpl, 0), (Svc_unimpl, 0),
     (Svc_mutex, 2), (Svc_yield, 0), (Svc_gettpi, 2), (Svc_exit, 1), (Svc_abort, 1),
     (Svc_alloc, 2),
     (Svc_drvreg, 2), (Svc_unimpl, 0), (Svc_drvstart, 2), (Svc_drvstop, 2), (Svc_unimpl, 0),
     (Svc_conputc, 1), (Svc_unimpl, 0), (Svc_xcopy, 5), (Svc_protmem, 3)]"

text \<open>
  \<open>sizeof(trap_table) / sizeof(void *())\<close>: the table has 40 entries of 4 bytes, and the size of
  the function type \<open>void *()\<close> is 1 for the compiler.
\<close>

definition trap_table_entries :: int where
  "trap_table_entries = int (length trap_table * 4 div 1)"

section \<open>What a system call gives back\<close>

text \<open>
  A return code, an I/O table entry, a TCB or a buffer copied to the caller, or, for the services
  that fall off their end, whatever is in the result register.
\<close>

datatype svc_result =
    RCode int
  | RChannel ptr
  | RTask int "tcb option"
  | RBuffer int "nat \<Rightarrow> u8"
  | RUndefined

definition with_result ::
  "('a \<Rightarrow> svc_result) \<Rightarrow> ('a, 's) outcome \<Rightarrow> (svc_result, 's) outcome" where
  "with_result f m = andthen m (\<lambda>a. Ret (f a))"

record user_view =
  uv_name :: "u16 \<Rightarrow> string"
  uv_strlen :: "u16 \<Rightarrow> u16"
  uv_desc :: "u16 \<Rightarrow> drvdesc"
  uv_task :: "u16 \<Rightarrow> ptr"
  uv_iote :: "u16 \<Rightarrow> ptr"
  uv_bytes :: "u16 \<Rightarrow> nat \<Rightarrow> u8"

section \<open>The services that are defined in the dispatcher's file\<close>

definition muxx_svc_muxxhlt :: "'d kstate \<Rightarrow> (int, 'd kstate) outcome" where
  "muxx_svc_muxxhlt s = Stop Halted s"

definition muxx_unimpl :: "'d kstate \<Rightarrow> (int, 'd kstate) outcome" where
  "muxx_unimpl s = Ret ENOIMPL s"

text \<open>\<open>exit\<close> and \<open>abort\<close> assign the code of \<open>muxx_unimpl\<close> to their parameter and return nothing.\<close>

definition muxx_svc_exit :: "u16 \<Rightarrow> 'd kstate \<Rightarrow> (svc_result, 'd kstate) outcome" where
  "muxx_svc_exit rc s = andthen (muxx_unimpl s) (\<lambda>rc. Ret RUndefined)"

definition muxx_svc_abort :: "u16 \<Rightarrow> 'd kstate \<Rightarrow> (svc_result, 'd kstate) outcome" where
  "muxx_svc_abort rc s = andthen (muxx_unimpl s) (\<lambda>rc. Ret RUndefined)"

definition muxx_svc_conputc ::
  "(u16 \<Rightarrow> 'd \<Rightarrow> int \<times> 'd) \<Rightarrow> u16 \<Rightarrow> 'd kstate \<Rightarrow> (int, 'd kstate) outcome" where
  "muxx_svc_conputc kconputc c s = (let (rc, d) = kconputc (c AND 0xFF) (dev s) in Ret rc (s\<lparr>dev := d\<rparr>))"

section \<open>Dispatch\<close>

record 'd environment =
  env_driver :: "'d callback"
  env_console :: "u16 \<Rightarrow> 'd \<Rightarrow> int \<times> 'd"
  env_rshell :: u16

fun syscall_rt ::
  "'d environment \<Rightarrow> user_view \<Rightarrow> service \<Rightarrow> u16 \<Rightarrow> u16 \<Rightarrow> u16 \<Rightarrow> u16 \<Rightarrow> u16 \<Rightarrow> u16 \<Rightarrow> 'd kstate \<Rightarrow>
   (svc_result, 'd kstate) outcome" where
  "syscall_rt env uv Svc_muxxhlt fp p1 p2 p3 p4 p5 s = with_result RCode (muxx_svc_muxxhlt s)"
| "syscall_rt env uv Svc_creprc fp p1 p2 p3 p4 p5 s =
     with_result RCode (muxx_svc_creprc (uv_name uv p1) p2 p3 p4 s)"
| "syscall_rt env uv Svc_loadprc fp p1 p2 p3 p4 p5 s =
     with_result RCode (muxx_svc_loadprc (env_rshell env) (uv_name uv p1) p2 p3 (uv_strlen uv p3) p4 s)"
| "syscall_rt env uv Svc_suspend fp p1 p2 p3 p4 p5 s =
     with_result RCode (muxx_svc_suspend fp (uv_task uv p1) s)"
| "syscall_rt env uv Svc_open fp p1 p2 p3 p4 p5 s =
     with_result RChannel (muxx_svc_open (uv_name uv p1) p2 s)"
| "syscall_rt env uv Svc_close fp p1 p2 p3 p4 p5 s =
     with_result RCode (muxx_svc_close (uv_iote uv p1) s)"
| "syscall_rt env uv Svc_read fp p1 p2 p3 p4 p5 s =
     with_result (\<lambda>(n, b). RBuffer n b)
       (muxx_svc_read (env_driver env) (uv_iote uv p1) (sint p2) (uv_bytes uv p3) s)"
| "syscall_rt env uv Svc_write fp p1 p2 p3 p4 p5 s =
     with_result RCode (muxx_svc_write (env_driver env) (uv_iote uv p1) (sint p2) (uv_bytes uv p3) s)"
| "syscall_rt env uv Svc_mutex fp p1 p2 p3 p4 p5 s = with_result RCode (muxx_svc_mutex p1 p2 s)"
| "syscall_rt env uv Svc_yield fp p1 p2 p3 p4 p5 s = with_result RCode (muxx_svc_yield fp s)"
| "syscall_rt env uv Svc_gettpi fp p1 p2 p3 p4 p5 s =
     with_result (\<lambda>(rc, t). RTask rc t) (muxx_svc_gettpi p1 s)"
| "syscall_rt env uv Svc_exit fp p1 p2 p3 p4 p5 s = muxx_svc_exit p1 s"
| "syscall_rt env uv Svc_abort fp p1 p2 p3 p4 p5 s = muxx_svc_abort p1 s"
| "syscall_rt env uv Svc_alloc fp p1 p2 p3 p4 p5 s =
     with_result RCode (muxx_svc_alloc (uv_name uv p1) p2 s)"
| "syscall_rt env uv Svc_drvreg fp p1 p2 p3 p4 p5 s =
     with_result RCode (muxx_svc_drvreg (uv_name uv p1) (uv_desc uv p2) p3 s)"
| "syscall_rt env uv Svc_drvstart fp p1 p2 p3 p4 p5 s =
     with_result RCode (muxx_svc_drvstart (env_driver env) (uv_name uv p1) s)"
| "syscall_rt env uv Svc_drvstop fp p1 p2 p3 p4 p5 s =
     with_result RCode (muxx_svc_drvstop (env_driver env) (uv_name uv p1) s)"
| "syscall_rt env uv Svc_conputc fp p1 p2 p3 p4 p5 s =
     with_result RCode (muxx_svc_conputc (env_console env) p1 s)"
| "syscall_rt env uv Svc_xcopy fp p1 p2 p3 p4 p5 s =
     with_result RCode (muxx_svc_xcopy p1 p2 p3 p4 p5 s)"
| "syscall_rt env uv Svc_protmem fp p1 p2 p3 p4 p5 s =
     with_result RCode (muxx_svc_protmem p1 p2 p3 s)"
| "syscall_rt env uv Svc_unimpl fp p1 p2 p3 p4 p5 s = with_result RCode (muxx_unimpl s)"

definition muxx_systrap_handler ::
  "'d environment \<Rightarrow> user_view \<Rightarrow> int \<Rightarrow> u16 \<Rightarrow> u16 \<Rightarrow> u16 \<Rightarrow> u16 \<Rightarrow> u16 \<Rightarrow> u16 \<Rightarrow> 'd kstate \<Rightarrow>
   (svc_result, 'd kstate) outcome" where
  "muxx_systrap_handler env uv numtrap fp p1 p2 p3 p4 p5 s =
     (if numtrap < 0 \<or> numtrap > trap_table_entries then Ret (RCode EINVVAL) s
      else if nat numtrap < length trap_table then
        syscall_rt env uv (fst (trap_table ! nat numtrap)) fp p1 p2 p3 p4 p5 s
      else Stop (Fault WildPointer) s)"

section \<open>The dispatcher\<close>

lemma trap_table_length [simp]: "length trap_table = 40"
  by (simp add: trap_table_def)

lemma trap_table_entries_val: "trap_table_entries = 160"
  by (simp add: trap_table_entries_def)

lemma with_result_Ret [simp]: "with_result f (Ret a s) = Ret (f a) s"
  by (simp add: with_result_def)

lemma handler_in_table:
  "0 \<le> n \<Longrightarrow> n < 40 \<Longrightarrow> muxx_systrap_handler env uv n fp p1 p2 p3 p4 p5 s =
   syscall_rt env uv (fst (trap_table ! nat n)) fp p1 p2 p3 p4 p5 s"
  using nat_less_iff [of n 40] by (simp add: muxx_systrap_handler_def trap_table_entries_val)

definition unimplemented :: "int list" where
  "unimplemented = [2, 3, 5, 6, 7, 9, 12, 15, 16, 17, 18, 19, 20, 21, 22, 23, 24, 32, 35, 37]"

lemma unimplemented_entry:
  "n \<in> set unimplemented \<Longrightarrow> 0 \<le> n \<and> n < 40 \<and> fst (trap_table ! nat n) = Svc_unimpl"
  by (auto simp: unimplemented_def trap_table_def)

section \<open>The trap entry\<close>

text \<open>
  \<open>muxx_trap_handle\<close> runs in kernel mode. The previous mode in the processor status must not be kernel
  mode. The words of the caller's parameter list are pushed in their order, so that the last one becomes
  the first parameter; a parameter that is missing is whatever the stack holds there. The number of the
  service is the low byte of the trap instruction.
\<close>

definition trap_parm :: "u16 list \<Rightarrow> (nat \<Rightarrow> u16) \<Rightarrow> nat \<Rightarrow> u16" where
  "trap_parm parms stack i = (if i < length parms then rev parms ! i else stack i)"

definition muxx_trap_handle ::
  "'d environment \<Rightarrow> user_view \<Rightarrow> u16 \<Rightarrow> u16 \<Rightarrow> u16 \<Rightarrow> u16 list \<Rightarrow> (nat \<Rightarrow> u16) \<Rightarrow> 'd kstate \<Rightarrow>
   (svc_result, 'd kstate) outcome" where
  "muxx_trap_handle env uv psw instr fp parms stack s =
     (if psw AND 0x3000 = 0 then Stop (Panic ''SYSCALL from kernel mode'') s
      else let p = trap_parm parms stack
           in muxx_systrap_handler env uv (uint (instr AND 0x00FF)) fp (p 0) (p 1) (p 2) (p 3) (p 4) s)"

lemma low_byte: "uint (w AND 0x00FF :: u16) = uint w mod 256"
proof -
  have "w AND 0x00FF = take_bit 8 w" by (simp add: take_bit_eq_mask mask_eq_exp_minus_1)
  then show ?thesis by (simp only: unsigned_take_bit_eq) (simp add: take_bit_eq_mod)
qed

text \<open>The numbers 40 to 160 pass the dispatcher's test and index the table behind its end.\<close>

lemma trap_handle_ranges:
  assumes "psw AND 0x3000 \<noteq> 0"
  shows "uint instr mod 256 < 40 \<Longrightarrow> muxx_trap_handle env uv psw instr fp parms stack s =
      syscall_rt env uv (fst (trap_table ! nat (uint instr mod 256))) fp (trap_parm parms stack 0)
        (trap_parm parms stack 1) (trap_parm parms stack 2) (trap_parm parms stack 3)
        (trap_parm parms stack 4) s"
    and "40 \<le> uint instr mod 256 \<Longrightarrow> uint instr mod 256 \<le> 160 \<Longrightarrow>
      muxx_trap_handle env uv psw instr fp parms stack s = Stop (Fault WildPointer) s"
    and "160 < uint instr mod 256 \<Longrightarrow> muxx_trap_handle env uv psw instr fp parms stack s = Ret (RCode EINVVAL) s"
proof -
  define n where "n = uint instr mod 256"
  have n: "0 \<le> n" "\<not> n < 0" by (simp_all add: n_def)
  have h: "muxx_trap_handle env uv psw instr fp parms stack s =
      muxx_systrap_handler env uv n fp (trap_parm parms stack 0) (trap_parm parms stack 1)
        (trap_parm parms stack 2) (trap_parm parms stack 3) (trap_parm parms stack 4) s"
    using assms by (simp add: muxx_trap_handle_def low_byte Let_def n_def)
  show "muxx_trap_handle env uv psw instr fp parms stack s =
      syscall_rt env uv (fst (trap_table ! nat (uint instr mod 256))) fp (trap_parm parms stack 0)
        (trap_parm parms stack 1) (trap_parm parms stack 2) (trap_parm parms stack 3)
        (trap_parm parms stack 4) s" if "uint instr mod 256 < 40"
    using that n unfolding h n_def [symmetric] by (intro handler_in_table) simp_all
  show "muxx_trap_handle env uv psw instr fp parms stack s = Stop (Fault WildPointer) s"
    if "40 \<le> uint instr mod 256" "uint instr mod 256 \<le> 160"
    using that n unfolding h n_def [symmetric]
    by (simp add: muxx_systrap_handler_def trap_table_entries_val nat_less_iff)
  show "muxx_trap_handle env uv psw instr fp parms stack s = Ret (RCode EINVVAL) s"
    if "160 < uint instr mod 256"
    using that unfolding h n_def [symmetric] by (simp add: muxx_systrap_handler_def trap_table_entries_val)
qed

text \<open>The parameter list of the macro \<open>CREPRC\<close> reaches the service in the right order.\<close>

lemma trap_creprc:
  assumes "psw AND 0x3000 \<noteq> 0"
  shows "muxx_trap_handle env uv psw 0x8901 fp [privs, entry, type, name] stack s =
    with_result RCode (muxx_svc_creprc (uv_name uv name) type entry privs s)"
  using assms by (simp add: trap_handle_ranges(1) trap_table_def trap_parm_def)

end
