(* ===== verification/Muxx_Boot.thy ===== *)
theory Muxx_Boot
  imports Muxx_Syscall Muxx_Devices
begin

text \<open>
  System start-up: the sequence of initialisation calls of \<open>sys/sys.s\<close>, from the zero-filled tables
  to the dispatch of the INIT task, and the invariants the state satisfies from then on. The physical
  memory \<open>M\<close>, which holds the loaded system image, is arbitrary.
\<close>

section \<open>The start-up sequence\<close>

definition muxx_boot :: "u16 \<Rightarrow> 'd \<Rightarrow> (nat \<Rightarrow> u8) \<Rightarrow> 'd kstate" where
  "muxx_boot init_entry d M =
     (let s = boot_kstate d M;
          s = s\<lparr>mmu := mmu_initialize (mmu s)\<rparr>;
          s = s\<lparr>mcbt := muxx_mem_init (mcbt s)\<rparr>;
          s = muxx_tctinit s;
          s = muxx_drvinit s;
          s = muxx_iottinit s;
          s = muxx_fakeproc init_entry s
      in final_state (muxx_switch s))"

section \<open>The state after start-up\<close>

lemma fold_upd_tcb_state:
  "fold (\<lambda>i. upd_tcb i f) is s = s\<lparr>tct := tct (fold (\<lambda>i. upd_tcb i f) is s)\<rparr>"
proof (induction "is" arbitrary: s)
  case Nil
  then show ?case by simp
next
  case (Cons i "is")
  show ?case using Cons.IH [of "upd_tcb i f s"] by (simp add: upd_tcb_def)
qed

lemma fold_upd_drvcb_state:
  "fold (\<lambda>i. upd_drvcb i f) is s = s\<lparr>drvt := drvt (fold (\<lambda>i. upd_drvcb i f) is s)\<rparr>"
proof (induction "is" arbitrary: s)
  case Nil
  then show ?case by simp
next
  case (Cons i "is")
  show ?case using Cons.IH [of "upd_drvcb i f s"] by (simp add: upd_drvcb_def)
qed

lemma fold_upd_iote_state:
  "fold (\<lambda>i. upd_iote i f) is s = s\<lparr>chnt := chnt (fold (\<lambda>i. upd_iote i f) is s)\<rparr>"
proof (induction "is" arbitrary: s)
  case Nil
  then show ?case by simp
next
  case (Cons i "is")
  show ?case using Cons.IH [of "upd_iote i f s"] by (simp add: upd_iote_def)
qed

lemma init_frames:
  "muxx_tctinit s = s\<lparr>tct := tct (muxx_tctinit s)\<rparr>"
  "muxx_drvinit s = s\<lparr>drvt := drvt (muxx_drvinit s)\<rparr>"
  "muxx_iottinit s = s\<lparr>chnt := chnt (muxx_iottinit s)\<rparr>"
proof -
  show "muxx_tctinit s = s\<lparr>tct := tct (muxx_tctinit s)\<rparr>"
    unfolding muxx_tctinit_def by (rule fold_upd_tcb_state)
  show "muxx_drvinit s = s\<lparr>drvt := drvt (muxx_drvinit s)\<rparr>"
    unfolding muxx_drvinit_def by (subst fold_upd_drvcb_state) simp
  show "muxx_iottinit s = s\<lparr>chnt := chnt (muxx_iottinit s)\<rparr>"
    unfolding muxx_iottinit_def by (subst fold_upd_iote_state) simp
qed

definition init_tcb :: "u16 \<Rightarrow> tcb" where
  "init_tcb init_entry = zero_tcb\<lparr>taskname := ''INIT    '', pid := 1, ppid := 0, uic := 1,
     cpuState := zero_cpustate\<lparr>cs_pc := init_entry, cs_psw := 0xC000, cs_sp := ustackt,
       cs_usp := ustackt, cs_ksp := kstackt\<rparr>,
     prvword := 0x0007, mmuState := init_mmu, taskTUCB := 8192 * 3 - 64,
     status := TSK_RUN\<rparr>"

lemma tcbinit_zero: "muxx_tcbinit zero_tcb = zero_tcb"
  by (simp add: muxx_tcbinit_def zero_tcb_def)

lemma tctinit_zero:
  "tct s = replicate MAX_TASKS zero_tcb \<Longrightarrow> tct (muxx_tctinit s) = replicate MAX_TASKS zero_tcb"
  by (rule nth_equalityI) (auto simp: tctinit_free tcbinit_zero)

definition boot_tcts :: "u16 \<Rightarrow> tcb list" where
  "boot_tcts init_entry = (replicate MAX_TASKS zero_tcb)[0 := init_tcb init_entry]"

lemma overrun_zero: "overrun_clear zero_tcb = zero_tcb"
  by (simp add: overrun_clear_def zero_tcb_def)

lemma boot_state:
  "\<exists>D C. muxx_boot init_entry d M = (boot_kstate d M)\<lparr>tct := boot_tcts init_entry, curtcb := Some 0,
       topspid := 1, mcbt := muxx_mem_init zero_mmcbt, drvt := D, chnt := C, ipl := 0,
       cpu := cpuState (init_tcb init_entry), mmu := init_mmu\<rparr> \<and>
     length (drvcbs D) = MAX_DRV \<and> eyecat D = ''DRVCBT--'' \<and> (\<forall>i < MAX_DRV. df_free (drvcbs D ! i) \<and> \<not> df_alloc (drvcbs D ! i)) \<and>
     iotes C = replicate IOT_SENTRIES zero_iote"
proof -
  let ?s1 = "(boot_kstate d M)\<lparr>mmu := mmu_initialize zero_mmustate, mcbt := muxx_mem_init zero_mmcbt\<rparr>"
  have t1: "tct ?s1 = replicate MAX_TASKS zero_tcb" by (simp add: boot_kstate_def)
  then have s2: "muxx_tctinit ?s1 = ?s1"
    using init_frames(1) [of ?s1] tctinit_zero [OF t1] by simp
  define D where "D = drvt (muxx_drvinit ?s1)"
  have s3: "muxx_drvinit ?s1 = ?s1\<lparr>drvt := D\<rparr>" using init_frames(2) [of ?s1] by (simp add: D_def)
  have "length (drvcbs (drvt ?s1)) = MAX_DRV" by (simp add: boot_kstate_def zero_drvcbt_def)
  note D = drvinit_table [OF this, folded D_def]
  have unalloc: "i < MAX_DRV \<Longrightarrow> \<not> df_alloc (drvcbs D ! i)" for i
    by (simp add: D(4)) (simp add: boot_kstate_def zero_drvcbt_def zero_drvcb_def)
  let ?s3 = "?s1\<lparr>drvt := D\<rparr>"
  define C where "C = chnt (muxx_iottinit ?s3)"
  have s4: "muxx_iottinit ?s3 = ?s3\<lparr>chnt := C\<rparr>" using init_frames(3) [of ?s3] by (simp add: C_def)
  have "length (iotes (chnt ?s3)) = IOT_SENTRIES" by (simp add: boot_kstate_def zero_iott_def)
  note C = iottinit_table [OF this, folded C_def]
  have "mcbt (boot_kstate d M) = zero_mmcbt" "mmu (boot_kstate d M) = zero_mmustate"
    by (simp_all add: boot_kstate_def)
  then have chain: "muxx_boot init_entry d M = final_state (muxx_switch (muxx_fakeproc init_entry (?s3\<lparr>chnt := C\<rparr>)))"
    by (simp add: muxx_boot_def Let_def s2 s3 s4)
  have ext: "(replicate MAX_TASKS zero_tcb)[0 := t, Suc 0 := zero_tcb] = (replicate MAX_TASKS zero_tcb)[0 := t]" for t
    by (simp add: list_eq_iff_nth_eq nth_list_update)
  have ipl: "drop_bit 5 (0xC000 :: u16) AND 7 = 0" by simp
  have "final_state (muxx_switch (muxx_fakeproc init_entry (?s3\<lparr>chnt := C\<rparr>))) =
      (boot_kstate d M)\<lparr>tct := boot_tcts init_entry, curtcb := Some 0,
       topspid := 1, mcbt := muxx_mem_init zero_mmcbt, drvt := D, chnt := C, ipl := 0,
       cpu := cpuState (init_tcb init_entry), mmu := init_mmu\<rparr>"
    by (simp add: muxx_switch_def muxx_fakeproc_def Let_def upd_tcb_def boot_kstate_def overrun_zero ext
        boot_tcts_def init_tcb_def)
  with chain D(1-3) unalloc C show ?thesis by (intro exI [of _ D] exI [of _ C]) simp
qed

lemma boot_system_inv: "system_inv 1 0 [] [] (muxx_boot init_entry d M)"
proof -
  obtain D C where b: "muxx_boot init_entry d M = (boot_kstate d M)\<lparr>tct := boot_tcts init_entry, curtcb := Some 0,
       topspid := 1, mcbt := muxx_mem_init zero_mmcbt, drvt := D, chnt := C, ipl := 0,
       cpu := cpuState (init_tcb init_entry), mmu := init_mmu\<rparr>"
    using boot_state [of init_entry d M] by blast
  have pid: "pid (boot_tcts init_entry ! i) = (if i = 0 then 1 else 0)" if "i < MAX_TASKS" for i
    using that by (simp add: boot_tcts_def nth_list_update init_tcb_def zero_tcb_def)
  have len: "length (boot_tcts init_entry) = MAX_TASKS" by (simp add: boot_tcts_def)
  have "tasks_inv 1 (muxx_boot init_entry d M)"
    unfolding b using pid len
    by (auto simp: tasks_inv_def slot_used_def pid_given_def boot_kstate_def)
  moreover have "mem_inv (mcbt (muxx_boot init_entry d M))" by (simp add: b mem_init_inv)
  moreover have "sched_rep (muxx_boot init_entry d M) 0 [] []"
    using len by (simp add: b sched_rep_def ready_rep_def boot_kstate_def zero_tqueue_def)
      (simp add: boot_tcts_def init_tcb_def)
  ultimately show ?thesis by (simp add: system_inv_def)
qed

lemma boot_chan_ready: "chan_ready (muxx_boot init_entry d M)"
proof -
  obtain D C where b: "muxx_boot init_entry d M = (boot_kstate d M)\<lparr>tct := boot_tcts init_entry, curtcb := Some 0,
       topspid := 1, mcbt := muxx_mem_init zero_mmcbt, drvt := D, chnt := C, ipl := 0,
       cpu := cpuState (init_tcb init_entry), mmu := init_mmu\<rparr>"
    and D: "length (drvcbs D) = MAX_DRV" "eyecat D = ''DRVCBT--''" "\<forall>i < MAX_DRV. df_free (drvcbs D ! i) \<and> \<not> df_alloc (drvcbs D ! i)"
    and C: "iotes C = replicate IOT_SENTRIES zero_iote"
    using boot_state [of init_entry d M] by blast
  have "pid (boot_tcts init_entry ! 0) = 1" "length (boot_tcts init_entry) = MAX_TASKS"
    by (simp_all add: boot_tcts_def init_tcb_def)
  then have "mutex_ready m (muxx_boot init_entry d M)" if "unat m < 16" for m
    using that by (simp add: b mutex_ready_def current_pid_def boot_kstate_def)
  moreover have "drv_inv (muxx_boot init_entry d M)" using D by (simp add: b drv_inv_def)
  moreover have "length (iotes (chnt (muxx_boot init_entry d M))) = IOT_SENTRIES" using C by (simp add: b)
  ultimately show ?thesis by (simp add: chan_ready_def)
qed

lemma boot_fields:
  "curtcb (muxx_boot init_entry d M) = Some 0" "tct (muxx_boot init_entry d M) = boot_tcts init_entry"
  "mcbt (muxx_boot init_entry d M) = muxx_mem_init zero_mmcbt" "mmu (muxx_boot init_entry d M) = init_mmu"
  "mutexes (muxx_boot init_entry d M) = replicate MUT_MUTEXES 0" "ipl (muxx_boot init_entry d M) = 0"
  "clkcountdown (muxx_boot init_entry d M) = CLK_QUANTUM" "clkquantum (muxx_boot init_entry d M) = CLK_QUANTUM"
  "i < MAX_DRV \<Longrightarrow> df_free (drvcbs (drvt (muxx_boot init_entry d M)) ! i)"
  "i < MAX_DRV \<Longrightarrow> \<not> df_alloc (drvcbs (drvt (muxx_boot init_entry d M)) ! i)"
  "iotes (chnt (muxx_boot init_entry d M)) = replicate IOT_SENTRIES zero_iote"
  "dev (muxx_boot init_entry d M) = d" "phys (muxx_boot init_entry d M) = M" "tucbs (muxx_boot init_entry d M) = replicate MAX_TASKS zero_tucb"
  using boot_state [of init_entry d M] by (auto simp: boot_kstate_def)

end
