(* ===== verification/Muxx_Startup.thy ===== *)
theory Muxx_Startup
  imports Muxx_Boot
begin

text \<open>
  What the INIT task does (\<open>sys/init.s\<close>): for each of the two drivers it creates the handler task,
  registers the driver and starts it. \<open>startup_from\<close> is the system then: INIT runs, the two handler
  tasks are ready, the paper tape and the printer can be opened. (INIT goes on to load the task
  STARTUP from paper tape, which is user code.) The state is the concrete system on which the
  theorems of the development are instantiated.
\<close>

section \<open>The driver part of the INIT task\<close>

definition init_driver ::
  "string \<Rightarrow> u16 \<Rightarrow> string \<Rightarrow> drvdesc \<Rightarrow> devices kstate \<Rightarrow> (int, devices kstate) outcome" where
  "init_driver hnd entry drv dd s =
     andthen (muxx_svc_creprc hnd DRV_TASK entry 0x0002 s) (\<lambda>_ s.
     andthen (muxx_svc_drvreg drv dd 0 s) (\<lambda>rc s.
       if rc < 0 then muxx_svc_muxxhlt s
       else andthen (muxx_svc_drvstart muxx_devices drv s) (\<lambda>rc s.
         if rc < 0 then muxx_svc_muxxhlt s else Ret rc s)))"

definition init_drivers :: "u16 \<Rightarrow> u16 \<Rightarrow> devices kstate \<Rightarrow> (int, devices kstate) outcome" where
  "init_drivers ptphnd lpthnd s =
     andthen (init_driver ''PTPHND  '' ptphnd ''PTPDRV  '' ptpdesct s) (\<lambda>_.
       init_driver ''LPTHND  '' lpthnd ''LPTDRV  '' lptdesct)"

definition startup_from :: "devices \<Rightarrow> (nat \<Rightarrow> u8) \<Rightarrow> devices kstate" where
  "startup_from d M = final_state (init_drivers 0x6000 0x6000 (muxx_boot 0 d M))"

text \<open>What the memory holds matters to copies only; the concrete examples start with zeros.\<close>

abbreviation startup_state :: "devices \<Rightarrow> devices kstate" where
  "startup_state d \<equiv> startup_from d (\<lambda>_. 0)"

section \<open>One driver\<close>

text \<open>The fields that the invariant of the tasks, the memory and the scheduler is about.\<close>

lemma system_inv_frame [simp]:
  "system_inv k c rs ss (s\<lparr>drvt := D\<rparr>) = system_inv k c rs ss s"
  "system_inv k c rs ss (s\<lparr>vecs := v\<rparr>) = system_inv k c rs ss s"
  "system_inv k c rs ss (s\<lparr>dev := d\<rparr>) = system_inv k c rs ss s"
  by (simp_all add: system_inv_def tasks_inv_def pid_given_def sched_rep_def ready_rep_def)

lemma system_inv_upd_drvcb [simp]:
  "system_inv k c rs ss (upd_drvcb i f s) = system_inv k c rs ss s"
  by (simp add: upd_drvcb_def)

text \<open>A system in which the privileged task in slot 0 runs and all mutexes are free.\<close>

definition init_runs :: "nat \<Rightarrow> nat list \<Rightarrow> devices kstate \<Rightarrow> bool" where
  "init_runs k rs s \<longleftrightarrow>
     system_inv k 0 rs [] s \<and> mmuState (tct s ! 0) = init_mmu \<and> pid (tct s ! 0) = 1 \<and>
     prvword (tct s ! 0) = 7 \<and> uic (tct s ! 0) = 1 \<and> taskTUCB (tct s ! 0) = 8192 * 3 - 64 \<and> drv_inv s \<and>
     mutexes s = replicate MUT_MUTEXES 0 \<and> ipl s = 0 \<and> mmu s = init_mmu \<and>
     iotes (chnt s) = replicate IOT_SENTRIES zero_iote \<and>
     clkquantum s = CLK_QUANTUM \<and> clkcountdown s = CLK_QUANTUM \<and>
     length (tucbs s) = MAX_TASKS \<and> tu_iote (tucbs s ! 0) = replicate IOT_TENTRIES None"

definition started :: "string \<Rightarrow> drvdesc \<Rightarrow> drvcb \<Rightarrow> drvcb" where
  "started drv dd d = (registered drv dd 0 d)\<lparr>df_active := True, df_stopped := False\<rparr>"

lemma init_runs_task:
  assumes "init_runs k rs s"
  shows "curtcb s = Some 0" and "length (tct s) = 16" and "operprv (tct s ! 0)"
  using assms by (simp_all add: init_runs_def system_inv_def sched_rep_def ready_rep_def operprv_def)

lemma tct_kept:
  assumes "map unlinked ts' = map unlinked (ts[k := t])" and "0 < k" and "0 < length ts"
  shows "mmuState (ts' ! 0) = mmuState (ts ! 0)" and "pid (ts' ! 0) = pid (ts ! 0)"
    and "prvword (ts' ! 0) = prvword (ts ! 0)" and "uic (ts' ! 0) = uic (ts ! 0)"
    and "taskTUCB (ts' ! 0) = taskTUCB (ts ! 0)"
proof -
  have "unlinked (ts' ! 0) = unlinked (ts ! 0)"
    using arg_cong [OF assms(1), of "\<lambda>xs. xs ! 0"] unlinked_same(1) [OF assms(1)] assms(2,3)
    by simp
  then show "mmuState (ts' ! 0) = mmuState (ts ! 0)" "pid (ts' ! 0) = pid (ts ! 0)"
    "prvword (ts' ! 0) = prvword (ts ! 0)" "uic (ts' ! 0) = uic (ts ! 0)"
    "taskTUCB (ts' ! 0) = taskTUCB (ts ! 0)"
    by (auto simp: unlinked_def dest: arg_cong [of _ _ mmuState] arg_cong [of _ _ pid]
        arg_cong [of _ _ prvword] arg_cong [of _ _ uic] arg_cong [of _ _ taskTUCB])
qed

lemma init_creates:
  assumes run: "init_runs k rs s" and k: "k < MAX_TASKS" and host: "can_host type (mcbt s)"
  shows "\<exists>s'. muxx_svc_creprc name type entry privs s = Ret (uint (fresh_pid type s)) s' \<and>
    init_runs (Suc k) (rs @ [k]) s' \<and> drvt s' = drvt s \<and> dev s' = dev s \<and>
    free_room (mcbt s') = free_room (mcbt s) - task_blocks type \<and>
    free_mcbs (mcbt s') = free_mcbs (mcbt s) - task_entries type \<and> phys s' = phys s"
proof -
  from run have inv: "system_inv k 0 rs [] s" by (simp add: init_runs_def)
  then have k0: "0 < k" by (simp add: system_inv_def)
  from creprc_ok [OF inv k host] obtain s' where s':
    "muxx_svc_creprc name type entry privs s = Ret (uint (fresh_pid type s)) s'"
    "system_inv (Suc k) 0 (rs @ [k]) [] s'"
    "map unlinked (tct s') = map unlinked ((tct s)[k := born name (fresh_pid type s) type
       (pid (tct s ! 0)) entry privs (free_base (mcbt s)) (tct s ! k)])"
    "free_room (mcbt s') = free_room (mcbt s) - task_blocks type"
    "free_mcbs (mcbt s') = free_mcbs (mcbt s) - task_entries type" "same_frame s s'"
    by blast
  have "0 < length (tct s)" using init_runs_task(2) [OF run] by simp
  note kept = tct_kept [OF s'(3) k0 this]
  have "init_runs (Suc k) (rs @ [k]) s'"
    using run s'(2,6) kept by (simp add: init_runs_def same_frame_def drv_inv_def)
  with s' show ?thesis by (auto simp: same_frame_def)
qed

lemma init_driver_up:
  assumes run: "init_runs k rs s" and k: "k < MAX_TASKS" and host: "can_host DRV_TASK (mcbt s)"
    and i: "find_free_drvcb (drvcbs (drvt s)) = Some i" and new: "muxx_find_driver drv s = None"
    and dd: "callbacks dd = driver_table base" "unat (numisr dd) \<le> length (isrtable dd)"
    and cb: "muxx_devices base (zero_iopkt\<lparr>iop_function := 0\<rparr>) (dev s) =
      (EOK, zero_iopkt\<lparr>iop_function := 0\<rparr>, dev s)"
  shows "\<exists>s'. init_driver hnd entry drv dd s = Ret EOK s' \<and> init_runs (Suc k) (rs @ [k]) s' \<and>
    drvcbs (drvt s') = (drvcbs (drvt s))[i := started drv dd (drvcbs (drvt s) ! i)] \<and>
    dev s' = dev s \<and> free_room (mcbt s') = free_room (mcbt s) - task_blocks DRV_TASK \<and>
    free_mcbs (mcbt s') = free_mcbs (mcbt s) - task_entries DRV_TASK \<and> phys s' = phys s"
proof -
  from init_creates [OF run k host] obtain s1 where
    s1: "muxx_svc_creprc hnd DRV_TASK entry 0x0002 s = Ret (uint (fresh_pid DRV_TASK s)) s1"
      "init_runs (Suc k) (rs @ [k]) s1" "drvt s1 = drvt s" "dev s1 = dev s"
      "free_room (mcbt s1) = free_room (mcbt s) - task_blocks DRV_TASK"
      "free_mcbs (mcbt s1) = free_mcbs (mcbt s) - task_entries DRV_TASK" "phys s1 = phys s"
    by blast
  note t1 = init_runs_task [OF s1(2)]
  have inv1: "drv_inv s1" using s1(2) by (simp add: init_runs_def)
  have i1: "find_free_drvcb (drvcbs (drvt s1)) = Some i" using i s1(3) by simp
  have new1: "muxx_find_driver drv s1 = None" using new find_driver_cong [OF s1(3)] by simp
  have iM: "i < MAX_DRV" using drv_slots.search_some [OF i] by simp
  have lenD: "length (drvcbs (drvt s1)) = 8" using inv1 by (simp add: drv_inv_def)
  define s2 where "s2 = (upd_drvcb i (registered drv dd 0) s1)
    \<lparr>vecs := fold install_isr (take (unat (numisr dd)) (isrtable dd)) (vecs s1)\<rparr>"
  have reg: "muxx_svc_drvreg drv dd 0 s1 = Ret EOK s2"
    unfolding s2_def using drvreg_ok [OF inv1 t1(1) _ t1(3) i1 dd(2)] t1(2) by simp
  have inv2: "drv_inv s2" using registered_inv [OF inv1 iM] by (simp add: s2_def)
  have found: "muxx_find_driver drv s2 = Some i"
    using registered_found [OF inv1 i1 new1] by (simp add: s2_def muxx_find_driver_def)
  have cb2: "muxx_devices (callbacks dd ! unat DRV_START) (zero_iopkt\<lparr>iop_function := DRV_START\<rparr>) (dev s2) =
      (EOK, zero_iopkt\<lparr>iop_function := DRV_START\<rparr>, dev s2)"
    using cb s1(4) dd(1) by (simp add: s2_def driver_table_nth)
  have d2: "desc (drvcbs (drvt s2) ! i) = Some dd" "length (callbacks dd) = 10"
    using iM lenD dd(1) by (simp_all add: s2_def registered_def)
  have "muxx_svc_drvstart muxx_devices drv s2 =
      Ret EOK (upd_drvcb i (\<lambda>d. d\<lparr>df_active := True, df_stopped := False\<rparr>) (s2\<lparr>dev := dev s2\<rparr>))"
    using startstop_spec [where cb = muxx_devices and op = DRV_START, OF _ _ _ found inv2 d2 _ cb2] t1
    by (simp add: muxx_svc_drvstart_def s2_def)
  then have start: "muxx_svc_drvstart muxx_devices drv s2 =
      Ret EOK (upd_drvcb i (\<lambda>d. d\<lparr>df_active := True, df_stopped := False\<rparr>) s2)" by simp
  let ?s3 = "upd_drvcb i (\<lambda>d. d\<lparr>df_active := True, df_stopped := False\<rparr>) s2"
  have tab: "drvcbs (drvt ?s3) = (drvcbs (drvt s))[i := started drv dd (drvcbs (drvt s) ! i)]"
    using iM lenD by (simp add: s2_def s1(3) started_def)
  have "drv_inv ?s3" using inv2 d2 iM by (auto simp: drv_inv_def nth_list_update)
  with s1(2) have "init_runs (Suc k) (rs @ [k]) ?s3"
    by (simp add: init_runs_def s2_def) (simp add: upd_drvcb_def)
  moreover have "init_driver hnd entry drv dd s = Ret EOK ?s3"
    using s1(1) reg start by (simp add: init_driver_def)
  moreover have "mcbt ?s3 = mcbt s1" "dev ?s3 = dev s1" "phys ?s3 = phys s1"
    by (simp_all add: s2_def) (simp_all add: upd_drvcb_def)
  ultimately show ?thesis using tab s1(4-7) by auto
qed

section \<open>The system after start-up\<close>

lemma boot_init_runs: "init_runs 1 [] (muxx_boot init_entry d M)"
  using boot_system_inv [of init_entry d M] boot_chan_ready [of init_entry d M]
  by (simp add: init_runs_def boot_fields boot_tcts_def init_tcb_def chan_ready_def zero_tucb_def)

text \<open>Only the first two slots of the driver table are taken.\<close>

lemma boot_drvcbs:
  "length (drvcbs (drvt (muxx_boot init_entry d M))) = MAX_DRV"
  "i < MAX_DRV \<Longrightarrow> df_free (drvcbs (drvt (muxx_boot init_entry d M)) ! i)"
  "i < MAX_DRV \<Longrightarrow> \<not> df_alloc (drvcbs (drvt (muxx_boot init_entry d M)) ! i)"
  using boot_chan_ready [of init_entry d M] boot_fields(9,10)
  by (simp_all add: chan_ready_def drv_inv_def)

lemma startup_init:
  "\<exists>s'. init_drivers ptphnd lpthnd (muxx_boot init_entry d M) = Ret EOK s' \<and> init_runs 3 [1, 2] s' \<and>
     (\<exists>a b. drvcbs (drvt s') = (drvcbs (drvt (muxx_boot init_entry d M)))
        [0 := started ''PTPDRV  '' ptpdesct a, 1 := started ''LPTDRV  '' lptdesct b] \<and>
        \<not> df_alloc a \<and> \<not> df_alloc b) \<and>
     dev s' = d \<and> free_room (mcbt s') = 3200 \<and> free_mcbs (mcbt s') = 116 \<and> phys s' = M"
proof -
  let ?s = "muxx_boot init_entry d M"
  have room: "free_room (mcbt ?s) = 3648" "free_mcbs (mcbt ?s) = 122"
    by (simp_all add: boot_fields mem_init_free)
  have drv: "check_tasktype DRV_TASK" "task_blocks DRV_TASK = 224" "task_entries DRV_TASK = 3"
    by (simp_all add: check_tasktype_def task_blocks_def task_entries_def private_pages_def)
  have start: "muxx_devices b (zero_iopkt\<lparr>iop_function := 0\<rparr>) x =
      (EOK, zero_iopkt\<lparr>iop_function := 0\<rparr>, x)" if "b \<in> {PTP_BASE, LPT_BASE}" for b x
    using that by (auto simp: muxx_devices_def)
  have none: "muxx_find_driver n ?s = None" for n
    by (simp add: find_driver_find find_None_iff drv_used_def boot_drvcbs)
  have slot0: "find_free_drvcb (drvcbs (drvt ?s)) = Some 0"
    by (rule drv_slots.finds_first) (simp_all add: drv_used_def boot_drvcbs)
  have host: "can_host DRV_TASK (mcbt ?s)" using room drv by (simp add: can_host_def)
  have ptp: "callbacks ptpdesct = driver_table PTP_BASE"
      "unat (numisr ptpdesct) \<le> length (isrtable ptpdesct)"
    and lpt: "callbacks lptdesct = driver_table LPT_BASE"
      "unat (numisr lptdesct) \<le> length (isrtable lptdesct)"
    by (simp_all add: ptpdesct_def lptdesct_def)
  have starts: "muxx_devices PTP_BASE (zero_iopkt\<lparr>iop_function := 0\<rparr>) x = (EOK, zero_iopkt\<lparr>iop_function := 0\<rparr>, x)"
    "muxx_devices LPT_BASE (zero_iopkt\<lparr>iop_function := 0\<rparr>) x = (EOK, zero_iopkt\<lparr>iop_function := 0\<rparr>, x)" for x
    using start by simp_all
  have k1: "(1 :: nat) < MAX_TASKS" and k2: "(2 :: nat) < MAX_TASKS" by simp_all
  from init_driver_up [where hnd = "''PTPHND  ''" and entry = ptphnd and drv = "''PTPDRV  ''", OF boot_init_runs k1 host slot0 none ptp starts(1)] room drv obtain s1 where
    s1: "init_driver ''PTPHND  '' ptphnd ''PTPDRV  '' ptpdesct ?s = Ret EOK s1" "init_runs 2 [1] s1"
      "drvcbs (drvt s1) = (drvcbs (drvt ?s))[0 := started ''PTPDRV  '' ptpdesct (drvcbs (drvt ?s) ! 0)]"
      "dev s1 = d" "free_room (mcbt s1) = 3424" "free_mcbs (mcbt s1) = 119" "phys s1 = M"
    by (auto simp: boot_fields numeral_2_eq_2)
  have none1: "muxx_find_driver ''LPTDRV  '' s1 = None"
    by (auto simp: find_driver_find find_None_iff drv_used_def boot_drvcbs s1(3) nth_list_update
        started_def registered_def memeq_def)
  have slot1: "find_free_drvcb (drvcbs (drvt s1)) = Some 1"
    by (rule drv_slots.finds_first)
      (simp_all add: drv_used_def boot_drvcbs s1(3) nth_list_update started_def registered_def)
  have host1: "can_host DRV_TASK (mcbt s1)" using s1(5,6) drv by (simp add: can_host_def)
  from init_driver_up [where hnd = "''LPTHND  ''" and entry = lpthnd, OF s1(2) k2 host1 slot1 none1 lpt starts(2)] s1(5,6) drv obtain s2 where
    s2: "init_driver ''LPTHND  '' lpthnd ''LPTDRV  '' lptdesct s1 = Ret EOK s2"
      "init_runs 3 ([1] @ [2]) s2"
      "drvcbs (drvt s2) = (drvcbs (drvt s1))[1 := started ''LPTDRV  '' lptdesct (drvcbs (drvt s1) ! 1)]"
      "dev s2 = dev s1" "free_room (mcbt s2) = 3200" "free_mcbs (mcbt s2) = 116" "phys s2 = phys s1"
    by (auto simp: numeral_3_eq_3 numeral_2_eq_2)
  have "init_drivers ptphnd lpthnd ?s = Ret EOK s2" using s1(1) s2(1) by (simp add: init_drivers_def)
  moreover have "drvcbs (drvt s2) = (drvcbs (drvt ?s))
      [0 := started ''PTPDRV  '' ptpdesct (drvcbs (drvt ?s) ! 0),
       1 := started ''LPTDRV  '' lptdesct (drvcbs (drvt ?s) ! 1)]"
    using s2(3) s1(3) by simp
  moreover have "\<not> df_alloc (drvcbs (drvt ?s) ! 0)" "\<not> df_alloc (drvcbs (drvt ?s) ! 1)"
    by (simp_all add: boot_drvcbs)
  moreover have "init_runs 3 [1, 2] s2" "dev s2 = d" "phys s2 = M" using s2(2,4,7) s1(4,7) by simp_all
  ultimately show ?thesis using s2(5,6) by blast
qed

lemma startup_facts:
  shows startup_result: "init_drivers 0x6000 0x6000 (muxx_boot 0 d M) = Ret EOK (startup_from d M)"
    and startup_runs: "init_runs 3 [1, 2] (startup_from d M)"
    and startup_drivers: "\<exists>a b. drvcbs (drvt (startup_from d M)) = (drvcbs (drvt (muxx_boot 0 d M)))
        [0 := started ''PTPDRV  '' ptpdesct a, 1 := started ''LPTDRV  '' lptdesct b] \<and>
        \<not> df_alloc a \<and> \<not> df_alloc b"
    and startup_dev: "dev (startup_from d M) = d"
    and startup_room: "free_room (mcbt (startup_from d M)) = 3200" "free_mcbs (mcbt (startup_from d M)) = 116"
    and startup_phys: "phys (startup_from d M) = M"
proof -
  obtain s' where s': "init_drivers 0x6000 0x6000 (muxx_boot 0 d M) = Ret EOK s'" "init_runs 3 [1, 2] s'"
      "\<exists>a b. drvcbs (drvt s') = (drvcbs (drvt (muxx_boot 0 d M)))
        [0 := started ''PTPDRV  '' ptpdesct a, 1 := started ''LPTDRV  '' lptdesct b] \<and>
        \<not> df_alloc a \<and> \<not> df_alloc b"
      "dev s' = d" "free_room (mcbt s') = 3200" "free_mcbs (mcbt s') = 116" "phys s' = M"
    using startup_init [of "0x6000" "0x6000" 0 d M] by blast
  then have "startup_from d M = s'" by (simp add: startup_from_def)
  with s' show "init_drivers 0x6000 0x6000 (muxx_boot 0 d M) = Ret EOK (startup_from d M)"
    "init_runs 3 [1, 2] (startup_from d M)"
    "\<exists>a b. drvcbs (drvt (startup_from d M)) = (drvcbs (drvt (muxx_boot 0 d M)))
        [0 := started ''PTPDRV  '' ptpdesct a, 1 := started ''LPTDRV  '' lptdesct b] \<and>
        \<not> df_alloc a \<and> \<not> df_alloc b"
    "dev (startup_from d M) = d" "free_room (mcbt (startup_from d M)) = 3200"
    "free_mcbs (mcbt (startup_from d M)) = 116" "phys (startup_from d M) = M"
    by simp_all
qed

lemma startup_inv: "system_inv 3 0 [1, 2] [] (startup_from d M)"
  using startup_runs by (simp add: init_runs_def)

lemma startup_ready: "unat m < 16 \<Longrightarrow> mutex_ready m (startup_from d M)"
  using startup_runs [of d M] init_runs_task [OF startup_runs, of d M]
  by (simp add: mutex_ready_def init_runs_def current_pid_def)

lemma startup_chan_ready: "chan_ready (startup_from d M)"
  using startup_runs [of d M] by (simp add: chan_ready_def startup_ready init_runs_def)

lemma startup_devices:
  shows "find_device ''PT      '' (startup_from d M) = Some 0"
    and "find_device ''LP      '' (startup_from d M) = Some 1"
    and "muxx_find_driver ''PTPDRV  '' (startup_from d M) = Some 0"
    and "muxx_find_driver ''LPTDRV  '' (startup_from d M) = Some 1"
proof -
  obtain a b where t: "drvcbs (drvt (startup_from d M)) = (drvcbs (drvt (muxx_boot 0 d M)))
      [0 := started ''PTPDRV  '' ptpdesct a, 1 := started ''LPTDRV  '' lptdesct b]"
    using startup_drivers by blast
  have up: "[0..<MAX_DRV] = 0 # 1 # [2..<MAX_DRV]" by (simp add: upt_conv_Cons)
  note defs = up dev_matches_def drv_used_def t started_def registered_def boot_drvcbs memeq_def
    ptpdesct_def lptdesct_def work_name_def cstrlen_def
  show "find_device ''PT      '' (startup_from d M) = Some 0"
    "find_device ''LP      '' (startup_from d M) = Some 1"
    by (simp_all add: find_device_def defs)
  show "muxx_find_driver ''PTPDRV  '' (startup_from d M) = Some 0"
    "muxx_find_driver ''LPTDRV  '' (startup_from d M) = Some 1"
    by (simp_all add: find_driver_find defs)
qed

lemma startup_drvcbs:
  shows "\<exists>a. drvcbs (drvt (startup_from d M)) ! 0 = started ''PTPDRV  '' ptpdesct a \<and> \<not> df_alloc a"
    and "\<exists>b. drvcbs (drvt (startup_from d M)) ! 1 = started ''LPTDRV  '' lptdesct b \<and> \<not> df_alloc b"
  using startup_drivers [of d M] boot_drvcbs(1) [of 0 d M] by auto

lemma startup_driver_fields:
  assumes "i \<in> {0, 1}"
  shows "df_active (drvcbs (drvt (startup_from d M)) ! i)" and "\<not> df_alloc (drvcbs (drvt (startup_from d M)) ! i)"
    and "desc (drvcbs (drvt (startup_from d M)) ! i) = Some (if i = 0 then ptpdesct else lptdesct)"
    and "drvname (drvcbs (drvt (startup_from d M)) ! i) = (if i = 0 then ''PTPDRV  '' else ''LPTDRV  '')"
  using assms startup_drvcbs [of d M] by (auto simp: started_def registered_def)

lemma startup_free_slot:
  shows "find_free_drvcb (drvcbs (drvt (startup_from d M))) = Some 2"
    and "muxx_find_driver ''NULDRV  '' (startup_from d M) = None"
proof -
  obtain a b where t: "drvcbs (drvt (startup_from d M)) = (drvcbs (drvt (muxx_boot 0 d M)))
      [0 := started ''PTPDRV  '' ptpdesct a, 1 := started ''LPTDRV  '' lptdesct b]"
    using startup_drivers by blast
  note defs = drv_used_def t started_def registered_def boot_drvcbs nth_list_update memeq_def
  show "find_free_drvcb (drvcbs (drvt (startup_from d M))) = Some 2"
    by (rule drv_slots.finds_first) (auto simp: defs)
  show "muxx_find_driver ''NULDRV  '' (startup_from d M) = None"
    by (auto simp: find_driver_find find_None_iff defs)
qed

text \<open>Further facts: the scheduler, the tables and the first free channel.\<close>

lemma startup_sched: "sched_rep (startup_from d M) 0 [1, 2] []"
  using startup_inv by (simp add: system_inv_def)

lemma startup_order: "sched_order (startup_from d M) [0, 1, 2] []"
  using startup_sched by (simp add: sched_order_def)

lemmas startup_task = init_runs_task [OF startup_runs]

lemma startup_fields:
  "mutexes (startup_from d M) = replicate MUT_MUTEXES 0" "ipl (startup_from d M) = 0"
  "mmu (startup_from d M) = init_mmu" "iotes (chnt (startup_from d M)) = replicate IOT_SENTRIES zero_iote"
  "clkquantum (startup_from d M) = CLK_QUANTUM" "clkcountdown (startup_from d M) = CLK_QUANTUM"
  "mmuState (tct (startup_from d M) ! 0) = init_mmu" "pid (tct (startup_from d M) ! 0) = 1"
  "drv_inv (startup_from d M)" "tasks_inv 3 (startup_from d M)" "mem_inv (mcbt (startup_from d M))"
  "free_base (mcbt (startup_from d M)) = 896" "length (tucbs (startup_from d M)) = MAX_TASKS"
  "tu_iote (tucbs (startup_from d M) ! 0) = replicate IOT_TENTRIES None"
  "taskTUCB (tct (startup_from d M) ! 0) = 8192 * 3 - 64"
  using startup_runs [of d M] startup_room [of d M] by (auto simp: init_runs_def system_inv_def mem_inv_def)

lemma startup_chan: "find_iote_slot (iotes (chnt (startup_from d M))) = Some 0"
  by (rule chan_slots.finds_first) (simp_all add: iote_used_def startup_fields zero_iote_def)

text \<open>Devices in which nothing has failed and nothing was put out yet.\<close>

definition quiet_devices :: "u8 list \<Rightarrow> devices" where
  "quiet_devices bs = \<lparr>tape_in = bs, reader_error = False, tape_out = [], punch_error = False,
     printed = [], printer_error = False\<rparr>"

text \<open>An open channel to a driver, and the channels a task gets after start-up.\<close>

definition channel_to :: "nat \<Rightarrow> nat \<Rightarrow> drvdesc \<Rightarrow> devices kstate \<Rightarrow> bool" where
  "channel_to i k dd s \<longleftrightarrow>
     i < length (iotes (chnt s)) \<and> io_open (iotes (chnt s) ! i) \<and> io_driver (iotes (chnt s) ! i) = Some k \<and>
     k < length (drvcbs (drvt s)) \<and> desc (drvcbs (drvt s) ! k) = Some dd"

lemma open_channel_to:
  assumes "chan_ready s" and "find_iote_slot (iotes (chnt s)) = Some i"
    and "find_device device s = Some k" and "df_active (drvcbs (drvt s) ! k)"
    and "desc (drvcbs (drvt s) ! k) = Some dd" and "\<not> da_shareable dd" and "\<not> df_alloc (drvcbs (drvt s) ! k)"
    and "muxx_find_driver (drvname (drvcbs (drvt s) ! k)) s = Some k"
  shows "\<exists>s1. muxx_svc_open device flags s = Ret (Some i) s1 \<and> channel_to i k dd s1 \<and> dev s1 = dev s"
proof -
  let ?s = "upd_drvcb k (own (curtcb s)) (upd_iote i (opened k True) s)"
  have "k < length (drvcbs (drvt s))" using find_device_bound [OF assms(3)] assms(1) by (auto simp: chan_ready_def)
  then have "channel_to i k dd ?s"
    using assms(5) open_slot [OF assms(1,2)]
    by (simp add: channel_to_def own_def opened_def located_def clear_status_def)
  moreover have "muxx_svc_open device flags s = Ret (Some i) ?s"
    by (rule open_unshared [OF assms(1-3) refl assms(4-8)])
  moreover have "dev ?s = dev s" by simp
  ultimately show ?thesis by blast
qed

lemma startup_open:
  shows "\<exists>s1. muxx_svc_open ''PT      '' flags (startup_from d M) = Ret (Some 0) s1 \<and>
      channel_to 0 0 ptpdesct s1 \<and> dev s1 = d"
    and "\<exists>s1. muxx_svc_open ''LP      '' flags (startup_from d M) = Ret (Some 0) s1 \<and>
      channel_to 0 1 lptdesct s1 \<and> dev s1 = d"
  using open_channel_to [OF startup_chan_ready startup_chan startup_devices(1), where flags = flags and dd = ptpdesct]
    open_channel_to [OF startup_chan_ready startup_chan startup_devices(2), where flags = flags and dd = lptdesct]
    startup_driver_fields [of _ d M] startup_devices(3,4) [of d M]
  by (simp_all add: ptpdesct_def lptdesct_def startup_dev)

end
