(* ===== verification/Sys_Tasks.thy ===== *)
theory Sys_Tasks
  imports Lib_Printf Lib_Sys Muxx_Startup
begin

text \<open>
  The tasks of the system (\<open>src/sys\<close>): INIT (\<open>init.s\<close>), STARTUP (\<open>startup.c\<close>), which loads the four
  demonstration tasks, TASKA to TASKD (\<open>taska.c\<close> to \<open>taskd.c\<close>, \<open>procd.c\<close>), and the loading shell
  (\<open>shell/rshell.c\<close>) with the messages it shows. A task runs on the kernel and the console: its state
  is the pair of both. Endless loops are run for a number of rounds.

  What the tasks do between two of their own steps is theirs; a call that waits (\<open>sleep\<close>, \<open>allocw\<close>)
  gives the processor to others, and what they do to the kernel and the console is the function
  \<open>yield\<close>.
\<close>

section \<open>A task's actions\<close>

type_synonym 'd system = "'d kstate \<times> con"

definition in_kernel :: "('d kstate \<Rightarrow> ('a, 'd kstate) outcome) \<Rightarrow> 'd system \<Rightarrow> ('a, 'd system) outcome" where
  "in_kernel f = (\<lambda>(s, c). with_con c (f s))"

definition on_console :: "(con \<Rightarrow> ('a, con) outcome) \<Rightarrow> 'd system \<Rightarrow> ('a, 'd system) outcome" where
  "on_console f = (\<lambda>(s, c). with_kernel s (f c))"

text \<open>\<open>printf\<close> with a literal format, and \<open>perror\<close>: the address of its message, and the word that
  happens to be on the stack.\<close>

definition say_printf :: "string \<Rightarrow> u16 list \<Rightarrow> 'd system \<Rightarrow> (int, 'd system) outcome" where
  "say_printf fmt args = on_console (printf (\<lambda>_. CHR 0x00) (fmt @ [CHR 0x00]) args)"

definition say_perror :: "int \<times> u16 \<Rightarrow> 'd system \<Rightarrow> (int, 'd system) outcome" where
  "say_perror g = (\<lambda>(s, c). on_console (perror (fst g) (snd g) (get_errno s)) (s, c))"

section \<open>INIT\<close>

text \<open>
  When a driver cannot be registered or started, INIT prints a message and halts; it passes the
  return code as the length of the message, and since that is negative nothing is printed.
\<close>

fun suspend_loop :: "nat \<Rightarrow> u16 \<Rightarrow> 'd kstate \<Rightarrow> (unit, 'd kstate) outcome" where
  "suspend_loop 0 fp s = Stop Diverges s"
| "suspend_loop (Suc n) fp s = andthen (muxx_svc_suspend fp None s) (\<lambda>_. suspend_loop n fp)"

definition init_task ::
  "nat \<Rightarrow> u16 \<Rightarrow> u16 \<Rightarrow> u16 \<Rightarrow> u16 \<Rightarrow> u16 \<Rightarrow> devices kstate \<Rightarrow> (unit, devices kstate) outcome" where
  "init_task fuel shellproc ptphnd lpthnd FSTART fp s =
     andthen (init_drivers ptphnd lpthnd s) (\<lambda>_ s.
     andthen (muxx_svc_loadprc shellproc ''STARTUP '' (SYS_TASK + TSZ_SMALL) FSTART 8 1 s) (\<lambda>_.
       suspend_loop fuel fp))"

section \<open>STARTUP\<close>

text \<open>The \<open>loadprc\<close> service shows the address of the shell before it does anything.\<close>

definition loadprc ::
  "u16 \<Rightarrow> string \<Rightarrow> u16 \<Rightarrow> u16 \<Rightarrow> u16 \<Rightarrow> u16 \<Rightarrow> 'd system \<Rightarrow> (int, 'd system) outcome" where
  "loadprc shellproc name type file len privs x =
     andthen (on_console (say (''rshell=%o'' @ [NL]) [KWord shellproc]) x) (\<lambda>_.
       in_kernel (muxx_svc_loadprc shellproc name type file len privs))"

text \<open>\<open>PT\<close> is the address of the string \<open>"PT"\<close> in the image of STARTUP.\<close>

definition startup_load :: "u16 \<Rightarrow> u16 \<Rightarrow> string \<times> u16 \<Rightarrow> 'd system \<Rightarrow> (int, 'd system) outcome" where
  "startup_load shellproc PT task x =
     andthen (say_printf (''Loading task '' @ takeWhile (\<lambda>ch. ch \<noteq> CHR '' '') (fst task) @ ''...'') [] x) (\<lambda>_ x.
     andthen (loadprc shellproc (fst task) (snd task) PT 2 0 x) (\<lambda>rc.
       say_printf ('' rc=%d'' @ [NL]) [word_of_int rc]))"

definition startup_tasks :: "(string \<times> u16) list" where
  "startup_tasks =
     [(''TASKA   '', USR_TASK + TSZ_SMALL), (''TASKB   '', USR_TASK + TSZ_SMALL),
      (''TASKC   '', USR_TASK + TSZ_SMALL), (''TASKD   '', USR_TASK + TSZ_BIG)]"

fun startup_loads :: "u16 \<Rightarrow> u16 \<Rightarrow> (string \<times> u16) list \<Rightarrow> 'd system \<Rightarrow> (unit, 'd system) outcome" where
  "startup_loads shellproc PT [] x = Ret () x"
| "startup_loads shellproc PT (task # tasks) x =
     andthen (startup_load shellproc PT task x) (\<lambda>_. startup_loads shellproc PT tasks)"

definition startup_main :: "u16 \<Rightarrow> u16 \<Rightarrow> u16 \<Rightarrow> 'd system \<Rightarrow> (unit, 'd system) outcome" where
  "startup_main shellproc PT fp x =
     andthen (startup_loads shellproc PT startup_tasks x) (\<lambda>_ x.
     andthen (say_printf ''Suspending STARTUP task...'' [] x) (\<lambda>_ x.
     andthen (in_kernel (muxx_svc_suspend fp None) x) (\<lambda>_. Ret ())))"

section \<open>TASKA to TASKC\<close>

text \<open>
  The words of the task's user control block that the tasks show, and the address of the task
  control block. \<open>sleeping\<close> is a sleep of the given number of seconds, which may never end.
\<close>

definition own_words ::
  "'d kstate \<Rightarrow> (tcb \<Rightarrow> tucb \<Rightarrow> 'd kstate \<Rightarrow> ('a, 'd kstate) outcome) \<Rightarrow> ('a, 'd kstate) outcome" where
  "own_words s k = at_ptr (tct s) (curtcb s) s (\<lambda>i. at_ptr (tucbs s) (curtcb s) s (\<lambda>j. k (tct s ! i) (tucbs s ! j) s))"

definition sleeping :: "('d system \<Rightarrow> 'd system option) \<Rightarrow> 'd system \<Rightarrow> (unit, 'd system) outcome" where
  "sleeping sleeps x = (case sleeps x of None \<Rightarrow> Stop Diverges x | Some x \<Rightarrow> Ret () x)"

definition code_and_top :: "string \<Rightarrow> 'd system \<Rightarrow> (int, 'd system) outcome" where
  "code_and_top name x =
     andthen (in_kernel (\<lambda>s. own_words s (\<lambda>_ u. Ret (endcode u, toptask u))) x) (\<lambda>(endc, topt).
       say_printf (name @ '' - Top of code: %06o, top of task: %06o'' @ [NL]) [endc, topt])"

definition taska ::
  "nat \<Rightarrow> (ptr \<Rightarrow> u16) \<Rightarrow> (u16 \<Rightarrow> 'd system \<Rightarrow> 'd system option) \<Rightarrow> 'd system \<Rightarrow> (unit list, 'd system) outcome" where
  "taska n tcb_addr sleeps x =
     andthen (in_kernel (\<lambda>s. own_words s (\<lambda>t _ s. Ret [tcb_addr (curtcb s), taskTUCB t] s)) x) (\<lambda>args x.
     andthen (say_printf (''TASKA - TCB: %o, TUCB: %o'' @ [NL]) args x) (\<lambda>_ x.
     andthen (code_and_top ''TASKA'' x) (\<lambda>_.
       repeat_n n (\<lambda>x. andthen (say_printf (''This is TASKA'' @ [NL]) [] x) (\<lambda>_. sleeping (sleeps 1))))))"

definition longword_args :: "u32 \<Rightarrow> u16 list" where
  "longword_args l = [ucast (drop_bit 16 l), ucast l]"

text \<open>\<open>gettpi\<close> with a copy of the own task control block.\<close>

definition own_ticks :: "'d kstate \<Rightarrow> (u32, 'd kstate) outcome" where
  "own_ticks s =
     andthen (muxx_svc_gettpi 0 s) (\<lambda>(rc, t) s.
       case t of None \<Rightarrow> Stop (Fault BadArgument) s | Some t \<Rightarrow> Ret (clockTicks t) s)"

definition taskb ::
  "nat \<Rightarrow> (u16 \<Rightarrow> 'd system \<Rightarrow> 'd system option) \<Rightarrow> 'd system \<Rightarrow> (unit list, 'd system) outcome" where
  "taskb n sleeps x =
     andthen (code_and_top ''TASKB'' x) (\<lambda>_.
       repeat_n n (\<lambda>x.
         andthen (in_kernel own_ticks x) (\<lambda>ticks x.
         andthen (say_printf (''This is TASKB - Ticks: %ld'' @ [NL]) (longword_args ticks) x) (\<lambda>_.
           sleeping (sleeps 2)))))"

definition taskc ::
  "nat \<Rightarrow> (u16 \<Rightarrow> 'd system \<Rightarrow> 'd system option) \<Rightarrow> 'd system \<Rightarrow> (unit list, 'd system) outcome" where
  "taskc n sleeps x =
     andthen (code_and_top ''TASKC'' x) (\<lambda>_.
       repeat_n n (\<lambda>x. andthen (say_printf (''This is TASKC'' @ [NL]) [] x) (\<lambda>_. sleeping (sleeps 3))))"

definition proca ::
  "nat \<Rightarrow> (u16 \<Rightarrow> 'd system \<Rightarrow> 'd system option) \<Rightarrow> 'd system \<Rightarrow> (unit list, 'd system) outcome" where
  "proca n sleeps x =
     andthen (in_kernel (\<lambda>s. own_words s (\<lambda>_ u. Ret (endcode u, toptask u))) x) (\<lambda>(endc, topt).
       repeat_n n (\<lambda>x.
         andthen (say_printf (''TASKA - Top of code: %06o, top of task: %06o'' @ [NL]) [endc, topt] x) (\<lambda>_.
           sleeping (sleeps 1))))"

section \<open>Two tasks that print\<close>

text \<open>A string literal in memory, with its NUL.\<close>

definition literal_bytes :: "string \<Rightarrow> nat \<Rightarrow> u8" where
  "literal_bytes str j = (if j < length str then of_nat (of_char (str ! j)) else 0)"

text \<open>The result of \<open>write\<close> is reported with the number of bytes there should have been.\<close>

definition procd_write ::
  "devices callback \<Rightarrow> int \<times> u16 \<Rightarrow> int \<Rightarrow> devices system \<Rightarrow> (int, devices system) outcome" where
  "procd_write cb g fd x =
     andthen (in_kernel (lib_write cb fd 12 (literal_bytes (''Test line.'' @ [NL]))) x) (\<lambda>n x.
       if n > 0 then
         andthen (say_printf (''Writen %d bytes'' @ [NL]) [word_of_int n] x) (\<lambda>_ x.
           if n < 12 then say_perror g x else Ret 0 x)
       else say_perror g x)"

definition procd_round ::
  "devices callback \<Rightarrow> int \<times> u16 \<Rightarrow> devices system \<Rightarrow> (int, devices system) outcome" where
  "procd_round cb g x =
     andthen (in_kernel (lib_open ''LP      '' 0) x) (\<lambda>fd x.
     andthen (if fd < 0 then say_perror g x
              else andthen (say_printf (''Channel opened, fd=%d'' @ [NL]) [word_of_int fd] x) (\<lambda>_.
                     procd_write cb g fd)) (\<lambda>_ x.
     andthen (in_kernel (lib_close fd) x) (\<lambda>_.
       say_printf (''Channel closed'' @ [NL]) [])))"

definition procd ::
  "nat \<Rightarrow> devices callback \<Rightarrow> int \<times> u16 \<Rightarrow> devices system \<Rightarrow> (int list, devices system) outcome" where
  "procd n cb g x =
     andthen (in_kernel getpid x) (\<lambda>pid x.
     andthen (say_printf (''Starting task B, PID=%06o'' @ [NL]) [word_of_int pid] x) (\<lambda>_.
       repeat_n n (procd_round cb g)))"

text \<open>
  TASKD allocates the driver before it opens the device. \<open>allocw\<close> repeats the allocation while
  somebody else has the driver; the number of ticks it shows is a longword.
\<close>

definition alloc_call :: "string \<Rightarrow> u16 \<Rightarrow> 'd system \<Rightarrow> (int, 'd system) outcome" where
  "alloc_call name mode = in_kernel (muxx_svc_alloc name mode)"

fun alloc_wait ::
  "nat \<Rightarrow> ('d system \<Rightarrow> 'd system) \<Rightarrow> string \<Rightarrow> u16 \<Rightarrow> 'd system \<Rightarrow> (int, 'd system) outcome" where
  "alloc_wait 0 yield name mode x = Stop Diverges x"
| "alloc_wait (Suc fuel) yield name mode x =
     andthen (alloc_call name mode x) (\<lambda>rc x.
       if rc = ENOAVAIL \<or> rc = ELOCKED then alloc_wait fuel yield name mode (yield x) else Ret rc x)"

definition show_ticks :: "string \<Rightarrow> 'd system \<Rightarrow> (int, 'd system) outcome" where
  "show_ticks fmt x = say_printf fmt (longword_args (utimeticks (fst x))) x"

definition taskd_write ::
  "devices callback \<Rightarrow> int \<times> u16 \<Rightarrow> int \<Rightarrow> devices system \<Rightarrow> (int, devices system) outcome" where
  "taskd_write cb g fd x =
     andthen (in_kernel (muxx_svc_gettpi 0) x) (\<lambda>_ x.
     andthen (in_kernel (lib_write cb fd 10 (literal_bytes (''Test line'' @ [NL]))) x) (\<lambda>n x.
       if n > 0 then
         andthen (say_printf (''Writen %d bytes'' @ [NL]) [word_of_int n] x) (\<lambda>_ x.
           if n < 10 then andthen (say_printf ''Incomplete write.'' [] x) (\<lambda>_. say_perror g)
           else Ret 0 x)
       else (case x of (s, c) \<Rightarrow>
         andthen (say_printf (''Error writing: %d'' @ [NL]) [word_of_int (get_errno s)] x) (\<lambda>_. say_perror g))))"

definition taskd_open ::
  "devices callback \<Rightarrow> int \<times> u16 \<Rightarrow> (u16 \<Rightarrow> devices system \<Rightarrow> devices system option) \<Rightarrow>
   devices system \<Rightarrow> (int, devices system) outcome" where
  "taskd_open cb g sleeps x =
     andthen (in_kernel (lib_open ''LP      '' 0) x) (\<lambda>fd x.
       andthen (if fd < 0 then
                  andthen (say_printf (''Error opening LPT: %d'' @ [NL]) [word_of_int fd] x) (\<lambda>_. say_perror g)
                else
                  andthen (say_printf (''Channel opened'' @ [NL]) [] x) (\<lambda>_ x.
                  andthen (sleeping (sleeps 3) x) (\<lambda>_ x.
                  andthen (say_printf (''Channel opened, fd=%d'' @ [NL]) [word_of_int fd] x) (\<lambda>_.
                    taskd_write cb g fd)))) (\<lambda>_. Ret fd))"

definition taskd_round ::
  "nat \<Rightarrow> devices callback \<Rightarrow> int \<times> u16 \<Rightarrow> (devices system \<Rightarrow> devices system) \<Rightarrow>
   (u16 \<Rightarrow> devices system \<Rightarrow> devices system option) \<Rightarrow> devices system \<Rightarrow> (int, devices system) outcome" where
  "taskd_round fuel cb g yield sleeps x =
     andthen (alloc_wait fuel yield ''LPTDRV  '' DRV_ALLOC x) (\<lambda>n x.
     andthen (if n \<noteq> 0 then
                andthen (say_printf (''TASKD - Error allocw: %d.'' @ [NL]) [word_of_int n] x) (\<lambda>_. say_perror g)
              else show_ticks (''TASKD - Allocated at %8ld.'' @ [NL]) x) (\<lambda>_ x.
     andthen (taskd_open cb g sleeps x) (\<lambda>fd x.
     andthen (in_kernel (lib_close fd) x) (\<lambda>_ x.
     andthen (say_printf (''Channel closed'' @ [NL]) [] x) (\<lambda>_ x.
     andthen (alloc_call ''LPTDRV  '' DRV_DEALLOC x) (\<lambda>n x.
       if n = 0 then
         andthen (show_ticks (''TASKD - Deallocated at %6ld.'' @ [NL]) x) (\<lambda>_ x.
         andthen (sleeping (sleeps 1) x) (\<lambda>_. Ret 0))
       else say_perror g x))))))"

definition taskd ::
  "nat \<Rightarrow> nat \<Rightarrow> devices callback \<Rightarrow> int \<times> u16 \<Rightarrow> (devices system \<Rightarrow> devices system) \<Rightarrow>
   (u16 \<Rightarrow> devices system \<Rightarrow> devices system option) \<Rightarrow> devices system \<Rightarrow> (int list, devices system) outcome" where
  "taskd n fuel cb g yield sleeps x =
     andthen (in_kernel getpid x) (\<lambda>pid x.
     andthen (say_printf (''Starting task D, PID=%06o'' @ [NL]) [word_of_int pid] x) (\<lambda>_.
       repeat_n n (taskd_round fuel cb g yield sleeps)))"

section \<open>The loading shell\<close>

text \<open>
  The shell of a new task with its messages. \<open>parm\<close> is the name of the device at \<open>TASK_BASE\<close>; the
  program it jumps to is not part of the model: \<open>pgm\<close> is what it does when it is entered at an
  address. When it returns, or nothing was loaded, the task suspends itself.
\<close>

definition rshell_says :: "memory \<Rightarrow> string \<Rightarrow> u16 list \<Rightarrow> 'd system \<Rightarrow> (int, 'd system) outcome" where
  "rshell_says m fmt args =
     on_console (printf (\<lambda>a. char_of (unat (m a))) (fmt @ [CHR 0x00]) args)"

fun rshell_load ::
  "nat \<Rightarrow> 'd callback \<Rightarrow> (u16 \<Rightarrow> 'd system \<Rightarrow> 'd system option) \<Rightarrow> string \<Rightarrow> u16 \<Rightarrow> memory \<Rightarrow> 'd system \<Rightarrow>
   (int \<times> u16 \<times> memory, 'd system) outcome" where
  "rshell_load 0 cb sleeps parm entry m x = Stop Diverges x"
| "rshell_load (Suc fuel) cb sleeps parm entry m x =
     andthen (in_kernel (load cb parm entry m) x) (\<lambda>(rc, entry, m) x.
       if rc = ENOAVAIL \<or> rc = ENOSYSRES then
         andthen (rshell_says m (''Device not available (%d), sleeping and retrying...'' @ [NL])
           [word_of_int rc] x) (\<lambda>_ x.
         andthen (sleeping (sleeps 1) x) (\<lambda>_. rshell_load fuel cb sleeps parm entry m))
       else Ret (rc, entry, m) x)"

fun shell_exit :: "nat \<Rightarrow> u16 \<Rightarrow> 'd system \<Rightarrow> (unit, 'd system) outcome" where
  "shell_exit 0 fp x = Stop Diverges x"
| "shell_exit (Suc n) fp x =
     andthen (say_printf (''Task exited - we don'' @ [CHR 0x27] @ ''t know to handle that yet!'' @ [NL]) [] x) (\<lambda>_ x.
     andthen (say_printf ''Suspending this task...'' [] x) (\<lambda>_ x.
     andthen (in_kernel (muxx_svc_suspend fp None) x) (\<lambda>_. shell_exit n fp)))"

definition rshell_task ::
  "nat \<Rightarrow> 'd callback \<Rightarrow> (u16 \<Rightarrow> 'd system \<Rightarrow> 'd system option) \<Rightarrow>
   (u16 \<Rightarrow> memory \<Rightarrow> 'd system \<Rightarrow> (unit, 'd system) outcome) \<Rightarrow> u16 \<Rightarrow> string \<Rightarrow> memory \<Rightarrow> 'd system \<Rightarrow>
   (unit, 'd system) outcome" where
  "rshell_task fuel cb sleeps pgm fp parm m x =
     andthen (rshell_says m (''Loading from device %8s...'' @ [NL]) [TASK_BASE] x) (\<lambda>_ x.
     andthen (rshell_load fuel cb sleeps parm 0 m x) (\<lambda>(rc, entry, m) x.
     andthen (if rc \<ge> 0 then
                andthen (rshell_says m (''Load OK, %d bytes loaded.'' @ [NL]) [word_of_int rc] x) (\<lambda>_ x.
                andthen (rshell_says m (''Task entry point: %o'' @ [NL]) [entry] x) (\<lambda>_. pgm entry m))
              else andthen (rshell_says m (''Load failed, rc=%d'' @ [NL]) [word_of_int rc] x) (\<lambda>_. Ret ()))
       (\<lambda>_. shell_exit fuel fp)))"

section \<open>INIT brings the system up\<close>

lemma startup_types [simp]:
  "check_tasktype (SYS_TASK + TSZ_SMALL)" "check_tasktype (USR_TASK + TSZ_SMALL)" "check_tasktype (USR_TASK + TSZ_BIG)"
  "task_blocks (SYS_TASK + TSZ_SMALL) = 192" "task_entries (SYS_TASK + TSZ_SMALL) = 2"
  by (simp_all add: check_tasktype_def task_blocks_def task_entries_def private_pages_def)

lemma init_pages: "p \<le> 2 \<Longrightarrow> unat (upar init_mmu ! p) \<le> 256"
proof -
  assume "p \<le> 2"
  then consider "p = 0" | "p = 1" | "p = 2" by linarith
  then show ?thesis by cases (simp_all add: init_mmu_def)
qed

lemma unsched_fields:
  assumes "unsched s' = unsched s"
  shows "drvt s' = drvt s" and "chnt s' = chnt s" and "phys s' = phys s" and "dev s' = dev s"
    and "mcbt s' = mcbt s" and "mutexes s' = mutexes s" and "map identity (tct s') = map identity (tct s)"
  using arg_cong [OF assms, of drvt] arg_cong [OF assms, of chnt] arg_cong [OF assms, of phys]
    arg_cong [OF assms, of dev] arg_cong [OF assms, of mcbt] arg_cong [OF assms, of mutexes]
    arg_cong [OF assms, of tct]
  by (simp_all add: unsched_def)

lemma born_taskname: "taskname (born name p type parent entry privs b t) = take 8 name"
  by (simp add: born_def)

lemma init_task_runs:
  assumes "unat (FSTART AND 0x1FFF) + 8 \<le> 8192" and "page_of FSTART \<le> 2"
  defines "a \<equiv> unat (upar init_mmu ! page_of FSTART) * 64 + unat (FSTART AND 0x1FFF)"
  shows "\<exists>s. init_task (Suc n) shellproc 0x6000 0x6000 FSTART fp (muxx_boot 0 d M) = Stop Switched s \<and>
    sched_rep s 1 [2, 3] [0] \<and> loaded s 1 \<and>
    taskname (tct s ! 3) = ''STARTUP '' \<and> cs_pc (cpuState (tct s ! 3)) = shellproc \<and>
    upar (mmuState (tct s ! 3)) ! 3 = 896 \<and> phys s = phys_copied 8 57344 a M \<and>
    drvt s = drvt (startup_from d M) \<and> dev s = d"
proof -
  let ?s = "startup_from d M"
  have host: "can_host (SYS_TASK + TSZ_SMALL) (mcbt ?s)"
    by (simp add: can_host_def startup_room task_blocks_def task_entries_def private_pages_def check_tasktype_def)
  have page: "unat (upar init_mmu ! page_of FSTART) \<le> 256" by (rule init_pages) (rule assms(2))
  have off: "unat (FSTART AND 0x1FFF) < 8192"
    using assms(1) by simp
  have apart: "a + unat (8 :: u16) \<le> 57344" using page assms(1) by (simp add: a_def)
  let ?p = "upar init_mmu ! page_of FSTART"
  have cur: "uic (tct ?s ! 0) = 0 \<or> operprv (tct ?s ! 0)" "ipl ?s AND 7 = ipl ?s" "(8 :: u16) \<noteq> 0"
      "upar (mmuState (tct ?s ! 0)) ! page_of FSTART = ?p" "unat ?p + 128 \<le> 3968" "free_base (mcbt ?s) + 128 \<le> 3968"
      "unat (FSTART AND 0x1FFF) + unat (8 :: u16) \<le> 8192" "length (kpar (mmu ?s)) = 8" "length (kpdr (mmu ?s)) = 8"
      "57344 = free_base (mcbt ?s) * 64" "57344 \<le> a \<or> a + unat (8 :: u16) \<le> 57344"
    using startup_task [of d M] startup_fields [of d M] page assms(1) apart by (simp_all add: init_mmu_def)
  from loadprc_ok [OF startup_inv _ host cur(1-9) a_def [THEN meta_eq_to_obj_eq] cur(10,11), of shellproc "''STARTUP ''" 1]
  obtain s1 where s1: "muxx_svc_loadprc shellproc ''STARTUP '' (SYS_TASK + TSZ_SMALL) FSTART 8 1 ?s =
      Ret (uint (fresh_pid (SYS_TASK + TSZ_SMALL) ?s)) s1" "system_inv (Suc 3) 0 ([1, 2] @ [3]) [] s1"
    "phys s1 = phys_copied (unat (8 :: u16)) 57344 a (phys ?s)" "same_frame (?s\<lparr>phys := phys s1\<rparr>) s1"
    "map unlinked (tct s1) = map unlinked ((tct ?s)[3 := born ''STARTUP '' (fresh_pid (SYS_TASK + TSZ_SMALL) ?s)
      (SYS_TASK + TSZ_SMALL) (pid (tct ?s ! 0)) shellproc 1 (free_base (mcbt ?s)) (tct ?s ! 3)])"
    by auto
  note t3 = unlinked_nth [OF s1(5), of 3]
  have b3: "cs_pc (cpuState (tct s1 ! 3)) = shellproc" "taskname (tct s1 ! 3) = ''STARTUP ''"
    "upar (mmuState (tct s1 ! 3)) ! 3 = 896"
    using t3 startup_task(2) [of d M] by (simp_all add: born_entry born_taskname born_page_3 startup_fields)
  have rep: "sched_rep s1 0 (1 # [2, 3]) []" and ti: "tasks_inv 4 s1"
    using s1(2) by (simp_all add: system_inv_def)
  obtain s2 where s2: "muxx_svc_suspend fp None s1 = Stop Switched s2" "sched_rep s2 1 [2, 3] ([] @ [0])"
    "loaded s2 1" "unsched s2 = unsched s1"
    "contexts s2 = (contexts s1)[0 := (saved_context fp (syscall_frame (cpu s1)) (fst (contexts s1 ! 0)), mmu s1)]"
    using suspend_self_spec [OF rep, of None fp] by auto
  have len: "length (tct s1) = 16" "length (tct s2) = 16"
    using rep s2(2) by (simp_all add: sched_rep_def ready_rep_def)
  have "cpuState (tct s2 ! 3) = cpuState (tct s1 ! 3)" "mmuState (tct s2 ! 3) = mmuState (tct s1 ! 3)"
    using arg_cong [OF s2(5), of "\<lambda>cs. fst (cs ! 3)"] arg_cong [OF s2(5), of "\<lambda>cs. snd (cs ! 3)"] len
    by (simp_all add: contexts_def context_of_def)
  moreover have "taskname (tct s2 ! 3) = taskname (tct s1 ! 3)"
    using arg_cong [OF unsched_fields(7) [OF s2(4)], of "\<lambda>ts. taskname (ts ! 3)"] len
    by (simp add: identity_def)
  moreover have "init_task (Suc n) shellproc 0x6000 0x6000 FSTART fp (muxx_boot 0 d M) = Stop Switched s2"
    using startup_result [of d M] s1(1) s2(1) by (simp add: init_task_def)
  ultimately show ?thesis
    using b3 s2(2,3) unsched_fields [OF s2(4)] s1(3,4) startup_dev [of d M] startup_phys [of d M] by (auto simp: same_frame_def)
qed

section \<open>What the tasks show\<close>

lemma say_printf_text:
  assumes "txline c = []" and "plain fmt"
  shows "say_printf fmt [] (s, c) = Ret 0 (s, shows_text c (crlf fmt))"
proof -
  have "printf (\<lambda>_. CHR 0x00) (format_text [] fmt @ CHR 0x00 # []) (format_args [] @ []) c =
      Ret 0 (shows_text c (crlf (shown_text (\<lambda>_. CHR 0x00) [] fmt)))"
    using doprnt_shows [OF assms(1), where parts = "[]" and end_text = fmt and f = "[]" and ?r4.0 = "[]"] assms(2)
    by (simp add: printf_def)
  then show ?thesis
    by (simp add: say_printf_def on_console_def format_text_def format_args_def shown_text_def)
qed

text \<open>One number in a text.\<close>

definition dec_field :: "u16 \<Rightarrow> field_spec" where
  "dec_field w = \<lparr>left_adjusted = False, zero_filled = False, field_width = 0, precision = 0, item = Dec w\<rparr>"

definition dec_text :: "u16 \<Rightarrow> string" where
  "dec_text w = signed_text 0 (sint w)"

lemma say_printf_dec:
  assumes "txline c = []" and "plain s1" and "plain s2"
  shows "say_printf (s1 @ ''%d'' @ s2) [w] (s, c) = Ret 0 (s, shows_text c (crlf (s1 @ dec_text w @ s2)))"
proof -
  let ?d = "dec_field w"
  have "printf (\<lambda>_. CHR 0x00) (format_text [(s1, ?d)] s2 @ CHR 0x00 # []) (format_args [(s1, ?d)] @ []) c =
      Ret 0 (shows_text c (crlf (shown_text (\<lambda>_. CHR 0x00) [(s1, ?d)] s2)))"
    using doprnt_shows [OF assms(1), where parts = "[(s1, ?d)]" and end_text = s2 and f = "[]" and ?r4.0 = "[]"]
      assms(2,3) by (simp add: printf_def fits_number dec_field_def)
  moreover have "format_text [(s1, ?d)] s2 = s1 @ ''%d'' @ s2" "format_args [(s1, ?d)] = [w]"
    by (simp_all add: format_text_def format_args_def directive_text_def dec_field_def)
  moreover have "shown_text (\<lambda>_. CHR 0x00) [(s1, ?d)] s2 = s1 @ dec_text w @ s2"
    by (simp add: shown_text_def field_text_def dec_field_def adjusted_def dec_text_def fill_of_def
        signed_text_def unsigned_text_def)
  ultimately show ?thesis by (simp add: say_printf_def on_console_def)
qed

section \<open>STARTUP loads its tasks\<close>

text \<open>The running task \<open>c\<close> may load programs from the device whose two-letter name is at the address
  \<open>PT\<close> of its space, at \<open>a\<close> in the physical memory.\<close>

definition can_load :: "nat \<Rightarrow> nat \<Rightarrow> nat list \<Rightarrow> nat list \<Rightarrow> u16 \<Rightarrow> nat \<Rightarrow> 'd kstate \<Rightarrow> bool" where
  "can_load k c rs ss PT a s \<longleftrightarrow>
     system_inv k c rs ss s \<and> (uic (tct s ! c) = 0 \<or> operprv (tct s ! c)) \<and> ipl s AND 7 = ipl s \<and>
     length (kpar (mmu s)) = 8 \<and> length (kpdr (mmu s)) = 8 \<and>
     unat (upar (mmuState (tct s ! c)) ! page_of PT) + 128 \<le> 3968 \<and>
     a = unat (upar (mmuState (tct s ! c)) ! page_of PT) * 64 + unat (PT AND 0x1FFF) \<and>
     unat (PT AND 0x1FFF) + 2 \<le> 8192 \<and> a + 2 \<le> free_base (mcbt s) * 64"

lemma unlinked_same_task:
  assumes "map unlinked ts' = map unlinked (ts[k := t])" and "i \<noteq> k" and "i < length ts"
  shows "unlinked (ts' ! i) = unlinked (ts ! i)"
  using arg_cong [OF assms(1), of "\<lambda>xs. xs ! i"] unlinked_same(1) [OF assms(1)] assms(2,3) by simp

lemma unlinked_eq_fields:
  assumes "unlinked t' = unlinked t"
  shows "mmuState t' = mmuState t" and "uic t' = uic t" and "operprv t' = operprv t"
    and "pid t' = pid t" and "taskname t' = taskname t" and "cpuState t' = cpuState t"
  using arg_cong [OF assms, of mmuState] arg_cong [OF assms, of uic] arg_cong [OF assms, of prvword]
    arg_cong [OF assms, of pid] arg_cong [OF assms, of taskname] arg_cong [OF assms, of cpuState]
  by (simp_all add: unlinked_def operprv_def)

lemma can_load_step:
  assumes ld: "can_load k c rs ss PT a s" and k: "k < MAX_TASKS" and host: "can_host type (mcbt s)"
    and db: "free_base (mcbt s) + 128 \<le> 3968"
  shows "\<exists>s'. muxx_svc_loadprc shellproc name type PT 2 0 s = Ret (uint (fresh_pid type s)) s' \<and>
    can_load (Suc k) c (rs @ [k]) ss PT a s' \<and> pid (tct s' ! k) = fresh_pid type s \<and>
    taskname (tct s' ! k) = take 8 name \<and> (\<forall>i < k. unlinked (tct s' ! i) = unlinked (tct s ! i)) \<and>
    free_base (mcbt s') = free_base (mcbt s) + task_blocks type \<and>
    free_room (mcbt s') = free_room (mcbt s) - task_blocks type \<and>
    free_mcbs (mcbt s') = free_mcbs (mcbt s) - task_entries type"
proof -
  let ?b = "free_base (mcbt s) * 64"
  have inv: "system_inv k c rs ss s" using ld by (simp add: can_load_def)
  have len: "length (tct s) = MAX_TASKS" "c < k"
    using inv by (auto simp: system_inv_def sched_rep_def ready_rep_def)
  have p: "uic (tct s ! c) = 0 \<or> operprv (tct s ! c)" "ipl s AND 7 = ipl s" "(2 :: u16) \<noteq> 0"
    "unat (upar (mmuState (tct s ! c)) ! page_of PT) + 128 \<le> 3968"
    "unat (PT AND 0x1FFF) + unat (2 :: u16) \<le> 8192" "length (kpar (mmu s)) = 8" "length (kpdr (mmu s)) = 8"
    "a = unat (upar (mmuState (tct s ! c)) ! page_of PT) * 64 + unat (PT AND 0x1FFF)"
    "?b \<le> a \<or> a + unat (2 :: u16) \<le> ?b"
    using ld by (auto simp: can_load_def)
  from loadprc_ok [OF inv k host p(1-3) refl p(4) db p(5-8) refl p(9), of shellproc name 0] obtain s' where
    s': "muxx_svc_loadprc shellproc name type PT 2 0 s = Ret (uint (fresh_pid type s)) s'"
      "system_inv (Suc k) c (rs @ [k]) ss s'"
      "map unlinked (tct s') = map unlinked ((tct s)[k :=
        born name (fresh_pid type s) type (pid (tct s ! c)) shellproc 0 (free_base (mcbt s)) (tct s ! k)])"
      "free_base (mcbt s') = free_base (mcbt s) + task_blocks type"
      "free_room (mcbt s') = free_room (mcbt s) - task_blocks type"
      "free_mcbs (mcbt s') = free_mcbs (mcbt s) - task_entries type"
      "same_frame (s\<lparr>phys := phys s'\<rparr>) s'"
    by auto
  have same: "unlinked (tct s' ! i) = unlinked (tct s ! i)" if "i < k" for i
    using unlinked_same_task [OF s'(3)] that k len by simp
  note cf = unlinked_eq_fields [OF same [OF len(2)]]
  have "unlinked (tct s' ! k) = unlinked (born name (fresh_pid type s) type (pid (tct s ! c)) shellproc 0
      (free_base (mcbt s)) (tct s ! k))"
    using arg_cong [OF s'(3), of "\<lambda>xs. xs ! k"] unlinked_same(1) [OF s'(3)] len k by simp
  note bf = unlinked_eq_fields [OF this]
  have "can_load (Suc k) c (rs @ [k]) ss PT a s'"
    using ld s'(2,4,7) cf by (auto simp: can_load_def same_frame_def)
  with s'(1,4-6) bf(4,5) same show ?thesis by (auto simp: born_taskname)
qed

definition startup_line :: "u16 \<Rightarrow> string \<times> u16 \<Rightarrow> u16 \<Rightarrow> string" where
  "startup_line shellproc task p =
     ''Loading task '' @ takeWhile (\<lambda>ch. ch \<noteq> CHR '' '') (fst task) @ ''...rshell='' @ itoo shellproc @ [CR, NL] @
     '' rc='' @ dec_text p @ [CR, NL]"

lemma say_rshell:
  assumes "txline c = []"
  shows "on_console (say (''rshell=%o'' @ [NL]) [KWord w]) (s, c) =
    Ret () (s, shows_text c (''rshell='' @ itoo w @ [CR, NL]))"
proof -
  have "expand (''rshell=%o'' @ [NL]) [KWord w] = Some (''rshell='' @ itoo w @ [CR, NL])" by simp
  from prints_textD [OF prints_say_text [OF this] assms] show ?thesis by (simp add: on_console_def)
qed

lemma crlf_same: "NL \<notin> set t \<Longrightarrow> crlf t = t"
  by (induction t) (auto simp: crlf_def)

lemma task_name_plain:
  "CHR ''%'' \<notin> set n \<and> CHR 0x00 \<notin> set n \<and> NL \<notin> set n \<and> length n \<le> 100 \<Longrightarrow>
   plain (''Loading task '' @ takeWhile P n @ ''...'') \<and>
   crlf (''Loading task '' @ takeWhile P n @ ''...'') = ''Loading task '' @ takeWhile P n @ ''...''"
proof -
  assume n: "CHR ''%'' \<notin> set n \<and> CHR 0x00 \<notin> set n \<and> NL \<notin> set n \<and> length n \<le> 100"
  then have sub: "CHR ''%'' \<notin> set (takeWhile P n)" "CHR 0x00 \<notin> set (takeWhile P n)" "NL \<notin> set (takeWhile P n)"
    "length (takeWhile P n) \<le> 100"
    using set_takeWhileD [of _ P n] length_takeWhile_le [of P n] by (auto intro: order.trans)
  with crlf_same show ?thesis by (auto simp: plain_def)
qed

lemma crlf_dec_text: "crlf (dec_text w) = dec_text w"
proof -
  have digits: "NL \<notin> set (numeral_text 10 n)" for n
  proof (induction n rule: less_induct)
    case (less n)
    have digit: "''0123456789abcdef'' ! k \<noteq> NL" if "k < 10" for k
      using that by (auto simp: less_Suc_eq numeral_eq_Suc)
    show ?case
    proof (cases "n < 10")
      case True
      then show ?thesis using digit [of n] by (simp add: numeral_text.simps [of 10 n])
    next
      case False
      then show ?thesis
        using digit [of "n mod 10"] less [of "n div 10"] by (simp add: numeral_text.simps [of 10 n])
    qed
  qed
  then have "NL \<notin> set (dec_text w)"
    by (auto simp: dec_text_def signed_text_def unsigned_text_def)
  then show ?thesis by (rule crlf_same)
qed

lemma startup_load_spec:
  assumes "txline con = []" and "can_load k c rs ss PT a s" and "k < MAX_TASKS"
    and "can_host (snd task) (mcbt s)" and "free_base (mcbt s) + 128 \<le> 3968"
    and name: "CHR ''%'' \<notin> set (fst task) \<and> CHR 0x00 \<notin> set (fst task) \<and> NL \<notin> set (fst task) \<and> length (fst task) \<le> 100"
  shows "\<exists>s'. startup_load shellproc PT task (s, con) =
      Ret 0 (s', shows_text con (startup_line shellproc task (fresh_pid (snd task) s))) \<and>
    can_load (Suc k) c (rs @ [k]) ss PT a s' \<and> pid (tct s' ! k) = fresh_pid (snd task) s \<and>
    taskname (tct s' ! k) = take 8 (fst task) \<and> (\<forall>i < k. unlinked (tct s' ! i) = unlinked (tct s ! i)) \<and>
    free_base (mcbt s') = free_base (mcbt s) + task_blocks (snd task) \<and>
    free_room (mcbt s') = free_room (mcbt s) - task_blocks (snd task) \<and>
    free_mcbs (mcbt s') = free_mcbs (mcbt s) - task_entries (snd task)"
proof -
  let ?p = "fresh_pid (snd task) s"
  from can_load_step [OF assms(2-5), of shellproc "fst task"] obtain s' where
    s': "muxx_svc_loadprc shellproc (fst task) (snd task) PT 2 0 s = Ret (uint ?p) s'"
      "can_load (Suc k) c (rs @ [k]) ss PT a s'" "pid (tct s' ! k) = ?p" "taskname (tct s' ! k) = take 8 (fst task)"
      "\<forall>i < k. unlinked (tct s' ! i) = unlinked (tct s ! i)"
      "free_base (mcbt s') = free_base (mcbt s) + task_blocks (snd task)"
      "free_room (mcbt s') = free_room (mcbt s) - task_blocks (snd task)"
      "free_mcbs (mcbt s') = free_mcbs (mcbt s) - task_entries (snd task)"
    by blast
  note head = task_name_plain [OF name, of "\<lambda>ch. ch \<noteq> CHR '' ''"]
  have plain: "plain '' rc=''" "plain [NL]" by (simp_all add: plain_def)
  have tail: "crlf ('' rc='' @ dec_text ?p @ [NL]) = '' rc='' @ dec_text ?p @ [CR, NL]"
  proof -
    have "crlf '' rc='' = '' rc=''" "crlf [NL] = [CR, NL]" by (simp_all add: crlf_def)
    then show ?thesis by (simp only: crlf_append crlf_dec_text)
  qed
  let ?h = "''Loading task '' @ takeWhile (\<lambda>ch. ch \<noteq> CHR '' '') (fst task) @ ''...''"
  let ?c1 = "shows_text con ?h"
  let ?c2 = "shows_text ?c1 (''rshell='' @ itoo shellproc @ [CR, NL])"
  have a: "say_printf ?h [] (s, con) = Ret 0 (s, ?c1)"
    using say_printf_text [OF assms(1) head [THEN conjunct1], of s] head by simp
  have b: "loadprc shellproc (fst task) (snd task) PT 2 0 (s, ?c1) = Ret (uint ?p) (s', ?c2)"
    unfolding loadprc_def using say_rshell [of ?c1 shellproc s] assms(1) s'(1) by (simp add: in_kernel_def)
  have d: "say_printf ('' rc=%d'' @ [NL]) [word_of_int (uint ?p)] (s', ?c2) =
      Ret 0 (s', shows_text ?c2 ('' rc='' @ dec_text ?p @ [CR, NL]))"
    using say_printf_dec [OF _ plain, of ?c2 ?p s'] assms(1) tail by simp
  have "shows_text ?c2 ('' rc='' @ dec_text ?p @ [CR, NL]) = shows_text con (startup_line shellproc task ?p)"
    by (simp add: startup_line_def)
  then have "startup_load shellproc PT task (s, con) =
      Ret 0 (s', shows_text con (startup_line shellproc task ?p))"
    unfolding startup_load_def a andthen.simps b d by simp
  with s' show ?thesis by blast
qed

definition tasks_room :: "(string \<times> u16) list \<Rightarrow> 'd kstate \<Rightarrow> bool" where
  "tasks_room tasks s \<longleftrightarrow>
     sum_list (map (task_blocks \<circ> snd) tasks) \<le> free_room (mcbt s) \<and>
     sum_list (map (task_entries \<circ> snd) tasks) \<le> free_mcbs (mcbt s) \<and>
     free_base (mcbt s) + sum_list (map (task_blocks \<circ> snd) tasks) \<le> 3968 \<and>
     (\<forall>t \<in> set tasks. check_tasktype (snd t) \<and> CHR ''%'' \<notin> set (fst t) \<and> CHR 0x00 \<notin> set (fst t) \<and>
        NL \<notin> set (fst t) \<and> length (fst t) \<le> 100)"

lemma task_blocks_page: "128 \<le> task_blocks type"
  by (simp add: task_blocks_def private_pages_def)

lemma startup_loads_spec:
  assumes "txline con = []" and "can_load k c rs ss PT a s" and "k + length tasks \<le> MAX_TASKS"
    and "tasks_room tasks s"
  shows "\<exists>pids s'. startup_loads shellproc PT tasks (s, con) =
      Ret () (s', shows_text con (concat (map2 (startup_line shellproc) tasks pids))) \<and>
    length pids = length tasks \<and>
    can_load (k + length tasks) c (rs @ [k ..< k + length tasks]) ss PT a s' \<and>
    (\<forall>j < length tasks. pid (tct s' ! (k + j)) = pids ! j \<and>
       taskname (tct s' ! (k + j)) = take 8 (fst (tasks ! j))) \<and>
    (\<forall>i < k. unlinked (tct s' ! i) = unlinked (tct s ! i))"
  using assms
proof (induction tasks arbitrary: con k rs s)
  case Nil
  then show ?case by simp
next
  case (Cons t tasks)
  have k: "k < MAX_TASKS" using Cons.prems(3) by simp
  have room: "tasks_room (t # tasks) s" by (rule Cons.prems(4))
  then have t: "can_host (snd t) (mcbt s)" "free_base (mcbt s) + 128 \<le> 3968"
    "CHR ''%'' \<notin> set (fst t) \<and> CHR 0x00 \<notin> set (fst t) \<and> NL \<notin> set (fst t) \<and> length (fst t) \<le> 100"
    using task_blocks_page [of "snd t"] by (auto simp: tasks_room_def can_host_def)
  let ?p = "fresh_pid (snd t) s"
  let ?con = "shows_text con (startup_line shellproc t ?p)"
  from startup_load_spec [OF Cons.prems(1,2) k t(1,2,3), of shellproc] obtain s1 where
    s1: "startup_load shellproc PT t (s, con) = Ret 0 (s1, ?con)"
      "can_load (Suc k) c (rs @ [k]) ss PT a s1" "pid (tct s1 ! k) = ?p" "taskname (tct s1 ! k) = take 8 (fst t)"
      "\<forall>i < k. unlinked (tct s1 ! i) = unlinked (tct s ! i)"
      "free_base (mcbt s1) = free_base (mcbt s) + task_blocks (snd t)"
      "free_room (mcbt s1) = free_room (mcbt s) - task_blocks (snd t)"
      "free_mcbs (mcbt s1) = free_mcbs (mcbt s) - task_entries (snd t)"
    by blast
  have "tasks_room tasks s1" using room s1(6-8) by (auto simp: tasks_room_def)
  from Cons.IH [OF _ s1(2) _ this, of ?con] Cons.prems(1,3) obtain pids s' where
    s': "startup_loads shellproc PT tasks (s1, ?con) =
        Ret () (s', shows_text ?con (concat (map2 (startup_line shellproc) tasks pids)))"
      "length pids = length tasks"
      "can_load (Suc k + length tasks) c ((rs @ [k]) @ [Suc k ..< Suc k + length tasks]) ss PT a s'"
      "\<forall>j < length tasks. pid (tct s' ! (Suc k + j)) = pids ! j \<and>
         taskname (tct s' ! (Suc k + j)) = take 8 (fst (tasks ! j))"
      "\<forall>i < Suc k. unlinked (tct s' ! i) = unlinked (tct s1 ! i)"
    by auto
  have up: "(rs @ [k]) @ [Suc k ..< Suc k + length tasks] = rs @ [k ..< k + length (t # tasks)]"
    by (simp add: upt_conv_Cons del: upt_Suc)
  note kf = unlinked_eq_fields [OF s'(5) [rule_format, of k]]
  have slots: "pid (tct s' ! (k + j)) = (?p # pids) ! j \<and>
      taskname (tct s' ! (k + j)) = take 8 (fst ((t # tasks) ! j))" if "j < length (t # tasks)" for j
    using that kf s1(3,4) s'(4) by (cases j) auto
  have "startup_loads shellproc PT (t # tasks) (s, con) =
      Ret () (s', shows_text con (concat (map2 (startup_line shellproc) (t # tasks) (?p # pids))))"
    using s1(1) s'(1) by simp
  moreover have "can_load (k + length (t # tasks)) c (rs @ [k ..< k + length (t # tasks)]) ss PT a s'"
    using s'(3) unfolding up by simp
  ultimately show ?case
    using s'(2,5) s1(5) slots by (intro exI [of _ "?p # pids"] exI [of _ s']) auto
qed

text \<open>The whole of STARTUP: afterwards it is suspended and the next task runs.\<close>

lemma startup_main_spec:
  assumes con: "txline con = []" and ld: "can_load k c (r # rs) ss PT a s" and k: "k + 4 \<le> MAX_TASKS"
    and room: "1024 \<le> free_room (mcbt s)" "10 \<le> free_mcbs (mcbt s)" "free_base (mcbt s) + 1024 \<le> 3968"
  shows "\<exists>pids s'. startup_main shellproc PT fp (s, con) =
      Stop Switched (s', shows_text con
        (concat (map2 (startup_line shellproc) startup_tasks pids) @ ''Suspending STARTUP task...'')) \<and>
    length pids = 4 \<and> sched_rep s' r (rs @ [k, k + 1, k + 2, k + 3]) (ss @ [c]) \<and> loaded s' r \<and>
    (\<forall>j < 4. pid (tct s' ! (k + j)) = pids ! j \<and> taskname (tct s' ! (k + j)) = fst (startup_tasks ! j))"
proof -
  have types: "task_blocks (USR_TASK + TSZ_SMALL) = 192" "task_blocks (USR_TASK + TSZ_BIG) = 448"
    "task_entries (USR_TASK + TSZ_SMALL) = 2" "task_entries (USR_TASK + TSZ_BIG) = 4"
    by (simp_all add: task_blocks_def task_entries_def private_pages_def)
  have len4: "length startup_tasks = 4" by (simp add: startup_tasks_def)
  have "tasks_room startup_tasks s"
    using room types by (simp add: tasks_room_def startup_tasks_def check_tasktype_def)
  from startup_loads_spec [OF con ld _ this, of shellproc] k obtain pids s1 where
    s1: "startup_loads shellproc PT startup_tasks (s, con) =
        Ret () (s1, shows_text con (concat (map2 (startup_line shellproc) startup_tasks pids)))"
      "length pids = 4" "can_load (k + 4) c ((r # rs) @ [k ..< k + 4]) ss PT a s1"
      "\<forall>j < 4. pid (tct s1 ! (k + j)) = pids ! j \<and> taskname (tct s1 ! (k + j)) = take 8 (fst (startup_tasks ! j))"
    unfolding len4 by auto
  let ?con = "shows_text con (concat (map2 (startup_line shellproc) startup_tasks pids))"
  have up: "[k ..< k + 4] = [k, k + 1, k + 2, k + 3]" by (simp add: upt_conv_Cons)
  have inv1: "system_inv (k + 4) c (r # (rs @ [k, k + 1, k + 2, k + 3])) ss s1"
    using s1(3) up by (simp add: can_load_def)
  then have rep: "sched_rep s1 c (r # (rs @ [k, k + 1, k + 2, k + 3])) ss"
    by (simp add: system_inv_def)
  obtain s2 where s2: "muxx_svc_suspend fp None s1 = Stop Switched s2"
    "sched_rep s2 r (rs @ [k, k + 1, k + 2, k + 3]) (ss @ [c])" "loaded s2 r" "unsched s2 = unsched s1"
    using suspend_self_spec [OF rep, of None fp] by auto
  have len: "length (tct s1) = 16" "length (tct s2) = 16"
    using rep s2(2) by (simp_all add: sched_rep_def ready_rep_def)
  have same: "identity (tct s2 ! i) = identity (tct s1 ! i)" if "i < 16" for i
    using arg_cong [OF unsched_fields(7) [OF s2(4)], of "\<lambda>ts. ts ! i"] len that by simp
  have idf: "pid (tct s2 ! i) = pid (tct s1 ! i) \<and> taskname (tct s2 ! i) = taskname (tct s1 ! i)" if "i < 16" for i
    using arg_cong [OF same [OF that], of pid] arg_cong [OF same [OF that], of taskname] by (simp add: identity_def)
  have names: "take 8 (fst (startup_tasks ! j)) = fst (startup_tasks ! j)" if "j < 4" for j
    using that by (auto simp: startup_tasks_def less_Suc_eq numeral_eq_Suc)
  have "plain ''Suspending STARTUP task...''" "crlf ''Suspending STARTUP task...'' = ''Suspending STARTUP task...''"
    by (simp_all add: plain_def crlf_def)
  then have say: "say_printf ''Suspending STARTUP task...'' [] (s1, ?con) =
      Ret 0 (s1, shows_text ?con ''Suspending STARTUP task...'')"
    using say_printf_text [of ?con "''Suspending STARTUP task...''" s1] con by simp
  have "startup_main shellproc PT fp (s, con) =
      Stop Switched (s2, shows_text ?con ''Suspending STARTUP task...'')"
    unfolding startup_main_def s1(1) andthen.simps say using s2(1) by (simp add: in_kernel_def)
  moreover have "pid (tct s2 ! (k + j)) = pids ! j \<and> taskname (tct s2 ! (k + j)) = fst (startup_tasks ! j)"
    if "j < 4" for j
    using idf [of "k + j"] s1(4) names [OF that] that k by simp
  ultimately show ?thesis using s1(2) s2(2,3) by (auto simp del: shows_text_append intro!: exI [of _ pids] exI [of _ s2]) 
qed

section \<open>PROCD prints\<close>

lemma printer_write:
  assumes op: "dev_open device lptdesct c fd i k s" and ok: "\<not> printer_error (dev s)" and n: "n < 2 ^ 15"
  shows "\<exists>s'. lib_write muxx_devices (int fd) (of_nat n) buf s = Ret (int n) s' \<and>
    dev_open device lptdesct c fd i k s' \<and> printed (dev s') = printed (dev s) @ map buf [0..<n] \<and>
    \<not> printer_error (dev s') \<and> tct s' = tct s"
proof -
  have dd: "\<not> da_buffered lptdesct" "length (callbacks lptdesct) = 10" "callbacks lptdesct ! 5 = LPT_BASE + 5"
    by (simp_all add: lptdesct_def driver_table_nth)
  have b: "i < length (iotes (chnt s))" "k < length (drvcbs (drvt s))"
    using op find_device_bound [of device s k] by (auto simp: dev_open_def chan_ready_def)
  obtain d' where w: "muxx_svc_write muxx_devices (Some i) (int n) buf s =
      Ret (int n) (upd_iote i (\<lambda>io. io\<lparr>io_ioerror := False\<rparr>) (set_errno EOK (s\<lparr>dev := d'\<rparr>)))"
    "\<not> printer_error d'" "printed d' = printed (dev s) @ map buf [0..<n]"
    using printer.svc_write_all [of i s _ k lptdesct n buf] op b dd ok by (auto simp: dev_open_def)
  let ?s = "upd_iote i (\<lambda>io. io\<lparr>io_ioerror := False\<rparr>) (set_errno EOK (s\<lparr>dev := d'\<rparr>))"
  have tu: "c < length (tucbs (set_errno EOK (s\<lparr>dev := d'\<rparr>))) \<and>
      tu_iote (tucbs (set_errno EOK (s\<lparr>dev := d'\<rparr>)) ! c) = tu_iote (tucbs s ! c)"
    using set_errno_tucbs [of "s\<lparr>dev := d'\<rparr>" c EOK] op by (auto simp: dev_open_def)
  have used: "iote_used ((iotes (chnt s))[i := x]) j = iote_used (iotes (chnt s)) j" if "j < i" for j x
    using that by (simp add: iote_used_def)
  have "dev_open device lptdesct c fd i k ?s"
    using op tu b used by (auto simp: dev_open_def)
  moreover have "lib_write muxx_devices (int fd) (of_nat n) buf s = Ret (int n) ?s"
    using op w(1) n by (auto simp: lib_write_def fd_at_def dev_open_def sint_small)
  ultimately show ?thesis using w(2,3) by (intro exI [of _ ?s]) simp
qed

definition test_line :: "u8 list" where
  "test_line = map (literal_bytes (''Test line.'' @ [NL])) [0..<12]"

definition procd_text :: "nat \<Rightarrow> string" where
  "procd_text fd =
     ''Channel opened, fd='' @ dec_text (of_nat fd) @ [CR, NL] @ ''Writen 12 bytes'' @ [CR, NL] @
     ''Channel closed'' @ [CR, NL]"

lemma plain_texts:
  "plain ''Channel opened, fd=''" "plain [NL]" "plain ''Writen ''" "plain ('' bytes'' @ [NL])"
  "plain (''Channel closed'' @ [NL])"
  by (simp_all add: plain_def)

lemma dec_text_12: "dec_text 12 = ''12''"
  by (simp add: dec_text_def signed_text_def unsigned_text_def numeral_text.simps)

lemma crlf_NL: "crlf [NL] = [CR, NL]"
  by (simp add: crlf_def)

lemma say_dec_line:
  assumes "txline con = []" and "plain t" and "NL \<notin> set t"
  shows "say_printf (t @ ''%d'' @ [NL]) [w] (s, con) = Ret 0 (s, shows_text con (t @ dec_text w @ [CR, NL]))"
  using say_printf_dec [OF assms(1,2) plain_texts(2), of w s]
  by (simp only: crlf_append crlf_dec_text crlf_NL crlf_same [OF assms(3)])

lemma procd_round_prints:
  assumes idle: "dev_idle ''LP      '' lptdesct c fd i k s" and ok: "\<not> printer_error (dev s)"
    and con: "txline con = []"
  shows "\<exists>s'. procd_round muxx_devices g (s, con) = Ret 0 (s', shows_text con (procd_text fd)) \<and>
    dev_idle ''LP      '' lptdesct c fd i k s' \<and> \<not> printer_error (dev s') \<and>
    printed (dev s') = printed (dev s) @ test_line \<and> tct s' = tct s"
proof -
  let ?lp = "''LP      ''"
  obtain s1 where s1: "lib_open ?lp 0 s = Ret (int fd) s1" "dev_open ?lp lptdesct c fd i k s1"
    "dev s1 = dev s" "tct s1 = tct s"
    using dev_opens [OF idle] by blast
  obtain s2 where s2: "lib_write muxx_devices (int fd) (of_nat 12) (literal_bytes (''Test line.'' @ [NL])) s1 =
      Ret (int 12) s2" "dev_open ?lp lptdesct c fd i k s2" "\<not> printer_error (dev s2)"
    "printed (dev s2) = printed (dev s1) @ test_line" "tct s2 = tct s1"
    using printer_write [OF s1(2), of 12 "literal_bytes (''Test line.'' @ [NL])"] ok s1(3)
    unfolding test_line_def by auto
  obtain s3 where s3: "lib_close (int fd) s2 = Ret EOK s3" "dev_idle ?lp lptdesct c fd i k s3"
    "dev s3 = dev s2" "tct s3 = tct s2"
    using dev_closes [OF s2(2)] by blast
  let ?c1 = "shows_text con (''Channel opened, fd='' @ dec_text (of_nat fd) @ [CR, NL])"
  let ?c2 = "shows_text ?c1 (''Writen 12 bytes'' @ [CR, NL])"
  have a: "say_printf (''Channel opened, fd=%d'' @ [NL]) [word_of_int (int fd)] (s1, con) = Ret 0 (s1, ?c1)"
    using say_dec_line [OF con plain_texts(1), of "of_nat fd" s1] by simp
  have b: "say_printf (''Writen %d bytes'' @ [NL]) [word_of_int 12] (s2, ?c1) = Ret 0 (s2, ?c2)"
    using say_printf_dec [of ?c1, OF _ plain_texts(3,4), of 12 s2] con
    by (simp add: dec_text_12) (simp add: crlf_def)
  have d: "say_printf (''Channel closed'' @ [NL]) [] (s3, ?c2) =
      Ret 0 (s3, shows_text ?c2 (''Channel closed'' @ [CR, NL]))"
    using say_printf_text [of ?c2, OF _ plain_texts(5), of s3] con by (simp add: crlf_def)
  have w: "procd_write muxx_devices g (int fd) (s1, ?c1) = Ret 0 (s2, ?c2)"
    unfolding procd_write_def using s2(1) b by (simp add: in_kernel_def)
  have "procd_round muxx_devices g (s, con) =
      Ret 0 (s3, shows_text ?c2 (''Channel closed'' @ [CR, NL]))"
    unfolding procd_round_def using s1(1) s3(1) a w d by (simp add: in_kernel_def)
  moreover have "shows_text ?c2 (''Channel closed'' @ [CR, NL]) = shows_text con (procd_text fd)"
    by (simp add: procd_text_def)
  ultimately show ?thesis using s1 s2 s3 by (intro exI [of _ s3]) simp
qed

lemma procd_rounds_print:
  assumes "dev_idle ''LP      '' lptdesct c fd i k s" and "\<not> printer_error (dev s)" and "txline con = []"
  shows "\<exists>s'. repeat_n n (procd_round muxx_devices g) (s, con) =
      Ret (replicate n 0) (s', shows_text con (concat (replicate n (procd_text fd)))) \<and>
    dev_idle ''LP      '' lptdesct c fd i k s' \<and> \<not> printer_error (dev s') \<and>
    printed (dev s') = printed (dev s) @ concat (replicate n test_line) \<and> tct s' = tct s"
  using assms
proof (induction n arbitrary: s con)
  case 0
  then show ?case by auto
next
  case (Suc n)
  obtain s1 where s1: "procd_round muxx_devices g (s, con) = Ret 0 (s1, shows_text con (procd_text fd))"
    "dev_idle ''LP      '' lptdesct c fd i k s1" "\<not> printer_error (dev s1)"
    "printed (dev s1) = printed (dev s) @ test_line" "tct s1 = tct s"
    using procd_round_prints [OF Suc.prems] by blast
  have "txline (shows_text con (procd_text fd)) = []" using Suc.prems(3) by simp
  from Suc.IH [OF s1(2,3) this] obtain s' where
    s': "repeat_n n (procd_round muxx_devices g) (s1, shows_text con (procd_text fd)) =
        Ret (replicate n 0) (s', shows_text (shows_text con (procd_text fd)) (concat (replicate n (procd_text fd))))"
      "dev_idle ''LP      '' lptdesct c fd i k s'" "\<not> printer_error (dev s')"
      "printed (dev s') = printed (dev s1) @ concat (replicate n test_line)" "tct s' = tct s1"
    by blast
  then show ?case using s1 by (intro exI [of _ s']) simp
qed

text \<open>A process identifier, in six octal digits.\<close>

definition oct_field :: "u16 \<Rightarrow> field_spec" where
  "oct_field w = \<lparr>left_adjusted = False, zero_filled = True, field_width = 6, precision = 0, item = Oct w\<rparr>"

definition oct_text :: "u16 \<Rightarrow> string" where
  "oct_text w = field_text (\<lambda>_. CHR 0x00) (oct_field w)"

lemma say_printf_oct:
  assumes "txline con = []" and "plain t" and "plain u"
  shows "say_printf (t @ ''%06o'' @ u) [w] (s, con) = Ret 0 (s, shows_text con (crlf (t @ oct_text w @ u)))"
proof -
  let ?d = "oct_field w"
  have "printf (\<lambda>_. CHR 0x00) (format_text [(t, ?d)] u @ CHR 0x00 # []) (format_args [(t, ?d)] @ []) con =
      Ret 0 (shows_text con (crlf (shown_text (\<lambda>_. CHR 0x00) [(t, ?d)] u)))"
    using doprnt_shows [OF assms(1), where parts = "[(t, ?d)]" and end_text = u and f = "[]" and ?r4.0 = "[]"]
      assms(2,3) by (simp add: printf_def fits_number oct_field_def)
  moreover have "numeral_text 10 6 = ''6''" by (simp add: numeral_text.simps)
  then have "format_text [(t, ?d)] u = t @ ''%06o'' @ u" "format_args [(t, ?d)] = [w]"
    by (simp_all add: format_text_def format_args_def directive_text_def oct_field_def)
  ultimately show ?thesis
    by (simp add: say_printf_def on_console_def shown_text_def oct_text_def)
qed

lemma getpid_own:
  assumes "curtcb s = Some c" and "c < length (tct s)"
  shows "getpid s = Ret (sint (pid (tct s ! c))) s"
  by (simp add: getpid_def gettpi_own [OF assms])

lemma procd_prints_lines:
  assumes idle: "dev_idle ''LP      '' lptdesct c fd i k s" and ok: "\<not> printer_error (dev s)"
    and con: "txline con = []"
  shows "\<exists>s'. procd n muxx_devices g (s, con) =
      Ret (replicate n 0) (s', shows_text con (crlf (''Starting task B, PID='' @ oct_text (pid (tct s ! c)) @ [NL]) @
        concat (replicate n (procd_text fd)))) \<and>
    dev_idle ''LP      '' lptdesct c fd i k s' \<and>
    printed (dev s') = printed (dev s) @ concat (replicate n test_line)"
proof -
  let ?t = "crlf (''Starting task B, PID='' @ oct_text (pid (tct s ! c)) @ [NL])"
  have c: "curtcb s = Some c" "c < length (tct s)"
    using idle by (auto simp: dev_idle_def chan_ready_def mutex_ready_def)
  have "plain ''Starting task B, PID=''" by (simp add: plain_def)
  from say_printf_oct [OF con this plain_texts(2), of "pid (tct s ! c)" s]
  have say: "say_printf (''Starting task B, PID=%06o'' @ [NL]) [word_of_int (sint (pid (tct s ! c)))] (s, con) =
      Ret 0 (s, shows_text con ?t)" by simp
  obtain s' where
    s': "repeat_n n (procd_round muxx_devices g) (s, shows_text con ?t) =
        Ret (replicate n 0) (s', shows_text (shows_text con ?t) (concat (replicate n (procd_text fd))))"
      "dev_idle ''LP      '' lptdesct c fd i k s'" "\<not> printer_error (dev s')"
      "printed (dev s') = printed (dev s) @ concat (replicate n test_line)" "tct s' = tct s"
    using procd_rounds_print [OF idle ok, of "shows_text con ?t" n g] con by auto
  have "procd n muxx_devices g (s, con) =
      Ret (replicate n 0) (s', shows_text (shows_text con ?t) (concat (replicate n (procd_text fd))))"
    unfolding procd_def in_kernel_def using getpid_own [OF c] say s'(1) by simp
  then show ?thesis using s'(2,4) by (intro exI [of _ s']) simp
qed

text \<open>After start-up INIT could be that task.\<close>

lemma startup_lp_idle: "dev_idle ''LP      '' lptdesct 0 0 0 1 (startup_from d M)"
proof -
  have "find_fd (replicate IOT_TENTRIES None) = Some 0"
    by (rule fds.finds_first) simp_all
  then show ?thesis
    using startup_task [of d M] startup_fields [of d M] startup_devices [of d M] startup_driver_fields [of 1 d]
      startup_chan [of d M] startup_chan_ready [of d M]
    by (simp add: dev_idle_def lptdesct_def zero_iote_def)
qed

lemma startup_can_load:
  assumes "page_of PT \<le> 2" and "unat (PT AND 0x1FFF) + 2 \<le> 8192"
  shows "can_load 3 0 [1, 2] [] PT (unat (upar init_mmu ! page_of PT) * 64 + unat (PT AND 0x1FFF)) (startup_from d M)"
  using init_pages [OF assms(1)] assms(2) startup_inv [of d M] startup_task [of d M] startup_fields [of d M]
  by (simp add: can_load_def init_mmu_def)

section \<open>The handler tasks\<close>

text \<open>The handler tasks of both drivers (\<open>ptphnd.c\<close>, \<open>lpthnd.c\<close>) give up the processor in every round.\<close>

fun handler_task :: "nat \<Rightarrow> u16 \<Rightarrow> 'd kstate \<Rightarrow> (unit, 'd kstate) outcome" where
  "handler_task 0 fp s = Stop Diverges s"
| "handler_task (Suc n) fp s = andthen (muxx_svc_yield fp s) (\<lambda>_. handler_task n fp)"

definition ptphnd :: "nat \<Rightarrow> u16 \<Rightarrow> 'd kstate \<Rightarrow> (unit, 'd kstate) outcome" where
  "ptphnd = handler_task"

definition lpthnd :: "nat \<Rightarrow> u16 \<Rightarrow> 'd kstate \<Rightarrow> (unit, 'd kstate) outcome" where
  "lpthnd = handler_task"

text \<open>A handler task that gets the processor passes it on to the next task in the ready queue.\<close>

lemma handler_passes_on:
  assumes "sched_order s xs ss"
  shows "\<exists>s'. ptphnd (Suc n) fp s = Stop Switched s' \<and> sched_order s' (rotate1 xs) ss"
    and "\<exists>s'. lpthnd (Suc n) fp s = Stop Switched s' \<and> sched_order s' (rotate1 xs) ss"
  using yield_rotates [OF assms, of fp] by (auto simp: ptphnd_def lpthnd_def)

end
