(* ===== verification/Muxx_Types.thy ===== *)
theory Muxx_Types
  imports Muxx_Startup Muxx_Syscall
begin

text \<open>
  Type soundness of the kernel. C's types do not keep a pointer inside the table it is meant for, and
  the kernel stores pointers and numbers of table entries everywhere: in queue heads and links, in
  memory blocks, drivers, channels and in \<open>curtcb\<close>. \<open>state_ok\<close> says that every table has its declared
  length and every stored pointer is \<open>NULL\<close> or points into its table. Each operation keeps this, and
  none that starts from it goes through a pointer outside a table. The judgement \<open>typed\<close> collects
  both; its rules follow the sequencing of the routines.
\<close>

section \<open>Well-formed states\<close>

definition ptr_ok :: "nat \<Rightarrow> ptr \<Rightarrow> bool" where
  "ptr_ok n p \<longleftrightarrow> (case p of None \<Rightarrow> True | Some i \<Rightarrow> i < n)"

definition cpu_ok :: "cpustate \<Rightarrow> bool" where
  "cpu_ok c \<longleftrightarrow> length (gpr c) = 6"

definition mmu_ok :: "mmustate \<Rightarrow> bool" where
  "mmu_ok m \<longleftrightarrow> length (upar m) = 8 \<and> length (updr m) = 8 \<and> length (kpar m) = 8 \<and> length (kpdr m) = 8"

definition tcb_ok :: "tcb \<Rightarrow> bool" where
  "tcb_ok t \<longleftrightarrow> cpu_ok (cpuState t) \<and> mmu_ok (mmuState t) \<and>
     ptr_ok MAX_TASKS (nextInQueue t) \<and> ptr_ok MAX_TASKS (prevInQueue t) \<and>
     ptr_ok MAX_TASKS (firstChild t) \<and> ptr_ok MAX_TASKS (lastChild t) \<and>
     ptr_ok MAX_TASKS (nextSibling t)"

definition tct_ok :: "tcb list \<Rightarrow> bool" where
  "tct_ok ts \<longleftrightarrow> length ts = MAX_TASKS \<and> (\<forall>t \<in> set ts. tcb_ok t)"

definition queue_ok :: "tqueue \<Rightarrow> bool" where
  "queue_ok q \<longleftrightarrow> ptr_ok MAX_TASKS (head q) \<and> ptr_ok MAX_TASKS (tail q)"

definition mmcb_ok :: "mmcb \<Rightarrow> bool" where
  "mmcb_ok c \<longleftrightarrow> ptr_ok MEM_NMCBS (nextBlock c) \<and> ptr_ok MEM_NMCBS (prevBlock c)"

definition mmcbt_ok :: "mmcbt \<Rightarrow> bool" where
  "mmcbt_ok t \<longleftrightarrow> length (mmcbs t) = MEM_NMCBS \<and> numEntries t = of_nat MEM_NMCBS \<and>
     (\<forall>c \<in> set (mmcbs t). mmcb_ok c)"

definition drvt_ok :: "drvcbt \<Rightarrow> bool" where
  "drvt_ok t \<longleftrightarrow> length (drvcbs t) = MAX_DRV \<and> (\<forall>d \<in> set (drvcbs t). ptr_ok MAX_TASKS (ownerid d))"

definition iote_ok :: "iote \<Rightarrow> bool" where
  "iote_ok io \<longleftrightarrow> ptr_ok MAX_DRV (io_driver io)"

definition chnt_ok :: "iott \<Rightarrow> bool" where
  "chnt_ok t \<longleftrightarrow> length (iotes t) = IOT_SENTRIES \<and> (\<forall>io \<in> set (iotes t). iote_ok io)"

definition tucb_ok :: "tucb \<Rightarrow> bool" where
  "tucb_ok u \<longleftrightarrow> length (tu_iote u) = IOT_TENTRIES \<and> (\<forall>p \<in> set (tu_iote u). ptr_ok IOT_SENTRIES p)"

definition tucbs_ok :: "tucb list \<Rightarrow> bool" where
  "tucbs_ok us \<longleftrightarrow> length us = MAX_TASKS \<and> (\<forall>u \<in> set us. tucb_ok u)"

text \<open>The numbers process identifiers are drawn from.\<close>

definition pids_ok :: "'d kstate \<Rightarrow> bool" where
  "pids_ok s \<longleftrightarrow> curtasks s < 16 \<and> minspid s = 1 \<and> maxspid s = 63 \<and> minupid s = 64 \<and>
     maxupid s = 511 \<and> topspid s \<le> 63 \<and> topupid s \<le> 511"

definition state_ok :: "'d kstate \<Rightarrow> bool" where
  "state_ok s \<longleftrightarrow> tct_ok (tct s) \<and> queue_ok (readyq s) \<and> queue_ok (blockq s) \<and>
     queue_ok (suspq s) \<and> ptr_ok MAX_TASKS (curtcb s) \<and> pids_ok s \<and> mmcbt_ok (mcbt s) \<and>
     drvt_ok (drvt s) \<and> length (mutexes s) = MUT_MUTEXES \<and> chnt_ok (chnt s) \<and>
     tucbs_ok (tucbs s) \<and> cpu_ok (cpu s) \<and> mmu_ok (mmu s)"

section \<open>The judgement\<close>

definition typed :: "('s \<Rightarrow> bool) \<Rightarrow> ('a \<Rightarrow> bool) \<Rightarrow> ('a, 's) outcome \<Rightarrow> bool" where
  "typed I A m \<longleftrightarrow>
     (case m of Ret a s \<Rightarrow> I s \<and> A a | Stop e s \<Rightarrow> I s \<and> e \<noteq> Fault WildPointer)"

named_theorems typing "rules that type the kernel's routines"

lemma typed_Ret [simp]: "typed I A (Ret a s) \<longleftrightarrow> I s \<and> A a"
  by (simp add: typed_def)

lemma typed_Stop [simp]: "typed I A (Stop e s) \<longleftrightarrow> I s \<and> e \<noteq> Fault WildPointer"
  by (simp add: typed_def)

lemma typed_andthen:
  "typed I A m \<Longrightarrow> (\<And>a s. I s \<Longrightarrow> A a \<Longrightarrow> typed I B (k a s)) \<Longrightarrow> typed I B (andthen m k)"
  by (cases m) auto

lemma typed_seq [typing]:
  "typed I (\<lambda>_. True) m \<Longrightarrow> (\<And>a s. I s \<Longrightarrow> typed I B (k a s)) \<Longrightarrow> typed I B (andthen m k)"
  by (cases m) auto

lemma typed_weaken: "typed I A m \<Longrightarrow> (\<And>a. A a \<Longrightarrow> B a) \<Longrightarrow> typed I B m"
  by (cases m) auto

lemma typed_at_ptr [typing]:
  "I s \<Longrightarrow> ptr_ok (length xs) p \<Longrightarrow> (\<And>i. p = Some i \<Longrightarrow> i < length xs \<Longrightarrow> typed I A (k i)) \<Longrightarrow>
   typed I A (at_ptr xs p s k)"
  by (auto simp: at_ptr_def ptr_ok_def split: option.splits)

lemma typed_if [typing]:
  "(b \<Longrightarrow> typed I A m) \<Longrightarrow> (\<not> b \<Longrightarrow> typed I A m') \<Longrightarrow> typed I A (if b then m else m')"
  by simp

lemma typed_final: "typed I A m \<Longrightarrow> I (final_state m)"
  by (cases m) auto

abbreviation (input) any :: "'a \<Rightarrow> bool" where "any \<equiv> \<lambda>_. True"

section \<open>Stored pointers\<close>

lemma ptr_ok_simps [simp]: "ptr_ok n None" "ptr_ok n (Some i) \<longleftrightarrow> i < n"
  by (simp_all add: ptr_ok_def)

lemma all_upd: "\<forall>x \<in> set xs. P x \<Longrightarrow> P y \<Longrightarrow> \<forall>x \<in> set (xs[i := y]). P x"
  by (rule ballI, drule subsetD [OF set_update_subset_insert]) auto

lemma tct_ok_nth: "tct_ok ts \<Longrightarrow> i < length ts \<Longrightarrow> tcb_ok (ts ! i)"
  by (simp add: tct_ok_def)

lemma tct_ok_upd: "tct_ok ts \<Longrightarrow> tcb_ok t \<Longrightarrow> tct_ok (ts[i := t])"
  unfolding tct_ok_def using all_upd [of ts tcb_ok t i] by simp

lemma tct_ok_link:
  "tct_ok ts \<Longrightarrow> i < length ts \<Longrightarrow>
   ptr_ok MAX_TASKS (nextInQueue (ts ! i)) \<and> ptr_ok MAX_TASKS (prevInQueue (ts ! i))"
  using tct_ok_nth [of ts i] by (simp add: tcb_ok_def)

lemma tct_ok_length [simp]: "tct_ok ts \<Longrightarrow> length ts = MAX_TASKS"
  by (simp add: tct_ok_def)

lemma set_link_ok:
  assumes "tct_ok ts" and "i < length ts" and "ptr_ok MAX_TASKS p"
  shows "tct_ok (set_next i p ts)" and "tct_ok (set_prev i p ts)"
  using assms tct_ok_nth [of ts i]
  by (simp_all add: set_next_def set_prev_def tct_ok_upd tcb_ok_def)

section \<open>Queues\<close>

definition qstate_ok :: "qstate \<Rightarrow> bool" where
  "qstate_ok = (\<lambda>(q, ts). queue_ok q \<and> tct_ok ts)"

lemma queue_ok_fields:
  "queue_ok q \<Longrightarrow> ptr_ok MAX_TASKS (head q) \<and> ptr_ok MAX_TASKS (tail q)"
  by (simp add: queue_ok_def)

lemma qAddTask_typed:
  assumes "qstate_ok qs" and "ptr_ok MAX_TASKS p"
  shows "typed qstate_ok any (muxx_qAddTask p qs)"
proof -
  obtain q ts where qs: "qs = (q, ts)" by (cases qs)
  then have "queue_ok q" "tct_ok ts" using assms by (simp_all add: qstate_ok_def)
  with qs assms(2) show ?thesis
    by (auto simp: muxx_qAddTask_def qstate_ok_def Let_def queue_ok_def set_link_ok
        intro!: typing)
qed

lemma qGetTask_typed:
  assumes "qstate_ok qs"
  shows "typed qstate_ok (ptr_ok MAX_TASKS) (muxx_qGetTask qs)"
proof -
  obtain q ts where qs: "qs = (q, ts)" by (cases qs)
  then have ok: "queue_ok q" "tct_ok ts" using assms by (simp_all add: qstate_ok_def)
  then show ?thesis
    by (auto simp: qs muxx_qGetTask_def qstate_ok_def Let_def queue_ok_def set_link_ok
        tct_ok_link intro!: typing)
qed

lemma q_walk_ok:
  assumes "q_walk ts task p = Some r" and "tct_ok ts" and "ptr_ok MAX_TASKS p"
  shows "\<exists>p'. r = Inr p' \<and> ptr_ok MAX_TASKS p'"
proof -
  have "tct_ok ts \<longrightarrow> ptr_ok MAX_TASKS p \<longrightarrow> (\<exists>p'. r = Inr p' \<and> ptr_ok MAX_TASKS p')"
  proof (rule q_walk.raw_induct [where P = "\<lambda>ts task p r. tct_ok ts \<longrightarrow> ptr_ok MAX_TASKS p \<longrightarrow>
      (\<exists>p'. r = Inr p' \<and> ptr_ok MAX_TASKS p')", OF _ assms(1)], goal_cases)
    case (1 walk ts task p r)
    show ?case
    proof (intro impI)
      assume ok: "tct_ok ts" "ptr_ok MAX_TASKS p"
      show "\<exists>p'. r = Inr p' \<and> ptr_ok MAX_TASKS p'"
      proof (cases "p = task \<or> p = None")
        case True
        with 1(2) ok show ?thesis by auto
      next
        case False
        then obtain i where i: "p = Some i" by auto
        with ok have "i < length ts" by simp
        with 1 i False ok tct_ok_link [of ts i] show ?thesis by simp
      qed
    qed
  qed
  with assms show ?thesis by simp
qed

lemma qRemoveTask_typed:
  assumes "qstate_ok qs"
  shows "typed qstate_ok any (muxx_qRemoveTask p qs)"
proof -
  obtain q ts where qs: "qs = (q, ts)" by (cases qs)
  then have ok: "queue_ok q" "tct_ok ts" using assms by (simp_all add: qstate_ok_def)
  show ?thesis
  proof (cases "q_walk ts p (head q)")
    case None
    with qs ok show ?thesis by (simp add: muxx_qRemoveTask_def qstate_ok_def)
  next
    case (Some r)
    then obtain p' where r: "r = Inr p'" "ptr_ok MAX_TASKS p'"
      using q_walk_ok [of ts p "head q" r] ok by (auto simp: queue_ok_def)
    show ?thesis
    proof (cases p')
      case None
      with qs ok r Some show ?thesis by (simp add: muxx_qRemoveTask_def qstate_ok_def)
    next
      case (Some t)
      let ?ts = "if prevInQueue (ts ! t) \<noteq> None then set_prev t (nextInQueue (ts ! t)) ts else ts"
      have t: "t < length ts" using Some r ok by simp
      have ts: "tct_ok ?ts" using ok t set_link_ok [of ts t] tct_ok_link [of ts t] by simp
      then have links: "ptr_ok MAX_TASKS (nextInQueue (?ts ! t))" "ptr_ok MAX_TASKS (prevInQueue (?ts ! t))"
        using t ok tct_ok_link [of ?ts t] by simp_all
      have "ptr_ok MAX_TASKS (nextInQueue (ts ! t))" using t ok tct_ok_link [of ts t] by simp
      with Some \<open>q_walk ts p (head q) = Some r\<close> qs ok r t ts links show ?thesis
        by (auto simp: muxx_qRemoveTask_def qstate_ok_def Let_def queue_ok_def set_link_ok
            simp del: if_split intro!: typing)
    qed
  qed
qed

section \<open>Memory blocks\<close>

lemma mmcbs_upd:
  "\<forall>c \<in> set cs. mmcb_ok c \<Longrightarrow> i < length cs \<Longrightarrow> (\<And>c. mmcb_ok c \<Longrightarrow> mmcb_ok (f c)) \<Longrightarrow>
   \<forall>c \<in> set (upd_mcb i f cs). mmcb_ok c"
  unfolding upd_mcb_def by (rule all_upd) simp_all

lemma length_upd_mcb_eq: "length (upd_mcb i f cs) = length cs"
  by (simp add: upd_mcb_def)

lemma mem_scan_ok:
  assumes "mem_scan cs n cur = Some r" and "length cs = MEM_NMCBS" and "\<forall>c \<in> set cs. mmcb_ok c"
    and "cur < MEM_NMCBS"
  shows "\<exists>p. r = Inr p \<and> ptr_ok MEM_NMCBS p"
proof -
  have "length cs = MEM_NMCBS \<longrightarrow> (\<forall>c \<in> set cs. mmcb_ok c) \<longrightarrow> cur < MEM_NMCBS \<longrightarrow>
      (\<exists>p. r = Inr p \<and> ptr_ok MEM_NMCBS p)"
  proof (rule mem_scan.raw_induct [where P = "\<lambda>cs n cur r. length cs = MEM_NMCBS \<longrightarrow>
      (\<forall>c \<in> set cs. mmcb_ok c) \<longrightarrow> cur < MEM_NMCBS \<longrightarrow> (\<exists>p. r = Inr p \<and> ptr_ok MEM_NMCBS p)",
      OF _ assms(1)], goal_cases)
    case (1 scan cs n cur r)
    show ?case
    proof (intro impI)
      assume ok: "length cs = MEM_NMCBS" "\<forall>c \<in> set cs. mmcb_ok c" "cur < MEM_NMCBS"
      then have "mmcb_ok (cs ! cur)" by simp
      then have "ptr_ok MEM_NMCBS (nextBlock (cs ! cur))" by (simp add: mmcb_ok_def)
      with 1 ok show "\<exists>p. r = Inr p \<and> ptr_ok MEM_NMCBS p"
        by (auto split: if_splits option.splits)
    qed
  qed
  with assms show ?thesis by simp
qed

lemma findFreeMMCB_less: "findFreeMMCB t < max 1 (unat (numEntries t))"
proof (cases "unat (numEntries t) = 0")
  case False
  then have "findFreeMMCB t = (case find (\<lambda>i. ownerPID (mmcbs t ! i) = - 1) [1..<unat (numEntries t)]
      of None \<Rightarrow> 0 | Some j \<Rightarrow> j)"
    unfolding findFreeMMCB_def by (intro for_until_find_from_0) simp
  with False show ?thesis by (auto split: option.splits dest: find_upt_Some)
qed (simp add: findFreeMMCB_def)

lemma split_block_ok:
  assumes "length cs = MEM_NMCBS" and "\<forall>c \<in> set cs. mmcb_ok c" and "cur < MEM_NMCBS" and "new < MEM_NMCBS"
  shows "length (split_block cur new n owner page flags cs) = MEM_NMCBS \<and>
     (\<forall>c \<in> set (split_block cur new n owner page flags cs). mmcb_ok c)"
proof -
  define good where "good cs \<longleftrightarrow> length cs = MEM_NMCBS \<and> (\<forall>c \<in> set cs. mmcb_ok c)" for cs
  have upd: "good (upd_mcb i f cs)" if "good cs" "i < MEM_NMCBS" "\<And>c. mmcb_ok c \<Longrightarrow> mmcb_ok (f c)" for cs i f
    using that mmcbs_upd [of cs i f] by (simp add: good_def length_upd_mcb_eq)
  have nxt: "ptr_ok MEM_NMCBS (nextBlock (cs ! i))" if "good cs" "i < MEM_NMCBS" for cs i
    using that by (simp add: good_def mmcb_ok_def)
  have mid: "good (case nextBlock (cs ! cur) of None \<Rightarrow> cs
      | Some nx \<Rightarrow> upd_mcb nx (\<lambda>c. c\<lparr>prevBlock := Some new\<rparr>) cs)" if "good cs" for cs
    using nxt [OF that assms(3)] that assms(4)
    by (auto split: option.split intro!: upd simp: mmcb_ok_def)
  have step: "P (let x = cs in k x)" if "good cs" "\<And>x. good x \<Longrightarrow> P (k x)"
    for P :: "mmcb list \<Rightarrow> bool" and cs and k :: "mmcb list \<Rightarrow> mmcb list"
    using that by simp
  have "good cs" using assms by (simp add: good_def)
  then have "good (split_block cur new n owner page flags cs)"
    unfolding split_block_def using assms(3,4) nxt
    by (intro step [where P = good] upd mid) (simp_all add: mmcb_ok_def)
  then show ?thesis by (simp add: good_def)
qed

lemma getblock_typed:
  assumes "mmcbt_ok t"
  shows "typed mmcbt_ok (ptr_ok MEM_NMCBS) (muxx_mem_getblock owner n flags page t)"
proof (cases "mem_scan (mmcbs t) n 0")
  case None
  with assms show ?thesis by (simp add: muxx_mem_getblock_def)
next
  case (Some r)
  then obtain p where r: "r = Inr p" "ptr_ok MEM_NMCBS p"
    using mem_scan_ok [of "mmcbs t" n 0 r] assms by (auto simp: mmcbt_ok_def)
  have "findFreeMMCB t < MEM_NMCBS"
    using findFreeMMCB_less [of t] assms by (simp add: mmcbt_ok_def)
  with Some r assms split_block_ok [of "mmcbs t"] show ?thesis
    by (cases p) (simp_all add: muxx_mem_getblock_def mmcbt_ok_def Let_def)
qed

text \<open>Setting up the address space works on a task and the memory table.\<close>

definition build_ok :: "tcb \<times> mmcbt \<Rightarrow> bool" where
  "build_ok = (\<lambda>(task, t). tcb_ok task \<and> mmcbt_ok t)"

lemma build_ok_pair [simp]: "build_ok (task, t) \<longleftrightarrow> tcb_ok task \<and> mmcbt_ok t"
  by (simp add: build_ok_def)

lemma with_block_typed:
  assumes "build_ok st" and "\<And>b task. tcb_ok task \<Longrightarrow> tcb_ok (enter b task)"
  shows "typed build_ok any (with_block n flags page enter st)"
proof -
  obtain task t where st: "st = (task, t)" by (cases st)
  have "typed mmcbt_ok (ptr_ok MEM_NMCBS) (muxx_mem_getblock task n flags page t)"
    using assms(1) st by (simp add: build_ok_def getblock_typed)
  with assms st show ?thesis
    by (cases "muxx_mem_getblock task n flags page t")
      (auto simp: with_block_def build_ok_def split: option.splits)
qed

lemma page_ok [simp]:
  "tcb_ok (set_upage p ar dr t) = tcb_ok t" "tcb_ok (set_kpage p ar dr t) = tcb_ok t"
  "tcb_ok (set_page p ar dr t) = tcb_ok t"
  by (simp_all add: tcb_ok_def mmu_ok_def set_page_def set_upage_def set_kpage_def)

lemma setup_image_ok [simp]:
  "tcb_ok (setup_common t) = tcb_ok t" "tcb_ok (setup_iospace t) = tcb_ok t"
  by (simp_all add: setup_common_def setup_iospace_def Let_def)

lemma if_ok_typed [typing]:
  "typed I any m \<Longrightarrow> (\<And>s. I s \<Longrightarrow> typed I any (k s)) \<Longrightarrow> typed I any (if_ok m k)"
  unfolding if_ok_def by (rule typed_seq) auto

lemma setup_typed [typing]:
  "build_ok st \<Longrightarrow> typed build_ok any (setup_private p st)"
  "build_ok st \<Longrightarrow> typed build_ok any (setup_stack st)"
  "build_ok st \<Longrightarrow> typed build_ok any (setup_drvbuf st)"
  unfolding setup_private_def setup_stack_def setup_drvbuf_def by (rule with_block_typed; simp)+

lemma build_ok_apfst [simp]:
  "(\<And>t. tcb_ok t \<Longrightarrow> tcb_ok (f t)) \<Longrightarrow> build_ok st \<Longrightarrow> build_ok (apfst f st)"
  by (cases st) (simp add: build_ok_def)

lemma setup_taskmem_typed:
  assumes "build_ok st"
  shows "typed build_ok any (muxx_setup_taskmem st)"
proof -
  obtain task t where st: "st = (task, t)" by (cases st)
  have "build_ok (setup_common task, t)" using assms st by (simp add: build_ok_def)
  moreover have "tcb_ok (t\<lparr>taskTUCB := w\<rparr>) = tcb_ok t" for t w by (simp add: tcb_ok_def)
  ultimately show ?thesis
    using assms unfolding st muxx_setup_taskmem_def Let_def prod.case
    by (auto intro!: typing)
qed

section \<open>Updates of the kernel state\<close>

lemma state_ok_frame [simp]:
  "state_ok (s\<lparr>ipl := a\<rparr>) = state_ok s" "state_ok (s\<lparr>vecs := b\<rparr>) = state_ok s"
  "state_ok (s\<lparr>phys := c\<rparr>) = state_ok s" "state_ok (s\<lparr>dev := d\<rparr>) = state_ok s"
  "state_ok (s\<lparr>utimeticks := e\<rparr>) = state_ok s" "state_ok (s\<lparr>clkcountdown := f\<rparr>) = state_ok s"
  by (simp_all add: state_ok_def pids_ok_def)

lemma state_ok_fields:
  assumes "state_ok s"
  shows "tct_ok (tct s)" and "length (tct s) = MAX_TASKS" and "ptr_ok MAX_TASKS (curtcb s)"
    and "queue_ok (readyq s)" and "queue_ok (suspq s)" and "mmcbt_ok (mcbt s)" and "drvt_ok (drvt s)"
    and "length (drvcbs (drvt s)) = MAX_DRV" and "length (mutexes s) = MUT_MUTEXES"
    and "chnt_ok (chnt s)" and "length (iotes (chnt s)) = IOT_SENTRIES" and "tucbs_ok (tucbs s)"
    and "length (tucbs s) = MAX_TASKS" and "cpu_ok (cpu s)" and "mmu_ok (mmu s)" and "pids_ok s"
  using assms by (simp_all add: state_ok_def tct_ok_def drvt_ok_def chnt_ok_def tucbs_ok_def)

lemmas state_ok_lengths [simp] = state_ok_fields(2,8,9,11,13)

lemmas current_ok [typing] = state_ok_fields(3)

lemmas state_cpu_ok [typing] = state_ok_fields(14)

lemma state_ok_updates:
  assumes "state_ok s"
  shows "tct_ok ts \<Longrightarrow> state_ok (s\<lparr>tct := ts\<rparr>)"
    and "ptr_ok MAX_TASKS p \<Longrightarrow> state_ok (s\<lparr>curtcb := p\<rparr>)"
    and "cpu_ok c \<Longrightarrow> state_ok (s\<lparr>cpu := c\<rparr>)"
    and "mmu_ok m \<Longrightarrow> state_ok (s\<lparr>mmu := m\<rparr>)"
    and "length ms = MUT_MUTEXES \<Longrightarrow> state_ok (s\<lparr>mutexes := ms\<rparr>)"
    and "mmcbt_ok mt \<Longrightarrow> state_ok (s\<lparr>mcbt := mt\<rparr>)"
    and "drvt_ok dt \<Longrightarrow> state_ok (s\<lparr>drvt := dt\<rparr>)"
    and "chnt_ok ct \<Longrightarrow> state_ok (s\<lparr>chnt := ct\<rparr>)"
    and "tucbs_ok us \<Longrightarrow> state_ok (s\<lparr>tucbs := us\<rparr>)"
  using assms by (simp_all add: state_ok_def pids_ok_def)

lemma current_less: "state_ok s \<Longrightarrow> curtcb s = Some c \<Longrightarrow> c < MAX_TASKS"
  using state_ok_fields(3) [of s] by simp

lemma state_tcb_ok: "state_ok s \<Longrightarrow> i < MAX_TASKS \<Longrightarrow> tcb_ok (tct s ! i)"
  by (simp add: state_ok_fields tct_ok_nth)

lemma upd_tcb_ok:
  "state_ok s \<Longrightarrow> i < MAX_TASKS \<Longrightarrow> (tcb_ok (tct s ! i) \<Longrightarrow> tcb_ok (f (tct s ! i))) \<Longrightarrow>
   state_ok (upd_tcb i f s)"
  unfolding upd_tcb_def by (intro state_ok_updates tct_ok_upd) (simp_all add: state_ok_fields state_tcb_ok)

lemma upd_drvcb_ok:
  assumes "state_ok s" and "i < MAX_DRV"
    and "\<And>d. ptr_ok MAX_TASKS (ownerid d) \<Longrightarrow> ptr_ok MAX_TASKS (ownerid (f d))"
  shows "state_ok (upd_drvcb i f s)"
proof -
  let ?ds = "drvcbs (drvt s)"
  have d: "drvt_ok (drvt s)" using assms(1) by (simp add: state_ok_fields)
  then have "\<forall>d \<in> set (?ds[i := f (?ds ! i)]). ptr_ok MAX_TASKS (ownerid d)"
    using assms by (intro all_upd) (simp_all add: drvt_ok_def)
  with d show ?thesis
    unfolding upd_drvcb_def using assms by (intro state_ok_updates) (simp_all add: drvt_ok_def)
qed

lemma upd_iote_ok:
  assumes "state_ok s" and "i < IOT_SENTRIES" and "\<And>io. iote_ok io \<Longrightarrow> iote_ok (f io)"
  shows "state_ok (upd_iote i f s)"
proof -
  let ?is = "iotes (chnt s)"
  have d: "chnt_ok (chnt s)" using assms(1) by (simp add: state_ok_fields)
  then have "\<forall>io \<in> set (?is[i := f (?is ! i)]). iote_ok io"
    using assms by (intro all_upd) (simp_all add: chnt_ok_def)
  with d show ?thesis
    unfolding upd_iote_def using assms by (intro state_ok_updates) (simp_all add: chnt_ok_def)
qed

lemma set_errno_ok:
  assumes "state_ok s"
  shows "state_ok (set_errno e s)"
proof (cases "curtcb s")
  case None
  with assms show ?thesis by (simp add: set_errno_def)
next
  case (Some c)
  let ?us = "tucbs s"
  have u: "tucbs_ok ?us" "c < length ?us"
    using assms Some state_ok_fields(3) [OF assms] by (simp_all add: state_ok_fields)
  then have "\<forall>u \<in> set (?us[c := (?us ! c)\<lparr>t_errno := e\<rparr>]). tucb_ok u"
    using nth_mem [OF u(2)] by (intro all_upd) (auto simp: tucbs_ok_def tucb_ok_def)
  with u assms Some show ?thesis
    by (auto simp: set_errno_def tucbs_ok_def intro!: state_ok_updates)
qed

lemma setpl_ok [simp]: "state_ok (setpl l s) = state_ok s"
  by (simp add: setpl_def)

section \<open>The scheduler\<close>

lemma on_queue_typed:
  assumes "state_ok s" and "\<And>qs. qstate_ok qs \<Longrightarrow> typed qstate_ok A (f qs)"
  shows "typed state_ok A (on_readyq f s)" and "typed state_ok A (on_suspq f s)"
proof -
  have ok: "state_ok (put_ready s qs)" "state_ok (put_susp s qs)" if "qstate_ok qs" for qs
    using assms(1) that
    by (cases qs; simp add: put_ready_def put_susp_def qstate_ok_def state_ok_def pids_ok_def)+
  have "typed qstate_ok A (f (readyq s, tct s))" "typed qstate_ok A (f (suspq s, tct s))"
    using assms by (simp_all add: qstate_ok_def state_ok_fields)
  then show "typed state_ok A (on_readyq f s)" "typed state_ok A (on_suspq f s)"
    unfolding on_readyq_def on_suspq_def
    by (cases "f (readyq s, tct s)"; cases "f (suspq s, tct s)"; simp add: ok)+
qed

lemmas queue_typing [typing] =
  on_queue_typed(1) [OF _ qAddTask_typed] on_queue_typed(2) [OF _ qAddTask_typed]
  on_queue_typed(1) [OF _ qRemoveTask_typed]

lemma current_typed [typing]:
  "state_ok s \<Longrightarrow> (\<And>i. curtcb s = Some i \<Longrightarrow> i < MAX_TASKS \<Longrightarrow> typed state_ok A (k i)) \<Longrightarrow>
   typed state_ok A (at_ptr (tct s) (curtcb s) s k)"
  by (rule typed_at_ptr) (simp_all add: state_ok_fields)

lemma cpu_ok_frame [simp]: "cpu_ok (syscall_frame regs) = cpu_ok regs"
  by (simp add: cpu_ok_def syscall_frame_def)

lemma copytrapfp_typed [typing]:
  "state_ok s \<Longrightarrow> cpu_ok frame \<Longrightarrow> typed state_ok any (copytrapfp fp frame s)"
  unfolding copytrapfp_def
  by (rule current_typed) (auto intro!: upd_tcb_ok simp: tcb_ok_def saved_context_def cpu_ok_def)

lemma copyMMUstate_typed [typing]: "state_ok s \<Longrightarrow> typed state_ok any (copyMMUstate s)"
  unfolding copyMMUstate_def
  by (rule current_typed) (auto intro!: upd_tcb_ok simp: tcb_ok_def state_ok_fields)

lemma muxx_switch_typed [typing]:
  assumes "state_ok s"
  shows "typed state_ok any (muxx_switch s)"
  unfolding muxx_switch_def Let_def
proof (rule current_typed [OF assms])
  fix i
  assume i: "i < MAX_TASKS"
  then have t: "tcb_ok (tct s ! i)" using assms by (simp add: state_tcb_ok)
  then have "state_ok (upd_tcb i (\<lambda>t. t\<lparr>status := TSK_RUN\<rparr>) s)"
    using assms i by (intro upd_tcb_ok) (simp_all add: tcb_ok_def)
  with t show "typed state_ok any (Stop Switched ((upd_tcb i (\<lambda>t. t\<lparr>status := TSK_RUN\<rparr>) s)
      \<lparr>cpu := cpuState (tct s ! i), mmu := mmuState (tct s ! i),
       ipl := drop_bit 5 (cs_psw (cpuState (tct s ! i))) AND 7\<rparr>))"
    by (simp add: state_ok_updates tcb_ok_def)
qed

lemma muxx_schedule_typed [typing]: "state_ok s \<Longrightarrow> typed state_ok any (muxx_schedule s)"
  unfolding muxx_schedule_def setpl7_def Let_def prod.case
  by (rule typed_andthen, rule on_queue_typed(1) [OF _ qGetTask_typed])
    (auto intro!: typing simp: state_ok_updates)

lemma ready_tcb_ok:
  "state_ok s \<Longrightarrow> c < MAX_TASKS \<Longrightarrow> state_ok (upd_tcb c (\<lambda>t. t\<lparr>status := w\<rparr>) s)"
  by (rule upd_tcb_ok) (simp_all add: tcb_ok_def)

lemma muxx_yield_typed [typing]: "state_ok s \<Longrightarrow> typed state_ok any (muxx_yield s)"
  unfolding muxx_yield_def by (auto intro!: typing ready_tcb_ok)

lemma svc_yield_typed [typing]: "state_ok s \<Longrightarrow> typed state_ok any (muxx_svc_yield fp s)"
  unfolding muxx_svc_yield_def setpl7_def Let_def prod.case
  by (auto intro!: typing ready_tcb_ok)


lemma suspend_typed [typing]:
  assumes "state_ok s" and "ptr_ok MAX_TASKS task"
  shows "typed state_ok any (muxx_svc_suspend fp task s)"
  using assms unfolding muxx_svc_suspend_def setpl7_def Let_def prod.case
  by (auto intro!: typing ready_tcb_ok)

lemma clock_typed:
  assumes "state_ok s"
  shows "typed state_ok any (muxx_clock_handler fp s)"
proof -
  have tick: "state_ok (upd_tcb c (\<lambda>t. t\<lparr>clockTicks := clockTicks t + 1\<rparr>) s)"
    if "state_ok s" "c < MAX_TASKS" for c and s :: "'a kstate"
    using that by (intro upd_tcb_ok) (simp_all add: tcb_ok_def)
  show ?thesis
    using assms unfolding muxx_clock_handler_def muxx_check_timers_def muxx_check_quantums_def
      setpl7_def Let_def prod.case
    by (auto intro!: typing tick intro: current_less)
qed

section \<open>Mutexes\<close>

lemma mutex_typed [typing]:
  assumes "state_ok s"
  shows "typed state_ok any (muxx_svc_mutex m p s)"
proof -
  have set_ok: "state_ok (set_mutex m b s)" if "state_ok s" for b and s :: "'a kstate"
    using that by (simp add: set_mutex_def state_ok_updates)
  show ?thesis
    using assms unfolding muxx_svc_mutex_def setpl7_def mutex_at_def Let_def prod.case
    by (auto intro!: typing set_ok)
qed

section \<open>Drivers and channels\<close>

lemma find_driver_less [simp]: "muxx_find_driver n s = Some i \<Longrightarrow> i < MAX_DRV"
  using drv_names.search_some by blast

lemma find_free_drvcb_less [simp]: "find_free_drvcb ds = Some i \<Longrightarrow> i < MAX_DRV"
  using drv_slots.search_some by blast

lemma alloc_typed [typing]:
  assumes "state_ok s"
  shows "typed state_ok any (muxx_svc_alloc n p s)"
  using assms unfolding muxx_svc_alloc_def Let_def
  by (auto intro!: typing upd_drvcb_ok split: option.split)

lemma drvreg_typed [typing]:
  assumes "state_ok s"
  shows "typed state_ok any (muxx_svc_drvreg n dd h s)"
  using assms unfolding muxx_svc_drvreg_def Let_def
  by (auto intro!: typing upd_drvcb_ok split: option.split)

lemma drv_exec_typed [typing]:
  assumes "state_ok s" and "ptr_ok MAX_DRV p"
  shows "typed state_ok any (muxx_drv_exec cb p pkt s)"
  using assms unfolding muxx_drv_exec_def Let_def
  by (auto intro!: typing split: option.split prod.split)

lemma startstop_typed [typing]:
  assumes "state_ok s"
  shows "typed state_ok any (muxx_drv_startstop cb p n s)"
  using assms unfolding muxx_drv_startstop_def Let_def
  by (auto intro!: typing upd_drvcb_ok split: option.split)


lemma with_char_typed:
  "P st \<Longrightarrow> (\<And>c. typed P any (k c)) \<Longrightarrow> typed P any (with_char w i st k)"
  by (simp add: with_char_def)

text \<open>The search for a device only writes its local variables.\<close>

definition located_ok :: "locate_state \<Rightarrow> bool" where
  "located_ok st \<longleftrightarrow> ptr_ok MAX_DRV (ls_driver st)"

lemma locate_body_typed:
  assumes "located_ok st" and "i < MAX_DRV"
  shows "typed located_ok any (locate_body ds devname wdev i st)"
  using assms unfolding locate_body_def Let_def
  by (auto intro!: typed_if with_char_typed simp: located_ok_def split: option.split)

lemma for_until_inv:
  assumes "P s" and "\<And>j s. j < n \<Longrightarrow> P s \<Longrightarrow> P (body j s)"
  shows "P (for_until i n stop body s)"
  using assms
proof (induction "n - i" arbitrary: i s)
  case (Suc k)
  then show ?case
    by (cases "i < n \<and> \<not> stop s") (auto simp: for_until_step not_less)
qed simp

lemma locate_loop_typed:
  assumes "located_ok st"
  shows "typed located_ok any (locate_loop ds devname wdev st)"
  unfolding locate_loop_def
proof (rule for_until_inv)
  show "typed located_ok any (Ret () st)" using assms by simp
next
  fix j and r :: "(unit, locate_state) outcome"
  assume "j < MAX_DRV" and "typed located_ok any r"
  then show "typed located_ok any (andthen r (\<lambda>_. locate_body ds devname wdev j))"
    by (auto intro!: typed_seq locate_body_typed)
qed

lemma locate_typed:
  assumes "state_ok s" and "iote_ok io"
  shows "typed state_ok (\<lambda>(rc, io). iote_ok io) (muxx_locate_dev devname io s)"
proof -
  define wl where "wl = trim_blanks (cstrlen (take 8 devname @ [CHR 0x00])) (take 8 devname @ [CHR 0x00])"
  define st0 where "st0 = \<lparr>ls_len = snd wl, ls_driver = None, ls_unit = 0, ls_ctl = 0, ls_found = False\<rparr>"
  have "typed located_ok any (locate_loop (drvcbs (drvt s)) devname (fst wl) st0)"
    by (rule locate_loop_typed) (simp add: st0_def located_ok_def)
  then show ?thesis
    using assms
    by (cases "locate_loop (drvcbs (drvt s)) devname (fst wl) st0")
      (auto simp: muxx_locate_dev_def muxx_locate_pdev_def Let_def wl_def [symmetric] split_beta
        st0_def located_ok_def iote_ok_def simp del: trim_blanks.simps)
qed

lemma state_iote_ok:
  "state_ok s \<Longrightarrow> i < IOT_SENTRIES \<Longrightarrow> iote_ok (iotes (chnt s) ! i)"
  using state_ok_fields(10) [of s] by (simp add: chnt_ok_def)

lemma driver_typed [typing]:
  "state_ok s \<Longrightarrow> i < IOT_SENTRIES \<Longrightarrow> (\<And>k. k < MAX_DRV \<Longrightarrow> typed state_ok A (f k)) \<Longrightarrow>
   typed state_ok A (at_ptr (drvcbs (drvt s)) (io_driver (iotes (chnt s) ! i)) s f)"
  using state_iote_ok [of s i] by (intro typed_at_ptr) (simp_all add: iote_ok_def)

lemma iobuffer_ok [simp]:
  "state_ok s \<Longrightarrow> state_ok (snd (muxx_allocate_iobuffer b s))"
  "state_ok s \<Longrightarrow> state_ok (snd (muxx_deallocate_iobuffer b s))"
  by (simp_all add: muxx_allocate_iobuffer_def muxx_deallocate_iobuffer_def set_errno_ok)

lemma iote_ok_simps [simp]:
  "iote_ok (io\<lparr>io_dealloc := b1\<rparr>) = iote_ok io" "iote_ok (io\<lparr>io_error := b2\<rparr>) = iote_ok io"
  "iote_ok (io\<lparr>io_open := b3\<rparr>) = iote_ok io" "iote_ok (io\<lparr>io_buffaddr := b4\<rparr>) = iote_ok io"
  "iote_ok (io\<lparr>io_ioerror := b5\<rparr>) = iote_ok io" "iote_ok (io\<lparr>io_eof := b6\<rparr>) = iote_ok io"
  "iote_ok (clear_status io) = iote_ok io"
  by (simp_all add: iote_ok_def clear_status_def)

lemma open_claim_typed [typing]:
  assumes "state_ok s" and "i < IOT_SENTRIES"
  shows "typed state_ok any (open_claim i d dd s)"
  using assms unfolding open_claim_def by (auto intro!: typing upd_iote_ok)

lemma open_finish_typed [typing]:
  assumes "state_ok s" and "i < IOT_SENTRIES"
  shows "typed state_ok any (open_finish i dd rc s)"
  using assms unfolding open_finish_def muxx_allocate_iobuffer_def Let_def prod.case
  by (auto intro!: typing upd_iote_ok set_errno_ok)

lemma open_driver_typed [typing]:
  assumes "state_ok s" and "i < IOT_SENTRIES"
  shows "typed state_ok any (open_driver i s)"
  using assms unfolding open_driver_def Let_def
  by (auto intro!: typing upd_iote_ok split: option.split)

lemma find_iote_less: "find_iote_slot ios = Some i \<Longrightarrow> i < IOT_SENTRIES"
  using chan_slots.search_some by blast


lemma open_typed:
  assumes "state_ok s"
  shows "typed state_ok (ptr_ok IOT_SENTRIES) (muxx_svc_open device flags s)"
proof -
  let ?A = "\<lambda>(rc :: int, io). ptr_ok IOT_SENTRIES io"
  have found: "typed state_ok ?A (andthen (muxx_locate_dev device (iotes (chnt s) ! i) s) (\<lambda>(rc, io) s.
       let s = upd_iote i (\<lambda>_. io) s
       in andthen (if rc = EOK then open_driver i s else Ret rc s) (\<lambda>rc s. Ret (rc, Some i) s)))"
    if s: "state_ok s" and i: "i < IOT_SENTRIES" for i and s :: "'a kstate"
  proof (rule typed_andthen [OF locate_typed [OF s state_iote_ok [OF s i]]])
    fix a :: "int \<times> iote" and t :: "'a kstate"
    assume "state_ok t" and "case a of (rc, io) \<Rightarrow> iote_ok io"
    then show "typed state_ok ?A ((\<lambda>(rc, io) s. let s = upd_iote i (\<lambda>_. io) s
       in andthen (if rc = EOK then open_driver i s else Ret rc s) (\<lambda>rc s. Ret (rc, Some i) s)) a t)"
      using i by (auto simp: Let_def split: prod.split intro!: typing upd_iote_ok)
  qed
  have slot: "i < IOT_SENTRIES" if "find_iote_slot ios = Some i" for ios i
    using that by (rule find_iote_less)
  show ?thesis
    unfolding muxx_svc_open_def
  proof (rule typed_seq [OF mutex_typed [OF assms]], rule typed_andthen [where A = ?A], goal_cases)
    case (1 rc t)
    then show ?case
      using slot found by (auto simp: Let_def muxx_find_free_iote_def split: option.split)
  next
    case (2 rc t a u)
    then show ?case by (auto split: prod.split intro!: typing set_errno_ok)
  qed
qed

lemma close_open_typed [typing]:
  assumes "state_ok s" and "i < IOT_SENTRIES"
  shows "typed state_ok any (close_open i s)"
  using assms unfolding close_open_def muxx_deallocate_iobuffer_def Let_def prod.case
  by (auto intro!: typing upd_iote_ok set_errno_ok simp: iote_ok_def)

lemma close_typed [typing]:
  assumes "state_ok s" and "ptr_ok IOT_SENTRIES io"
  shows "typed state_ok any (muxx_svc_close io s)"
  using assms unfolding muxx_svc_close_def
  by (auto intro!: typing set_errno_ok)

section \<open>Transfers\<close>

lemma with_driver_typed [typing]:
  "state_ok s \<Longrightarrow> i < IOT_SENTRIES \<Longrightarrow> (\<And>dd. typed state_ok A (k dd)) \<Longrightarrow>
   typed state_ok A (with_driver i s k)"
  unfolding with_driver_def by (auto intro!: typing split: option.split)

lemma write_loop_typed [typing]:
  "state_ok s \<Longrightarrow> ptr_ok MAX_DRV p \<Longrightarrow> typed state_ok any (write_loop cb p bs rc n pkt s)"
proof (induction bs arbitrary: rc n pkt s)
  case (Cons b bs)
  then show ?case by (auto intro!: typing)
qed simp

lemma read_loop_typed [typing]:
  "state_ok s \<Longrightarrow> ptr_ok MAX_DRV p \<Longrightarrow> typed state_ok any (read_loop cb p is rc n buf pkt s)"
proof (induction "is" arbitrary: rc n buf pkt s)
  case (Cons i "is")
  then show ?case by (auto intro!: typing)
qed simp

lemma io_driver_ok [typing]:
  "state_ok s \<Longrightarrow> i < IOT_SENTRIES \<Longrightarrow> ptr_ok MAX_DRV (io_driver (iotes (chnt s) ! i))"
  using state_iote_ok [of s i] by (simp add: iote_ok_def)

lemma write_typed [typing]:
  assumes "state_ok s" and "ptr_ok IOT_SENTRIES ch"
  shows "typed state_ok any (muxx_svc_write cb ch n buf s)"
  using assms unfolding muxx_svc_write_def Let_def
  by (auto intro!: typing upd_iote_ok set_errno_ok)

lemma read_typed [typing]:
  assumes "state_ok s" and "ptr_ok IOT_SENTRIES ch"
  shows "typed state_ok any (muxx_svc_read cb ch n buf s)"
  using assms unfolding muxx_svc_read_def Let_def
  by (auto intro!: typing upd_iote_ok set_errno_ok)


section \<open>Copies and protection\<close>

lemma mmu_ok_updates [simp]:
  "mmu_ok (m\<lparr>kpar := (kpar m)[i := a]\<rparr>) = mmu_ok m"
  "mmu_ok (m\<lparr>updr := (updr m)[i := a], kpdr := (kpdr m)[i := b]\<rparr>) = mmu_ok m"
  "mmu_ok (set_kwindow i a b m) = mmu_ok m"
  by (simp_all add: mmu_ok_def set_kwindow_def)

lemma copy_byte_typed [typing]:
  assumes "state_ok s"
  shows "typed state_ok any (copy_byte dst src s)"
proof -
  have "f \<noteq> WildPointer" if "kernel_addr al m va = Inl f" for al m va f
    using that by (auto simp: kernel_addr_def split: option.splits if_splits)
  with assms show ?thesis
    by (auto simp: copy_byte_def split: sum.split)
qed

lemma kernel_memcpy_typed [typing]: "state_ok s \<Longrightarrow> typed state_ok any (kernel_memcpy n d a s)"
  by (induction n arbitrary: d a s) (auto intro!: typing)

lemma xcopy_loop_typed [typing]: "state_ok s \<Longrightarrow> typed state_ok any (xcopy_loop n x s)"
  by (induction n arbitrary: x s) (auto simp: Let_def intro!: typing)

lemma xcopy_move_typed [typing]:
  assumes "state_ok s"
  shows "typed state_ok any (xcopy_move dst src da sa n s)"
proof -
  have "state_ok (xcopy_windows src dst sa da s)"
    using assms by (simp add: xcopy_windows_def state_ok_updates state_ok_fields)
  then show ?thesis
    unfolding xcopy_move_def Let_def
    by (auto intro!: typing simp: state_ok_updates state_ok_fields)
qed

lemma task_ref_ok [typing]: "state_ok s \<Longrightarrow> ptr_ok MAX_TASKS (task_ref p s)"
  "state_ok s \<Longrightarrow> ptr_ok MAX_TASKS (muxx_findtcb p s)"
proof -
  have f: "ptr_ok MAX_TASKS (find P [0..<MAX_TASKS])" for P
    by (cases "find P [0..<MAX_TASKS]") (auto dest: find_upt_Some)
  show "ptr_ok MAX_TASKS (muxx_findtcb p s)" if "state_ok s"
    using that f by (simp add: muxx_findtcb_def state_ok_fields)
  then show "ptr_ok MAX_TASKS (task_ref p s)" if "state_ok s"
    using that by (simp add: task_ref_def state_ok_fields)
qed

lemma xcopy_typed [typing]:
  assumes "state_ok s"
  shows "typed state_ok any (muxx_svc_xcopy dp da sp sa n s)"
proof -
  have ref: "ptr_ok MAX_TASKS (task_ref p (s\<lparr>ipl := 7\<rparr>))" if "state_ok s" for p and s :: "'a kstate"
    using that by (intro task_ref_ok) simp
  show ?thesis
    using assms unfolding muxx_svc_xcopy_def setpl7_def Let_def prod.case
    by (auto intro!: typing ref)
qed

lemma protmem_typed [typing]:
  assumes "state_ok s"
  shows "typed state_ok any (muxx_svc_protmem p page prot s)"
proof -
  have "state_ok (upd_tcb t (set_prot i prot) s)" if "t < MAX_TASKS" for t i
    using that assms by (intro upd_tcb_ok) (simp_all add: tcb_ok_def set_prot_def Let_def)
  moreover have "t < MAX_TASKS" if "task_ref p s = Some t" for t
    using task_ref_ok(1) [OF assms, of p] that by simp
  ultimately show ?thesis
    using assms unfolding muxx_svc_protmem_def Let_def
    by (auto intro!: typing state_ok_updates(4) simp: state_ok_fields split: option.split)
qed

section \<open>Processes\<close>

lemma find_slot_less: "find_slot ts < MAX_TASKS"
  by (auto simp: find_slot_find split: option.split dest: find_upt_Some)

lemma inc_pid:
  fixes w b :: u16
  assumes "w \<le> b" and "b \<le> 511"
  shows "0 < w + 1" and "\<not> w + 1 > b \<Longrightarrow> w + 1 \<le> b"
proof -
  have "unat w \<le> 511" using assms by (simp add: word_le_nat_alt)
  then show "0 < w + 1" by (simp add: word_less_nat_alt unat_inc16)
qed simp

lemma new_pid_typed:
  assumes "state_ok s"
  shows "typed state_ok (\<lambda>p. 0 < p) (new_pid type s)"
proof -
  have "state_ok (t\<lparr>topspid := w\<rparr>)" if "state_ok t" "w \<le> 63" for t :: "'a kstate" and w
    using that by (simp add: state_ok_def pids_ok_def)
  moreover have "state_ok (t\<lparr>topupid := w\<rparr>)" if "state_ok t" "w \<le> 511" for t :: "'a kstate" and w
    using that by (simp add: state_ok_def pids_ok_def)
  moreover have "pids_ok s" using assms by (simp add: state_ok_fields)
  ultimately show ?thesis
    using assms inc_pid [of "topspid s" 63] inc_pid [of "topupid s" 511]
    by (auto simp: new_pid_def Let_def pids_ok_def reusespid_def reuseupid_def not_less)
qed

lemma taskinit_typed:
  assumes "state_ok s"
  shows "typed state_ok (\<lambda>i. 0 \<le> i \<and> nat i < MAX_TASKS) (muxx_taskinit type parent entry privs s)"
proof -
  have "curtasks s < 16" using state_ok_fields(16) [OF assms] by (simp add: pids_ok_def)
  moreover have "tcb_ok (new_tcb p type parent entry privs t)" if "tcb_ok t" for p t
    using that by (simp add: new_tcb_def muxx_tcbinit_def tcb_ok_def cpu_ok_def mmu_ok_def
        zero_cpustate_def zero_mmustate_def Let_def)
  ultimately show ?thesis
    using assms find_slot_less unfolding muxx_taskinit_def Let_def
    by (auto intro!: typed_andthen [OF new_pid_typed] upd_tcb_ok simp: not_le)
qed

lemma setup_task_typed [typing]:
  assumes "state_ok s" and "i < MAX_TASKS"
  shows "typed state_ok any (setup_task i s)"
proof -
  have "typed build_ok any (muxx_setup_taskmem (tct s ! i, mcbt s))"
    using assms by (intro setup_taskmem_typed) (simp add: state_tcb_ok state_ok_fields)
  moreover have "state_ok (s\<lparr>tct := (tct s)[i := t], mcbt := m\<rparr>)" if "build_ok (t, m)" for t m
    using that assms by (auto intro!: state_ok_updates tct_ok_upd simp: state_ok_fields)
  ultimately show ?thesis
    by (cases "muxx_setup_taskmem (tct s ! i, mcbt s)") (auto simp: setup_task_def)
qed

lemma tct_at_typed:
  "state_ok s \<Longrightarrow> 0 \<le> i \<and> nat i < MAX_TASKS \<Longrightarrow> (\<And>j. j < MAX_TASKS \<Longrightarrow> typed state_ok A (k j)) \<Longrightarrow>
   typed state_ok A (tct_at i s k)"
  unfolding tct_at_def by (auto intro!: typed_at_ptr)

lemma name_ok [typing]:
  "state_ok s \<Longrightarrow> i < MAX_TASKS \<Longrightarrow> state_ok (upd_tcb i (\<lambda>t. t\<lparr>taskname := n\<rparr>) s)"
  by (rule upd_tcb_ok) (simp_all add: tcb_ok_def)

lemma creprc_typed [typing]:
  assumes "state_ok s"
  shows "typed state_ok any (muxx_svc_creprc name type entry privs s)"
  unfolding muxx_svc_creprc_def
  by (rule current_typed [OF assms], rule typed_andthen [OF taskinit_typed [OF assms]],
      rule tct_at_typed) (auto intro!: typing)

lemma loadprc_typed [typing]:
  assumes "state_ok s"
  shows "typed state_ok any (muxx_svc_loadprc shellproc name type file len privs s)"
  unfolding muxx_svc_loadprc_def
  by (rule current_typed [OF assms], rule typed_andthen [OF taskinit_typed [OF assms]],
      rule tct_at_typed) (auto intro!: typing)

section \<open>The dispatcher\<close>

text \<open>The pointers a caller passes: tasks and channels it got from the kernel, or \<open>NULL\<close>.\<close>

definition view_ok :: "user_view \<Rightarrow> bool" where
  "view_ok uv \<longleftrightarrow> (\<forall>a. ptr_ok MAX_TASKS (uv_task uv a)) \<and> (\<forall>a. ptr_ok IOT_SENTRIES (uv_iote uv a))"

definition result_ok :: "svc_result \<Rightarrow> bool" where
  "result_ok r \<longleftrightarrow> (case r of RChannel p \<Rightarrow> ptr_ok IOT_SENTRIES p | _ \<Rightarrow> True)"

lemma with_result_typed:
  "typed I A m \<Longrightarrow> (\<And>a. A a \<Longrightarrow> B (f a)) \<Longrightarrow> typed I B (with_result f m)"
  by (cases m) (auto simp: with_result_def)

lemma gettpi_typed [typing]:
  assumes "state_ok s"
  shows "typed state_ok any (muxx_svc_gettpi p s)"
  using assms task_ref_ok [OF assms, of p] unfolding muxx_svc_gettpi_def Let_def
  by (auto intro!: typing)

lemma services_typed [typing]:
  "state_ok s \<Longrightarrow> typed state_ok any (muxx_svc_muxxhlt s)"
  "state_ok s \<Longrightarrow> typed state_ok any (muxx_unimpl s)"
  "state_ok s \<Longrightarrow> typed state_ok any (muxx_svc_conputc f c s)"
  "state_ok s \<Longrightarrow> typed state_ok any (muxx_svc_drvstart cb n s)"
  "state_ok s \<Longrightarrow> typed state_ok any (muxx_svc_drvstop cb n s)"
  by (simp_all add: muxx_svc_muxxhlt_def muxx_unimpl_def muxx_svc_conputc_def split_beta Let_def
      muxx_svc_drvstart_def muxx_svc_drvstop_def startstop_typed)

lemma syscall_typed:
  assumes "state_ok s" and "view_ok uv"
  shows "typed state_ok result_ok (syscall_rt env uv svc fp p1 p2 p3 p4 p5 s)"
proof (cases "svc = Svc_open")
  case True
  with open_typed [OF assms(1)] show ?thesis
    by (auto intro!: with_result_typed simp: result_ok_def)
next
  case False
  have other: "typed state_ok result_ok (with_result f m)"
    if "typed state_ok any m" "\<And>a. result_ok (f a)" for m and f :: "'b \<Rightarrow> svc_result"
    using that by (rule with_result_typed)
  show ?thesis
    using assms False
    by (cases svc) (auto intro!: with_result_typed [where A = any] typing split: prod.split
        simp: result_ok_def view_ok_def muxx_svc_exit_def muxx_svc_abort_def muxx_unimpl_def)
qed

theorem systrap_typed:
  assumes "state_ok s" and "view_ok uv" and "0 \<le> n" and "n < int (length trap_table)"
  shows "typed state_ok result_ok (muxx_systrap_handler env uv n fp p1 p2 p3 p4 p5 s)"
  using assms syscall_typed [OF assms(1,2)]
  by (simp add: muxx_systrap_handler_def trap_table_entries_def nat_less_iff)


section \<open>The running system\<close>

lemma boot_ok: "state_ok (muxx_boot init_entry d M)"
proof -
  define s0 where "s0 = (boot_kstate d M)\<lparr>mmu := mmu_initialize (mmu (boot_kstate d M)),
      mcbt := muxx_mem_init (mcbt (boot_kstate d M))\<rparr>"
  have "mmcbt_ok (muxx_mem_init t)" for t
  proof -
    have "\<forall>c \<in> set (mmcbs (muxx_mem_init t)). mmcb_ok c"
      unfolding muxx_mem_init_def Let_def
      by (cases t, simp only: mmcbt.update_convs mmcbt.select_convs, intro all_upd)
        (simp_all add: mem_chunk_def zero_mmcb_def mmcb_ok_def)
    then show ?thesis by (simp add: mmcbt_ok_def muxx_mem_init_def Let_def)
  qed
  then have "state_ok s0"
    by (simp add: s0_def boot_kstate_def mmu_initialize_def Let_def state_ok_def tct_ok_def tcb_ok_def zero_tcb_def cpu_ok_def
        zero_cpustate_def mmu_ok_def zero_mmustate_def queue_ok_def zero_tqueue_def pids_ok_def
        drvt_ok_def zero_drvcbt_def zero_drvcb_def chnt_ok_def zero_iott_def iote_ok_def
        zero_iote_def tucbs_ok_def tucb_ok_def zero_tucb_def)
  moreover have "state_ok (muxx_tctinit s)" if "state_ok s" for s :: "'a kstate"
    unfolding muxx_tctinit_def
    by (rule fold_invariant [where Q = "\<lambda>i. i < MAX_TASKS"])
      (use that in \<open>auto intro!: upd_tcb_ok simp: muxx_tcbinit_def tcb_ok_def cpu_ok_def mmu_ok_def
        zero_cpustate_def zero_mmustate_def\<close>)
  moreover have "state_ok (muxx_drvinit s)" if "state_ok s" for s :: "'a kstate"
    unfolding muxx_drvinit_def
    by (rule fold_invariant [where Q = "\<lambda>i. i < MAX_DRV"])
      (use that in \<open>auto intro!: upd_drvcb_ok state_ok_updates dest: state_ok_fields(7)
        simp: drvt_ok_def\<close>)
  moreover have "state_ok (muxx_iottinit s)" if "state_ok s" for s :: "'a kstate"
    unfolding muxx_iottinit_def
    by (rule fold_invariant [where Q = "\<lambda>i. i < IOT_SENTRIES"])
      (use that in \<open>auto intro!: upd_iote_ok state_ok_updates dest: state_ok_fields(10)
        simp: chnt_ok_def iote_ok_def zero_iote_def\<close>)
  moreover have "state_ok (muxx_fakeproc init_entry s)" if "state_ok s" for s :: "'a kstate"
  proof -
    have "tcb_ok (overrun_clear (tct s ! 1))"
      using state_tcb_ok [OF that, of 1]
      by (simp add: overrun_clear_def tcb_ok_def zero_tcb_def cpu_ok_def zero_cpustate_def)
    note over = this
    have frame: "tct_ok ts \<Longrightarrow> state_ok (s\<lparr>tct := ts, topspid := 1, curtcb := Some 0\<rparr>)" for ts
      using that by (simp add: state_ok_def pids_ok_def)
    show ?thesis
      unfolding muxx_fakeproc_def Let_def
      by (intro frame tct_ok_upd)
        (use that over in \<open>simp_all add: state_ok_fields tcb_ok_def zero_tcb_def cpu_ok_def
          zero_cpustate_def mmu_ok_def init_mmu_def\<close>)
  qed
  ultimately have "state_ok (muxx_fakeproc init_entry (muxx_iottinit (muxx_drvinit (muxx_tctinit s0))))"
    by simp
  from muxx_switch_typed [OF this] show ?thesis
    by (simp add: muxx_boot_def Let_def s0_def typed_final [where A = any])
qed

lemma startup_ok: "state_ok (startup_from d M)"
proof -
  have one: "typed state_ok any (init_driver hnd entry drv dd s)" if "state_ok s" for hnd entry drv dd s
    using that unfolding init_driver_def muxx_svc_muxxhlt_def by (auto intro!: typing)
  have "typed state_ok any (init_drivers a b s)" if "state_ok s" for a b s
    unfolding init_drivers_def by (rule typed_andthen [OF one [OF that] one])
  from typed_final [OF this [OF boot_ok]] show ?thesis by (simp add: startup_from_def)
qed

text \<open>
  The fields of \<open>kstate\<close> are memory of the machine as well: the kernel lies in the first 24 KB, and
  the TUCB of a task at the address \<open>taskTUCB\<close> of its space. The model keeps them apart from \<open>phys\<close>,
  so it is about runs in which nothing is written to these places but by the assignments of the
  kernel and of the library to their own variables. Nothing enforces that: a privileged task
  may write into pages 0 to 2, and any task can let the kernel do it (\<open>xcopy_reaches_kernel\<close>).
\<close>

definition kept_apart :: "'d kstate \<Rightarrow> nat \<Rightarrow> bool" where
  "kept_apart s a \<longleftrightarrow> a < 0x6000 \<or>
     (\<exists>t \<in> set (tct s). pid t \<noteq> 0 \<and>
        (\<exists>k < 20. a = unat (upar (mmuState t) ! page_of (taskTUCB t)) * 64 + unat (taskTUCB t AND 0x1FFF) + k))"

text \<open>No write of \<open>f\<close> goes there, whatever the memory holds.\<close>

definition spares_kernel :: "('d kstate \<Rightarrow> ('a, 'd kstate) outcome) \<Rightarrow> 'd kstate \<Rightarrow> bool" where
  "spares_kernel f s \<longleftrightarrow>
     (\<forall>M a. kept_apart s a \<longrightarrow> phys (final_state (f (s\<lparr>phys := M\<rparr>))) a = M a)"

text \<open>
  A run of the system: from the boot state the task that has the processor computes (changing its
  registers and memory), enters the kernel by a trap, or is interrupted by the clock, as long as the
  kernel gives the processor back.
\<close>

definition goes_on :: "('a, 's) outcome \<Rightarrow> bool" where
  "goes_on m \<longleftrightarrow> (case m of Ret a s \<Rightarrow> True | Stop e s \<Rightarrow> e = Switched)"

inductive kernel_run :: "'d environment \<Rightarrow> 'd kstate \<Rightarrow> 'd kstate \<Rightarrow> bool" for env s0 where
  kr_start: "kernel_run env s0 s0"
| kr_compute: "kernel_run env s0 s \<Longrightarrow> cpu_ok regs \<Longrightarrow> \<forall>a. kept_apart s a \<longrightarrow> mem a = phys s a \<Longrightarrow>
    kernel_run env s0 (s\<lparr>cpu := regs, phys := mem\<rparr>)"
| kr_trap: "kernel_run env s0 s \<Longrightarrow> view_ok uv \<Longrightarrow> 0 \<le> n \<Longrightarrow> n < int (length trap_table) \<Longrightarrow>
    spares_kernel (muxx_systrap_handler env uv n fp p1 p2 p3 p4 p5) s \<Longrightarrow>
    goes_on (muxx_systrap_handler env uv n fp p1 p2 p3 p4 p5 s) \<Longrightarrow>
    kernel_run env s0 (final_state (muxx_systrap_handler env uv n fp p1 p2 p3 p4 p5 s))"
| kr_clock: "kernel_run env s0 s \<Longrightarrow> goes_on (muxx_clock_handler fp s) \<Longrightarrow>
    kernel_run env s0 (final_state (muxx_clock_handler fp s))"

text \<open>A service that does not touch the memory spares the kernel; the mutex service is one.\<close>

lemma mutex_spares: "spares_kernel (muxx_svc_mutex m p) s"
proof -
  have "phys (final_state (at_ptr xs q t k)) = phys t" if "\<And>i. phys (final_state (k i)) = phys t"
    for xs :: "tcb list" and q t and k :: "nat \<Rightarrow> (int, 'a kstate) outcome"
    using that by (simp add: at_ptr_def split: option.split)
  then show ?thesis
    by (simp add: spares_kernel_def muxx_svc_mutex_def mutex_at_def set_mutex_def setpl7_def setpl_def)
qed

lemma with_result_state [simp]: "final_state (with_result f m) = final_state m"
  by (cases m) (simp_all add: with_result_def)

lemma mutex_trap_spares:
  "spares_kernel (muxx_systrap_handler env uv 25 fp p1 p2 p3 p4 p5) s"
  using mutex_spares [of p1 p2 s] by (simp add: spares_kernel_def handler_in_table trap_table_def)

inductive_cases kernel_run_cases: "kernel_run env s0 s"

lemma kernel_run_ok: "kernel_run env s0 s \<Longrightarrow> state_ok s0 \<Longrightarrow> state_ok s"
proof (induction rule: kernel_run.induct)
  case (kr_compute s regs mem)
  then show ?case using state_ok_updates(3) [of s regs] by simp
next
  case (kr_trap s uv n fp p1 p2 p3 p4 p5)
  then show ?case using systrap_typed [of s uv n env fp p1 p2 p3 p4 p5] by (auto intro: typed_final)
next
  case (kr_clock s fp)
  then show ?case using clock_typed [of s fp] by (auto intro: typed_final)
qed

end
