(* ===== verification/Spec2Isabelle.thy ===== *)
theory Spec2Isabelle
  imports Lib_Number Lib_Getopt Lib_Random Lib_Malloc Lib_Regex Lib_Crypt Lib_Printf Lib_Strftime Lib_Sys Sys_Tasks Muxx_Console Muxx_Startup Muxx_Types
begin

text \<open>
  MUXX is a small multitasking operating system for the PDP-11, in C and assembly language. This
  library models the kernel (\<open>src/kernel\<close>), its drivers (\<open>src/drivers\<close>), its start-up (\<open>src/sys\<close>), the
  user library (\<open>src/lib\<close>), the loading shell (\<open>src/shell\<close>) and the parts of the 2.11BSD C library
  (\<open>src/bsdlibc\<close>) that are pure computation, and proves what makes them correct, or what they do
  instead.

  \<^bold>\<open>How the program fits together.\<close> The kernel keeps its state in static tables (\<open>h/externals.h\<close>,
  \<open>kernel/muxx_static.c\<close>), here the record \<open>kstate\<close>: the task control table, three task queues, the
  memory control block table, the driver and the channel table, the mutexes, the processor and the
  memory management registers. A task enters the kernel by a trap, which the dispatcher
  (\<open>muxx_systrap_svc.c\<close>) turns into a call of a service, or by a clock interrupt. A service returns a
  code, or gives up the processor: the context of the task is saved in its control block, a queue
  operation puts the task into a queue and the next ready task is loaded. Creating a process takes a
  slot of the task table and chunks of the memory table and appends the task to the ready queue.
  Opening a channel takes a channel entry, finds a driver and allocates its device, all under a mutex;
  reading and writing call the driver once per byte. The user library turns these services into
  numbered channels, waiting calls and the loader, with which the shell fills a new task.

  \<^bold>\<open>The model.\<close> A pointer into a static table is an index or \<open>None\<close>; a word is a \<open>u16\<close>, a byte a \<open>u8\<close>.
  A routine is a function to \<open>outcome\<close>: \<open>Ret\<close> a value and a state, or \<open>Stop\<close> with a reason and the
  state at that moment (a panic, a halt, an access to a null pointer or behind an array, a loop that
  does not end). The type of device states, the callbacks of the drivers, what a caller's buffer
  holds, how often the console transmitter is late and \<open>sbrk\<close> are parameters; the drivers of the
  repository and its \<open>sbrk\<close> are instances of them.

  The tables of the kernel, which lie in the first 24 KB of the physical memory, and the TUCBs, which lie in
  the memory of the tasks, are fields of the state and kept apart from the bytes in \<open>phys\<close>. So the
  theorems are about runs in which nothing else is written to these places. Where the code itself can
  write there this is said: C3 has it as a condition (\<open>spares_kernel\<close>; \<open>xcopy_reaches_kernel\<close> shows that
  \<open>xcopy\<close> gets there), and \<open>load\<close> stops when an image hits the TUCB (\<open>hits_tucb\<close>).

  \<^bold>\<open>Theories.\<close>
  \<^item> \<open>Muxx_Prelude\<close>: words, pointers, outcomes, the counting loop \<open>for_until\<close>, and the locale
    \<open>slot_table\<close> of the searches for a free table entry, interpreted for tasks, drivers, channels and
    file descriptors. \<open>Muxx_Defs\<close>: the constants and structures of \<open>src/h\<close>, the global state.
  \<^item> \<open>Muxx_Queues\<close> (\<open>muxx_taskqueues.c\<close>): linked queues refine lists (locale \<open>task_queue\<close>); what
    removing a task that is not first does to them.
  \<^item> \<open>Muxx_MMU\<close>, \<open>Muxx_Memory\<close> (\<open>muxx_memsvc.c\<close>): the chain of memory chunks and its invariant, the
    allocator as a bump allocator (locale \<open>bump_allocator\<close>), the address space of a new task.
  \<^item> \<open>Muxx_Tasks\<close> (\<open>muxx_tctinit.c\<close>, \<open>muxx_taskinit.c\<close>, \<open>muxx_task_svc.c\<close>, \<open>muxx_fakeproc.c\<close>): the
    task table. \<open>Muxx_Process\<close> (\<open>muxx_creprc.c\<close>): process creation and \<open>system_inv\<close>, the invariant over
    tasks, memory and scheduler.
  \<^item> \<open>Muxx_Sched\<close> (\<open>muxx_schedule.c\<close>, \<open>muxx_yield.c\<close>, \<open>muxx_clock_svc.c\<close>, \<open>muxx_switch.s\<close>,
    \<open>muxx_copytrapframe.s\<close>): \<open>sched_rep\<close> relates the state to a running task and two lists; the step
    relation \<open>sched_step\<close> and its invariant; round robin; a task comes back with the registers it had,
    but for R0 and R1 after a system call, whose trap frame holds zeros in their place (\<open>syscall_frame\<close>).
  \<^item> \<open>Muxx_Mutex\<close> (\<open>muxx_systrap_svc.c\<close>): the mutex service, mutual exclusion in the locale
    \<open>lock_service\<close>. \<open>Muxx_Syscall\<close>: the trap table and the dispatcher.
  \<^item> \<open>Muxx_Drivers\<close> (\<open>muxx_drvinit.c\<close>, \<open>muxx_drvctl.c\<close>, \<open>muxx_drvctl_a.s\<close>), \<open>Muxx_Channels\<close>
    (\<open>muxx_channels.c\<close>), \<open>Muxx_IO\<close> (\<open>muxx_readwrite_svc.c\<close>): registration, allocation, channels and
    transfers; the locales \<open>byte_writer\<close> and \<open>byte_reader\<close> are what transfers need of a driver, and
    \<open>Muxx_Devices\<close> (\<open>ptpdrv.s\<close>, \<open>lptdrv.s\<close>) shows that the paper tape and the printer give it.
  \<^item> \<open>Muxx_Xcopy\<close> (\<open>muxx_xcopy_svc.c\<close>, \<open>muxx_protmem_svc.c\<close>): copies between tasks through two
    windows, and page protection.
  \<^item> \<open>Muxx_Boot\<close>, \<open>Muxx_Startup\<close> (\<open>sys/sys.s\<close>, \<open>muxx_mmu.s\<close>, \<open>sys/init.s\<close>): the first memory map, the
    initialisation calls and the driver part of the INIT task. \<open>startup_state\<close>, the system they lead
    to from a memory filled with zeros, is the state of most witnesses. \<open>Sys_Tasks\<close> (\<open>src/sys\<close>, \<open>src/drivers/*hnd.c\<close>): INIT, STARTUP, the
    demonstration and driver tasks, whose endless loops run for a number of rounds.
  \<^item> \<open>Muxx_Types\<close>: \<open>state_ok\<close>, the shape of every table and the range of every index in it, and
    \<open>kernel_run\<close>, the inductive closure of start-up, system calls and clock ticks that write nothing into
    the kernel, which keeps it.
  \<^item> \<open>Muxx_Text\<close> (\<open>lib/itoo.s\<close>, \<open>itod.s\<close>, \<open>itoh.s\<close>), \<open>Muxx_Console\<close> (\<open>muxx_kconio.s\<close>, \<open>kprintf.c\<close>,
    \<open>muxx_dump*.c\<close>, \<open>muxx_panic.c\<close>, \<open>muxx_cputrap_svc.c\<close>): numbers as text, kernel output, the dumps,
    the panic, the exception handlers, and their entries (\<open>muxx_cputrap.s\<close>), which halt the machine first:
    the system is configured with \<open>MUXX_TRAPHALT\<close>.
  \<^item> \<open>Lib_Ctype\<close>, \<open>Lib_Stdio\<close>, \<open>Lib_Printf\<close>, \<open>Lib_Malloc\<close>, \<open>Lib_Sys\<close>: character classes, console
    output, \<open>printf\<close> with its assembly core \<open>doprnt.s\<close>, allocator, system call wrappers, loader and shell
    of the user library.
  \<^item> \<open>Lib_Qsort\<close>, \<open>Lib_String\<close>, \<open>Lib_Bytes\<close>, \<open>Lib_Number\<close>, \<open>Lib_Getopt\<close>, \<open>Lib_Random\<close>: sorting (locale
    \<open>comparison\<close>, interpreted on \<open>strcmp\<close>), strings, memory, numbers, options and random numbers of the C
    library. \<open>bcopy_moves_bytes\<close> shows that overlapping areas are copied right, \<open>random_pointers\<close> that
    the generator stays inside its state array.
  \<^item> \<open>Lib_Crypt\<close> (\<open>crypt.c\<close>): the Data Encryption Standard and passwords; the rounds are a Feistel
    network, \<open>crypt_result\<close> is the form of the result. \<open>Lib_Time\<close>, \<open>Lib_Zone\<close> (\<open>ctime.c\<close>, \<open>timezone.c\<close>): dates
    against the Gregorian calendar (\<open>offtime_correct\<close>), the time zone file read back from its image
    (\<open>tz_parse_image\<close>), the type of a moment. \<open>Lib_Strftime\<close> (\<open>strftime.c\<close>): a format shows its text if there is
    room (\<open>strftime_shows\<close>), and the same date as \<open>asctime\<close>. \<open>Lib_Regex\<close> (\<open>regex.c\<close>): compiler and matcher,
    correct for patterns without brackets with respect to the language of the pattern.

  \<^bold>\<open>Properties.\<close> Those below span components. C1 to C20 are what the system promises: isolation of
  processes, the scheduler's invariant and fairness, tables that stay in shape, mutual exclusion,
  creation, allocation, copies, channels, transfers, start-up, tables. C21 to C29 are what happens at its
  limits; several of these are not what the code means to do. C30 to C40 are about output, exceptions,
  the user library and the C library. Each property with hypotheses is followed by a witness.

  \<^bold>\<open>Loops and fuel.\<close> Loops over tables count down a list or a number. Scans of chains (\<open>mem_scan\<close>,
  \<open>q_walk\<close>) and loops that wait or search for a NUL are partial functions whose \<open>None\<close> is a loop that
  never ends; that they end, or do not, is proved. \<open>malloc\<close> and the shell's retry loop take fuel: for a
  \<open>malloc\<close> on the arena as it is in MUXX 5 rounds are proved to be enough.

  \<^bold>\<open>Not modelled.\<close> The instructions of the trap and interrupt entries that push and pop the registers (what
  the frame holds is modelled, and of the system call entry what stands between the check of the mode and
  the dispatcher; the final \<open>rtt\<close> or \<open>rti\<close>, which gives the caller its PSW and priority back, is not),
  the vectors and the clock registers, the busy-wait loops of drivers (only their outcome); the timers, which the kernel does not
  use; \<open>scanf\<close> and floating point output; the 2.11BSD code that rests on 2.11BSD system calls or is never
  linked (networking, user data base, data base files, directories, stdio); the tools and the
  simulator set-up.
\<close>

section \<open>The scheduler\<close>

text \<open>C2: The scheduler never loses or duplicates a task. From a state that represents a running task, a
  ready queue and a suspended queue, any sequence of scheduler steps (clock ticks, yields, suspensions
  of the running task or of the first ready task) ends in such a state, over the same tasks; suspended
  tasks stay suspended and nothing outside the scheduler's fields changes.\<close>

theorem sched_invariant:
  assumes "sched_step\<^sup>*\<^sup>* s s'" and "sched_rep s c rs ss"
  shows "\<exists>c' rs' ss'. sched_rep s' c' rs' ss' \<and>
    insert c' (set rs' \<union> set ss') = insert c (set rs \<union> set ss) \<and> set ss \<subseteq> set ss' \<and>
    unsched s' = unsched s"
  using assms by (rule sched_steps_ok)

theorem sched_invariant_witness:
  "\<exists>s'. muxx_svc_yield 0 (startup_state (quiet_devices [])) = Stop Switched s' \<and>
    (\<exists>c' rs' ss'. sched_rep s' c' rs' ss' \<and> insert c' (set rs' \<union> set ss') = {0, 1, 2})"
proof -
  let ?s = "startup_state (quiet_devices [])"
  obtain s' where y: "muxx_svc_yield 0 ?s = Stop Switched s'"
    using yield_spec [OF startup_sched] by blast
  then have "sched_step\<^sup>*\<^sup>* ?s s'" by (intro r_into_rtranclp sched_step.yields)
  from sched_invariant [OF this startup_sched] show ?thesis using y by auto
qed

text \<open>C7: A task that gives up the processor gets it back as it left it. It runs, and at some moment the
  clock preempts it or it yields; then the other tasks make any number of steps; when it is
  dispatched again, its general registers, PC, PSW and user stack pointer are those of that moment,
  except that R0 and R1 are zero after a yield (the frame of a system call holds zeros in their place), its
  kernel stack pointer stands at the PC and PSW of its trap frame, and the memory management
  registers are those it ran with when it yielded; a tick does not save them, and the task
  comes back with the map that was in its TCB.\<close>

theorem task_resumes_its_context:
  assumes "sched_rep s t rs ss"
    and "if preempted then muxx_clock_handler fp s = Stop Switched s1 else muxx_svc_yield fp s = Stop Switched s1"
    and "(step_off t)\<^sup>*\<^sup>* s1 s2" and "curtcb s2 \<noteq> Some t"
    and "sched_step s2 s3" and "curtcb s3 = Some t"
  shows "gpr (cpu s3) = (if preempted then gpr (cpu s) else (gpr (cpu s))[0 := 0, 1 := 0]) \<and>
    cs_pc (cpu s3) = cs_pc (cpu s) \<and> cs_psw (cpu s3) = cs_psw (cpu s) \<and>
    cs_usp (cpu s3) = cs_usp (cpu s) \<and> cs_ksp (cpu s3) = fp + 14 \<and>
    mmu s3 = (if preempted then mmuState (tct s ! t) else mmu s)"
proof -
  have "lets_go preempted fp s s1" using assms(2) by (simp add: lets_go_def)
  note c = lets_go_context [OF assms(1) this]
  have "t < MAX_TASKS" using assms(1) by (simp add: sched_rep_def)
  from resume_context [OF assms(3) c(1) this assms(4-6)] c(2) show ?thesis
    by (auto simp: saved_context_def syscall_frame_def)
qed

theorem task_resumes_its_context_witness:
  "\<exists>s1 s2 s3. muxx_svc_yield 0x0100 ((startup_state (quiet_devices []))
      \<lparr>cpu := zero_cpustate\<lparr>gpr := [1, 2, 3, 4, 5, 6], cs_pc := 0x2000\<rparr>\<rparr>) = Stop Switched s1 \<and>
    muxx_svc_yield 0x0200 s1 = Stop Switched s2 \<and> muxx_svc_yield 0x0300 s2 = Stop Switched s3 \<and>
    curtcb s3 = Some 0 \<and> gpr (cpu s3) = [0, 0, 3, 4, 5, 6] \<and> cs_pc (cpu s3) = 0x2000 \<and> mmu s3 = init_mmu"
proof -
  let ?s = "(startup_state (quiet_devices []))\<lparr>cpu := zero_cpustate\<lparr>gpr := [1, 2, 3, 4, 5, 6], cs_pc := 0x2000\<rparr>\<rparr>"
  have r: "sched_rep ?s 0 [1, 2] []" by (rule sched_rep_computes [OF startup_sched])
  obtain s1 where s1: "muxx_svc_yield 0x0100 ?s = Stop Switched s1" "sched_rep s1 1 [2, 0] []"
    using yield_spec [OF r] by fastforce
  obtain s2 where s2: "muxx_svc_yield 0x0200 s1 = Stop Switched s2" "sched_rep s2 2 [0, 1] []"
    using yield_spec [OF s1(2)] by fastforce
  obtain s3 where s3: "muxx_svc_yield 0x0300 s2 = Stop Switched s3" "sched_rep s3 0 [1, 2] []"
    using yield_spec [OF s2(2)] by fastforce
  have cur: "curtcb s1 = Some 1" "curtcb s2 = Some 2" "curtcb s3 = Some 0"
    using s1(2) s2(2) s3(2) by (simp_all add: sched_rep_def)
  have step: "sched_step s1 s2" "sched_step s2 s3" using s2(1) s3(1) by (auto intro: sched_step.yields)
  have off: "(step_off 0)\<^sup>*\<^sup>* s1 s2" using step(1) cur by (intro r_into_rtranclp) (simp add: step_off_def)
  have y: "if False then muxx_clock_handler 0x0100 ?s = Stop Switched s1
      else muxx_svc_yield 0x0100 ?s = Stop Switched s1"
    using s1(1) by simp
  from task_resumes_its_context [OF r y off _ step(2) cur(3)] cur(2)
  have "gpr (cpu s3) = [0, 0, 3, 4, 5, 6]" "cs_pc (cpu s3) = 0x2000" "mmu s3 = init_mmu"
    by (simp_all add: startup_fields)
  with s1(1) s2(1) s3(1) cur(3) show ?thesis by blast
qed

text \<open>C9: Yielding is round robin: when every running task computes for a while and then yields, after
  \<open>n\<close> yields the processor is with the task \<open>n\<close> places further in the initial order, cyclically.\<close>

theorem yields_are_round_robin:
  assumes "sched_order s xs ss"
  shows "curtcb (run_yields es s) = Some (xs ! (length es mod length xs))"
proof -
  have "sched_order (run_yields es s) (rotate (length es) xs) ss" using assms by (rule run_yields_rotate)
  then have "curtcb (run_yields es s) = Some (hd (rotate (length es) xs))" by (rule sched_order_current)
  with assms show ?thesis by (simp add: hd_rotate_conv_nth sched_order_def)
qed

theorem yields_are_round_robin_witness:
  "curtcb (run_yields (replicate 5 (0, zero_cpustate)) (startup_state (quiet_devices []))) = Some 2"
  using yields_are_round_robin [OF startup_order, of "replicate 5 (0, zero_cpustate)" "quiet_devices []"]
  by simp

text \<open>C8: The clock shares the processor: with a quantum of \<open>Q\<close> ticks, after \<open>n\<close> ticks the processor is
  with the task \<open>n div Q\<close> places further in the order, so every ready task runs within one round.\<close>

theorem ticks_are_round_robin:
  assumes "sched_order s xs ss" and "clkcountdown s = clkquantum s" and "clkquantum s \<noteq> 0"
  shows "curtcb (run_ticks es s) = Some (xs ! ((length es div unat (clkquantum s)) mod length xs))"
proof -
  have "0 < unat (clkquantum s)" using assms(3) by (simp add: unat_gt_0)
  then have "sched_order (run_ticks es s) (rotate ((0 + length es) div unat (clkquantum s)) xs) ss"
    using assms by (intro run_ticks_order [OF assms(1)]) simp_all
  then have "curtcb (run_ticks es s) = Some (hd (rotate (length es div unat (clkquantum s)) xs))"
    using sched_order_current by fastforce
  with assms show ?thesis by (simp add: hd_rotate_conv_nth sched_order_def)
qed

theorem ticks_are_round_robin_witness:
  "curtcb (run_ticks (replicate 13 (0, zero_cpustate)) (startup_state (quiet_devices []))) = Some 2"
  using ticks_are_round_robin [OF startup_order, of "quiet_devices []" "\<lambda>_. 0" "replicate 13 (0, zero_cpustate)"]
  by (simp add: startup_fields)

text \<open>C21: Suspending a task that is ready but not first in the ready queue breaks the ready queue,
  whatever tasks are suspended already: the service reports success, marks the task suspended and
  appends it to the suspended queue, yet the ready queue still reaches it, as its last task, while
  every task behind it can no longer be reached although the count includes them.\<close>

theorem suspend_breaks_ready_queue:
  assumes "sched_rep s c (xs @ t # ys) ss" and "xs \<noteq> []" and "may_suspend s c t"
  shows "\<exists>s'. muxx_svc_suspend fp (Some t) s = Ret EOK s' \<and>
    fwd_chain (tct s') (xs @ [t]) (head (readyq s')) \<and> status (tct s' ! t) = TSK_SUSP \<and>
    count (readyq s') = int (length (xs @ ys)) \<and> queue_of (tct s') (suspq s') (ss @ [t])"
  using assms by (rule suspend_later_spec)

theorem suspend_breaks_ready_queue_witness:
  "\<exists>s'. muxx_svc_suspend 0 (Some 2) (startup_state (quiet_devices [])) = Ret EOK s' \<and>
    fwd_chain (tct s') [1, 2] (head (readyq s')) \<and> status (tct s' ! 2) = TSK_SUSP \<and>
    queue_of (tct s') (suspq s') [2]"
proof -
  let ?s = "startup_state (quiet_devices [])"
  have "sched_rep ?s 0 ([1] @ 2 # []) []" using startup_sched by simp
  moreover have "may_suspend ?s 0 2" by (simp add: may_suspend_def startup_task)
  ultimately show ?thesis using suspend_breaks_ready_queue [of ?s 0 "[1]" 2 "[]" "[]" 0] by auto
qed

text \<open>There is no idle task: when the running task suspends itself and no other task is ready, the
  kernel follows a null pointer.\<close>

theorem suspend_last_task_crashes:
  assumes "sched_rep s c [] ss" and "task = None \<or> task = Some c"
  shows "\<exists>s'. muxx_svc_suspend fp task s = Stop (Fault NullDeref) s'"
  using assms by (rule suspend_last_spec)

theorem suspend_last_task_crashes_witness:
  "\<exists>s'. muxx_svc_suspend 0 None (muxx_boot 0 () (\<lambda>_. 0)) = Stop (Fault NullDeref) s'"
proof -
  have "sched_rep (muxx_boot 0 () (\<lambda>_. 0)) 0 [] []" using boot_system_inv [of 0 "()" "\<lambda>_. 0"] by (simp add: system_inv_def)
  then show ?thesis using suspend_last_task_crashes [of "muxx_boot 0 () (\<lambda>_. 0)" 0 "[]" None 0] by simp
qed

section \<open>Processes\<close>

text \<open>C5: Creating a process keeps the invariant of the whole system, gives the process an id that no
  task had before, appends it to the ready queue, builds its TCB and its memory map at the bottom of
  the free memory, and takes exactly the blocks its type needs.\<close>

theorem creprc_creates:
  assumes "system_inv k c rs ss s" and "k < MAX_TASKS" and "can_host type (mcbt s)"
  shows "\<exists>s'. muxx_svc_creprc name type entry privs s = Ret (uint (fresh_pid type s)) s' \<and>
    system_inv (Suc k) c (rs @ [k]) ss s' \<and> \<not> pid_given s (fresh_pid type s) \<and>
    map unlinked (tct s') = map unlinked ((tct s)[k :=
      born name (fresh_pid type s) type (pid (tct s ! c)) entry privs (free_base (mcbt s)) (tct s ! k)]) \<and>
    free_base (mcbt s') = free_base (mcbt s) + task_blocks type \<and>
    free_room (mcbt s') = free_room (mcbt s) - task_blocks type"
proof -
  have "tasks_inv k s" using assms(1) by (simp add: system_inv_def)
  then have "\<not> pid_given s (fresh_pid type s)" by (rule fresh_pid_props)
  with creprc_ok [OF assms] show ?thesis by blast
qed

theorem creprc_creates_witness:
  "\<exists>s'. muxx_svc_creprc ''TASKA   '' USR_TASK 0x6000 0 (startup_state (quiet_devices [])) =
      Ret (uint (fresh_pid USR_TASK (startup_state (quiet_devices [])))) s' \<and>
    system_inv (Suc 3) 0 [1, 2, 3] [] s'"
proof -
  let ?s = "startup_state (quiet_devices [])"
  have "can_host USR_TASK (mcbt ?s)"
    by (simp add: can_host_def check_tasktype_def task_blocks_def task_entries_def private_pages_def startup_room)
  from creprc_creates [OF startup_inv _ this, of "''TASKA   ''" "0x6000" 0] show ?thesis by auto
qed

text \<open>C6: Creating a process that loads a program: besides what the creation does, the name of the file
  is copied from the caller's space to the start of the new task's own memory, at \<open>TASK_BASE\<close>, where
  the loading shell, which is the entry point of the task, looks for it; no other byte of the physical
  memory changes.\<close>

theorem loadprc_creates:
  assumes "system_inv k c rs ss s" and "k < MAX_TASKS" and "can_host type (mcbt s)"
    and "uic (tct s ! c) = 0 \<or> operprv (tct s ! c)" and "ipl s AND 7 = ipl s" and "len \<noteq> 0"
    and "upar (mmuState (tct s ! c)) ! page_of file = spar" and "unat spar + 128 \<le> 3968"
    and "free_base (mcbt s) + 128 \<le> 3968" and "unat (file AND 0x1FFF) + unat len \<le> 8192"
    and "length (kpar (mmu s)) = 8" and "length (kpdr (mmu s)) = 8"
    and "a = unat spar * 64 + unat (file AND 0x1FFF)" and "b = free_base (mcbt s) * 64"
    and "b \<le> a \<or> a + unat len \<le> b"
  shows "\<exists>s'. muxx_svc_loadprc shellproc name type file len privs s = Ret (uint (fresh_pid type s)) s' \<and>
    system_inv (Suc k) c (rs @ [k]) ss s' \<and>
    phys s' = (\<lambda>x. if b \<le> x \<and> x < b + unat len then phys s (a + (x - b)) else phys s x) \<and>
    upar (mmuState (tct s' ! k)) ! page_of TASK_BASE = of_nat (free_base (mcbt s)) \<and>
    cs_pc (cpuState (tct s' ! k)) = shellproc \<and> taskname (tct s' ! k) = take 8 name"
proof -
  from loadprc_ok [OF assms] obtain s' where s': "muxx_svc_loadprc shellproc name type file len privs s =
      Ret (uint (fresh_pid type s)) s'" "system_inv (Suc k) c (rs @ [k]) ss s'"
    "phys s' = phys_copied (unat len) b a (phys s)" "map unlinked (tct s') = map unlinked ((tct s)[k :=
      born name (fresh_pid type s) type (pid (tct s ! c)) shellproc privs (free_base (mcbt s)) (tct s ! k)])"
    by blast
  have "k < length (tct s)"
    using assms(1,2) by (auto simp: system_inv_def sched_rep_def ready_rep_def)
  then show ?thesis
    using s'(1-3) unlinked_nth [OF s'(4), of k]
    by (auto simp: phys_copied_def task_base_page born_page_3 born_entry)
qed

theorem loadprc_creates_witness:
  "\<exists>s'. muxx_svc_loadprc 0x1234 ''TASKA   '' USR_TASK 0x0010 2 0 (startup_state (quiet_devices [])) =
      Ret (uint (fresh_pid USR_TASK (startup_state (quiet_devices [])))) s' \<and>
    system_inv (Suc 3) 0 [1, 2, 3] [] s' \<and> cs_pc (cpuState (tct s' ! 3)) = 0x1234"
proof -
  let ?s = "startup_state (quiet_devices [])"
  have "can_host USR_TASK (mcbt ?s)"
    by (simp add: can_host_def check_tasktype_def task_blocks_def task_entries_def private_pages_def startup_room)
  moreover have "upar (mmuState (tct ?s ! 0)) ! page_of 0x0010 = 0" "unat (0x0010 AND 0x1FFF :: u16) = 16"
    by (simp_all add: page_of_def init_mmu_def startup_fields)
  ultimately have "\<exists>s'. muxx_svc_loadprc 0x1234 ''TASKA   '' USR_TASK 0x0010 2 0 ?s =
      Ret (uint (fresh_pid USR_TASK ?s)) s' \<and> system_inv (Suc 3) 0 ([1, 2] @ [3]) [] s' \<and>
      phys s' = (\<lambda>x. if 57344 \<le> x \<and> x < 57344 + unat (2 :: u16) then phys ?s (16 + (x - 57344)) else phys ?s x) \<and>
      upar (mmuState (tct s' ! 3)) ! page_of TASK_BASE = of_nat (free_base (mcbt ?s)) \<and>
      cs_pc (cpuState (tct s' ! 3)) = 0x1234 \<and> taskname (tct s' ! 3) = take 8 ''TASKA   ''"
    by (intro loadprc_creates [where spar = 0, OF startup_inv])
      (simp_all add: startup_task startup_fields init_mmu_def)
  then show ?thesis by auto
qed

text \<open>C1: Memory isolation: when unprivileged processes are created one after the other, no two of them
  can write to the same block of physical memory.\<close>

theorem processes_are_isolated:
  assumes "system_inv k c rs ss s" and "k + length ps \<le> MAX_TASKS" and "448 \<le> free_base (mcbt s)"
    and "\<forall>p \<in> set ps. check_tasktype (spec_type p) \<and> unprivileged p"
    and "specs_blocks ps \<le> free_room (mcbt s)" and "specs_entries ps \<le> free_mcbs (mcbt s)"
    and "i < j" and "j < length ps"
  shows "\<exists>pids s'. create_procs ps s = Ret pids s' \<and>
    writable_blocks (tct s' ! (k + i)) \<inter> writable_blocks (tct s' ! (k + j)) = {}"
  using assms by (rule create_procs_disjoint)

theorem processes_are_isolated_witness:
  "\<exists>pids s'. create_procs [(''TASKA   '', USR_TASK, 0x6000, 0), (''TASKD   '', USR_TASK OR TSZ_BIG, 0x6000, 0)]
      (startup_state (quiet_devices [])) = Ret pids s' \<and>
    writable_blocks (tct s' ! 3) \<inter> writable_blocks (tct s' ! 4) = {}"
proof -
  let ?s = "startup_state (quiet_devices [])"
  let ?ps = "[(''TASKA   '', USR_TASK, 0x6000, 0), (''TASKD   '', USR_TASK OR TSZ_BIG, 0x6000, 0)]"
  have a: "\<forall>p \<in> set ?ps. check_tasktype (spec_type p) \<and> unprivileged p"
    by (simp add: check_tasktype_def)
  have b: "specs_blocks ?ps \<le> free_room (mcbt ?s)" "specs_entries ?ps \<le> free_mcbs (mcbt ?s)"
    by (simp_all add: task_blocks_def task_entries_def private_pages_def startup_room)
  have c: "3 + length ?ps \<le> MAX_TASKS" "448 \<le> free_base (mcbt ?s)" by (simp_all add: startup_fields)
  have "(0 :: nat) < 1" "1 < length ?ps" by simp_all
  from processes_are_isolated [OF startup_inv c a b this] show ?thesis by simp
qed

text \<open>C20: The task table is a table of 15 tasks besides INIT and never reuses an entry: from the initial
  table, 15 creations of any types fill it, with all slots in order, and the next one is a panic (the
  error code \<open>EMAXTASK\<close> is never returned, since \<open>curtasks\<close> is never counted up).\<close>

theorem task_table_fills_up:
  assumes "length specs = 15"
  shows "\<exists>s' s''. create_all specs (start_state init_entry d M) = Ret (map int [1..<16]) s' \<and>
    tasks_inv MAX_TASKS s' \<and>
    muxx_taskinit type parent entry privs s' = Stop (Panic ''TCT full'') s''"
proof -
  obtain s' where "create_all specs (start_state init_entry d M) = Ret (map int [1..<1 + length specs]) s'"
      "tasks_inv (1 + length specs) s'"
    using create_all_fills [OF start_tasks_inv, of specs init_entry d M] assms by auto
  with assms taskinit_full [of s'] show ?thesis by auto
qed

theorem task_table_fills_up_witness:
  "\<exists>s' s''. create_all (replicate 15 (USR_TASK, 1, 0x6000, 0)) (start_state 0 () (\<lambda>_. 0)) = Ret (map int [1..<16]) s' \<and>
    muxx_taskinit SYS_TASK 1 0x6000 0 s' = Stop (Panic ''TCT full'') s''"
  using task_table_fills_up [of "replicate 15 (USR_TASK, 1, 0x6000, 0)" 0 "()" "\<lambda>_. 0" SYS_TASK 1 "0x6000" 0] by auto

text \<open>C26: A creation that fails leaks its task table entry: every request with an unknown task type
  returns -1 and uses up a slot, and once the table is used up this way the next request, however
  valid, is a panic.\<close>

theorem failed_creations_exhaust_tasks:
  assumes "system_inv k c rs ss s" and "k + n = MAX_TASKS" and "\<not> check_tasktype bad"
  shows "\<exists>s' s''. repeat_n n (muxx_svc_creprc name bad entry privs) s = Ret (replicate n (- 1)) s' \<and>
    muxx_svc_creprc name2 type entry2 privs2 s' = Stop (Panic ''TCT full'') s''"
proof -
  from creprc_bad_types [OF assms(1) _ assms(3), of n name entry privs] assms(2) obtain s' where
    "repeat_n n (muxx_svc_creprc name bad entry privs) s = Ret (replicate n (- 1)) s'"
    "system_inv MAX_TASKS c rs ss s'" by auto
  with creprc_full show ?thesis by blast
qed

theorem failed_creations_exhaust_tasks_witness:
  "\<exists>s' s''. repeat_n 13 (muxx_svc_creprc ''X       '' 7 0 0) (startup_state (quiet_devices [])) =
      Ret (replicate 13 (- 1)) s' \<and>
    muxx_svc_creprc ''TASKA   '' USR_TASK 0x6000 0 s' = Stop (Panic ''TCT full'') s''"
  using failed_creations_exhaust_tasks [OF startup_inv, of 13 7] by (simp add: check_tasktype_def)

text \<open>C22: Memory exhaustion hangs the kernel: once some memory was handed out, a creation that needs more
  blocks than are left never returns, instead of failing with \<open>ENOMEM\<close>.\<close>

theorem creprc_without_memory_hangs:
  assumes "system_inv k c rs ss s" and "k < MAX_TASKS" and "mem_used (mcbt s)" and "check_tasktype type"
    and "task_entries type \<le> free_mcbs (mcbt s)" and "free_room (mcbt s) < task_blocks type"
  shows "\<exists>s'. muxx_svc_creprc name type entry privs s = Stop Diverges s'"
  using assms by (rule creprc_starved)

theorem creprc_without_memory_hangs_witness:
  "\<exists>pids s s'. create_procs (replicate 7 (''TASKD   '', USR_TASK OR TSZ_BIG, 0x6000, 0))
      (startup_state (quiet_devices [])) = Ret pids s \<and>
    muxx_svc_creprc ''TASKA   '' USR_TASK 0x6000 0 s = Stop Diverges s'"
proof -
  let ?s = "startup_state (quiet_devices [])"
  let ?ps = "replicate 7 (''TASKD   '', USR_TASK OR TSZ_BIG, 0x6000, 0)"
  have big: "task_blocks 17 = 448" "task_entries 17 = 4" "check_tasktype 17"
    "task_blocks 1 = 192" "task_entries 1 = 2" "check_tasktype 1"
    by (simp_all add: task_blocks_def task_entries_def private_pages_def check_tasktype_def)
  have ps: "specs_blocks ?ps = 3136" "specs_entries ?ps = 28" "length ?ps = 7"
    by (simp_all add: specs_blocks_def specs_entries_def big sum_list_replicate)
  have pre: "3 + length ?ps \<le> MAX_TASKS" "448 \<le> free_base (mcbt ?s)"
    "\<forall>p \<in> set ?ps. check_tasktype (spec_type p)" "specs_blocks ?ps \<le> free_room (mcbt ?s)"
    "specs_entries ?ps \<le> free_mcbs (mcbt ?s)"
    unfolding ps by (simp_all add: startup_fields startup_room big)
  from create_procs_spec [OF startup_inv pre] obtain pids s where
    s: "create_procs ?ps ?s = Ret pids s" "system_inv (3 + length ?ps) 0 ([1, 2] @ [3..<3 + length ?ps]) [] s"
      "free_room (mcbt s) = 3200 - 3136" "free_mcbs (mcbt s) = 116 - 28" "mem_used (mcbt s)"
    unfolding ps by (auto simp: startup_room)
  have "\<exists>s'. muxx_svc_creprc ''TASKA   '' USR_TASK 0x6000 0 s = Stop Diverges s'"
    by (rule creprc_without_memory_hangs [OF s(2)]) (simp_all add: s(3-5) big)
  with s(1) show ?thesis by blast
qed





section \<open>Memory\<close>

text \<open>C10: The memory allocator hands out disjoint memory: \<open>k\<close> requests in a row that fit are all served,
  from distinct table entries, with chunks of the requested size that overlap neither each other nor
  any chunk in use before, and which record their owner.\<close>

theorem allocations_are_disjoint:
  assumes "mem_inv t" and "good_owner w" and "n \<le> 128" and "k * unat n \<le> free_room t"
    and "k \<le> free_mcbs t" and "i < k" and "j < k" and "i \<noteq> j" and "u \<in> used_mcbs (mmcbs t)"
  shows "\<exists>bs t'. repeat_n k (muxx_mem_getblock w n fl p) t = Ret (map Some bs) t' \<and> length bs = k \<and>
    mem_inv t' \<and> bs ! i \<noteq> bs ! j \<and> disjoint_blocks (mmcbs t' ! (bs ! i)) (mmcbs t' ! (bs ! j)) \<and>
    disjoint_blocks (mmcbs t' ! (bs ! i)) (mmcbs t' ! u) \<and> same_chunk (mmcbs t' ! u) (mmcbs t ! u) \<and>
    blockSize (mmcbs t' ! (bs ! i)) = n \<and> ownerPID (mmcbs t' ! (bs ! i)) = pid w"
proof -
  from getblock_run [OF assms(1-5), of fl p] obtain bs t' where
    r: "repeat_n k (muxx_mem_getblock w n fl p) t = Ret (map Some bs) t'" "length bs = k"
      "run_of_blocks t w n bs t'" by blast
  have d: "bs ! i \<noteq> bs ! j" using r(2,3) assms(6-8) by (simp add: run_of_blocks_def nth_eq_iff_index_eq)
  have m: "bs ! i \<in> set bs" "bs ! j \<in> set bs" using r(2) assms(6,7) by simp_all
  have "bs ! i \<noteq> u" using m(1) assms(9) r(3) by (auto simp: run_of_blocks_def)
  with d m r(3) assms(9) have
    "disjoint_blocks (mmcbs t' ! (bs ! i)) (mmcbs t' ! (bs ! j))"
    "disjoint_blocks (mmcbs t' ! (bs ! i)) (mmcbs t' ! u)"
    by (simp_all add: run_of_blocks_def mem_inv_def)
  with r d assms(6,9) show ?thesis
    by (intro exI [of _ bs] exI [of _ t']) (simp add: run_of_blocks_def)
qed

theorem allocations_are_disjoint_witness:
  "\<exists>bs t'. repeat_n 3 (muxx_mem_getblock (zero_tcb\<lparr>pid := 2\<rparr>) 128 0 3) (muxx_mem_init zero_mmcbt) = Ret (map Some bs) t' \<and>
    disjoint_blocks (mmcbs t' ! (bs ! 0)) (mmcbs t' ! (bs ! 2))"
proof -
  have "good_owner (zero_tcb\<lparr>pid := 2\<rparr>)" by (simp add: good_owner_def)
  moreover have "(3 :: nat) * unat (128 :: u16) \<le> free_room (muxx_mem_init zero_mmcbt)"
    "3 \<le> free_mcbs (muxx_mem_init zero_mmcbt)" by (simp_all add: mem_init_free)
  moreover have "3 \<in> used_mcbs (mmcbs (muxx_mem_init zero_mmcbt))" by (simp add: used_mcbs_init)
  ultimately show ?thesis
    using allocations_are_disjoint [OF mem_init_inv [of zero_mmcbt], of "zero_tcb\<lparr>pid := 2\<rparr>" 128 3 0 2 3 0 3] by auto
qed

text \<open>C23: The free memory reaches into the I/O page: the chunk of free memory is 8 KB too long, and the
  28th request for 8 KB after initialisation is served with blocks of the I/O page, although the
  table says that these blocks belong to the system.\<close>

theorem allocation_overlaps_io_page:
  assumes "good_owner w"
  shows "\<exists>bs t'. repeat_n 28 (muxx_mem_getblock w 128 fl p) (muxx_mem_init t) = Ret (map Some bs) t' \<and>
    \<not> disjoint_blocks (mmcbs t' ! (bs ! 27)) (mmcbs t' ! 5) \<and>
    ownerPID (mmcbs t' ! (bs ! 27)) = pid w \<and> ownerPID (mmcbs t' ! 5) = 1 \<and>
    blockAddr (mmcbs t' ! 5) = 0xF80"
proof -
  have "28 * unat (128 :: u16) \<le> free_room (muxx_mem_init t)" "28 \<le> free_mcbs (muxx_mem_init t)"
    by (simp_all add: mem_init_free)
  from getblock_run [OF mem_init_inv assms _ this, of fl p] obtain bs t' where
    r: "repeat_n 28 (muxx_mem_getblock w 128 fl p) (muxx_mem_init t) = Ret (map Some bs) t'" "length bs = 28"
      "run_of_blocks (muxx_mem_init t) w 128 bs t'" by auto
  have "same_chunk (mmcbs t' ! 5) (mmcbs (muxx_mem_init t) ! 5)"
    using r(3) by (simp add: run_of_blocks_def)
  then have io: "blockAddr (mmcbs t' ! 5) = 0xF80" "blockSize (mmcbs t' ! 5) = 0x80" "ownerPID (mmcbs t' ! 5) = 1"
    by (simp_all add: same_chunk_def mem_init_nth mem_chunk_def)
  have "blockAddr (mmcbs t' ! (bs ! 27)) = of_nat (448 + 27 * 128)" "blockSize (mmcbs t' ! (bs ! 27)) = 128"
    "ownerPID (mmcbs t' ! (bs ! 27)) = pid w"
    using r(2,3) by (simp_all add: run_of_blocks_def mem_init_free)
  then have "\<not> disjoint_blocks (mmcbs t' ! (bs ! 27)) (mmcbs t' ! 5)" "ownerPID (mmcbs t' ! (bs ! 27)) = pid w"
    using io by (simp_all add: disjoint_blocks_def block_end_def)
  with r(1) io show ?thesis by blast
qed

theorem allocation_overlaps_io_page_witness:
  "\<exists>bs t'. repeat_n 28 (muxx_mem_getblock (zero_tcb\<lparr>pid := 2\<rparr>) 128 0 3) (muxx_mem_init zero_mmcbt) = Ret (map Some bs) t' \<and>
    \<not> disjoint_blocks (mmcbs t' ! (bs ! 27)) (mmcbs t' ! 5)"
  using allocation_overlaps_io_page [of "zero_tcb\<lparr>pid := 2\<rparr>" 0 3 zero_mmcbt] by (auto simp: good_owner_def)

text \<open>The address space of a new task: with enough memory, \<open>muxx_setup_taskmem\<close> succeeds, keeps the
  memory invariant, and enters in the user page registers exactly the layout of \<open>image_upar\<close> and
  \<open>image_updr\<close>: three common kernel pages, the private pages, the stack, the I/O page by privilege,
  and for a driver the buffer in page 4.\<close>

theorem setup_taskmem_layout:
  assumes "mem_inv t" and "good_owner task" and "mmuState task = zero_mmustate"
    and "can_host (taskType task) t"
  shows "\<exists>task' t'. muxx_setup_taskmem (task, t) = Ret EOK (task', t') \<and> mem_inv t' \<and>
    upar (mmuState task') = image_upar task (free_base t) \<and> updr (mmuState task') = image_updr task \<and>
    no_mmu task' = no_mmu task \<and> free_base t' = free_base t + task_blocks (taskType task)"
proof -
  have "allocs t (task_blocks (taskType task)) (task_entries (taskType task))
      (muxx_setup_taskmem (task, t)) (task_image task (free_base t))"
    using assms by (intro setup_taskmem_allocs) (simp_all add: can_host_def)
  then obtain t' where "muxx_setup_taskmem (task, t) = Ret EOK (task_image task (free_base t), t')"
      "mem_inv t'" "free_base t' = free_base t + task_blocks (taskType task)"
    by (auto simp: allocs_def)
  with task_image_regs [OF assms(3), of "free_base t"] show ?thesis by auto
qed

theorem setup_taskmem_layout_witness:
  "\<exists>task' t'. muxx_setup_taskmem (zero_tcb\<lparr>pid := 2, taskType := USR_TASK\<rparr>, muxx_mem_init zero_mmcbt) = Ret EOK (task', t') \<and>
    upar (mmuState task') = [0, 0x80, 0x100, 0x1C0, 0, 0, 0x200, 0] \<and>
    updr (mmuState task') = [0x7F02, 0x7F02, 0x7F02, 0x7F06, 0, 0, 0x400E, 0]"
proof -
  let ?t = "zero_tcb\<lparr>pid := 2, taskType := USR_TASK\<rparr>"
  have "mmuState ?t = zero_mmustate" "good_owner ?t" by (simp_all add: zero_tcb_def good_owner_def)
  moreover have "can_host (taskType ?t) (muxx_mem_init zero_mmcbt)"
    by (simp add: can_host_def check_tasktype_def task_blocks_def task_entries_def private_pages_def mem_init_free)
  ultimately obtain task' t' where
    "muxx_setup_taskmem (?t, muxx_mem_init zero_mmcbt) = Ret EOK (task', t')"
    "upar (mmuState task') = image_upar ?t (free_base (muxx_mem_init zero_mmcbt))"
    "updr (mmuState task') = image_updr ?t"
    using setup_taskmem_layout [OF mem_init_inv [of zero_mmcbt], of ?t] by blast
  moreover have "image_upar ?t 448 = [0, 0x80, 0x100, 0x1C0, 0, 0, 0x200, 0]"
    "image_updr ?t = [0x7F02, 0x7F02, 0x7F02, 0x7F06, 0, 0, 0x400E, 0]"
    by (simp_all add: image_upar_def image_updr_def private_pages_def operprv_def ioprv_def auditprv_def zero_tcb_def)
  ultimately show ?thesis by (auto simp: mem_init_free)
qed

section \<open>Mutexes\<close>

text \<open>C4: Mutual exclusion: whatever requests the tasks of the system make on the mutexes, in any order,
  between two successful allocations of the same mutex its first holder has successfully
  deallocated it.\<close>

theorem mutexes_exclude:
  assumes "tasks_inv k s" and "length (mutexes s) = MUT_MUTEXES"
    and "\<forall>(m, rq) \<in> set ops. is_mutex m \<and> requester rq \<in> {pid (tct s ! i) | i. i < k}"
    and "run_lock_ops (mutex_request MUT_ALLOC) (mutex_request MUT_DEALLOC) ops s = Ret rs s'"
    and "i < j" and "j < length ops" and "ops ! i = (m, Acquire t)" and "rs ! i = EOK"
    and "ops ! j = (m, Acquire u)" and "rs ! j = EOK"
  shows "\<exists>l. i < l \<and> l < j \<and> ops ! l = (m, Release t) \<and> rs ! l = EOK"
  using mutex_lock.mutual_exclusion [OF tasks_inv_clients [OF assms(1,2)] assms(3-10)] .

theorem mutexes_exclude_witness:
  "\<exists>rs s'. run_lock_ops (mutex_request MUT_ALLOC) (mutex_request MUT_DEALLOC)
      [(1, Acquire 1), (1, Release 1), (1, Acquire 1)] (startup_state (quiet_devices [])) = Ret rs s' \<and>
    rs = [EOK, EOK, EOK] \<and> (\<exists>l. 0 < l \<and> l < 2 \<and>
      [(1, Acquire 1), (1, Release 1), (1, Acquire 1 :: u16 lock_op)] ! l = (1 :: u16, Release 1) \<and> rs ! l = EOK)"
proof -
  let ?s = "startup_state (quiet_devices [])" and ?T = "{pid (tct (startup_state (quiet_devices [])) ! i) | i. i < 3}"
  let ?ops = "[(1, Acquire 1), (1, Release 1), (1, Acquire 1)] :: (u16 \<times> u16 lock_op) list"
  have len: "length (mutexes ?s) = MUT_MUTEXES" by (simp add: startup_fields)
  have cl: "mutex_clients ?T ?s" by (rule tasks_inv_clients [OF startup_fields(10) len])
  have m: "is_mutex 1" by (simp add: is_mutex_def)
  have T: "(1 :: u16) \<in> ?T" using startup_fields(8) by force
  have h0: "mutex_holder 1 ?s = None" by (simp add: mutex_holder_def startup_fields Let_def)
  obtain s1 where s1: "mutex_request MUT_ALLOC 1 1 ?s = Ret EOK s1" "mutex_clients ?T s1" "mutex_holder 1 s1 = Some 1"
    using mutex_lock.acquire_free [OF m cl T h0] m by auto
  obtain s2 where s2: "mutex_request MUT_DEALLOC 1 1 s1 = Ret EOK s2" "mutex_clients ?T s2" "mutex_holder 1 s2 = None"
    using mutex_lock.release_own [OF m s1(2) T s1(3)] m by auto
  obtain s3 where s3: "mutex_request MUT_ALLOC 1 1 s2 = Ret EOK s3"
    using mutex_lock.acquire_free [OF m s2(2) T s2(3)] m by auto
  have run: "run_lock_ops (mutex_request MUT_ALLOC) (mutex_request MUT_DEALLOC) ?ops ?s = Ret [EOK, EOK, EOK] s3"
    using s1(1) s2(1) s3 by simp
  have ops: "\<forall>(m, rq) \<in> set ?ops. is_mutex m \<and> requester rq \<in> ?T" using m T by simp
  have "\<exists>l. 0 < l \<and> l < 2 \<and> ?ops ! l = (1, Release 1) \<and> [EOK, EOK, EOK] ! l = EOK"
    by (rule mutexes_exclude [OF startup_fields(10) len ops run]) simp_all
  with run show ?thesis by blast
qed

text \<open>C29: Misuse of the mutex service: number 16 passes the range check although there are 16 mutexes,
  and the service then reads outside the array; and a request for a mutex that somebody holds comes
  back from the service with the kernel still at priority level 7: only the successful branch restores
  the level the service found. (The rest of the system call then runs at level 7, until the \<open>rtt\<close> of
  the trap entry gives the caller its own PSW back.)\<close>

theorem mutex_misuse:
  assumes "length (mutexes s) = MUT_MUTEXES" and "op = MUT_READ \<or> op = MUT_ALLOC \<or> op = MUT_DEALLOC"
    and "unat m < MUT_MUTEXES" and "mutexes s ! unat m \<noteq> 0"
  shows "(\<exists>s'. muxx_svc_mutex 16 op s = Stop (Fault BufferOverrun) s') \<and>
    (\<exists>s'. muxx_svc_mutex m MUT_ALLOC s = Ret ELOCKED s' \<and> ipl s' = 7)"
proof
  show "\<exists>s'. muxx_svc_mutex 16 op s = Stop (Fault BufferOverrun) s'"
    using assms(1,2) by (auto simp: muxx_svc_mutex_def mutex_at_def setpl7_def)
  show "\<exists>s'. muxx_svc_mutex m MUT_ALLOC s = Ret ELOCKED s' \<and> ipl s' = 7"
    using mutex_locked [OF _ assms(3,4)] assms(1,3) by simp
qed

theorem mutex_misuse_witness:
  "(\<exists>s'. muxx_svc_mutex 16 MUT_READ ((startup_state (quiet_devices []))\<lparr>mutexes := replicate 16 2\<rparr>) =
      Stop (Fault BufferOverrun) s') \<and>
   (\<exists>s'. muxx_svc_mutex 3 MUT_ALLOC ((startup_state (quiet_devices []))\<lparr>mutexes := replicate 16 2\<rparr>) =
      Ret ELOCKED s' \<and> ipl s' = 7)"
  using mutex_misuse [of "(startup_state (quiet_devices []))\<lparr>mutexes := replicate 16 2\<rparr>" MUT_READ 3] by simp

section \<open>Drivers and channels\<close>

text \<open>Registering a driver: a privileged task gets the first free slot of the table; afterwards the
  driver is found under its name, its interrupt vectors are installed, and the table is consistent.\<close>

theorem registered_driver_is_found:
  assumes "drv_inv s" and "curtcb s = Some c" and "c < length (tct s)" and "operprv (tct s ! c)"
    and "find_free_drvcb (drvcbs (drvt s)) = Some i" and "muxx_find_driver name s = None"
    and "unat (numisr descriptor) \<le> length (isrtable descriptor)"
  shows "\<exists>s'. muxx_svc_drvreg name descriptor handler s = Ret EOK s' \<and> drv_inv s' \<and>
    muxx_find_driver name s' = Some i \<and> desc (drvcbs (drvt s') ! i) = Some descriptor \<and>
    (\<forall>j < MAX_DRV. j \<noteq> i \<longrightarrow> drvcbs (drvt s') ! j = drvcbs (drvt s) ! j) \<and>
    vecs s' = fold install_isr (take (unat (numisr descriptor)) (isrtable descriptor)) (vecs s)"
proof -
  have i: "i < MAX_DRV" using drv_slots.search_some [OF assms(5)] by simp
  let ?v = "fold install_isr (take (unat (numisr descriptor)) (isrtable descriptor)) (vecs s)"
  let ?s = "upd_drvcb i (registered name descriptor handler) s"
  have "muxx_find_driver name (?s\<lparr>vecs := ?v\<rparr>) = Some i"
    using registered_found [OF assms(1,5,6)] find_driver_cong [of "?s\<lparr>vecs := ?v\<rparr>" ?s] by simp
  moreover have "drv_inv (?s\<lparr>vecs := ?v\<rparr>)" using registered_inv [OF assms(1) i] by simp
  ultimately show ?thesis
    using drvreg_ok [OF assms(1-5,7), of name handler] i assms(1)
    by (intro exI [of _ "?s\<lparr>vecs := ?v\<rparr>"]) (auto simp: drv_inv_def registered_def)
qed

theorem registered_driver_is_found_witness:
  "\<exists>s'. muxx_svc_drvreg ''NULDRV  '' lptdesct 0 (startup_state (quiet_devices [])) = Ret EOK s' \<and>
    muxx_find_driver ''NULDRV  '' s' = Some 2"
proof -
  have "unat (numisr lptdesct) \<le> length (isrtable lptdesct)" by (simp add: lptdesct_def)
  from registered_driver_is_found [OF startup_fields(9) startup_task(1) _ startup_task(3) startup_free_slot this]
  show ?thesis using startup_task(2) by fastforce
qed

text \<open>Locating a device finds the first driver of the table whose device name agrees with the given
  name up to the length of the given name, blanks included; controller and unit are always 0. (The
  name is not trimmed and units are not read, since the trimming loop starts at the terminator.)\<close>

theorem locate_device_result:
  assumes "drv_inv s"
  shows "muxx_locate_dev devname io s =
    (case find (dev_matches (drvcbs (drvt s)) devname) [0..<MAX_DRV] of
       None \<Rightarrow> Ret (ENOTFOUND, io) s
     | Some i \<Rightarrow> Ret (EOK, io\<lparr>io_driver := Some i, io_controller := 0, io_unit := 0\<rparr>) s)"
  unfolding muxx_locate_dev_def using assms by (rule locate_pdev_spec)

theorem locate_device_result_witness:
  "muxx_locate_dev ''LP      '' zero_iote (startup_state (quiet_devices [])) =
    Ret (EOK, zero_iote\<lparr>io_driver := Some 1, io_controller := 0, io_unit := 0\<rparr>) (startup_state (quiet_devices []))"
  using locate_device_result [OF startup_fields(9), of "''LP      ''" zero_iote "quiet_devices []"]
    startup_devices(2) by (simp add: find_device_def)

text \<open>C27: Any task without operator privilege can take an allocated device away from its owner: its
  deallocation request succeeds and frees the device (only a privileged stranger is told \<open>ENOPRIV\<close>,
  and even then the device is freed).\<close>

theorem stranger_frees_device:
  assumes "mutex_ready MUT_DRV s" and "muxx_find_driver devnam s = Some i"
    and "df_alloc (drvcbs (drvt s) ! i)" and "curtcb s = Some c" and "ownerid (drvcbs (drvt s) ! i) \<noteq> Some c"
    and "length (drvcbs (drvt s)) = MAX_DRV"
  shows "\<exists>s'. muxx_svc_alloc devnam DRV_DEALLOC s = Ret (if operprv (tct s ! c) then ENOPRIV else EOK) s' \<and>
    drvcbs (drvt s') = (drvcbs (drvt s))[i := disown (drvcbs (drvt s) ! i)] \<and> \<not> df_alloc (drvcbs (drvt s') ! i)"
proof -
  have "i < MAX_DRV" using drv_names.search_some [OF assms(2)] by simp
  with assms show ?thesis
    using alloc_spec [OF assms(1,2), of DRV_DEALLOC] by (auto simp: claim_result_def disown_def)
qed

theorem stranger_frees_device_witness:
  "\<exists>s'. muxx_svc_alloc ''LPTDRV  '' DRV_DEALLOC
      (upd_drvcb 1 (own (Some 2)) ((startup_state (quiet_devices []))\<lparr>tct := replicate 16 (zero_tcb\<lparr>pid := 2\<rparr>)\<rparr>)) = Ret EOK s' \<and>
    \<not> df_alloc (drvcbs (drvt s') ! 1)"
proof -
  let ?d = "startup_state (quiet_devices [])"
  let ?s = "upd_drvcb 1 (own (Some 2)) (?d\<lparr>tct := replicate 16 (zero_tcb\<lparr>pid := 2\<rparr>)\<rparr>)"
  have len: "length (drvcbs (drvt ?d)) = MAX_DRV" using startup_fields(9) by (simp add: drv_inv_def)
  have "mutex_ready MUT_DRV ?s"
    by (simp add: mutex_ready_def startup_fields startup_task current_pid_def)
  moreover have "muxx_find_driver ''LPTDRV  '' ?s = Some 1"
  proof -
    have "muxx_find_driver ''LPTDRV  '' ?s = muxx_find_driver ''LPTDRV  '' ?d"
      by (rule find_driver_same) (auto simp: drv_used_def own_def nth_list_update len)
    then show ?thesis by (simp add: startup_devices)
  qed
  moreover have "df_alloc (drvcbs (drvt ?s) ! 1)" "ownerid (drvcbs (drvt ?s) ! 1) \<noteq> Some 0"
    "length (drvcbs (drvt ?s)) = MAX_DRV" using len by (simp_all add: own_def)
  moreover have "curtcb ?s = Some 0" "\<not> operprv (tct ?s ! 0)" by (simp_all add: startup_task operprv_def zero_tcb_def)
  ultimately show ?thesis using stranger_frees_device [of ?s "''LPTDRV  ''" 1 0] by auto
qed

text \<open>C12: Opening and closing a channel is a round trip: opening an active, unshared device that nobody
  has gives the first free channel, open and connected to the device, which the task then owns;
  closing that channel succeeds, frees the channel and the device, and leaves the system ready for
  the next open.\<close>

theorem open_close_round_trip:
  assumes "chan_ready s" and "find_iote_slot (iotes (chnt s)) = Some i"
    and "find_device device s = Some k" and "df_active (drvcbs (drvt s) ! k)"
    and "desc (drvcbs (drvt s) ! k) = Some dd" and "\<not> da_shareable dd" and "\<not> df_alloc (drvcbs (drvt s) ! k)"
    and "muxx_find_driver (drvname (drvcbs (drvt s) ! k)) s = Some k" and "io_buffaddr (iotes (chnt s) ! i) = 0"
  shows "\<exists>s1 s2. muxx_svc_open device flags s = Ret (Some i) s1 \<and>
    io_open (iotes (chnt s1) ! i) \<and> io_driver (iotes (chnt s1) ! i) = Some k \<and>
    df_alloc (drvcbs (drvt s1) ! k) \<and> ownerid (drvcbs (drvt s1) ! k) = curtcb s \<and>
    muxx_svc_close (Some i) s1 = Ret EOK s2 \<and> \<not> df_alloc (drvcbs (drvt s2) ! k) \<and>
    io_driver (iotes (chnt s2) ! i) = None \<and> chan_ready s2 \<and> mutexes s2 = mutexes s"
  using open_then_close [OF assms] by blast

theorem open_close_round_trip_witness:
  "\<exists>s1 s2. muxx_svc_open ''LP      '' 0 (startup_state (quiet_devices [])) = Ret (Some 0) s1 \<and>
    io_driver (iotes (chnt s1) ! 0) = Some 1 \<and> muxx_svc_close (Some 0) s1 = Ret EOK s2 \<and>
    io_driver (iotes (chnt s2) ! 0) = None"
proof -
  let ?s = "startup_state (quiet_devices [])"
  have d: "df_active (drvcbs (drvt ?s) ! 1)" "\<not> df_alloc (drvcbs (drvt ?s) ! 1)"
    "desc (drvcbs (drvt ?s) ! 1) = Some lptdesct" "drvname (drvcbs (drvt ?s) ! 1) = ''LPTDRV  ''"
    using startup_driver_fields [of 1] by simp_all
  have "\<not> da_shareable lptdesct" "io_buffaddr (iotes (chnt ?s) ! 0) = 0"
    "muxx_find_driver (drvname (drvcbs (drvt ?s) ! 1)) ?s = Some 1"
    using d(4) startup_devices(4) by (simp_all add: lptdesct_def startup_fields zero_iote_def)
  from open_close_round_trip [OF startup_chan_ready startup_chan startup_devices(2) d(1,3) this(1) d(2) this(3,2), of 0]
  show ?thesis by auto
qed

text \<open>C25: A failed open leaks its channel: with an empty table, 16 attempts to open a device whose driver
  is stopped all fail, and from then on every open of any device fails with \<open>ENOSYSRES\<close>.\<close>

theorem failed_opens_exhaust_channels:
  assumes "chan_ready s" and "find_device device s = Some k" and "\<not> df_active (drvcbs (drvt s) ! k)"
    and "\<forall>i < IOT_SENTRIES. io_driver (iotes (chnt s) ! i) = None"
  shows "\<exists>s'. repeat_n 16 (muxx_svc_open device flags) s = Ret (replicate 16 None) s' \<and>
    muxx_svc_open device2 flags2 s' = Ret None (set_errno ENOSYSRES s')"
proof -
  have "\<And>i. i < IOT_SENTRIES \<Longrightarrow> iote_used (iotes (chnt s)) i \<longleftrightarrow> i < 0"
    using assms(4) by (simp add: iote_used_def)
  from offline_leaks [OF assms(1-3) this, of 16 flags] obtain s' where
    s': "repeat_n 16 (muxx_svc_open device flags) s = Ret (replicate 16 None) s'" "chan_ready s'"
      "\<forall>i < IOT_SENTRIES. iote_used (iotes (chnt s')) i \<longleftrightarrow> i < 0 + 16" by auto
  have "find_iote_slot (iotes (chnt s')) = None" using s'(3) by (simp add: chan_slots.full_iff)
  then have "muxx_svc_open device2 flags2 s' = Ret None (set_errno ENOSYSRES s')"
    using open_failed_early [OF s'(2), of ENOSYSRES device2 flags2] by simp
  with s'(1) show ?thesis by blast
qed

theorem failed_opens_exhaust_channels_witness:
  "\<exists>s'. repeat_n 16 (muxx_svc_open ''PT      '' 0) (upd_drvcb 0 (\<lambda>d. d\<lparr>df_active := False\<rparr>) (startup_state (quiet_devices []))) =
      Ret (replicate 16 None) s' \<and>
    muxx_svc_open ''LP      '' 0 s' = Ret None (set_errno ENOSYSRES s')"
proof -
  let ?d = "startup_state (quiet_devices [])"
  let ?s = "upd_drvcb 0 (\<lambda>d. d\<lparr>df_active := False\<rparr>) ?d"
  have len: "length (drvcbs (drvt ?d)) = MAX_DRV" using startup_fields(9) by (simp add: drv_inv_def)
  have inv: "drv_inv ?s" using startup_fields(9) [of "quiet_devices []"]
    by (auto simp: drv_inv_def nth_list_update)
  have rdy: "chan_ready ?s" using startup_chan_ready [of "quiet_devices []"] inv
    by (simp add: chan_ready_def mutex_ready_def)
  have "find_device ''PT      '' ?s = find_device ''PT      '' ?d"
    unfolding find_device_def
    by (rule find_cong) (auto simp: dev_matches_def drv_used_def nth_list_update len)
  then have k: "find_device ''PT      '' ?s = Some 0" by (simp add: startup_devices)
  have "\<not> df_active (drvcbs (drvt ?s) ! 0)" using len by simp
  moreover have "\<forall>i < IOT_SENTRIES. io_driver (iotes (chnt ?s) ! i) = None"
    by (simp add: startup_fields zero_iote_def)
  ultimately show ?thesis using failed_opens_exhaust_channels [OF rdy k] by blast
qed

text \<open>C28: Contention for the channel table is fatal: a task that opens or closes a channel while another
  task holds the mutex \<open>MUT_CHAN\<close> brings the system down with a panic, instead of waiting.\<close>

theorem channel_contention_panics:
  assumes "curtcb s = Some c" and "c < length (tct s)" and "length (mutexes s) = MUT_MUTEXES"
    and "mutexes s ! 6 \<noteq> 0" and "ucast (mutexes s ! 6) \<noteq> pid (tct s ! c)"
  shows "(\<exists>s'. muxx_svc_open device flags s = Stop (Panic ''muxx_svc_open: dealloc mutex'') s') \<and>
    (\<exists>s'. muxx_svc_close io s = Stop (Panic ''muxx_svc_close: dealloc mutex'') s')"
  using chan_contended [OF assms] by blast

theorem channel_contention_panics_witness:
  "\<exists>s'. muxx_svc_open ''LP      '' 0 ((startup_state (quiet_devices []))\<lparr>mutexes := replicate 16 9\<rparr>) =
    Stop (Panic ''muxx_svc_open: dealloc mutex'') s'"
  using channel_contention_panics [of "(startup_state (quiet_devices []))\<lparr>mutexes := replicate 16 9\<rparr>" 0]
  by (simp add: startup_task startup_fields)

section \<open>Input and output\<close>

text \<open>C13: Writing to an open printer channel prints the buffer: the service returns the full length, the
  bytes appear on the paper in order after what was printed before, and \<open>errno\<close> is cleared.\<close>

theorem write_prints_buffer:
  assumes "i < length (iotes (chnt s))" and "io_open (iotes (chnt s) ! i)"
    and "io_driver (iotes (chnt s) ! i) = Some k" and "k < length (drvcbs (drvt s))"
    and "desc (drvcbs (drvt s) ! k) = Some lptdesct" and "\<not> printer_error (dev s)"
  shows "\<exists>d'. muxx_svc_write muxx_devices (Some i) (int n) buffer s =
      Ret (int n) (upd_iote i (\<lambda>io. io\<lparr>io_ioerror := False\<rparr>) (set_errno EOK (s\<lparr>dev := d'\<rparr>))) \<and>
    printed d' = printed (dev s) @ map buffer [0..<n] \<and> \<not> printer_error d'"
proof -
  have dd: "\<not> da_buffered lptdesct" "length (callbacks lptdesct) = 10" "callbacks lptdesct ! 5 = LPT_BASE + 5"
    by (simp_all add: lptdesct_def driver_table_nth)
  show ?thesis
    using printer.svc_write_all [OF assms(1) refl assms(2-5) dd assms(6)] by blast
qed

theorem write_prints_buffer_witness:
  "\<exists>s1 s2 d'. muxx_svc_open ''LP      '' 0 (startup_state (quiet_devices [])) = Ret (Some 0) s1 \<and>
    muxx_svc_write muxx_devices (Some 0) (int 3) (\<lambda>j. [65, 66, 67] ! j) s1 = Ret (int 3) s2 \<and>
    printed (dev s2) = [65, 66, 67]"
proof -
  obtain s1 where o: "muxx_svc_open ''LP      '' 0 (startup_state (quiet_devices [])) = Ret (Some 0) s1" and
    c: "channel_to 0 1 lptdesct s1" and dv: "dev s1 = quiet_devices []"
    using startup_open(2) [of 0 "quiet_devices []"] by blast
  have p: "\<not> printer_error (dev s1)" "printed (dev s1) = []" by (simp_all add: dv quiet_devices_def)
  obtain d' where w: "muxx_svc_write muxx_devices (Some 0) (int 3) (\<lambda>j. [65, 66, 67] ! j) s1 =
      Ret (int 3) (upd_iote 0 (\<lambda>io. io\<lparr>io_ioerror := False\<rparr>) (set_errno EOK (s1\<lparr>dev := d'\<rparr>)))"
    "printed d' = printed (dev s1) @ map (\<lambda>j. [65, 66, 67] ! j) [0..<3]"
    using write_prints_buffer [OF c [unfolded channel_to_def, THEN conjunct1]] c p(1)
    unfolding channel_to_def by blast
  have "dev (upd_iote 0 (\<lambda>io. io\<lparr>io_ioerror := False\<rparr>) (set_errno EOK (s1\<lparr>dev := d'\<rparr>))) = d'"
    by (simp add: set_errno_def split: option.split)
  moreover have "printed d' = [65, 66, 67]" using w(2) p(2) by (simp add: upt_conv_Cons)
  ultimately show ?thesis using o w(1) by metis
qed

text \<open>C14: Reading from an open paper tape channel delivers the tape: as many bytes as asked for are stored
  at the front of the buffer, the rest of the buffer is untouched, and the tape has moved on by exactly
  these bytes.\<close>

theorem read_delivers_tape:
  assumes "i < length (iotes (chnt s))" and "io_open (iotes (chnt s) ! i)"
    and "io_driver (iotes (chnt s) ! i) = Some k" and "k < length (drvcbs (drvt s))"
    and "desc (drvcbs (drvt s) ! k) = Some ptpdesct" and "\<not> reader_error (dev s)"
    and "tape_in (dev s) = bs @ rest"
  shows "\<exists>d'. muxx_svc_read muxx_devices (Some i) (int (length bs)) buffer s =
      Ret (int (length bs), \<lambda>j. if j < length bs then bs ! j else buffer j)
        (upd_iote i (\<lambda>io. io\<lparr>io_ioerror := False, io_eof := False\<rparr>) (set_errno EOK (s\<lparr>dev := d'\<rparr>))) \<and>
    tape_in d' = rest \<and> \<not> reader_error d'"
proof -
  have dd: "\<not> da_buffered ptpdesct" "length (callbacks ptpdesct) = 10" "callbacks ptpdesct ! 4 = PTP_BASE + 4"
    by (simp_all add: ptpdesct_def driver_table_nth)
  have "reader_input (dev s) = Some (bs @ rest)" using assms(6,7) by (simp add: reader_input_def)
  have input: "reader_input d' = Some rest \<longleftrightarrow> tape_in d' = rest \<and> \<not> reader_error d'" for d'
    by (auto simp: reader_input_def)
  from tape.svc_read_all [OF assms(1) refl assms(2-5) dd \<open>reader_input (dev s) = Some (bs @ rest)\<close>]
  show ?thesis unfolding input by blast
qed

theorem read_delivers_tape_witness:
  "\<exists>s1 s2. muxx_svc_open ''PT      '' 0 (startup_state (quiet_devices [72, 73, 74])) = Ret (Some 0) s1 \<and>
    muxx_svc_read muxx_devices (Some 0) (int 2) (\<lambda>_. 0) s1 = Ret (int 2, \<lambda>j. if j < 2 then [72, 73] ! j else 0) s2"
proof -
  obtain s1 where o: "muxx_svc_open ''PT      '' 0 (startup_state (quiet_devices [72, 73, 74])) = Ret (Some 0) s1" and
    c: "channel_to 0 0 ptpdesct s1" and dv: "dev s1 = quiet_devices [72, 73, 74]"
    using startup_open(1) [of 0 "quiet_devices [72, 73, 74]"] by blast
  have p: "\<not> reader_error (dev s1)" "tape_in (dev s1) = [72, 73] @ [74]" by (simp_all add: dv quiet_devices_def)
  have "\<exists>d'. muxx_svc_read muxx_devices (Some 0) (int (length [72 :: u8, 73])) (\<lambda>_. 0) s1 =
      Ret (int (length [72 :: u8, 73]), \<lambda>j. if j < length [72 :: u8, 73] then [72, 73] ! j else 0)
        (upd_iote 0 (\<lambda>io. io\<lparr>io_ioerror := False, io_eof := False\<rparr>) (set_errno EOK (s1\<lparr>dev := d'\<rparr>)))"
    using read_delivers_tape [OF c [unfolded channel_to_def, THEN conjunct1]] c p
    unfolding channel_to_def by blast
  with o show ?thesis by (auto simp: numeral_2_eq_2)
qed

text \<open>C25: Reading beyond the end of the tape stores the bytes there are, returns their number, and reports
  the end by the channel's EOF flag and \<open>errno\<close>.\<close>

theorem read_reports_end_of_tape:
  assumes "i < length (iotes (chnt s))" and "io_open (iotes (chnt s) ! i)"
    and "io_driver (iotes (chnt s) ! i) = Some k" and "k < length (drvcbs (drvt s))"
    and "desc (drvcbs (drvt s) ! k) = Some ptpdesct" and "\<not> reader_error (dev s)"
    and "length (tape_in (dev s)) < n"
  shows "\<exists>d'. muxx_svc_read muxx_devices (Some i) (int n) buffer s =
      Ret (int (length (tape_in (dev s))), \<lambda>j. if j < length (tape_in (dev s)) then tape_in (dev s) ! j else buffer j)
        (set_errno EEOF (upd_iote i (\<lambda>io. io\<lparr>io_eof := True, io_ioerror := False\<rparr>) (s\<lparr>dev := d'\<rparr>)))"
proof -
  have dd: "\<not> da_buffered ptpdesct" "length (callbacks ptpdesct) = 10" "callbacks ptpdesct ! 4 = PTP_BASE + 4"
    by (simp_all add: ptpdesct_def driver_table_nth)
  have "reader_input (dev s) = Some (tape_in (dev s))" using assms(6) by (simp add: reader_input_def)
  from tape.svc_read_eof [OF assms(1) refl assms(2-5) dd this assms(7)] show ?thesis .
qed

theorem read_reports_end_of_tape_witness:
  "\<exists>s1 s2 b. muxx_svc_open ''PT      '' 0 (startup_state (quiet_devices [72])) = Ret (Some 0) s1 \<and>
    muxx_svc_read muxx_devices (Some 0) (int 5) (\<lambda>_. 0) s1 = Ret (1, b) s2"
proof -
  obtain s1 where o: "muxx_svc_open ''PT      '' 0 (startup_state (quiet_devices [72])) = Ret (Some 0) s1" and
    c: "channel_to 0 0 ptpdesct s1" and dv: "dev s1 = quiet_devices [72]"
    using startup_open(1) [of 0 "quiet_devices [72]"] by blast
  have p: "\<not> reader_error (dev s1)" "tape_in (dev s1) = [72]" by (simp_all add: dv quiet_devices_def)
  have "length (tape_in (dev s1)) < 5" by (simp add: p)
  then have "\<exists>d'. muxx_svc_read muxx_devices (Some 0) (int 5) (\<lambda>_. 0) s1 =
      Ret (int (length (tape_in (dev s1))), \<lambda>j. if j < length (tape_in (dev s1)) then tape_in (dev s1) ! j else 0)
        (set_errno EEOF (upd_iote 0 (\<lambda>io. io\<lparr>io_eof := True, io_ioerror := False\<rparr>) (s1\<lparr>dev := d'\<rparr>)))"
    using read_reports_end_of_tape [OF c [unfolded channel_to_def, THEN conjunct1]] c p(1)
    unfolding channel_to_def by blast
  with o show ?thesis by (auto simp: p(2))
qed

section \<open>Copying between tasks and page protection\<close>

text \<open>C11: A copy that stays within one 8 KB page on both sides is right: the bytes of the destination
  become those of the source (as moved byte by byte upwards), every other byte of the physical
  memory, the page registers and the priority are unchanged.\<close>

theorem xcopy_within_pages:
  assumes "n \<noteq> 0" and "dstpid \<noteq> 0 \<or> srcpid \<noteq> 0"
    and "curtcb s = Some c" and "c < length (tct s)"
    and "task_ref srcpid s = Some src" and "src < length (tct s)"
    and "task_ref dstpid s = Some dst" and "dst < length (tct s)"
    and "may_copy s c src dst" and "ipl s AND 7 = ipl s"
    and "upar (mmuState (tct s ! src)) ! page_of srcaddr = spar" and "unat spar + 128 \<le> 3968"
    and "upar (mmuState (tct s ! dst)) ! page_of dstaddr = dpar" and "unat dpar + 128 \<le> 3968"
    and "unat (srcaddr AND 0x1FFF) + unat n \<le> 8192" and "unat (dstaddr AND 0x1FFF) + unat n \<le> 8192"
    and "length (kpar (mmu s)) = 8" and "length (kpdr (mmu s)) = 8"
    and "a = unat spar * 64 + unat (srcaddr AND 0x1FFF)" and "b = unat dpar * 64 + unat (dstaddr AND 0x1FFF)"
    and "b \<le> a \<or> a + unat n \<le> b"
  shows "muxx_svc_xcopy dstpid dstaddr srcpid srcaddr n s =
    Ret EOK (s\<lparr>phys := (\<lambda>x. if b \<le> x \<and> x < b + unat n then phys s (a + (x - b)) else phys s x)\<rparr>)"
  unfolding xcopy_within [OF assms(1-18)] assms(19,20) [symmetric]
  using fwd_copy_apply [OF assms(21)] by simp

theorem xcopy_within_pages_witness:
  "muxx_svc_xcopy 1 0x2000 0 0x0010 4 (startup_state (quiet_devices [])) =
    Ret EOK ((startup_state (quiet_devices []))\<lparr>phys := (\<lambda>x. if 8192 \<le> x \<and> x < 8192 + unat (4 :: u16)
      then phys (startup_state (quiet_devices [])) (16 + (x - 8192)) else phys (startup_state (quiet_devices [])) x)\<rparr>)"
proof -
  let ?s = "startup_state (quiet_devices [])"
  have t: "task_ref 0 ?s = Some 0" "task_ref 1 ?s = Some 0"
    using findtcb_unique [OF startup_fields(10), of 0] by (simp_all add: task_ref_def startup_task startup_fields)
  have p: "page_of 0x0010 = 0" "page_of 0x2000 = 1" by (simp_all add: page_of_def)
  have "may_copy ?s 0 0 0" by (simp add: may_copy_def)
  then show ?thesis
    by (intro xcopy_within_pages [where spar = 0 and dpar = "0x80" and c = 0 and src = 0 and dst = 0])
      (simp_all add: t p init_mmu_def startup_task startup_fields)
qed

text \<open>C24: A copy that runs over the end of a page on either side never completes: the loop moves the
  pointer to the page register instead of the register, and the kernel takes a memory fault at the
  latest when it restores the registers.\<close>

theorem xcopy_across_pages_faults:
  assumes "n \<noteq> 0" and "dstpid \<noteq> 0 \<or> srcpid \<noteq> 0"
    and "curtcb s = Some c" and "c < length (tct s)"
    and "task_ref srcpid s = Some src" and "src < length (tct s)"
    and "task_ref dstpid s = Some dst" and "dst < length (tct s)" and "may_copy s c src dst"
    and "unat (srcaddr AND 0x1FFF) + unat n > 8192 \<or> unat (dstaddr AND 0x1FFF) + unat n > 8192"
  shows "\<exists>f s'. muxx_svc_xcopy dstpid dstaddr srcpid srcaddr n s = Stop (Fault f) s'"
  using assms by (rule xcopy_crossing)

theorem xcopy_across_pages_faults_witness:
  "\<exists>f s'. muxx_svc_xcopy 1 0x3FFE 0 0x0010 4 (startup_state (quiet_devices [])) = Stop (Fault f) s'"
proof -
  let ?s = "startup_state (quiet_devices [])"
  have t: "task_ref 0 ?s = Some 0" "task_ref 1 ?s = Some 0"
    using findtcb_unique [OF startup_fields(10), of 0] by (simp_all add: task_ref_def startup_task startup_fields)
  have "may_copy ?s 0 0 0" by (simp add: may_copy_def)
  then show ?thesis
    by (intro xcopy_across_pages_faults [where c = 0 and src = 0 and dst = 0]) (simp_all add: t startup_task)
qed

text \<open>C19: Changing a page protection: a privileged task may do it, and any task for its own private
  pages; otherwise the answer is \<open>ENOPRIV\<close> and nothing changes. The descriptor in the TCB of the task
  named by the caller gets the requested access and keeps its length and direction; no other page
  and no other TCB changes, and the caller keeps the processor. The same descriptor goes into the
  user and the kernel register of the page, whose other registers stay. So the change of an own page
  is in force at once; but a privileged task that names another task runs on with that task's
  descriptor in its own register, while its own TCB still holds the right one.\<close>

theorem protmem_changes_access:
  assumes "curtcb s = Some c" and "c < length (tct s)"
    and "prot = PDR_ACC_RW \<or> prot = PDR_ACC_RO \<or> prot = PDR_ACC_NA" and "page \<le> 7"
    and "task_ref p s = Some t" and "t < length (tct s)" and "length (updr (mmuState (tct s ! t))) = 8"
  shows "if operprv (tct s ! c) \<or> (p = 0 \<or> p = pid (tct s ! c)) \<and> page > 2
    then \<exists>s' v. muxx_svc_protmem p page prot s = Ret EOK s' \<and> page_acf v = prot \<and>
      page_plf v = page_plf (updr (mmuState (tct s ! t)) ! unat page) \<and>
      page_down v = page_down (updr (mmuState (tct s ! t)) ! unat page) \<and>
      updr (mmuState (tct s' ! t)) = (updr (mmuState (tct s ! t)))[unat page := v] \<and>
      updr (mmu s') = (updr (mmu s))[unat page := v] \<and> kpdr (mmu s') = (kpdr (mmu s))[unat page := v] \<and>
      curtcb s' = Some c \<and> (\<forall>i. i \<noteq> t \<longrightarrow> tct s' ! i = tct s ! i)
    else muxx_svc_protmem p page prot s = Ret ENOPRIV s"
proof -
  let ?v = "(updr (mmuState (tct s ! t)) ! unat page AND 0xFFF8) OR prot"
  note spec = protmem_spec [OF assms(1-6) refl assms(7) refl]
  show ?thesis
  proof (cases "operprv (tct s ! c) \<or> (p = 0 \<or> p = pid (tct s ! c)) \<and> page > 2")
    case True
    let ?s = "(upd_tcb t (set_prot (unat page) prot) s)
         \<lparr>mmu := (mmu s)\<lparr>updr := (updr (mmu s))[unat page := ?v], kpdr := (kpdr (mmu s))[unat page := ?v]\<rparr>\<rparr>"
    have "muxx_svc_protmem p page prot s = Ret EOK ?s" using spec True by simp
    moreover have "updr (mmuState (tct ?s ! t)) = (updr (mmuState (tct s ! t)))[unat page := ?v]"
      using assms(6) by (simp add: set_prot_def Let_def)
    moreover have "updr (mmu ?s) = (updr (mmu s))[unat page := ?v]"
      "kpdr (mmu ?s) = (kpdr (mmu s))[unat page := ?v]" "curtcb ?s = Some c"
      "\<forall>i. i \<noteq> t \<longrightarrow> tct ?s ! i = tct s ! i"
      using assms(1) by (simp_all add: upd_tcb_def)
    ultimately show ?thesis
      unfolding if_P [OF True] using prot_bits [OF assms(3)] by (intro exI [of _ ?s] exI [of _ ?v]) simp
  next
    case False
    show ?thesis unfolding if_not_P [OF False] using spec by (simp only: if_not_P [OF False])
  qed
qed

text \<open>INIT changes a page of the paper tape handler.\<close>

theorem protmem_changes_access_witness:
  "\<exists>s' v. muxx_svc_protmem (pid (tct (startup_state (quiet_devices [])) ! 1)) 6 PDR_ACC_RO (startup_state (quiet_devices [])) = Ret EOK s' \<and>
    updr (mmu s') = (updr (mmu (startup_state (quiet_devices []))))[6 := v] \<and> page_acf v = PDR_ACC_RO \<and>
    tct s' ! 0 = tct (startup_state (quiet_devices [])) ! 0"
proof -
  let ?s = "startup_state (quiet_devices [])"
  have inv: "tasks_inv 3 ?s" by (rule startup_fields)
  then have "pid (tct ?s ! 1) \<noteq> 0" by (auto simp: tasks_inv_def slot_used_def)
  then have t: "task_ref (pid (tct ?s ! 1)) ?s = Some 1" using findtcb_unique [OF inv, of 1] by (simp add: task_ref_def)
  have l: "length (updr (mmuState (tct ?s ! 1))) = 8"
    using state_tcb_ok [OF startup_ok, of 1] by (simp add: tcb_ok_def mmu_ok_def)
  have z: "(0 :: nat) < length (tct ?s)" "1 < length (tct ?s)" by (simp_all add: startup_task)
  from protmem_changes_access [OF startup_task(1) z(1) _ _ t z(2) l, of PDR_ACC_RO 6] show ?thesis
    using startup_task(3) by auto
qed

section \<open>System calls, queues and start-up\<close>

text \<open>C29: The dispatcher: every number of the table without a service returns \<open>ENOIMPL\<close> and changes
  nothing; negative numbers and numbers above 160 are refused; but the numbers from 40 to 160 pass
  the range check (the table size is computed with the wrong divisor) and jump through memory
  behind the table.\<close>

theorem dispatcher_range:
  "(n \<in> set unimplemented \<longrightarrow> muxx_systrap_handler env uv n fp p1 p2 p3 p4 p5 s = Ret (RCode ENOIMPL) s) \<and>
   (n < 0 \<or> n > 160 \<longrightarrow> muxx_systrap_handler env uv n fp p1 p2 p3 p4 p5 s = Ret (RCode EINVVAL) s) \<and>
   (40 \<le> n \<and> n \<le> 160 \<longrightarrow> muxx_systrap_handler env uv n fp p1 p2 p3 p4 p5 s = Stop (Fault WildPointer) s)"
proof (intro conjI impI)
  assume "n \<in> set unimplemented"
  from unimplemented_entry [OF this] show "muxx_systrap_handler env uv n fp p1 p2 p3 p4 p5 s = Ret (RCode ENOIMPL) s"
    by (simp add: handler_in_table muxx_unimpl_def)
next
  assume "n < 0 \<or> n > 160"
  then show "muxx_systrap_handler env uv n fp p1 p2 p3 p4 p5 s = Ret (RCode EINVVAL) s"
    by (auto simp: muxx_systrap_handler_def trap_table_entries_val)
next
  assume "40 \<le> n \<and> n \<le> 160"
  then show "muxx_systrap_handler env uv n fp p1 p2 p3 p4 p5 s = Stop (Fault WildPointer) s"
    by (auto simp: muxx_systrap_handler_def trap_table_entries_val)
qed

theorem dispatcher_range_witness:
  "muxx_systrap_handler \<lparr>env_driver = muxx_devices, env_console = (\<lambda>c d. (0, d)), env_rshell = 0\<rparr>
     \<lparr>uv_name = (\<lambda>_. ''''), uv_strlen = (\<lambda>_. 0), uv_desc = (\<lambda>_. lptdesct), uv_task = (\<lambda>_. None),
      uv_iote = (\<lambda>_. None), uv_bytes = (\<lambda>_ _. 0)\<rparr> 40 0 0 0 0 0 0 (startup_state (quiet_devices [])) =
   Stop (Fault WildPointer) (startup_state (quiet_devices []))"
  by (rule dispatcher_range [THEN conjunct2, THEN conjunct2, rule_format]) simp

text \<open>C18: The task queues are FIFO: tasks added to an empty queue one after the other are taken out in
  the same order, the queue is empty again, and no field of any TCB but the queue links changes.\<close>

theorem queue_is_fifo:
  assumes "queue_of ts q []" and "set xs \<subseteq> {..<length ts}" and "distinct xs"
  shows "\<exists>qs q' ts'. add_all muxx_qAddTask xs (q, ts) = Ret () qs \<and>
    repeat_n (length xs) muxx_qGetTask qs = Ret (map Some xs) (q', ts') \<and> queue_of ts' q' [] \<and>
    map unlinked ts' = map unlinked ts"
proof -
  have "rep_queue (q, ts) []" using assms(1) by (simp add: rep_queue_def)
  from mq.fifo [OF this, of xs] assms(2,3) show ?thesis by (fastforce simp: rep_queue_def)
qed

theorem queue_is_fifo_witness:
  "\<exists>qs q' ts'. add_all muxx_qAddTask [4, 1, 3] (zero_tqueue, replicate 5 zero_tcb) = Ret () qs \<and>
    repeat_n 3 muxx_qGetTask qs = Ret [Some 4, Some 1, Some 3] (q', ts')"
proof -
  have "queue_of (replicate 5 zero_tcb) zero_tqueue []" by (simp add: zero_tqueue_def)
  from queue_is_fifo [OF this, of "[4, 1, 3]"] show ?thesis by (auto simp: numeral_3_eq_3)
qed

text \<open>Removing from a queue: a task that is not in the queue is reported as absent and nothing
  changes; the first task is removed as it should be; but removing a later task cuts the chain: the
  removed task stays reachable as the last one, the tasks behind it are lost, and the tail is a null
  pointer when the task was the last.\<close>

theorem queue_removal:
  assumes "queue_of ts q xs" and "t < length ts"
  shows "if t \<notin> set xs then muxx_qRemoveTask (Some t) (q, ts) = Ret None (q, ts)
    else if t = hd xs then \<exists>q' ts'. muxx_qRemoveTask (Some t) (q, ts) = Ret (Some t) (q', ts') \<and>
      queue_of ts' q' (tl xs) \<and> map unlinked ts' = map unlinked ts
    else \<exists>q' ts'. muxx_qRemoveTask (Some t) (q, ts) = Ret (Some t) (q', ts') \<and>
      fwd_chain ts' (takeWhile (\<lambda>x. x \<noteq> t) xs @ [t]) (head q') \<and> count q' = int (length xs) - 1 \<and>
      tail q' = (if t = last xs then None else tail q)"
proof (cases "t \<in> set xs")
  case False
  with qRemoveTask_absent [OF assms(1)] show ?thesis by simp
next
  case True
  then obtain ys zs where xs: "xs = ys @ t # zs" and ys: "t \<notin> set ys" by (meson split_list_first)
  have tw: "takeWhile (\<lambda>x. x \<noteq> t) xs = ys" using ys by (auto simp: xs takeWhile_eq_all_conv takeWhile_append)
  have cnt: "count q = int (length xs)" and dist: "distinct xs" using assms(1) by (simp_all add: queue_of_def)
  show ?thesis
  proof (cases "ys = []")
    case True
    with assms(1) xs have "queue_of ts q (t # zs)" by simp
    from qRemoveTask_first [OF this] True xs show ?thesis by auto
  next
    case False
    from assms(1) xs have "queue_of ts q (ys @ t # zs)" by simp
    from qRemoveTask_later [OF this False] obtain q' ts' where
      "muxx_qRemoveTask (Some t) (q, ts) = Ret (Some t) (q', ts')" "count q' = count q - 1"
      "tail q' = (if zs = [] then None else tail q)" "fwd_chain ts' (ys @ [t]) (head q')" by blast
    moreover have "t \<noteq> hd xs" "t = last xs \<longleftrightarrow> zs = []" using False xs ys dist by (cases ys; auto)+
    ultimately show ?thesis using True tw cnt by auto
  qed
qed

theorem queue_removal_witness:
  "\<exists>qs q' ts'. add_all muxx_qAddTask [4, 1, 3] (zero_tqueue, replicate 5 zero_tcb) = Ret () qs \<and>
    muxx_qRemoveTask (Some 1) qs = Ret (Some 1) (q', ts') \<and> fwd_chain ts' [4, 1] (head q')"
proof -
  have "rep_queue (zero_tqueue, replicate 5 zero_tcb) []" by (simp add: rep_queue_def zero_tqueue_def)
  from mq.add_all_spec [OF this, of "[4, 1, 3]"] obtain q ts where
    q: "add_all muxx_qAddTask [4, 1, 3] (zero_tqueue, replicate 5 zero_tcb) = Ret () (q, ts)"
      "queue_of ts q [4, 1, 3]" "length ts = 5"
    by (fastforce simp: rep_queue_def dest: arg_cong [of _ _ length] map_eq_imp_length_eq)
  have "1 < length ts" using q(3) by simp
  from queue_removal [OF q(2) this] show ?thesis using q(1) by auto
qed

text \<open>Start-up works: from the zero-filled tables, the initialisation sequence and then the driver part
  of INIT succeed and lead to a system that satisfies the invariant of tasks, memory and scheduler,
  in which INIT runs, the two driver tasks are ready in order, and both devices can be located.\<close>

theorem startup_brings_up_drivers:
  "\<exists>s'. init_drivers 0x6000 0x6000 (muxx_boot 0 d M) = Ret EOK s' \<and> system_inv 3 0 [1, 2] [] s' \<and>
     chan_ready s' \<and> find_device ''PT      '' s' = Some 0 \<and> find_device ''LP      '' s' = Some 1 \<and>
     (\<forall>i \<in> {0, 1}. df_active (drvcbs (drvt s') ! i))"
  using startup_result [of d M] startup_inv [of d M] startup_chan_ready [of d M] startup_devices(1,2) [of d M]
    startup_driver_fields(1) [of _ d] by blast

theorem startup_brings_up_drivers_witness:
  "\<exists>s'. init_drivers 0x6000 0x6000 (muxx_boot 0 (quiet_devices []) (\<lambda>_. 0)) = Ret EOK s' \<and> system_inv 3 0 [1, 2] [] s'"
  using startup_brings_up_drivers [of "quiet_devices []"] by blast

section \<open>Console\<close>

text \<open>C30: The texts the number conversions write have a fixed length and read back as the number:
  octal, signed decimal and hexadecimal words, and octal longwords, where from 2^31 on the sign
  the last shift has drawn in adds 2^32 to what the text says.\<close>

theorem number_texts_read_back:
  "length (itoo w) = 6 \<and> text_value 8 (itoo w) = unat w \<and>
   length (itods w) = 6 \<and> signed_text_value (itods w) = sint w \<and>
   length (itoh w) = 4 \<and> text_value 16 (itoh w) = unat w \<and>
   length (itool l) = 11 \<and> text_value 8 (itool l) = unat l + (if bit l 31 then 2 ^ 32 else 0)"
  by (simp add: itoo_length itoo_value itods_value itoh_value itool_length itool_value)

text \<open>C31: On a console that takes every character, \<open>kprintf\<close> prints the format with its conversions
  replaced and a carriage return put before every line feed. It returns the number of literal
  characters only: what it converts with any other conversion than a character is not counted.\<close>

theorem kprintf_prints:
  assumes "txline c = []" and "expand fmt args = Some t"
  shows "kprintf fmt args c = Ret (literals fmt) (c\<lparr>con_text := con_text c @ t\<rparr>)"
  using kprintf_ready [OF assms] by (simp add: shows_text_def)

theorem kprintf_prints_witness:
  "kprintf (''PID %o %d'' @ [NL]) [KWord 65, KWord (- 7)] \<lparr>con_text = ''>'', txline = []\<rparr> =
     Ret 7 \<lparr>con_text = ''>PID 000101 -00007'' @ [CR, NL], txline = []\<rparr>"
proof -
  have t: "expand (''PID %o %d'' @ [NL]) [KWord 65, KWord (- 7)] =
      Some (''PID '' @ itoo 65 @ '' '' @ itods (- 7) @ [CR, NL])"
    by simp
  have o: "itoo 65 = ''000101''" by code_simp
  have d: "itods (- 7) = ''-00007''" by code_simp
  have n: "literals (''PID %o %d'' @ [NL]) = 7" by simp
  show ?thesis using kprintf_prints [OF _ t, of "\<lparr>con_text = ''>'', txline = []\<rparr>"] o d n by simp
qed

text \<open>C32: A processor exception stops the machine at once, in silence: as the system is configured, the
  entry of every exception halts before it does anything else, at priority 7, with nothing saved or
  printed. When the operator continues the processor, the exception (one of the seven whose handlers
  only announce it) is announced and brings the system down: the interrupted context is saved in the current task's TCB, the exception and the
  panic message appear on the console and the machine halts for good, provided the stacks the
  report dumps are readable.\<close>

theorem exceptions_panic:
  assumes "(handler, text, msg) \<in> set (plain_handlers syms)"
    and "copytrapfp fp (cpu s) (s\<lparr>ipl := 7\<rparr>) = Ret () s'" and "dumpable s'" and "txline c = []"
  shows "(\<forall>any_handler. trap_entry False any_handler (s, c) = Stop Halted (s\<lparr>ipl := 7\<rparr>, c)) \<and>
    (\<exists>t. trap_entry True (handler fp) (s, c) = Stop (Panic msg) (s'\<lparr>ipl := 7\<rparr>,
      c\<lparr>con_text := con_text c @ [CR, NL] @ text @ [CR, NL] @ panic_head msg @ t\<rparr>))"
proof
  show "\<forall>any_handler. trap_entry False any_handler (s, c) = Stop Halted (s\<lparr>ipl := 7\<rparr>, c)" by (simp add: trap_entry_def)
  note h = plain_handler [OF assms(1), of fp]
  have prints: "prints_text (say ([NL] @ text @ [NL]) []) ([CR, NL] @ text @ [CR, NL])"
    using exception_text [of "text"] h by simp
  have "copytrapfp fp (cpu (s\<lparr>ipl := 7\<rparr>)) (s\<lparr>ipl := 7\<rparr>) = Ret () s'" "CHR 0x00 \<notin> set msg" using assms(2) h by simp_all
  from trapped_ready [OF this(1) assms(3,4) prints this(2), of syms]
  obtain t where "handler fp (s\<lparr>ipl := 7\<rparr>, c) = Stop (Panic msg) (s'\<lparr>ipl := 7\<rparr>,
      shows_text c (([CR, NL] @ text @ [CR, NL]) @ panic_head msg @ t))"
    using h by auto
  then show "\<exists>t. trap_entry True (handler fp) (s, c) = Stop (Panic msg) (s'\<lparr>ipl := 7\<rparr>,
      c\<lparr>con_text := con_text c @ [CR, NL] @ text @ [CR, NL] @ panic_head msg @ t\<rparr>)"
    by (intro exI [of _ t]) (simp add: shows_text_def trap_entry_def)
qed

text \<open>A kernel with one task whose kernel stack page holds the saved frame.\<close>

definition one_task :: "unit kstate" where
  "one_task = upd_tcb 0 (\<lambda>t. t\<lparr>taskname := ''INIT    '', pid := 1\<rparr>)
     ((boot_kstate () (\<lambda>_. 0))\<lparr>curtcb := Some 0, cpu := zero_cpustate\<lparr>cs_usp := 0xD0F0\<rparr>,
        mmu := zero_mmustate\<lparr>kpar := replicate 8 0x0380, kpdr := replicate 8 0x7F06\<rparr>\<rparr>)"

lemma one_task_readable:
  "even va \<Longrightarrow> mmu s = mmu one_task \<Longrightarrow> isl (kernel_word s (va :: u16))"
proof -
  assume va: "even va" and m: "mmu s = mmu one_task"
  have "mmu_translate page_readable (kpar (mmu s)) (kpdr (mmu s)) v \<noteq> None" for v
  proof -
    have page: "unat v div 8192 < 8"
      using unsigned_less [where 'a = nat, of v] by (intro less_mult_imp_div_less) simp
    have "unat v mod 8192 div 64 \<le> 127"
      using less_mult_imp_div_less [of "unat v mod 8192" 128 64] by simp
    moreover have "page_readable 0x7F06" "page_plf 0x7F06 = 127" "\<not> page_down 0x7F06"
      by (code_simp, code_simp, code_simp)
    ultimately show ?thesis
      using page by (simp add: mmu_translate_def m one_task_def upd_tcb_def block_in_page_def Let_def)
  qed
  then obtain lo hi where
    "mmu_translate page_readable (kpar (mmu s)) (kpdr (mmu s)) va = Some lo"
    "mmu_translate page_readable (kpar (mmu s)) (kpdr (mmu s)) (va + 1) = Some hi"
    by (meson not_None_eq)
  then show ?thesis using va by (simp add: kernel_word_def)
qed

theorem exceptions_panic_witness:
  "trap_entry False (muxx_handle_iot \<lparr>sym_tcb = \<lambda>_. 0, sym_mcb = \<lambda>_. 0\<rparr> 0xDFD0) (one_task, \<lparr>con_text = [], txline = []\<rparr>) =
     Stop Halted (one_task\<lparr>ipl := 7\<rparr>, \<lparr>con_text = [], txline = []\<rparr>) \<and>
   (\<exists>t. trap_entry True (muxx_handle_iot \<lparr>sym_tcb = \<lambda>_. 0, sym_mcb = \<lambda>_. 0\<rparr> 0xDFD0) (one_task, \<lparr>con_text = [], txline = []\<rparr>) =
     Stop (Panic ''IOT'') (final_state (copytrapfp 0xDFD0 (cpu one_task) one_task),
       \<lparr>con_text = [CR, NL] @ ''IOT    exception'' @ [CR, NL] @ panic_head ''IOT'' @ t, txline = []\<rparr>))"
proof -
  let ?s = "final_state (copytrapfp 0xDFD0 (cpu one_task) one_task)"
  have ipl: "one_task\<lparr>ipl := 7\<rparr> = one_task" "?s\<lparr>ipl := 7\<rparr> = ?s"
    by (simp_all add: copytrapfp_def one_task_def upd_tcb_def boot_kstate_def)
  have save: "copytrapfp 0xDFD0 (cpu one_task) (one_task\<lparr>ipl := 7\<rparr>) = Ret () ?s"
    unfolding ipl by (simp add: copytrapfp_def one_task_def upd_tcb_def boot_kstate_def)
  have tct: "tct ?s = (replicate 16 zero_tcb)[0 := tct ?s ! 0]" "curtcb ?s = Some 0"
    "taskname (tct ?s ! 0) = ''INIT    ''" "mmu ?s = mmu one_task"
    and sp: "cs_ksp (cpuState (tct ?s ! 0)) = 0xDFDE" "cs_usp (cpuState (tct ?s ! 0)) = 0xD0F0"
    by (simp_all add: copytrapfp_def one_task_def upd_tcb_def boot_kstate_def saved_context_def
        zero_cpustate_def)
  have readable: "stacks_readable ?s (cpuState (tct ?s ! 0))"
    using sp tct(4) by (simp add: stacks_readable_def one_task_readable)
  have "pid (tct ?s ! i) = 0" if "i < 16" "i \<noteq> 0" for i
    using that by (subst tct(1)) (simp add: zero_tcb_def)
  then have "length (taskname (tct ?s ! i)) = 8 \<and> stacks_readable ?s (cpuState (tct ?s ! i))"
    if "i < 16" "curtcb ?s = Some i \<or> pid (tct ?s ! i) \<noteq> 0" for i
    using that tct(2,3) readable by (cases "i = 0") (auto simp del: neq0_conv)
  moreover have "length (tct ?s) = 16" by (subst tct(1)) simp
  ultimately have dump: "dumpable ?s"
    using tct(2) by (auto simp: dumpable_def)
  have mem: "(muxx_handle_iot \<lparr>sym_tcb = \<lambda>_. 0, sym_mcb = \<lambda>_. 0\<rparr>, ''IOT    exception'', ''IOT'') \<in>
      set (plain_handlers \<lparr>sym_tcb = \<lambda>_. 0, sym_mcb = \<lambda>_. 0\<rparr>)"
    by (simp add: plain_handlers_def)
  have con: "txline \<lparr>con_text = [], txline = []\<rparr> = []" by simp
  note halts = exceptions_panic [OF mem save dump con]
  show ?thesis
    using conjunct1 [OF halts, THEN spec] conjunct2 [OF halts] by (simp add: ipl)
qed

section \<open>The user library\<close>

text \<open>C33: Loading a program from paper tape: when the tape holds an executable that fits the task,
  \<open>load\<close> returns the size of its image and its entry point; the text and the data are in memory from
  \<open>TASK_BASE\<close> on, the area behind them is cleared and the rest of the memory has not changed; the
  tape stands behind the image; the channel, the device and the channel number are free again. To
  fit, the image must also end before the TUCB, in the last 64 bytes of the task's space, or lie
  behind it, which \<open>load\<close> does not check (the TUCB itself, which opening and closing write, is kept
  apart from the memory).\<close>

theorem load_brings_image:
  assumes "curtcb s = Some c" and "c < length (tucbs s)" and "length (tu_iote (tucbs s ! c)) = IOT_TENTRIES"
    and "find_fd (tu_iote (tucbs s ! c)) = Some fd"
    and "chan_ready s" and "find_iote_slot (iotes (chnt s)) = Some i"
    and "find_device device s = Some k" and "drvcbs (drvt s) ! k = d"
    and "df_active d" and "desc d = Some ptpdesct" and "\<not> df_alloc d"
    and "muxx_find_driver (drvname d) s = Some k" and "io_buffaddr (iotes (chnt s) ! i) = 0"
    and "tape_in (dev s) = header_bytes ex @ txt @ dat @ rest" and "\<not> reader_error (dev s)"
    and "a_magic ex = A_MAGIC1 \<or> a_magic ex = A_MAGIC2"
    and "a_text ex = of_nat (length txt)" and "a_data ex = of_nat (length dat)"
    and "length txt + length dat + unat (a_bss ex) \<le> unat (task_space (taskType (tct s ! c)))"
    and "unat (TASK_BASE :: u16) + (length txt + length dat + unat (a_bss ex)) \<le> unat (taskTUCB (tct s ! c)) \<or>
      unat (taskTUCB (tct s ! c)) + 20 \<le> unat (TASK_BASE :: u16)"
  shows "\<exists>s'. load muxx_devices device entry m s =
      Ret (int (length txt + length dat + unat (a_bss ex)), a_entry ex,
        image_memory m txt dat (unat (a_bss ex))) s' \<and>
    tape_in (dev s') = rest \<and> \<not> df_alloc (drvcbs (drvt s') ! k) \<and>
    io_driver (iotes (chnt s') ! i) = None \<and> tu_iote (tucbs s' ! c) ! fd = None \<and> chan_ready s'"
  using assms unfolding tucb_spared_def [symmetric] by (rule load_tape)

definition small_program :: exec where
  "small_program = \<lparr>a_magic = A_MAGIC1, a_text = 3, a_data = 2, a_bss = 4, a_syms = 0,
     a_entry = TASK_BASE, a_unused = 0, a_flag = 0\<rparr>"

lemma startup_reader:
  "curtcb (startup_from d M) = Some 0" "0 < length (tucbs (startup_from d M))"
  "length (tu_iote (tucbs (startup_from d M) ! 0)) = IOT_TENTRIES"
  "find_fd (tu_iote (tucbs (startup_from d M) ! 0)) = Some 0"
  "io_buffaddr (iotes (chnt (startup_from d M)) ! 0) = 0"
  "df_active (drvcbs (drvt (startup_from d M)) ! 0)"
  "desc (drvcbs (drvt (startup_from d M)) ! 0) = Some ptpdesct"
  "\<not> df_alloc (drvcbs (drvt (startup_from d M)) ! 0)"
  "muxx_find_driver (drvname (drvcbs (drvt (startup_from d M)) ! 0)) (startup_from d M) = Some 0"
  using startup_task(1) [of d M] startup_fields [of d M] startup_driver_fields [of 0 d M] startup_devices [of d M]
    fds.finds_first [of 0 "replicate IOT_TENTRIES None"]
  by (simp_all add: zero_iote_def)

theorem load_brings_image_witness:
  "\<exists>m' s'. load muxx_devices ''PT      '' 0 (\<lambda>_. 0xFF)
      (startup_state (quiet_devices (header_bytes small_program @ [1, 2, 3] @ [4, 5] @ [9]))) =
      Ret (9, 0x6000, m') s' \<and>
    map m' [0x6000, 0x6002, 0x6004, 0x6005, 0x6008, 0x6009] = [1, 3, 5, 0, 0, 0xFF] \<and> tape_in (dev s') = [9]"
proof -
  let ?d = "quiet_devices (header_bytes small_program @ [1, 2, 3] @ [4, 5] @ [9])"
  have fits: "length [1 :: u8, 2, 3] + length [4 :: u8, 5] + unat (a_bss small_program) \<le>
      unat (task_space (taskType (tct (startup_state ?d) ! 0)))"
    by (simp add: small_program_def task_space_def)
  have spared: "unat (TASK_BASE :: u16) + (length [1 :: u8, 2, 3] + length [4 :: u8, 5] + unat (a_bss small_program)) \<le>
      unat (taskTUCB (tct (startup_state ?d) ! 0)) \<or>
      unat (taskTUCB (tct (startup_state ?d) ! 0)) + 20 \<le> unat (TASK_BASE :: u16)"
    by (simp add: startup_fields)
  have "tape_in (dev (startup_state ?d)) = header_bytes small_program @ [1, 2, 3] @ [4, 5] @ [9]"
    "\<not> reader_error (dev (startup_state ?d))"
    by (simp_all add: startup_dev quiet_devices_def)
  moreover have "a_magic small_program = A_MAGIC1 \<or> a_magic small_program = A_MAGIC2"
    "a_text small_program = of_nat (length [1 :: u8, 2, 3])" "a_data small_program = of_nat (length [4 :: u8, 5])"
    by (simp_all add: small_program_def)
  ultimately obtain s' where "load muxx_devices ''PT      '' 0 (\<lambda>_. 0xFF) (startup_state ?d) =
      Ret (int (length [1 :: u8, 2, 3] + length [4 :: u8, 5] + unat (a_bss small_program)),
        a_entry small_program, image_memory (\<lambda>_. 0xFF) [1, 2, 3] [4, 5] (unat (a_bss small_program))) s'"
    "tape_in (dev s') = [9]"
    using load_brings_image [OF startup_reader(1-4) startup_chan_ready startup_chan startup_devices(1) refl
        startup_reader(6-9,5) _ _ _ _ _ fits spared] by blast
  then show ?thesis by (auto simp: small_program_def image_memory_def Let_def)
qed

text \<open>C34: When the tape does not start with an executable, \<open>load\<close> returns 0 and leaves the entry
  point alone. The shell takes a result that is not negative for success, so it jumps to address 0.\<close>

theorem failed_load_is_entered:
  assumes "curtcb s = Some c" and "c < length (tucbs s)" and "length (tu_iote (tucbs s ! c)) = IOT_TENTRIES"
    and "find_fd (tu_iote (tucbs s ! c)) = Some fd"
    and "chan_ready s" and "find_iote_slot (iotes (chnt s)) = Some i"
    and "find_device device s = Some k" and "drvcbs (drvt s) ! k = d"
    and "df_active d" and "desc d = Some ptpdesct" and "\<not> df_alloc d"
    and "muxx_find_driver (drvname d) s = Some k" and "io_buffaddr (iotes (chnt s) ! i) = 0"
    and "tape_in (dev s) = header_bytes ex @ rest" and "\<not> reader_error (dev s)"
    and "a_magic ex \<noteq> A_MAGIC1" and "a_magic ex \<noteq> A_MAGIC2"
  shows "\<exists>s'. rshell (Suc fuel) muxx_devices pause device m s = Ret (Jump 0, m) s'"
  using load_bad_magic [OF assms, of 0 m] by (auto simp: rshell_def)

theorem failed_load_is_entered_witness:
  "\<exists>s'. rshell (Suc 0) muxx_devices id ''PT      '' (\<lambda>_. 0)
      (startup_state (quiet_devices (header_bytes (small_program\<lparr>a_magic := 0\<rparr>) @ []))) = Ret (Jump 0, \<lambda>_. 0) s'"
  by (rule failed_load_is_entered [where ex = "small_program\<lparr>a_magic := 0\<rparr>" and rest = "[]", OF startup_reader(1-4) startup_chan_ready startup_chan startup_devices(1) refl
        startup_reader(6-9,5)])
    (simp_all add: startup_dev quiet_devices_def small_program_def)

text \<open>\<open>sleep\<close> returns, and not before the seconds have passed, as long as every turn the other
  tasks get takes at least one clock tick and at most 2^31: the tick counter may wrap around.\<close>

theorem sleep_waits:
  assumes "\<And>s. ok s \<Longrightarrow> ok (yield s) \<and> 0 < now (yield s) - now s \<and> now (yield s) - now s \<le> 2 ^ 31"
    and "ok s" and "unat seconds * 60 < 2 ^ 15"
  shows "\<exists>s'. sleep now yield seconds s = Some s' \<and> ok s' \<and> unat seconds * 60 \<le> unat (now s' - now s)"
proof (cases "seconds = 0")
  case True
  then show ?thesis using assms(2) by (simp add: sleep_def)
next
  case False
  have "seconds * CLK_FREQ = of_nat (unat seconds * 60)" by simp
  then have "sint (seconds * CLK_FREQ) = int (unat seconds * 60)"
    using sint_small [OF assms(3)] by metis
  then have "(scast (seconds * CLK_FREQ) :: u32) = of_nat (unat seconds * 60)"
    by (simp only: scast_eq) simp
  then have u: "unat (scast (seconds * CLK_FREQ) :: u32) = unat seconds * 60"
    using assms(3) by (simp only: unat_of_nat) simp
  then have "(scast (seconds * CLK_FREQ) :: u32) \<le> 2 ^ 31"
    using assms(3) by (simp add: word_le_nat_alt)
  from sleep_loop_returns [OF assms(1,2) this, of "now s"] False u show ?thesis
    by (auto simp: sleep_def word_le_nat_alt)
qed

theorem sleep_waits_witness:
  "\<exists>s'. sleep (\<lambda>s. s) (\<lambda>s. s + 7) 2 (0xFFFFFFF0 :: u32) = Some s' \<and> 120 \<le> unat (s' - 0xFFFFFFF0)"
  using sleep_waits [of "\<lambda>_. True" "\<lambda>s. s + 7" "\<lambda>s. s" "0xFFFFFFF0 :: u32" 2] by simp


text \<open>C35: The user library's \<open>malloc\<close> never hands out memory: the arena starts with two busy
  cells and no block between them, \<open>sbrk\<close> refuses every growth, so every request (up to 64000 bytes)
  returns the null pointer, and the arena is as bare as before. The search always stops.\<close>

theorem malloc_never_succeeds:
  assumes "arena_exhausted a" and "\<forall>n \<in> set sizes. n \<le> 64000"
  shows "\<exists>a'. foldl (\<lambda>r n. andthen r (\<lambda>p. malloc (fuel + 5) (sbrk limit) n)) (Ret 0 a) sizes = Ret 0 a' \<and>
    arena_exhausted a'"
  using assms
proof (induction sizes arbitrary: a)
  case (Cons n sizes)
  then obtain a' where "malloc (fuel + 5) (sbrk limit) n a = Ret 0 a'" "arena_exhausted a'"
    using malloc_exhausted [of a n fuel limit] by auto
  with Cons show ?case by simp
qed simp

theorem malloc_never_succeeds_witness:
  "\<exists>a'. malloc 5 (sbrk 0x7000) 10 (fresh_arena 0x6400) = Ret 0 a'"
  using malloc_never_succeeds [of "fresh_arena 0x6400" "[10]" 0 "0x7000"]
    fresh_arena_exhausted [of "0x6400"] by auto

text \<open>C36: The \<open>qsort\<close> of the C library sorts: with a comparison that is antisymmetric in its sign and
  transitive, it stops, the unguarded loop of its insertion sort does not leave the array, and the
  result is a permutation of the array in ascending order. The median of three, the partition loop, the insertion sort below the threshold and
  its sentinel are the code's.\<close>

theorem qsort_sorts:
  assumes "\<And>x y. qcmp x y > 0 \<longleftrightarrow> qcmp y x < 0"
    and "\<And>x y z. qcmp x y \<le> 0 \<Longrightarrow> qcmp y z \<le> 0 \<Longrightarrow> qcmp x z \<le> 0"
  shows "\<exists>b. qsort qcmp a = Some b \<and> mset b = mset a \<and> sorted_wrt (\<lambda>x y. qcmp x y \<le> 0) b"
proof -
  have cmp: "comparison qcmp"
    using assms by (rule comparison.intro)
  have "comparison.leq qcmp = (\<lambda>x y. qcmp x y \<le> 0)"
    by (intro ext) (simp add: comparison.leq_def [OF cmp])
  then show ?thesis
    using comparison.qsort_spec [OF cmp, of a] by simp
qed

theorem qsort_sorts_witness:
  "\<exists>b. qsort string_cmp [[0x62, 0x61], [0x61], [0x62], [0x61, 0x7A]] = Some b \<and> length b = 4 \<and>
    sorted_wrt (\<lambda>s t. string_cmp s t \<le> 0) b"
proof -
  have "\<exists>b. qsort string_cmp [[0x62, 0x61], [0x61], [0x62], [0x61, 0x7A]] = Some b \<and>
      mset b = mset [[0x62, 0x61], [0x61], [0x62], [0x61, 0x7A]] \<and>
      sorted_wrt (\<lambda>s t. string_cmp s t \<le> 0) b"
    by (rule qsort_sorts) (rule string_cmp_sign, erule (1) string_cmp_trans)
  then show ?thesis
    by (elim exE conjE) (drule mset_eq_length, auto)
qed

text \<open>C40: The user library's \<open>printf\<close> shows what its format says: for a format of plain text, in pieces of
  up to 300 bytes, and of directives, with any flags, a width below 32768 and a precision below 65536, on a console
  that takes every character, \<open>doprnt\<close> takes the arguments in order and shows the text with every field
  replaced by its value: numbers in their base, a sign in front, two words for a long; strings up to
  their NUL or their precision; padded to the width on the asked side, zeros behind the sign; and each
  line feed as carriage return and line feed. Numbers have no superfluous digits without a precision;
  with one, of whatever size, every number but zero gets a single leading zero and the precision has no
  other effect on it. Strings and numbers of 32768 characters and more are left out.\<close>

theorem printf_shows:
  assumes "txline c = []" and "\<And>s d. (s, d) \<in> set parts \<Longrightarrow> plain s \<and> fits mem d" and "plain end_text"
  shows "printf mem (format_text parts end_text @ CHR 0x00 # beyond) (format_args parts @ others) c =
    Ret 0 (shows_text c (crlf (shown_text mem parts end_text)))"
  by (simp add: printf_def doprnt_shows [OF assms])

theorem printf_shows_witness:
  "printf (\<lambda>_. CHR 0x00) (''n=%06d|%4.1x!'' @ [CHR 0x00]) [- 12, 0xA] \<lparr>con_text = [], txline = []\<rparr> =
    Ret 0 \<lparr>con_text = ''n=-00012|  0a!'', txline = []\<rparr>"
proof -
  let ?d = "\<lparr>left_adjusted = False, zero_filled = True, field_width = 6, precision = 0, item = Dec (- 12)\<rparr>"
  let ?x = "\<lparr>left_adjusted = False, zero_filled = False, field_width = 4, precision = 1, item = Hex 0xA\<rparr>"
  have "printf (\<lambda>_. CHR 0x00) (format_text [(''n='', ?d), (''|'', ?x)] ''!'' @ CHR 0x00 # [])
      (format_args [(''n='', ?d), (''|'', ?x)] @ []) \<lparr>con_text = [], txline = []\<rparr> =
    Ret 0 (shows_text \<lparr>con_text = [], txline = []\<rparr>
      (crlf (shown_text (\<lambda>_. CHR 0x00) [(''n='', ?d), (''|'', ?x)] ''!'')))"
    by (rule printf_shows)
      (auto simp: plain_def fits_def signed_text_def unsigned_text_def numeral_text.simps)
  moreover have replicate: "replicate 3 CHR ''0'' = ''000''" "replicate 2 CHR '' '' = ''  ''"
    by (simp_all add: numeral_eq_Suc)
  ultimately show ?thesis
    by (simp add: format_text_def format_args_def directive_text_def shown_text_def field_text_def
        fill_of_def adjusted_def signed_text_def unsigned_text_def numeral_text.simps crlf_def
        shows_text_def replicate)
qed

text \<open>C15: Start-up works: from the zero-filled tables and any memory in which the image of INIT has the
  string \<open>PT\<close> and six blanks at \<open>FSTART\<close>, the initialisation sequence and then the whole of INIT run to the
  point where INIT has suspended itself: both drivers are up and their devices can be located, the
  paper tape handler runs, the printer handler and STARTUP are ready in that order, and STARTUP will
  enter the loading shell and find \<open>PT\<close> and the blanks where its memory begins, at \<open>TASK_BASE\<close>.\<close>

theorem init_brings_up_system:
  assumes "page_of FSTART \<le> 2" and "unat (FSTART AND 0x1FFF) + 8 \<le> 8192"
    and "\<And>j. j < 8 \<Longrightarrow> M (unat (upar init_mmu ! page_of FSTART) * 64 + unat (FSTART AND 0x1FFF) + j) =
      of_char (''PT      '' ! j)"
  shows "\<exists>s. init_task (Suc n) shellproc 0x6000 0x6000 FSTART fp (muxx_boot 0 d M) = Stop Switched s \<and>
    sched_rep s 1 [2, 3] [0] \<and> loaded s 1 \<and>
    taskname (tct s ! 3) = ''STARTUP '' \<and> cs_pc (cpuState (tct s ! 3)) = shellproc \<and>
    (\<forall>j < 8. phys s (unat (upar (mmuState (tct s ! 3)) ! page_of TASK_BASE) * 64 + j) = of_char (''PT      '' ! j)) \<and>
    find_device ''PT      '' s = Some 0 \<and> find_device ''LP      '' s = Some 1 \<and>
    (\<forall>i \<in> {0, 1}. df_active (drvcbs (drvt s) ! i)) \<and> dev s = d"
proof -
  let ?a = "unat (upar init_mmu ! page_of FSTART) * 64 + unat (FSTART AND 0x1FFF)"
  obtain s where s: "init_task (Suc n) shellproc 0x6000 0x6000 FSTART fp (muxx_boot 0 d M) = Stop Switched s"
    "sched_rep s 1 [2, 3] [0]" "loaded s 1" "taskname (tct s ! 3) = ''STARTUP ''"
    "cs_pc (cpuState (tct s ! 3)) = shellproc" "upar (mmuState (tct s ! 3)) ! 3 = 896"
    "phys s = phys_copied 8 57344 ?a M" "drvt s = drvt (startup_from d M)" "dev s = d"
    using init_task_runs [OF assms(2,1), of n shellproc fp d M] by blast
  have "find_device name s = find_device name (startup_from d M)" for name
    using s(8) by (simp add: find_device_def)
  moreover have "phys s (unat (upar (mmuState (tct s ! 3)) ! page_of TASK_BASE) * 64 + j) = of_char (''PT      '' ! j)"
    if "j < 8" for j
    using assms(3) [OF that] that by (simp add: s(6,7) task_base_page phys_copied_def)
  ultimately show ?thesis
    using s startup_devices(1,2) [of d M] startup_driver_fields(1) [of _ d M] by auto
qed

theorem init_brings_up_system_witness:
  "\<exists>s. init_task 1 0x4000 0x6000 0x6000 0x1000 0x0200 (muxx_boot 0 (quiet_devices [])
      ((\<lambda>_. 0x20)(0x1000 := 0x50, 0x1001 := 0x54))) = Stop Switched s \<and>
    sched_rep s 1 [2, 3] [0] \<and> taskname (tct s ! 3) = ''STARTUP '' \<and>
    phys s (unat (upar (mmuState (tct s ! 3)) ! page_of TASK_BASE) * 64 + 0) = 0x50"
proof -
  let ?M = "(\<lambda>_. 0x20)(0x1000 := 0x50, 0x1001 := 0x54) :: nat \<Rightarrow> u8"
  have p: "page_of 0x1000 \<le> 2" "unat (0x1000 AND 0x1FFF :: u16) + 8 \<le> 8192" by (simp_all add: page_of_def)
  have image: "?M (unat (upar init_mmu ! page_of 0x1000) * 64 + unat (0x1000 AND 0x1FFF :: u16) + j) =
      of_char (''PT      '' ! j)" if "j < 8" for j
  proof -
    from that have "j \<in> {0, 1, 2, 3, 4, 5, 6, 7}" by auto
    then show ?thesis by (auto simp: page_of_def init_mmu_def)
  qed
  obtain s where "init_task (Suc 0) 0x4000 0x6000 0x6000 0x1000 0x0200 (muxx_boot 0 (quiet_devices []) ?M) = Stop Switched s"
    "sched_rep s 1 [2, 3] [0]" "taskname (tct s ! 3) = ''STARTUP ''"
    "\<forall>j < 8. phys s (unat (upar (mmuState (tct s ! 3)) ! page_of TASK_BASE) * 64 + j) = of_char (''PT      '' ! j)"
    using init_brings_up_system [OF p image, of 0 "0x4000" "0x0200" "quiet_devices []"] by blast
  moreover from this(4) have "phys s (unat (upar (mmuState (tct s ! 3)) ! page_of TASK_BASE) * 64 + 0) = 0x50"
    by (rule allE [of _ 0]) simp
  ultimately show ?thesis unfolding One_nat_def by blast
qed

text \<open>C16: STARTUP does what it is for: while there is room, it creates the four tasks from the paper tape
  reader, behind the tasks that were ready, shows for each its name, the address of the shell and the process
  identifier the kernel gave it, and suspends itself; the next ready task runs.\<close>

theorem startup_loads_tasks:
  assumes "txline con = []" and "can_load k c (r # rs) ss PT a s" and "k + 4 \<le> MAX_TASKS"
    and "1024 \<le> free_room (mcbt s)" and "10 \<le> free_mcbs (mcbt s)" and "free_base (mcbt s) + 1024 \<le> 3968"
  shows "\<exists>pids s'. startup_main shellproc PT fp (s, con) =
      Stop Switched (s', shows_text con
        (concat (map2 (startup_line shellproc) startup_tasks pids) @ ''Suspending STARTUP task...'')) \<and>
    length pids = 4 \<and> sched_rep s' r (rs @ [k, k + 1, k + 2, k + 3]) (ss @ [c]) \<and> loaded s' r \<and>
    (\<forall>j < 4. pid (tct s' ! (k + j)) = pids ! j \<and> taskname (tct s' ! (k + j)) = fst (startup_tasks ! j))"
  using assms by (rule startup_main_spec)

theorem startup_loads_tasks_witness:
  "\<exists>pids s'. startup_main 0x4000 0x1000 0x0200 (startup_state (quiet_devices []), \<lparr>con_text = [], txline = []\<rparr>) =
      Stop Switched (s', \<lparr>con_text = concat (map2 (startup_line 0x4000) startup_tasks pids) @
        ''Suspending STARTUP task...'', txline = []\<rparr>) \<and>
    sched_rep s' 1 [2, 3, 4, 5, 6] [0] \<and> (\<forall>j < 4. taskname (tct s' ! (3 + j)) = fst (startup_tasks ! j))"
proof -
  let ?s = "startup_state (quiet_devices [])" and ?con = "\<lparr>con_text = [], txline = []\<rparr>"
  have "can_load 3 0 (1 # [2]) [] 0x1000
      (unat (upar init_mmu ! page_of 0x1000) * 64 + unat (0x1000 AND 0x1FFF :: u16)) ?s"
    by (rule startup_can_load) (simp_all add: page_of_def)
  from startup_loads_tasks [OF _ this, of ?con "0x4000" "0x0200"] show ?thesis
    by (auto simp: startup_fields startup_room shows_text_def)
qed

text \<open>C17: The printing task prints, round after round: with the printer idle and in order, every round opens
  the printer, puts the line on paper, closes it and reports each step on the console; after any number of rounds
  the printer is idle again and the paper shows that many lines (of twelve bytes: the terminating NUL is printed
  too).\<close>

theorem procd_prints:
  assumes "dev_idle ''LP      '' lptdesct c fd i k s" and "\<not> printer_error (dev s)" and "txline con = []"
  shows "\<exists>s'. procd n muxx_devices g (s, con) =
      Ret (replicate n 0) (s', shows_text con (crlf (''Starting task B, PID='' @ oct_text (pid (tct s ! c)) @ [NL]) @
        concat (replicate n (procd_text fd)))) \<and>
    dev_idle ''LP      '' lptdesct c fd i k s' \<and>
    printed (dev s') = printed (dev s) @ concat (replicate n test_line)"
  using assms by (rule procd_prints_lines)

theorem procd_prints_witness:
  "\<exists>s' con'. procd 2 muxx_devices (0, 0) (startup_state (quiet_devices []), \<lparr>con_text = [], txline = []\<rparr>) =
      Ret [0, 0] (s', con') \<and> printed (dev s') = test_line @ test_line"
proof -
  have "\<not> printer_error (dev (startup_state (quiet_devices [])))" "printed (dev (startup_state (quiet_devices []))) = []"
    by (simp_all add: startup_dev quiet_devices_def)
  with procd_prints [OF startup_lp_idle this(1), of "\<lparr>con_text = [], txline = []\<rparr>" 2 "(0, 0)"]
  show ?thesis by (auto simp: numeral_2_eq_2)
qed

section \<open>The C library: patterns, local time, encryption\<close>

text \<open>C37: Regular expressions: take a pattern of characters, dots and classes, each with or without a star,
  and with or without an anchor at either end, in which the characters with a meaning of their own are
  written with a backslash. Its classes are not empty, their members are 7-bit characters other than
  \<open>-\<close> and \<open>]\<close>, alone or as ascending ranges, they do not begin with a circumflex unless they are
  negated, and the code of each has fewer than 127 bytes; characters outside classes may be any but NUL. Such a
  pattern, unless it is empty, compiles whenever its code fits the buffer; running it on a string answers 1 exactly if the
  string contains a word of the pattern's language, at the ends the anchors ask for, and 0 otherwise.
  (A class with more code than that goes wrong: the number of its members is a signed byte.)\<close>

theorem patterns_match_their_language:
  assumes "items_ok its" and "length (pattern_code its dollar) < ESIZE" and "circ \<or> its \<noteq> [] \<or> dollar"
    and "0 \<notin> set str"
  shows "\<exists>st1 st2. re_comp (Some (pattern_text circ its dollar)) st = Some (None, st1) \<and>
    re_exec (str @ [0]) st1 =
      Some (of_bool (\<exists>a b c. str = a @ b @ c \<and> b \<in> lang its \<and> (circ \<longrightarrow> a = []) \<and> (dollar \<longrightarrow> c = [])), st2)"
  using assms by (rule regex_correct)

theorem patterns_match_their_language_witness:
  "\<exists>st1 st2. re_comp (Some [0x5E, 0x5B, 0x61, 0x2D, 0x63, 0x5D, 0x2A, 0x5C, 0x2E, 0x24, 0])
      \<lparr>expbuf = [0], circf = False, braslist = \<lambda>_. None, braelist = \<lambda>_. None\<rparr> = Some (None, st1) \<and>
    re_exec [0x62, 0x61, 0x2E, 0] st1 = Some (1, st2)"
proof -
  let ?its = "[(AClass False [Range 0x61 0x63], True), (AChar 0x2E, False)]"
  have ok: "items_ok ?its" by (simp add: items_ok_def plain_char_def)
  have len: "length (pattern_code ?its True) < ESIZE"
    by (simp add: pattern_code_def item_code_def)
  have t: "pattern_text True ?its True = [0x5E, 0x5B, 0x61, 0x2D, 0x63, 0x5D, 0x2A, 0x5C, 0x2E, 0x24, 0]"
    by (simp add: pattern_text_def re_item_text_def special_def)
  have dot: "[0x2E] \<in> lang [(AChar 0x2E, False)]" by simp
  have ab: "set [0x62, 0x61] \<subseteq> atom_set (AClass False [Range 0x61 0x63])"
    by (simp add: word_le_nat_alt)
  have "[0x62, 0x61] @ [0x2E] \<in> lang ?its"
    unfolding lang.simps(2) [of "AClass False [Range 0x61 0x63]"] if_True using dot ab by blast
  then have "\<exists>a b c. [0x62, 0x61, 0x2E] = a @ b @ c \<and> b \<in> lang ?its \<and> (True \<longrightarrow> a = []) \<and> (True \<longrightarrow> c = [])"
    by (intro exI [of _ "[]"] exI [of _ "[0x62, 0x61, 0x2E]"]) simp
  then show ?thesis
    using patterns_match_their_language [OF ok len, of True "[0x62, 0x61, 0x2E]"] unfolding t
    by (simp del: lang.simps)
qed

text \<open>C38: Local time: with the time zone file that \<open>tzset\<close> finds, \<open>localtime\<close> gives a valid date of the
  Gregorian calendar, which is the moment shifted by the offset of the last transition that is not
  after it, and marked with that transition's daylight saving flag. (The file is read into a buffer of
  1988 bytes, \<open>sizeof_state\<close>; that \<open>read\<close> delivers at most as many is for its caller to assume.)\<close>

theorem local_time_follows_zone_file:
  assumes "zone_ok as tys tts cs" and "length reserved = 32"
    and "ze_TZ env \<noteq> Some []"
    and "tz_path env (case ze_TZ env of None \<Rightarrow> TZDEFAULT | Some n \<Rightarrow> n) = Some (path, check)"
    and "check \<longrightarrow> ze_access env path"
    and "ze_read env path sizeof_state = Some (int (length (tz_image reserved as tys tts cs)), buf)"
    and "\<And>i. i < length (tz_image reserved as tys tts cs) \<Longrightarrow> buf i = tz_image reserved as tys tts cs ! i"
    and "\<not> tz_is_set s"
    and "is_long t" and "as \<noteq> []" and "as ! 0 \<le> t" and "sorted as"
    and "\<forall>tt \<in> set tts. \<bar>tt_gmtoff tt\<bar> \<le> 86400"
  shows "\<exists>r s' i. localtime env t s = Some (r, s') \<and> valid_tm r \<and> i < length as \<and> as ! i \<le> t \<and>
    (\<forall>j. i < j \<and> j < length as \<longrightarrow> t < as ! j) \<and> tm_gmtoff r = tt_gmtoff (tts ! unat (tys ! i)) \<and>
    tm_isdst r = tt_isdst (tts ! unat (tys ! i)) \<and> tm_seconds r = t + tm_gmtoff r"
  using assms by (rule localtime_zone_file)

definition sample_types :: "ttinfo list" where
  "sample_types = [\<lparr>tt_gmtoff = 3600, tt_isdst = 0, tt_abbrind = 0\<rparr>, \<lparr>tt_gmtoff = 7200, tt_isdst = 1, tt_abbrind = 4\<rparr>]"

definition sample_image :: "u8 list" where
  "sample_image = tz_image (replicate 32 0) [0, 1000000] [0, 1] sample_types [77, 69, 90, 0, 77, 69, 83, 0]"

definition sample_env :: zone_env where
  "sample_env = \<lparr>ze_TZ = None, ze_MAXPATHLEN = 256, ze_access = \<lambda>_. True,
     ze_read = \<lambda>_ _. Some (int (length sample_image), \<lambda>i. sample_image ! i), ze_minuteswest = None\<rparr>"

theorem local_time_follows_zone_file_witness:
  "\<exists>r s'. localtime sample_env 500000 zstate_init = Some (r, s') \<and> valid_tm r \<and> tm_seconds r = 503600 \<and>
    tm_isdst r = 0"
proof -
  have ok: "zone_ok [0, 1000000] [0, 1] sample_types [77, 69, 90, 0, 77, 69, 83, 0]"
    by (simp add: zone_ok_def sample_types_def is_long_def)
  have path: "tz_path sample_env (case ze_TZ sample_env of None \<Rightarrow> TZDEFAULT | Some n \<Rightarrow> n) = Some (TZDEFAULT, True)"
    by (simp add: sample_env_def tz_path_def TZDEFAULT_def)
  have env: "ze_TZ sample_env \<noteq> Some []" "True \<longrightarrow> ze_access sample_env TZDEFAULT"
    "ze_read sample_env TZDEFAULT sizeof_state = Some (int (length (tz_image (replicate 32 0) [0, 1000000] [0, 1] sample_types
        [77, 69, 90, 0, 77, 69, 83, 0])), \<lambda>i. sample_image ! i)"
    by (simp_all add: sample_env_def sample_image_def)
  have times: "\<not> tz_is_set zstate_init" "is_long 500000" "[0, 1000000 :: int] \<noteq> []" "[0, 1000000 :: int] ! 0 \<le> 500000"
    "sorted [0, 1000000 :: int]" "\<forall>tt \<in> set sample_types. \<bar>tt_gmtoff tt\<bar> \<le> 86400"
    by (simp_all add: zstate_init_def is_long_def sample_types_def)
  obtain r s' i where r: "localtime sample_env 500000 zstate_init = Some (r, s')" "valid_tm r"
      "i < length [0, 1000000 :: int]" "[0, 1000000 :: int] ! i \<le> 500000"
      "tm_gmtoff r = tt_gmtoff (sample_types ! unat ([0, 1] ! i :: u8))"
      "tm_isdst r = tt_isdst (sample_types ! unat ([0, 1] ! i :: u8))" "tm_seconds r = 500000 + tm_gmtoff r"
    using local_time_follows_zone_file [OF ok length_replicate env(1) path env(2,3) _ times]
    by (auto simp: sample_image_def)
  from r(3,4) have "i = 0" by (cases i) (auto simp: less_Suc_eq)
  with r show ?thesis by (simp add: sample_types_def)
qed

text \<open>C39: Encryption: under the schedule that \<open>setkey\<close> makes of any key, \<open>encrypt\<close> turns a block of 64 bits
  into a block of 64 bits, leaves what lies behind it alone, and with the schedule reversed it turns
  the result back into the block. The flag that should choose the direction has no effect.\<close>

theorem encryption_round_trip:
  assumes "bits n key" and "64 \<le> n" and "bits 64 block"
  shows "\<exists>s c. setkey key st = Some s \<and> encrypt flag s (block @ behind) = Some (c @ behind) \<and> bits 64 c \<and>
    encrypt flag' (s\<lparr>des_KS := rev (des_KS s)\<rparr>) (c @ behind) = Some (block @ behind)"
proof -
  obtain rows where k: "setkey key st = Some (st\<lparr>des_C := pick PC1_C key, des_D := pick PC1_D key,
      des_KS := rows, des_E := e_table\<rparr>)" and rows: "\<forall>k \<in> set rows. bits 48 k"
    using setkey_spec [OF assms(1,2)] by blast
  let ?s = "st\<lparr>des_C := pick PC1_C key, des_D := pick PC1_D key, des_KS := rows, des_E := e_table\<rparr>"
  have "tables_ok ?s" using rows by (simp add: tables_ok_def within_def e_table_def)
  from encrypt_undone [OF this assms(3)] k show ?thesis by blast
qed

theorem encryption_round_trip_witness:
  "\<exists>s c. setkey (replicate 66 1) \<lparr>des_C = [], des_D = [], des_KS = [], des_E = []\<rparr> = Some s \<and>
    encrypt False s (replicate 64 0 @ [7]) = Some (c @ [7]) \<and>
    encrypt True (s\<lparr>des_KS := rev (des_KS s)\<rparr>) (c @ [7]) = Some (replicate 64 0 @ [7])"
  using encryption_round_trip [where n = 66 and key = "replicate 66 1" and block = "replicate 64 0" and behind = "[7]"
      and flag = False and flag' = True and st = "\<lparr>des_C = [], des_D = [], des_KS = [], des_E = []\<rparr>"]
  by (auto simp: bits_def)
end
